(* ===== verification/Nmfs_Prelude.thy ===== *)
theory Nmfs_Prelude
  imports Main "HOL-Library.Word" "HOL-Library.List_Lexorder" "HOL-Library.Char_ord"
begin

text \<open>
  Shared vocabulary of the development: the exceptions the C++ code throws as a datatype, the
  state-and-exception type its stateful functions are translated to, bytes and the little-endian
  object representation of machine integers, the decimal printing of \<open>std::to_string\<close>, and the
  laws of container iteration.  The generic lemmas are declared \<open>[simp]\<close> or collected in the
  named theorem lists \<open>monad_simps\<close>, \<open>codec_simps\<close> and \<open>list_slices\<close>.
\<close>

named_theorems monad_simps "unfolding of the state-and-exception combinators"
named_theorems codec_simps "lengths and round trips of byte encodings"
named_theorems list_slices "take, drop and append arithmetic for byte ranges"

section \<open>Exceptions and stateful computations\<close>

text \<open>
  \<open>No_such_object\<close> is \<^verbatim>\<open>rados_io::no_such_object\<close>; it carries the bytes that the failing call had
  already copied into the caller's buffer, so \<^verbatim>\<open>num_bytes\<close> is the length of the list.
  \<open>Undefined_behaviour\<close> marks an execution the C++ standard gives no meaning to (an access outside
  a buffer, a null dereference), \<open>Diverges\<close> a loop that does not end.
\<close>

type_synonym byte = "8 word"

datatype exn =
    No_such_object "byte list"
  | Runtime_error string
  | Logic_error string
  | Out_of_range
  | No_entry
  | Permission_denied
  | Not_leader
  | Bad_alloc
  | Undefined_behaviour
  | Diverges

type_synonym 'a result = "exn + 'a"
type_synonym ('s, 'a) st = "'s \<Rightarrow> 'a result \<times> 's"

definition returnE :: "'a \<Rightarrow> ('s, 'a) st" where
  "returnE x s = (Inr x, s)"

definition throwE :: "exn \<Rightarrow> ('s, 'a) st" where
  "throwE e s = (Inl e, s)"

definition bindE :: "('s, 'a) st \<Rightarrow> ('a \<Rightarrow> ('s, 'b) st) \<Rightarrow> ('s, 'b) st" where
  "bindE m f s = (case m s of (Inl e, s') \<Rightarrow> (Inl e, s') | (Inr x, s') \<Rightarrow> f x s')"

definition liftE :: "('s \<Rightarrow> 'a result) \<Rightarrow> ('s, 'a) st" where
  "liftE r s = (r s, s)"

fun foldE :: "('x \<Rightarrow> ('s, unit) st) \<Rightarrow> 'x list \<Rightarrow> ('s, unit) st" where
  "foldE f [] = returnE ()"
| "foldE f (x # xs) = bindE (f x) (\<lambda>_. foldE f xs)"

text \<open>Results without a state: a loop that stops at the first exception.\<close>

fun mapR :: "('a \<Rightarrow> 'b result) \<Rightarrow> 'a list \<Rightarrow> 'b list result" where
  "mapR f [] = Inr []"
| "mapR f (x # xs) =
     (case f x of Inl e \<Rightarrow> Inl e
      | Inr y \<Rightarrow> (case mapR f xs of Inl e \<Rightarrow> Inl e | Inr ys \<Rightarrow> Inr (y # ys)))"

lemma mapR_map: "(\<And>x. x \<in> set xs \<Longrightarrow> f x = Inr (g x)) \<Longrightarrow> mapR f xs = Inr (map g xs)"
  by (induction xs) auto

lemma bindE_Inr [simp]: "m s = (Inr x, s') \<Longrightarrow> bindE m f s = f x s'"
  by (simp add: bindE_def)

lemma bindE_Inl [simp]: "m s = (Inl e, s') \<Longrightarrow> bindE m f s = (Inl e, s')"
  by (simp add: bindE_def)

lemma returnE_simp [simp, monad_simps]: "returnE x s = (Inr x, s)"
  by (simp add: returnE_def)

lemma throwE_simp [simp, monad_simps]: "throwE e s = (Inl e, s)"
  by (simp add: throwE_def)

lemma liftE_simp [simp, monad_simps]: "liftE r s = (r s, s)"
  by (simp add: liftE_def)

lemma bindE_eq_Inr: "bindE m f s = (Inr y, s'') \<longleftrightarrow> (\<exists>x s'. m s = (Inr x, s') \<and> f x s' = (Inr y, s''))"
  by (auto simp: bindE_def split: prod.splits sum.splits)

lemma bindE_assoc: "bindE (bindE m f) g = bindE m (\<lambda>x. bindE (f x) g)"
  by (rule ext) (auto simp: bindE_def split: prod.splits sum.splits)

lemma foldE_append: "foldE f (xs @ ys) = bindE (foldE f xs) (\<lambda>_. foldE f ys)"
proof (induction xs)
  case Nil
  show ?case by (rule ext) (simp add: bindE_def returnE_def)
next
  case (Cons x xs)
  then show ?case by (simp add: bindE_assoc)
qed

text \<open>
  Total correctness of a stateful computation: from \<open>s\<close> it ends without an exception in a result and
  a state that satisfy \<open>Q\<close>.  The rules follow the program text.
\<close>

named_theorems yields_rules "introduction rules for the total correctness of computations"

definition yields :: "('s, 'a) st \<Rightarrow> 's \<Rightarrow> ('a \<Rightarrow> 's \<Rightarrow> bool) \<Rightarrow> bool" where
  "yields m s Q \<longleftrightarrow> (\<exists>x s'. m s = (Inr x, s') \<and> Q x s')"

lemma yieldsE: "yields m s Q \<Longrightarrow> (\<And>x s'. m s = (Inr x, s') \<Longrightarrow> Q x s' \<Longrightarrow> P) \<Longrightarrow> P"
  by (auto simp: yields_def)

lemma yieldsI: "m s = (Inr x, s') \<Longrightarrow> Q x s' \<Longrightarrow> yields m s Q"
  by (auto simp: yields_def)

lemma yields_weaken: "yields m s Q \<Longrightarrow> (\<And>x s'. Q x s' \<Longrightarrow> Q' x s') \<Longrightarrow> yields m s Q'"
  by (auto simp: yields_def)

lemma yields_bind [yields_rules]: "yields m s (\<lambda>x s'. yields (f x) s' Q) \<Longrightarrow> yields (bindE m f) s Q"
  by (auto simp: yields_def)

lemma yields_return [yields_rules]: "Q x s \<Longrightarrow> yields (returnE x) s Q"
  by (simp add: yields_def)

lemma yields_lift: "r s = Inr x \<Longrightarrow> Q x s \<Longrightarrow> yields (liftE r) s Q"
  by (simp add: yields_def)

section \<open>Slices of byte lists\<close>

lemma take_drop_chunk [list_slices]:
  "take (m + n) xs = take m xs @ take n (drop m xs)"
  by (simp add: take_add)

lemma drop_take_le [list_slices]: "m \<le> n \<Longrightarrow> drop m (take n xs) = take (n - m) (drop m xs)"
  by (simp add: drop_take)

section \<open>Little-endian object representation\<close>

text \<open>
  The x86-64 object representation of an \<open>n\<close>-byte integer, as \<^verbatim>\<open>memcpy\<close> copies it.
\<close>

primrec le_bytes :: "nat \<Rightarrow> nat \<Rightarrow> byte list" where
  "le_bytes 0 v = []"
| "le_bytes (Suc n) v = word_of_nat v # le_bytes n (v div 256)"

primrec le_nat :: "byte list \<Rightarrow> nat" where
  "le_nat [] = 0"
| "le_nat (b # bs) = unat b + 256 * le_nat bs"

lemma length_le_bytes [simp, codec_simps]: "length (le_bytes n v) = n"
  by (induction n arbitrary: v) auto

lemma le_nat_le_bytes: "le_nat (le_bytes n v) = v mod 256 ^ n"
proof (induction n arbitrary: v)
  case 0
  then show ?case by simp
next
  case (Suc n)
  have "unat (word_of_nat v :: byte) = v mod 256"
    by (simp add: unat_of_nat)
  then show ?case using Suc by (simp add: mod_mult2_eq)
qed

lemma le_nat_bound: "le_nat bs < 256 ^ length bs"
proof (induction bs)
  case Nil
  show ?case by simp
next
  case (Cons b bs)
  have "unat b < 256" using unsigned_less [of b, where ?'a = nat] by simp
  with Cons show ?case by simp
qed

lemma le_bytes_le_nat [simp]: "length bs = n \<Longrightarrow> le_bytes n (le_nat bs) = bs"
proof (induction bs arbitrary: n)
  case Nil
  then show ?case by simp
next
  case (Cons b bs)
  have "unat b < 256" using unsigned_less [of b, where ?'a = nat] by simp
  with Cons show ?case by (auto simp: word_of_nat_eq_0_iff simp flip: of_nat_mult)
qed

definition le32 :: "32 word \<Rightarrow> byte list" where
  "le32 w = le_bytes 4 (unat w)"

definition le64 :: "64 word \<Rightarrow> byte list" where
  "le64 w = le_bytes 8 (unat w)"

definition un_le32 :: "byte list \<Rightarrow> 32 word" where
  "un_le32 bs = word_of_nat (le_nat (take 4 bs))"

definition un_le64 :: "byte list \<Rightarrow> 64 word" where
  "un_le64 bs = word_of_nat (le_nat (take 8 bs))"

lemma length_le32 [simp, codec_simps]: "length (le32 w) = 4"
  by (simp add: le32_def)

lemma length_le64 [simp, codec_simps]: "length (le64 w) = 8"
  by (simp add: le64_def)

lemma le_neq_Nil [simp]: "le32 w \<noteq> []" "le64 v \<noteq> []"
  using length_le32 [of w] length_le64 [of v] by (metis list.size(3) zero_neq_numeral)+

lemma un_le32_le32 [simp, codec_simps]: "un_le32 (le32 w @ r) = w"
  using unsigned_less [of w, where ?'a = nat] by (simp add: un_le32_def le32_def le_nat_le_bytes)

lemma un_le64_le64 [simp, codec_simps]: "un_le64 (le64 w @ r) = w"
  using unsigned_less [of w, where ?'a = nat] by (simp add: un_le64_def le64_def le_nat_le_bytes)

lemma un_le32_le32' [simp, codec_simps]: "un_le32 (le32 w) = w"
  using un_le32_le32 [of w "[]"] by simp

lemma un_le64_le64' [simp, codec_simps]: "un_le64 (le64 w) = w"
  using un_le64_le64 [of w "[]"] by simp

section \<open>Characters as bytes\<close>

definition byte_of_char :: "char \<Rightarrow> byte" where
  "byte_of_char c = word_of_nat (of_char c)"

definition char_of_byte :: "byte \<Rightarrow> char" where
  "char_of_byte b = char_of (unat b)"

lemma char_of_byte_of_char [simp]: "char_of_byte (byte_of_char c) = c"
proof -
  have "(of_char c :: nat) < 256" by simp
  then show ?thesis by (simp add: char_of_byte_def byte_of_char_def unat_of_nat)
qed

lemma byte_of_char_of_byte [simp]: "byte_of_char (char_of_byte b) = b"
proof -
  have "unat b < 256" using unsigned_less [of b, where ?'a = nat] by simp
  then show ?thesis by (simp add: byte_of_char_def char_of_byte_def)
qed

lemma map_char_byte [simp]: "map char_of_byte (map byte_of_char s) = s"
  by (simp add: o_def)

lemma byte_of_char_eq_0_iff [simp]: "byte_of_char c = 0 \<longleftrightarrow> c = CHR 0x00"
proof
  assume "byte_of_char c = 0"
  then have "c = char_of_byte 0" by (metis char_of_byte_of_char)
  then show "c = CHR 0x00" by (simp add: char_of_byte_def char_of_def)
next
  assume "c = CHR 0x00"
  then show "byte_of_char c = 0" by (simp add: byte_of_char_def)
qed

text \<open>\<open>c_str\<close> is a byte buffer read as a C string: up to its first NUL.\<close>

definition c_str :: "byte list \<Rightarrow> string" where
  "c_str bs = map char_of_byte (takeWhile (\<lambda>b. b \<noteq> 0) bs)"

lemma c_str_of_name [simp]:
  assumes "CHR 0x00 \<notin> set s"
  shows "c_str (map byte_of_char s @ 0 # r) = s"
proof -
  have "takeWhile (\<lambda>b. b \<noteq> 0) (map byte_of_char s @ 0 # r) = map byte_of_char s"
    using assms by (subst takeWhile_append2) auto
  then show ?thesis by (simp add: c_str_def o_def)
qed

section \<open>Decimal printing\<close>

text \<open>\<open>nat_to_string\<close> is \<^verbatim>\<open>std::to_string\<close> on an unsigned integer.\<close>

definition digit_char :: "nat \<Rightarrow> char" where
  "digit_char d = char_of (48 + d)"

fun nat_to_string :: "nat \<Rightarrow> string" where
  "nat_to_string n =
     (if n < 10 then [digit_char n] else nat_to_string (n div 10) @ [digit_char (n mod 10)])"

declare nat_to_string.simps [simp del]

definition string_to_nat :: "string \<Rightarrow> nat" where
  "string_to_nat s = foldl (\<lambda>v c. 10 * v + (of_char c - 48)) 0 s"

lemma of_char_digit: "d < 10 \<Longrightarrow> of_char (digit_char d) = 48 + d"
  by (simp add: digit_char_def)

lemma string_to_nat_to_string [simp]: "string_to_nat (nat_to_string n) = n"
proof (induction n rule: nat_to_string.induct)
  case (1 n)
  show ?case
  proof (cases "n < 10")
    case True
    then show ?thesis
      by (simp add: nat_to_string.simps [of n] string_to_nat_def of_char_digit)
  next
    case False
    with 1 have "string_to_nat (nat_to_string (n div 10)) = n div 10" by simp
    with False show ?thesis
      by (simp add: nat_to_string.simps [of n] string_to_nat_def of_char_digit)
  qed
qed

lemma nat_to_string_inj [simp]: "nat_to_string m = nat_to_string n \<longleftrightarrow> m = n"
  by (metis string_to_nat_to_string)

lemma digit_char_neq_hash: "d < 10 \<Longrightarrow> digit_char d \<noteq> CHR ''#''"
proof
  assume "d < 10" and "digit_char d = CHR ''#''"
  then have "of_char (CHR ''#'') = (48 + d :: nat)" using of_char_digit by metis
  then show False by simp
qed

lemma nat_to_string_no_hash: "CHR ''#'' \<notin> set (nat_to_string n)"
proof (induction n rule: nat_to_string.induct)
  case (1 n)
  show ?case
  proof (cases "n < 10")
    case True
    then show ?thesis
      using digit_char_neq_hash [of n] by (auto simp: nat_to_string.simps [of n])
  next
    case False
    with 1 show ?thesis
      using digit_char_neq_hash [of "n mod 10"] by (auto simp: nat_to_string.simps [of n])
  qed
qed

lemma split_at_last:
  assumes "x \<notin> set b" and "x \<notin> set b'"
  shows "a @ x # b = a' @ x # b' \<longleftrightarrow> a = a' \<and> b = b'"
proof
  assume "a @ x # b = a' @ x # b'"
  then have "rev b @ x # rev a = rev b' @ x # rev a'"
    by (metis append.assoc append_Cons append_Nil rev.simps(2) rev_append rev_rev_ident)
  moreover have "takeWhile (\<lambda>y. y \<noteq> x) (rev b @ x # rev a) = rev b"
    using assms(1) by (subst takeWhile_append2) auto
  moreover have "takeWhile (\<lambda>y. y \<noteq> x) (rev b' @ x # rev a') = rev b'"
    using assms(2) by (subst takeWhile_append2) auto
  ultimately show "a = a' \<and> b = b'"
    by (metis append_same_eq list.inject rev_is_rev_conv same_append_eq)
qed auto

section \<open>Container iteration\<close>

text \<open>
  A hash table is a finite map; the order in which a range-based \<open>for\<close> visits it is not determined
  by its contents.  Functions that iterate take the visiting order as a parameter \<open>it\<close>; what they
  rely on is that every binding is visited exactly once.
\<close>

locale iteration =
  fixes it :: "('k \<rightharpoonup> 'v) \<Rightarrow> ('k \<times> 'v) list"
  assumes iter_distinct: "finite (dom m) \<Longrightarrow> distinct (map fst (it m))"
    and iter_map_of: "finite (dom m) \<Longrightarrow> map_of (it m) = m"
begin

lemma iter_mem: "finite (dom m) \<Longrightarrow> (k, v) \<in> set (it m) \<longleftrightarrow> m k = Some v"
  using iter_distinct [of m] iter_map_of [of m] by (metis map_of_eq_Some_iff)

lemma iter_keys: "finite (dom m) \<Longrightarrow> fst ` set (it m) = dom m"
  using iter_map_of [of m] by (metis dom_map_of_conv_image_fst)

lemma iter_empty [simp]: "it Map.empty = []"
  using iter_keys [of Map.empty] by simp

lemma iter_length: "finite (dom m) \<Longrightarrow> length (it m) = card (dom m)"
  using iter_distinct [of m] iter_keys [of m]
  by (metis distinct_card length_map list.set_map)

end

text \<open>\<open>std::map\<close> iterates in the order of its keys.\<close>

definition sorted_iter :: "('k::linorder \<rightharpoonup> 'v) \<Rightarrow> ('k \<times> 'v) list" where
  "sorted_iter m = map (\<lambda>k. (k, the (m k))) (sorted_list_of_set (dom m))"

interpretation std_map: iteration "sorted_iter :: ('k::linorder \<rightharpoonup> 'v) \<Rightarrow> ('k \<times> 'v) list"
proof unfold_locales
  fix m :: "'k \<rightharpoonup> 'v"
  assume fin: "finite (dom m)"
  have keys: "map fst (sorted_iter m) = sorted_list_of_set (dom m)"
    by (simp add: sorted_iter_def o_def)
  then show dist: "distinct (map fst (sorted_iter m))" by simp
  show "map_of (sorted_iter m) = m"
  proof
    fix k
    show "map_of (sorted_iter m) k = m k"
    proof (cases "m k")
      case None
      then have "k \<notin> fst ` set (sorted_iter m)"
        using fin by (auto simp: sorted_iter_def)
      with None show ?thesis by (simp add: map_of_eq_None_iff)
    next
      case (Some v)
      then have "(k, v) \<in> set (sorted_iter m)"
        using fin by (force simp: sorted_iter_def)
      with Some dist show ?thesis by simp
    qed
  qed
qed

lemma sorted_iter_sorted: "sorted (map fst (sorted_iter m))"
  by (simp add: sorted_iter_def o_def)

end
