(* ===== verification/Uuid.thy ===== *)
theory Uuid
  imports Nmfs_Prelude
begin

text \<open>
  Inode numbers (\<^verbatim>\<open>client/meta/uuid_controller.cpp\<close>).  A \<^verbatim>\<open>boost::uuids::uuid\<close> is sixteen bytes of
  data; the protocol messages carry it as two 64-bit halves, copied in and out with \<^verbatim>\<open>memcpy\<close>.
  The random generator behind \<^verbatim>\<open>alloc_new_uuid\<close> and the printing of a uuid are Boost's and are
  parameters of the model (the generator as the fresh value an operation is given).
\<close>

section \<open>The type of inode numbers\<close>

typedef uuid = "{bs :: byte list. length bs = 16}"
  morphisms uuid_data Uuid
  by (rule exI [of _ "replicate 16 0"]) simp

setup_lifting type_definition_uuid

lemma length_uuid_data [simp, codec_simps]: "length (uuid_data u) = 16"
  using uuid_data [of u] by simp

lemma Uuid_uuid_data [simp, codec_simps]: "Uuid (uuid_data u) = u"
  by (rule uuid_data_inverse)

lemma uuid_data_Uuid: "length bs = 16 \<Longrightarrow> uuid_data (Uuid bs) = bs"
  by (simp add: Uuid_inverse)

lemma uuid_eq_iff: "u = v \<longleftrightarrow> uuid_data u = uuid_data v"
  by (simp add: uuid_data_inject)

text \<open>Boost compares uuids bytewise; \<open>std::map\<close> and witnesses use that order.\<close>

instantiation uuid :: linorder
begin

definition less_eq_uuid :: "uuid \<Rightarrow> uuid \<Rightarrow> bool" where
  "less_eq_uuid u v \<longleftrightarrow> uuid_data u \<le> uuid_data v"

definition less_uuid :: "uuid \<Rightarrow> uuid \<Rightarrow> bool" where
  "less_uuid u v \<longleftrightarrow> uuid_data u < uuid_data v"

instance
  by standard (auto simp: less_eq_uuid_def less_uuid_def uuid_eq_iff)

end

instantiation uuid :: equal
begin

definition equal_uuid :: "uuid \<Rightarrow> uuid \<Rightarrow> bool" where
  "equal_uuid u v \<longleftrightarrow> uuid_data u = uuid_data v"

instance
  by standard (simp add: equal_uuid_def uuid_eq_iff)

end

section \<open>Operations\<close>

definition nil_uuid :: uuid where
  "nil_uuid = Uuid (replicate 16 0)"

definition is_nil :: "uuid \<Rightarrow> bool" where
  "is_nil u \<longleftrightarrow> uuid_data u = replicate 16 0"

definition get_prefix_from_uuid :: "uuid \<Rightarrow> 64 word" where
  "get_prefix_from_uuid u = un_le64 (uuid_data u)"

definition get_postfix_from_uuid :: "uuid \<Rightarrow> 64 word" where
  "get_postfix_from_uuid u = un_le64 (drop 8 (uuid_data u))"

definition splice_prefix_and_postfix :: "64 word \<Rightarrow> 64 word \<Rightarrow> uuid" where
  "splice_prefix_and_postfix prefix postfix = Uuid (le64 prefix @ le64 postfix)"

definition get_root_ino :: uuid where
  "get_root_ino = (let d = uuid_data nil_uuid in Uuid (d[15 := d ! 15 + 1]))"

section \<open>Lemmas\<close>

lemma uuid_data_splice [simp]:
  "uuid_data (splice_prefix_and_postfix p q) = le64 p @ le64 q"
  by (simp add: splice_prefix_and_postfix_def uuid_data_Uuid)

lemma is_nil_iff [simp]: "is_nil u \<longleftrightarrow> u = nil_uuid"
  by (simp add: is_nil_def nil_uuid_def uuid_eq_iff uuid_data_Uuid)

lemma le64_un_le64: "8 \<le> length bs \<Longrightarrow> le64 (un_le64 bs) = take 8 bs"
proof -
  assume len: "8 \<le> length bs"
  have "le_nat (take 8 bs) < 256 ^ 8" using le_nat_bound [of "take 8 bs"] len by (simp add: min.absorb2)
  then have "unat (word_of_nat (le_nat (take 8 bs)) :: 64 word) = le_nat (take 8 bs)"
    by (simp add: unat_of_nat)
  then show ?thesis using len by (simp add: le64_def un_le64_def)
qed

lemma splice_halves [simp]:
  "splice_prefix_and_postfix (get_prefix_from_uuid u) (get_postfix_from_uuid u) = u"
proof -
  have "take 8 (uuid_data u) @ take 8 (drop 8 (uuid_data u)) = uuid_data u"
    by (metis append_take_drop_id length_drop length_uuid_data diff_add_inverse2
        numeral_Bit0 take_all order_refl)
  then show ?thesis
    by (simp add: uuid_eq_iff get_prefix_from_uuid_def get_postfix_from_uuid_def le64_un_le64)
qed

lemma prefix_splice [simp]: "get_prefix_from_uuid (splice_prefix_and_postfix p q) = p"
  by (simp add: get_prefix_from_uuid_def)

lemma postfix_splice [simp]: "get_postfix_from_uuid (splice_prefix_and_postfix p q) = q"
  by (simp add: get_postfix_from_uuid_def)

lemma splice_inj:
  "splice_prefix_and_postfix p q = splice_prefix_and_postfix p' q' \<longleftrightarrow> p = p' \<and> q = q'"
  by (metis prefix_splice postfix_splice)

lemma uuid_data_root: "uuid_data get_root_ino = replicate 15 0 @ [1]"
  by (simp add: get_root_ino_def nil_uuid_def uuid_data_Uuid Let_def numeral_eq_Suc)

lemma root_not_nil [simp]: "get_root_ino \<noteq> nil_uuid" "nil_uuid \<noteq> get_root_ino"
  by (auto simp: uuid_eq_iff uuid_data_root nil_uuid_def uuid_data_Uuid numeral_eq_Suc)

lemma prefix_nil [simp]: "get_prefix_from_uuid nil_uuid = 0"
  by (simp add: get_prefix_from_uuid_def nil_uuid_def uuid_data_Uuid un_le64_def numeral_eq_Suc)

lemma prefix_root [simp]: "get_prefix_from_uuid get_root_ino = 0"
  by (simp add: get_prefix_from_uuid_def uuid_data_root un_le64_def numeral_eq_Suc)

lemma splice_not_nil: "p \<noteq> 0 \<Longrightarrow> splice_prefix_and_postfix p q \<noteq> nil_uuid"
  by (metis prefix_splice prefix_nil)

lemma splice_not_root: "p \<noteq> 0 \<Longrightarrow> splice_prefix_and_postfix p q \<noteq> get_root_ino"
  by (metis prefix_splice prefix_root)

end
