(* ===== verification/Rados_IO.thy ===== *)
theory Rados_IO
  imports Uuid
begin

unbundle bit_operations_syntax

text \<open>
  Striped object I/O (\<^verbatim>\<open>lib/rados_io/rados_io.cpp\<close>).  A logical object \<open>(category, key)\<close> is stored as
  RADOS objects \<open>prefix key#0, prefix key#1, ...\<close> of at most \<open>OBJ_SIZE\<close> bytes.  librados and Boost's
  uuid printer are third-party code: the record \<open>extern\<close> holds the calls the program makes, and
  the locales \<open>librados\<close> and \<open>librados_healthy\<close> state what the program relies on.  The loops run on
  signed 64-bit offsets, overflow included; below \<open>MAX_OFFSET\<close> natural numbers do, and the last section
  relates those to the words of the code.
\<close>

section \<open>Third-party services\<close>

text \<open>
  Each call returns the C return code; a reading call also returns its output, a changing call the
  new state of the pool.
\<close>

record 's extern =
  lr_read :: "'s \<Rightarrow> string \<Rightarrow> nat \<Rightarrow> nat \<Rightarrow> int \<times> byte list"
  lr_write :: "'s \<Rightarrow> string \<Rightarrow> byte list \<Rightarrow> nat \<Rightarrow> int \<times> 's"
  lr_stat :: "'s \<Rightarrow> string \<Rightarrow> int \<times> nat"
  lr_remove :: "'s \<Rightarrow> string \<Rightarrow> int \<times> 's"
  lr_trunc :: "'s \<Rightarrow> string \<Rightarrow> nat \<Rightarrow> int \<times> 's"
  uuid_to_string :: "uuid \<Rightarrow> string"

definition ENOENT :: int where
  "ENOENT = 2"

text \<open>What a successful librados write or truncation leaves in the object.\<close>

definition obj_write :: "byte list option \<Rightarrow> nat \<Rightarrow> byte list \<Rightarrow> byte list" where
  "obj_write old off bl =
     (let d = (case old of None \<Rightarrow> [] | Some d \<Rightarrow> d)
      in take off (d @ replicate (off - length d) 0) @ bl @ drop (off + length bl) d)"

definition obj_trunc :: "byte list \<Rightarrow> nat \<Rightarrow> byte list" where
  "obj_trunc d n = take n d @ replicate (n - length d) 0"

text \<open>
  The documented behaviour of librados.  \<open>objs\<close> is the contents of the pool.  The first locale
  describes calls that may fail; in the second no call fails for a reason other than a missing
  object.
\<close>

locale librados =
  fixes L :: "'s extern" and objs :: "'s \<Rightarrow> string \<Rightarrow> byte list option"
  assumes read_ok: "lr_read L s k len off = (ret, bl) \<Longrightarrow> 0 \<le> ret \<Longrightarrow> objs s k = Some d \<Longrightarrow>
      take (nat ret) bl = take len (drop off d)"
    and read_ENOENT: "fst (lr_read L s k len off) = - ENOENT \<longleftrightarrow> objs s k = None"
    and write_ok: "lr_write L s k bl off = (ret, s') \<Longrightarrow> 0 \<le> ret \<Longrightarrow>
      objs s' = (objs s)(k \<mapsto> obj_write (objs s k) off bl)"
    and stat_ok: "lr_stat L s k = (ret, n) \<Longrightarrow> 0 \<le> ret \<Longrightarrow> objs s k = Some d \<Longrightarrow> n = length d"
    and stat_ENOENT: "fst (lr_stat L s k) = - ENOENT \<longleftrightarrow> objs s k = None"
    and remove_ok: "lr_remove L s k = (ret, s') \<Longrightarrow> 0 \<le> ret \<Longrightarrow> objs s' = (objs s)(k := None)"
    and remove_ENOENT: "fst (lr_remove L s k) = - ENOENT \<longleftrightarrow> objs s k = None"
    and remove_ENOENT_state: "lr_remove L s k = (- ENOENT, s') \<Longrightarrow> objs s' = objs s"
    and trunc_ok: "lr_trunc L s k n = (0, s') \<Longrightarrow> objs s k = Some d \<Longrightarrow>
      objs s' = (objs s)(k \<mapsto> obj_trunc d n)"
    and uuid_to_string_inj: "uuid_to_string L u = uuid_to_string L v \<Longrightarrow> u = v"

locale librados_healthy = librados L objs
  for L :: "'s extern" and objs :: "'s \<Rightarrow> string \<Rightarrow> byte list option" +
  assumes read_healthy: "objs s k \<noteq> None \<Longrightarrow> 0 \<le> fst (lr_read L s k len off)"
    and write_healthy: "0 \<le> fst (lr_write L s k bl off)"
    and stat_healthy: "objs s k \<noteq> None \<Longrightarrow> 0 \<le> fst (lr_stat L s k)"
    and remove_healthy: "objs s k \<noteq> None \<Longrightarrow> 0 \<le> fst (lr_remove L s k)"
    and trunc_healthy: "objs s k \<noteq> None \<Longrightarrow> fst (lr_trunc L s k n) = 0"

section \<open>Keys and striping\<close>

datatype obj_category = INODE | DENTRY | DATA | CLIENT | JOURNAL

definition OBJ_SIZE :: nat where
  "OBJ_SIZE = 4194304"

definition OBJ_BITS :: nat where
  "OBJ_BITS = 22"

definition OBJ_MASK :: int where
  "OBJ_MASK = push_bit OBJ_BITS (NOT 0)"

fun get_prefix :: "obj_category \<Rightarrow> string" where
  "get_prefix INODE = ''i$''"
| "get_prefix DENTRY = ''e$''"
| "get_prefix DATA = ''d$''"
| "get_prefix CLIENT = ''c$''"
| "get_prefix JOURNAL = ''j$''"

definition get_postfix :: "nat \<Rightarrow> string" where
  "get_postfix num = ''#'' @ nat_to_string num"

text \<open>The expressions over the cursor that every striping loop computes.\<close>

definition obj_num_of :: "nat \<Rightarrow> nat" where
  "obj_num_of cursor = drop_bit OBJ_BITS cursor"

definition block_start :: "nat \<Rightarrow> nat" where
  "block_start cursor = nat (int cursor AND OBJ_MASK)"

definition block_off :: "nat \<Rightarrow> nat" where
  "block_off cursor = nat (int cursor AND NOT OBJ_MASK)"

definition next_bound :: "nat \<Rightarrow> nat" where
  "next_bound cursor = block_start cursor + OBJ_SIZE"

definition sub_len :: "nat \<Rightarrow> nat \<Rightarrow> nat" where
  "sub_len cursor stop = min (next_bound cursor - cursor) (stop - cursor)"

lemma OBJ_SIZE_pow: "OBJ_SIZE = 2 ^ OBJ_BITS"
  by (simp add: OBJ_SIZE_def OBJ_BITS_def)

lemma OBJ_SIZE_pos [simp]: "0 < OBJ_SIZE"
  by (simp add: OBJ_SIZE_def)

lemma OBJ_SIZE_neq_0 [simp]: "OBJ_SIZE \<noteq> 0"
  by (simp add: OBJ_SIZE_def)

lemma obj_num_of_eq: "obj_num_of c = c div OBJ_SIZE"
  by (simp add: obj_num_of_def OBJ_SIZE_pow drop_bit_eq_div)

lemma OBJ_MASK_eq: "OBJ_MASK = NOT (mask OBJ_BITS)"
  by (simp add: OBJ_MASK_def OBJ_BITS_def mask_eq_exp_minus_1 not_int_def)

lemma block_off_eq: "block_off c = c mod OBJ_SIZE"
proof -
  have "int c AND NOT OBJ_MASK = take_bit OBJ_BITS (int c)"
    by (simp add: OBJ_MASK_eq take_bit_eq_mask)
  also have "\<dots> = int (c mod OBJ_SIZE)"
    by (simp add: take_bit_eq_mod OBJ_SIZE_pow zmod_int)
  finally show ?thesis by (simp add: block_off_def)
qed

lemma block_start_eq: "block_start c = c div OBJ_SIZE * OBJ_SIZE"
proof -
  have "int c AND OBJ_MASK = push_bit OBJ_BITS (drop_bit OBJ_BITS (int c))"
    unfolding OBJ_MASK_eq by (rule bit_eqI) (auto simp: bit_simps)
  also have "\<dots> = int (c div OBJ_SIZE * OBJ_SIZE)"
    by (simp add: push_bit_eq_mult drop_bit_eq_div OBJ_SIZE_pow zdiv_int)
  finally show ?thesis unfolding block_start_def by (simp only: nat_int)
qed

lemma next_bound_eq: "next_bound c = (c div OBJ_SIZE + 1) * OBJ_SIZE"
  by (simp add: next_bound_def block_start_eq)

lemma next_bound_gt [simp]: "c < next_bound c"
proof -
  have "c = c div OBJ_SIZE * OBJ_SIZE + c mod OBJ_SIZE" by simp
  also have "\<dots> < c div OBJ_SIZE * OBJ_SIZE + OBJ_SIZE" by (simp only: add_less_cancel_left) simp
  finally show ?thesis by (simp add: next_bound_eq)
qed

section \<open>Single-object calls\<close>

definition read_obj :: "'s extern \<Rightarrow> 's \<Rightarrow> string \<Rightarrow> nat \<Rightarrow> nat \<Rightarrow> byte list result" where
  "read_obj L s key len off =
     (case lr_read L s key len off of (ret, bl) \<Rightarrow>
        if 0 \<le> ret then Inr (take (nat ret) bl)
        else if ret = - ENOENT then Inl (No_such_object [])
        else Inl (Runtime_error ''rados_io::read_obj() failed''))"

definition write_obj :: "'s extern \<Rightarrow> string \<Rightarrow> byte list \<Rightarrow> nat \<Rightarrow> nat \<Rightarrow> ('s, nat) st" where
  "write_obj L key value len off s =
     (case lr_write L s key (take len value) off of (ret, s') \<Rightarrow>
        if 0 \<le> ret then (Inr len, s')
        else (Inl (Runtime_error ''rados_io::write_obj() failed''), s'))"

definition truncate_obj :: "'s extern \<Rightarrow> string \<Rightarrow> nat \<Rightarrow> ('s, unit) st" where
  "truncate_obj L key cut_size s =
     (case lr_trunc L s key cut_size of (ret, s') \<Rightarrow>
        if ret = 0 then (Inr (), s')
        else (Inl (Runtime_error ''rados_io::truncate_obj() failed''), s'))"

section \<open>The striping loops\<close>

text \<open>
  Offsets are \<^verbatim>\<open>off_t\<close>, signed 64-bit integers.  A length or an offset is given as the number that its 64 bits
  denote without sign, and \<open>off_t\<close> reads such bits with the sign; sums wrap.  Within a loop the cursor is a
  signed integer, which may be negative; a next bound or a difference that does not fit is the undefined
  overflow.
\<close>

definition off_t :: "nat \<Rightarrow> int" where
  "off_t n = signed_take_bit 63 (int n)"

definition off_obj_num :: "int \<Rightarrow> nat" where
  "off_obj_num cursor = nat (take_bit 64 (drop_bit OBJ_BITS cursor))"

definition off_next_bound :: "int \<Rightarrow> int" where
  "off_next_bound cursor = (cursor AND OBJ_MASK) + int OBJ_SIZE"

definition off_block_off :: "int \<Rightarrow> nat" where
  "off_block_off cursor = nat (cursor AND NOT OBJ_MASK)"

definition off_sub_len :: "int \<Rightarrow> int \<Rightarrow> nat" where
  "off_sub_len cursor stop = nat (min (off_next_bound cursor - cursor) (stop - cursor))"

definition off_overflow :: "int \<Rightarrow> int \<Rightarrow> bool" where
  "off_overflow cursor stop \<longleftrightarrow> 2 ^ 63 \<le> off_next_bound cursor \<or> 2 ^ 63 \<le> stop - cursor"

lemma off_next_bound_gt [simp]: "cursor < off_next_bound cursor"
proof -
  have "cursor AND OBJ_MASK = push_bit OBJ_BITS (drop_bit OBJ_BITS cursor)"
    unfolding OBJ_MASK_eq by (rule bit_eqI) (auto simp: bit_simps)
  also have "\<dots> = cursor - cursor mod int OBJ_SIZE"
    by (simp add: push_bit_eq_mult drop_bit_eq_div OBJ_SIZE_pow minus_mod_eq_div_mult)
  finally show ?thesis
    unfolding off_next_bound_def using pos_mod_bound [of "int OBJ_SIZE" cursor] by simp
qed

function zerofill_loop :: "'s extern \<Rightarrow> string \<Rightarrow> byte list \<Rightarrow> int \<Rightarrow> int \<Rightarrow> ('s, unit) st" where
  "zerofill_loop L p_key zeros cursor stop s =
     (if cursor < stop then
        if off_overflow cursor stop then (Inl Undefined_behaviour, s)
        else
          (case write_obj L (p_key @ get_postfix (off_obj_num cursor)) zeros
                  (off_sub_len cursor stop) (off_block_off cursor) s of
             (Inl e, s') \<Rightarrow> (Inl e, s')
           | (Inr _, s') \<Rightarrow> zerofill_loop L p_key zeros (off_next_bound cursor) stop s')
      else (Inr (), s))"
  by pat_completeness auto
termination
  by (relation "measure (\<lambda>(L, p_key, zeros, cursor, stop, s). nat (stop - cursor))") auto

definition zerofill :: "'s extern \<Rightarrow> obj_category \<Rightarrow> string \<Rightarrow> nat \<Rightarrow> nat \<Rightarrow> ('s, unit) st" where
  "zerofill L category key len offset =
     zerofill_loop L (get_prefix category @ key) (replicate (min len OBJ_SIZE) 0)
       (off_t offset) (off_t (offset + len))"

function read_loop ::
  "'s extern \<Rightarrow> 's \<Rightarrow> string \<Rightarrow> int \<Rightarrow> int \<Rightarrow> byte list \<Rightarrow> byte list result" where
  "read_loop L s p_key cursor stop value =
     (if cursor < stop then
        if off_overflow cursor stop then Inl Undefined_behaviour
        else
          (case read_obj L s (p_key @ get_postfix (off_obj_num cursor))
                  (off_sub_len cursor stop) (off_block_off cursor) of
             Inl (No_such_object _) \<Rightarrow> Inl (No_such_object value)
           | Inl e \<Rightarrow> Inl e
           | Inr bl \<Rightarrow> read_loop L s p_key (off_next_bound cursor) stop (value @ bl))
      else Inr value)"
  by pat_completeness auto
termination
  by (relation "measure (\<lambda>(L, s, p_key, cursor, stop, value). nat (stop - cursor))") auto

function write_loop ::
  "'s extern \<Rightarrow> string \<Rightarrow> byte list \<Rightarrow> int \<Rightarrow> int \<Rightarrow> nat \<Rightarrow> ('s, nat) st" where
  "write_loop L p_key value cursor stop written s =
     (if cursor < stop then
        if off_overflow cursor stop then (Inl Undefined_behaviour, s)
        else
          (case write_obj L (p_key @ get_postfix (off_obj_num cursor)) (drop written value)
                  (off_sub_len cursor stop) (off_block_off cursor) s of
             (Inl e, s') \<Rightarrow> (Inl e, s')
           | (Inr n, s') \<Rightarrow> write_loop L p_key value (off_next_bound cursor) stop (written + n) s')
      else (Inr written, s))"
  by pat_completeness auto
termination
  by (relation "measure (\<lambda>(L, p_key, value, cursor, stop, sum, s). nat (stop - cursor))") auto

declare zerofill_loop.simps [simp del] read_loop.simps [simp del] write_loop.simps [simp del]

text \<open>
  The search for the last existing object at or below the offset, shared by \<^verbatim>\<open>write\<close> and
  \<^verbatim>\<open>truncate\<close>: the lower bound of the file size it finds, or nothing when no object exists.
\<close>

fun lb_file_size_loop :: "'s extern \<Rightarrow> 's \<Rightarrow> string \<Rightarrow> string \<Rightarrow> nat \<Rightarrow> nat option result" where
  "lb_file_size_loop L s p_key msg prev_obj_num =
     (case lr_stat L s (p_key @ get_postfix prev_obj_num) of (ret, obj_size) \<Rightarrow>
        if 0 \<le> ret then Inr (Some (push_bit OBJ_BITS prev_obj_num + obj_size))
        else if ret \<noteq> - ENOENT then Inl (Runtime_error msg)
        else if prev_obj_num = 0 then Inr None
        else lb_file_size_loop L s p_key msg (prev_obj_num - 1))"

declare lb_file_size_loop.simps [simp del]

text \<open>
  The loops over all objects count in \<^verbatim>\<open>uint64_t\<close>: after \<open>2 ^ 64\<close> existing objects the counter is
  back at its start and the loop does not end.
\<close>

function stat_loop :: "'s extern \<Rightarrow> 's \<Rightarrow> string \<Rightarrow> nat \<Rightarrow> nat \<Rightarrow> (bool \<times> nat) result" where
  "stat_loop L s p_key obj_num sz =
     (if obj_num < 2 ^ 64 then
        (case lr_stat L s (p_key @ get_postfix obj_num) of (ret, obj_size) \<Rightarrow>
           if ret = - ENOENT \<and> obj_num = 0 then Inr (False, sz)
           else if ret = - ENOENT then Inr (True, sz)
           else if ret < 0 then Inl (Runtime_error ''rados_io::stat() failed'')
           else stat_loop L s p_key (Suc obj_num) (sz + obj_size))
      else Inl Diverges)"
  by pat_completeness auto
termination
  by (relation "measure (\<lambda>(L, s, p_key, obj_num, sz). 2 ^ 64 - obj_num)") auto

function remove_loop :: "'s extern \<Rightarrow> string \<Rightarrow> nat \<Rightarrow> ('s, unit) st" where
  "remove_loop L p_key obj_num s =
     (if obj_num < 2 ^ 64 then
        (case lr_remove L s (p_key @ get_postfix obj_num) of (ret, s') \<Rightarrow>
           if ret = - ENOENT then (Inr (), s')
           else if ret < 0 then (Inl (Runtime_error ''rados_io::remove() failed''), s')
           else remove_loop L p_key (Suc obj_num) s')
      else (Inl Diverges, s))"
  by pat_completeness auto
termination
  by (relation "measure (\<lambda>(L, p_key, obj_num, s). 2 ^ 64 - obj_num)") auto

function truncate_loop :: "'s extern \<Rightarrow> string \<Rightarrow> nat \<Rightarrow> ('s, unit) st" where
  "truncate_loop L p_key obj_num s =
     (if obj_num < 2 ^ 64 then
        (case lr_stat L s (p_key @ get_postfix obj_num) of (ret, obj_size) \<Rightarrow>
           if 0 \<le> ret
           then truncate_loop L p_key (Suc obj_num) (snd (lr_remove L s (p_key @ get_postfix obj_num)))
           else if ret = - ENOENT then (Inr (), s)
           else truncate_loop L p_key (Suc obj_num) s)
      else (Inl Diverges, s))"
  by pat_completeness auto
termination
  by (relation "measure (\<lambda>(L, p_key, obj_num, s). 2 ^ 64 - obj_num)") auto

declare stat_loop.simps [simp del] remove_loop.simps [simp del] truncate_loop.simps [simp del]

section \<open>The public interface\<close>

definition rados_read ::
  "'s extern \<Rightarrow> 's \<Rightarrow> obj_category \<Rightarrow> string \<Rightarrow> nat \<Rightarrow> nat \<Rightarrow> byte list result" where
  "rados_read L s category key len offset =
     read_loop L s (get_prefix category @ key) (off_t offset) (off_t (offset + len)) []"

text \<open>
  With a negative offset the search of \<^verbatim>\<open>write\<close> has no round, and the code reads \<^verbatim>\<open>ret\<close>, which nothing has set.
\<close>

definition rados_write ::
  "'s extern \<Rightarrow> obj_category \<Rightarrow> string \<Rightarrow> byte list \<Rightarrow> nat \<Rightarrow> nat \<Rightarrow> ('s, nat) st" where
  "rados_write L category key value len offset s =
     (let p_key = get_prefix category @ key in
      if off_t offset < 0 then (Inl Undefined_behaviour, s)
      else case lb_file_size_loop L s p_key ''rados_io::write() failed (stat() failed)''
             (obj_num_of offset) of
        Inl e \<Rightarrow> (Inl e, s)
      | Inr found \<Rightarrow>
          (let lb_file_size = (case found of None \<Rightarrow> 0 | Some n \<Rightarrow> n) in
           bindE (if lb_file_size < offset
                  then zerofill L category key (offset - lb_file_size) lb_file_size
                  else returnE ())
             (\<lambda>_. write_loop L p_key value (off_t offset) (off_t (offset + len)) 0) s))"

definition rados_exist :: "'s extern \<Rightarrow> 's \<Rightarrow> obj_category \<Rightarrow> string \<Rightarrow> bool result" where
  "rados_exist L s category key =
     (case lr_stat L s (get_prefix category @ key @ get_postfix 0) of (ret, obj_size) \<Rightarrow>
        if 0 \<le> ret then Inr True
        else if ret = - ENOENT then Inr False
        else Inl (Runtime_error ''rados_io::exist() failed''))"

definition rados_stat ::
  "'s extern \<Rightarrow> 's \<Rightarrow> obj_category \<Rightarrow> string \<Rightarrow> (bool \<times> nat) result" where
  "rados_stat L s category key = stat_loop L s (get_prefix category @ key) 0 0"

definition rados_remove :: "'s extern \<Rightarrow> obj_category \<Rightarrow> string \<Rightarrow> ('s, unit) st" where
  "rados_remove L category key = remove_loop L (get_prefix category @ key) 0"

definition rados_truncate ::
  "'s extern \<Rightarrow> obj_category \<Rightarrow> string \<Rightarrow> nat \<Rightarrow> ('s, int) st" where
  "rados_truncate L category key offset s =
     (let p_key = get_prefix category @ key in
      case lb_file_size_loop L s p_key ''rados_io::truncate() failed (stat() failed)''
             (obj_num_of offset) of
        Inl e \<Rightarrow> (Inl e, s)
      | Inr None \<Rightarrow> bindE (zerofill L category key offset 0) (\<lambda>_. returnE 0) s
      | Inr (Some lb_file_size) \<Rightarrow>
          (if lb_file_size < offset
           then bindE (zerofill L category key (offset - lb_file_size) lb_file_size)
                  (\<lambda>_. returnE 0) s
           else
             (let obj_num = obj_num_of offset;
                  cut_size = offset - push_bit OBJ_BITS obj_num
              in bindE (truncate_obj L (p_key @ get_postfix obj_num) cut_size)
                   (\<lambda>_. bindE (truncate_loop L p_key (Suc obj_num)) (\<lambda>_. returnE 0)) s)))"

section \<open>The arithmetic of the code\<close>

text \<open>
  The cursor is an \<^verbatim>\<open>off_t\<close>; the mask is \<^verbatim>\<open>(~0) << OBJ_BITS\<close>.  Below the largest offset every
  expression of the loops has the value of its natural-number counterpart, and the next bound is
  still a non-negative \<^verbatim>\<open>off_t\<close>.
\<close>

definition obj_mask_word :: "64 word" where
  "obj_mask_word = push_bit OBJ_BITS (NOT 0)"

definition next_bound_word :: "64 word \<Rightarrow> 64 word" where
  "next_bound_word cursor = (cursor AND obj_mask_word) + of_nat OBJ_SIZE"

lemma block_start_le: "block_start c \<le> c"
  by (simp add: block_start_eq)

lemma take_bit_unat [simp]: "take_bit 64 (unat (w :: 64 word)) = unat w"
  by (rule take_bit_nat_eq_self) (use unsigned_less [of w, where ?'a = nat] in simp)

lemma unat_obj_num: "unat (drop_bit OBJ_BITS (cursor :: 64 word)) = obj_num_of (unat cursor)"
  by (simp add: unsigned_drop_bit_eq obj_num_of_def)

lemma unat_block_start: "unat (cursor AND obj_mask_word) = block_start (unat (cursor :: 64 word))"
proof -
  have "cursor AND obj_mask_word = push_bit OBJ_BITS (drop_bit OBJ_BITS cursor)"
    by (rule bit_eqI) (auto simp: bit_simps obj_mask_word_def OBJ_BITS_def)
  then have "unat (cursor AND obj_mask_word) = take_bit 64 (push_bit OBJ_BITS (unat (drop_bit OBJ_BITS cursor)))"
    by (simp add: unsigned_push_bit_eq)
  also have "\<dots> = take_bit 64 (block_start (unat cursor))"
    unfolding unat_obj_num by (simp add: block_start_eq obj_num_of_eq push_bit_eq_mult OBJ_SIZE_pow)
  also have "\<dots> = block_start (unat cursor)"
  proof (rule take_bit_nat_eq_self)
    show "block_start (unat cursor) < 2 ^ 64"
      using block_start_le [of "unat cursor"] unsigned_less [of cursor, where ?'a = nat] by simp
  qed
  finally show ?thesis .
qed

lemma unat_block_off: "unat (cursor AND NOT obj_mask_word) = block_off (unat (cursor :: 64 word))"
proof -
  have "cursor AND NOT obj_mask_word = take_bit OBJ_BITS cursor"
    by (rule bit_eqI) (auto simp: bit_simps obj_mask_word_def OBJ_BITS_def)
  then have "unat (cursor AND NOT obj_mask_word) = take_bit OBJ_BITS (unat cursor)"
    by (simp only: unsigned_take_bit_eq)
  then show ?thesis by (simp add: block_off_eq take_bit_eq_mod OBJ_SIZE_pow)
qed

lemma unat_next_bound:
  assumes "unat cursor + OBJ_SIZE < 2 ^ 63"
  shows "unat (next_bound_word cursor) = next_bound (unat cursor)"
proof -
  have s: "unat (of_nat OBJ_SIZE :: 64 word) = OBJ_SIZE"
    by (simp add: OBJ_SIZE_def)
  have "block_start (unat cursor) + OBJ_SIZE < 2 ^ 64"
    using assms block_start_le [of "unat cursor"] by simp
  then show ?thesis
    unfolding next_bound_word_def next_bound_def
    by (subst unat_word_ariths) (simp add: s unat_block_start)
qed

end
