(* ===== verification/Rados_Refine.thy ===== *)
theory Rados_Refine
  imports Rados_IO
begin

unbundle bit_operations_syntax

text \<open>
  What \<open>Rados_IO\<close> promises: every logical object behaves as one byte string.  \<open>striped f c\<close> says
  that the blocks \<open>f\<close> hold the contents \<open>c\<close>; the operations are shown to act on \<open>c\<close> as the
  specifications \<open>overwrite\<close>, \<open>write_spec\<close> and \<open>truncate_spec\<close> do, and to leave every other logical
  object alone.  The lemmas are proved once inside the locale \<open>librados_healthy\<close>.
\<close>

section \<open>Specification\<close>

definition striped :: "(nat \<Rightarrow> byte list option) \<Rightarrow> byte list \<Rightarrow> bool" where
  "striped f c \<longleftrightarrow>
     (\<forall>i. f i = Some (take OBJ_SIZE (drop (i * OBJ_SIZE) c)) \<and> i * OBJ_SIZE \<le> length c
        \<or> f i = None \<and> length c \<le> i * OBJ_SIZE)"

definition overwrite :: "byte list \<Rightarrow> nat \<Rightarrow> byte list \<Rightarrow> byte list" where
  "overwrite c off d = take off c @ d @ drop (off + length d) c"

definition write_spec :: "byte list \<Rightarrow> nat \<Rightarrow> byte list \<Rightarrow> byte list" where
  "write_spec c off d = overwrite (c @ replicate (off - length c) 0) off d"

definition truncate_spec :: "byte list \<Rightarrow> nat \<Rightarrow> byte list" where
  "truncate_spec c n = take n c @ replicate (n - length c) 0"

text \<open>The blocks of a logical object in a pool, its contents and its existence.\<close>

definition blocks ::
  "('s \<Rightarrow> string \<Rightarrow> byte list option) \<Rightarrow> 's \<Rightarrow> obj_category \<Rightarrow> string \<Rightarrow> nat \<Rightarrow> byte list option" where
  "blocks objs s category key i = objs s (get_prefix category @ key @ get_postfix i)"

definition stores ::
  "('s \<Rightarrow> string \<Rightarrow> byte list option) \<Rightarrow> 's \<Rightarrow> obj_category \<Rightarrow> string \<Rightarrow> byte list \<Rightarrow> bool" where
  "stores objs s category key c \<longleftrightarrow> striped (blocks objs s category key) c"

definition present ::
  "('s \<Rightarrow> string \<Rightarrow> byte list option) \<Rightarrow> 's \<Rightarrow> obj_category \<Rightarrow> string \<Rightarrow> bool" where
  "present objs s category key \<longleftrightarrow> blocks objs s category key 0 \<noteq> None"

text \<open>\<open>frame\<close>: only the blocks of one logical object may differ.\<close>

definition frame ::
  "('s \<Rightarrow> string \<Rightarrow> byte list option) \<Rightarrow> obj_category \<Rightarrow> string \<Rightarrow> 's \<Rightarrow> 's \<Rightarrow> bool" where
  "frame objs category key s s' \<longleftrightarrow>
     (\<forall>k. (\<forall>i. k \<noteq> get_prefix category @ key @ get_postfix i) \<longrightarrow> objs s' k = objs s k)"

section \<open>Keys\<close>

lemma get_prefix_length [simp]: "length (get_prefix c) = 2"
  by (cases c) auto

lemma get_prefix_inj [simp]: "get_prefix c = get_prefix c' \<longleftrightarrow> c = c'"
  by (cases c; cases c') auto

lemma get_postfix_inj [simp]: "get_postfix i = get_postfix j \<longleftrightarrow> i = j"
  by (simp add: get_postfix_def)

lemma obj_key_inj [simp]:
  "get_prefix c @ k @ get_postfix i = get_prefix c' @ k' @ get_postfix i' \<longleftrightarrow> c = c' \<and> k = k' \<and> i = i'"
proof -
  have "get_prefix c @ k @ get_postfix i = get_prefix c' @ k' @ get_postfix i' \<longleftrightarrow>
      (get_prefix c @ k) @ CHR ''#'' # nat_to_string i = (get_prefix c' @ k') @ CHR ''#'' # nat_to_string i'"
    by (simp add: get_postfix_def)
  also have "\<dots> \<longleftrightarrow> get_prefix c @ k = get_prefix c' @ k' \<and> i = i'"
    by (subst split_at_last) (simp_all add: nat_to_string_no_hash)
  also have "\<dots> \<longleftrightarrow> c = c' \<and> k = k' \<and> i = i'"
    by (auto simp: append_eq_append_conv)
  finally show ?thesis .
qed

section \<open>Striped contents\<close>

lemma length_overwrite [simp]:
  "off \<le> length c \<Longrightarrow> length (overwrite c off d) = max (length c) (off + length d)"
  by (auto simp: overwrite_def)

lemma overwrite_append:
  assumes "off \<le> length c"
  shows "overwrite (overwrite c off a) (off + length a) b = overwrite c off (a @ b)"
proof -
  have "drop (length a + (off + length b)) c = drop (length b) (drop (off + length a) c)"
    by (simp add: ac_simps)
  with assms show ?thesis by (simp add: overwrite_def min.absorb2 ac_simps)
qed

lemma overwrite_Nil [simp]: "overwrite c off [] = c"
  by (simp add: overwrite_def)

lemma overwrite_end: "overwrite c (length c) d = c @ d"
  by (simp add: overwrite_def)

lemma striped_block:
  "striped f c \<Longrightarrow> f i = Some d \<Longrightarrow> d = take OBJ_SIZE (drop (i * OBJ_SIZE) c) \<and> i * OBJ_SIZE \<le> length c"
  by (metis option.distinct(1) option.inject striped_def)

lemma striped_missing: "striped f c \<Longrightarrow> f i = None \<Longrightarrow> length c \<le> i * OBJ_SIZE"
  by (metis option.distinct(1) striped_def)

lemma striped_present: "striped f c \<Longrightarrow> i * OBJ_SIZE < length c \<Longrightarrow> f i \<noteq> None"
  by (metis not_le striped_missing)

lemma striped_block_end:
  assumes "striped f c" and "f i = Some d"
  shows "i * OBJ_SIZE + length d = min (length c) (Suc i * OBJ_SIZE)"
proof -
  have "length d = min OBJ_SIZE (length c - i * OBJ_SIZE)" "i * OBJ_SIZE \<le> length c"
    using striped_block [OF assms] by (simp_all add: min.commute)
  moreover have "Suc i * OBJ_SIZE = i * OBJ_SIZE + OBJ_SIZE" by simp
  ultimately show ?thesis by linarith
qed

lemma striped_downward: "striped f c \<Longrightarrow> f k \<noteq> None \<Longrightarrow> j \<le> k \<Longrightarrow> f j \<noteq> None"
proof -
  assume f: "striped f c" and k: "f k \<noteq> None" and jk: "j \<le> k"
  from k obtain d where d: "f k = Some d" by blast
  show ?thesis
  proof (cases "j = k")
    case False
    with jk have "j * OBJ_SIZE < k * OBJ_SIZE" by simp
    with striped_block [OF f d] show ?thesis by (metis f less_le_trans striped_present)
  qed (use k in simp)
qed

text \<open>No block is missing below an existing one, from index \<open>i\<close> on.\<close>

definition gapless_from :: "nat \<Rightarrow> (nat \<Rightarrow> byte list option) \<Rightarrow> bool" where
  "gapless_from i f \<longleftrightarrow> (\<forall>j k. i \<le> j \<longrightarrow> j \<le> k \<longrightarrow> f j = None \<longrightarrow> f k = None)"

lemma striped_gapless: "striped f c \<Longrightarrow> gapless_from i f"
  unfolding gapless_from_def using striped_downward by blast

lemma gapless_from_None: "gapless_from i f \<Longrightarrow> f i = None \<Longrightarrow> i \<le> j \<Longrightarrow> f j = None"
  unfolding gapless_from_def by (elim allE [of _ i] allE [of _ j]) simp

lemma gapless_from_Suc: "gapless_from i f \<Longrightarrow> gapless_from (Suc i) (f(i := x))"
  unfolding gapless_from_def by (metis Suc_leD Suc_n_not_le_n fun_upd_other le_trans)

lemma striped_bounded: "striped f c \<Longrightarrow> length c < j * OBJ_SIZE \<Longrightarrow> f j = None"
  by (metis not_le option.exhaust striped_block)

lemma striped_unique: "striped f c \<Longrightarrow> striped f c' \<Longrightarrow> c = c'"
proof (rule nth_equalityI)
  assume c: "striped f c" and c': "striped f c'"
  have le: "length a \<le> length b" if a: "striped f a" and b: "striped f b" for a b
  proof (rule ccontr)
    assume "\<not> length a \<le> length b"
    then have lt: "length b < length a" by simp
    define i where "i = length b div OBJ_SIZE"
    have bi: "i * OBJ_SIZE \<le> length b" by (simp add: i_def)
    with lt a have "f i \<noteq> None" by (metis le_less_trans striped_present)
    then obtain d where d: "f i = Some d" by blast
    have "length b < i * OBJ_SIZE + OBJ_SIZE"
      using next_bound_gt [of "length b"] by (simp add: next_bound_eq i_def)
    moreover have "min OBJ_SIZE (length a - i * OBJ_SIZE) = min OBJ_SIZE (length b - i * OBJ_SIZE)"
      using striped_block [OF a d] striped_block [OF b d] by (metis length_drop length_take min.commute)
    ultimately show False using lt bi by linarith
  qed
  show len: "length c = length c'" using le c c' by (meson le_antisym)
  fix p
  assume p: "p < length c"
  define i where "i = p div OBJ_SIZE"
  have pi: "p = i * OBJ_SIZE + p mod OBJ_SIZE" by (simp add: i_def)
  have "i * OBJ_SIZE \<le> p" by (simp add: i_def)
  with p c have "f i \<noteq> None" by (metis le_less_trans striped_present)
  then obtain d where d: "f i = Some d" by blast
  have m: "p mod OBJ_SIZE < OBJ_SIZE" by simp
  have at: "x ! p = d ! (p mod OBJ_SIZE)" if x: "striped f x" for x
  proof -
    have "d ! (p mod OBJ_SIZE) = drop (i * OBJ_SIZE) x ! (p mod OBJ_SIZE)"
      using striped_block [OF x d] m by simp
    also have "\<dots> = x ! (i * OBJ_SIZE + p mod OBJ_SIZE)"
      using striped_block [OF x d] by simp
    finally show ?thesis using pi by simp
  qed
  from at [OF c] at [OF c'] show "c ! p = c' ! p" by simp
qed

text \<open>A cut: the block that holds the new end is shortened and the ones after it go.\<close>

lemma striped_cut:
  assumes f: "striped f c" and off: "off \<le> length c" and d: "f (off div OBJ_SIZE) = Some d"
  shows "striped (\<lambda>j. if Suc (off div OBJ_SIZE) \<le> j then None
           else (f(off div OBJ_SIZE \<mapsto> obj_trunc d (off mod OBJ_SIZE))) j) (take off c)"
proof -
  let ?i = "off div OBJ_SIZE"
  have eq: "off = ?i * OBJ_SIZE + off mod OBJ_SIZE" by simp
  have m: "off mod OBJ_SIZE < OBJ_SIZE" by simp
  have "obj_trunc d (off mod OBJ_SIZE) = take (off mod OBJ_SIZE) (drop (?i * OBJ_SIZE) c)"
  proof -
    have "length d = min OBJ_SIZE (length c - ?i * OBJ_SIZE)" "?i * OBJ_SIZE \<le> length c"
      using striped_block [OF f d] by (simp_all add: min.commute)
    then have "off mod OBJ_SIZE \<le> length d" using off eq m by linarith
    with striped_block [OF f d] m show ?thesis by (simp add: obj_trunc_def min.absorb1)
  qed
  also have "\<dots> = take OBJ_SIZE (drop (?i * OBJ_SIZE) (take off c))"
  proof -
    have "off - ?i * OBJ_SIZE = off mod OBJ_SIZE" by (simp add: minus_div_mult_eq_mod)
    with m show ?thesis by (simp only: drop_take take_take) (simp add: min.absorb2)
  qed
  finally have cut: "obj_trunc d (off mod OBJ_SIZE) = take OBJ_SIZE (drop (?i * OBJ_SIZE) (take off c))" .
  show ?thesis unfolding striped_def
  proof
    fix j
    consider "j = ?i" | "Suc ?i \<le> j" | "Suc j \<le> ?i" by linarith
    then show "(if Suc ?i \<le> j then None else (f(?i \<mapsto> obj_trunc d (off mod OBJ_SIZE))) j)
          = Some (take OBJ_SIZE (drop (j * OBJ_SIZE) (take off c))) \<and> j * OBJ_SIZE \<le> length (take off c) \<or>
        (if Suc ?i \<le> j then None else (f(?i \<mapsto> obj_trunc d (off mod OBJ_SIZE))) j) = None \<and>
          length (take off c) \<le> j * OBJ_SIZE"
    proof cases
      case 1
      then show ?thesis using cut off by simp
    next
      case 2
      then have "Suc ?i * OBJ_SIZE \<le> j * OBJ_SIZE" by (intro mult_le_mono1)
      moreover have "Suc ?i * OBJ_SIZE = ?i * OBJ_SIZE + OBJ_SIZE" by simp
      ultimately have "off \<le> j * OBJ_SIZE" using eq m by linarith
      with 2 show ?thesis by simp
    next
      case 3
      then have "Suc j * OBJ_SIZE \<le> ?i * OBJ_SIZE" by (intro mult_le_mono1)
      moreover have "Suc j * OBJ_SIZE = j * OBJ_SIZE + OBJ_SIZE" by simp
      ultimately have le: "j * OBJ_SIZE + OBJ_SIZE \<le> off" using eq by linarith
      then have "j * OBJ_SIZE < length c" using off OBJ_SIZE_pos by linarith
      then obtain e where e: "f j = Some e" using striped_present [OF f] by blast
      have "take OBJ_SIZE (drop (j * OBJ_SIZE) (take off c)) = take OBJ_SIZE (drop (j * OBJ_SIZE) c)"
        using le by (simp add: drop_take min.absorb1)
      then show ?thesis using 3 striped_block [OF f e] e le off by simp
    qed
  qed
qed

text \<open>One chunk of a write that starts inside the contents or right at their end.\<close>

lemma striped_chunk:
  assumes f: "striped f c" and cur: "cur \<le> length c" and ch: "0 < length ch"
    and fits: "cur mod OBJ_SIZE + length ch \<le> OBJ_SIZE"
  shows "striped (f(cur div OBJ_SIZE \<mapsto> obj_write (f (cur div OBJ_SIZE)) (cur mod OBJ_SIZE) ch))
           (overwrite c cur ch)"
proof -
  define i o' where "i = cur div OBJ_SIZE" and "o' = cur mod OBJ_SIZE"
  define B where "B = take OBJ_SIZE (drop (i * OBJ_SIZE) c)"
  have cur_eq: "cur = i * OBJ_SIZE + o'" by (simp add: i_def o'_def)
  have o'_lt: "o' < OBJ_SIZE" by (simp add: o'_def)
  have new: "obj_write (f i) o' ch = take o' B @ ch @ drop (o' + length ch) B"
  proof (cases "f i")
    case None
    with striped_missing [OF f None] cur cur_eq have "o' = 0" "B = []" by (auto simp: B_def)
    with None show ?thesis by (simp add: obj_write_def)
  next
    case (Some d)
    with striped_block [OF f Some] have "d = B" by (simp add: B_def)
    moreover have "o' \<le> length B" using cur cur_eq o'_lt by (simp add: B_def)
    ultimately show ?thesis using Some by (simp add: obj_write_def)
  qed
  have take_cur: "take cur c = take (i * OBJ_SIZE) c @ take o' (drop (i * OBJ_SIZE) c)"
    by (simp add: cur_eq take_add)
  have lens: "length (take (i * OBJ_SIZE) c) = i * OBJ_SIZE" "length (take o' (drop (i * OBJ_SIZE) c)) = o'"
    using cur cur_eq by simp_all
  have fits': "o' + length ch \<le> OBJ_SIZE" using fits by (simp add: o'_def)
  have "drop (i * OBJ_SIZE) (overwrite c cur ch) = take o' (drop (i * OBJ_SIZE) c) @ ch @ drop (cur + length ch) c"
    using lens(1) by (simp add: overwrite_def take_cur)
  then have "take OBJ_SIZE (drop (i * OBJ_SIZE) (overwrite c cur ch)) =
      take o' (drop (i * OBJ_SIZE) c) @ ch @ take (OBJ_SIZE - (o' + length ch)) (drop (cur + length ch) c)"
    using lens(2) fits' by simp
  moreover have "take o' B = take o' (drop (i * OBJ_SIZE) c)"
    using o'_lt by (simp add: B_def min.absorb1)
  moreover have "drop (o' + length ch) B = take (OBJ_SIZE - (o' + length ch)) (drop (cur + length ch) c)"
    by (simp add: B_def drop_take cur_eq ac_simps)
  ultimately have blk: "take OBJ_SIZE (drop (i * OBJ_SIZE) (overwrite c cur ch)) =
      take o' B @ ch @ drop (o' + length ch) B"
    by simp
  have len: "length (overwrite c cur ch) = max (length c) (cur + length ch)"
    using cur by simp
  show ?thesis
    unfolding striped_def i_def [symmetric] o'_def [symmetric]
  proof
    fix j
    show "(f(i \<mapsto> obj_write (f i) o' ch)) j
            = Some (take OBJ_SIZE (drop (j * OBJ_SIZE) (overwrite c cur ch))) \<and>
          j * OBJ_SIZE \<le> length (overwrite c cur ch) \<or>
          (f(i \<mapsto> obj_write (f i) o' ch)) j = None \<and> length (overwrite c cur ch) \<le> j * OBJ_SIZE"
    proof (cases j i rule: linorder_cases)
      case equal
      then show ?thesis using new blk len cur cur_eq by simp
    next
      case less
      then have "Suc j * OBJ_SIZE \<le> i * OBJ_SIZE" by (simp del: mult_Suc)
      then have below: "j * OBJ_SIZE + OBJ_SIZE \<le> cur" using cur_eq by simp
      then have "take OBJ_SIZE (drop (j * OBJ_SIZE) (overwrite c cur ch)) = take OBJ_SIZE (drop (j * OBJ_SIZE) c)"
      proof -
        have "drop (j * OBJ_SIZE) (overwrite c cur ch) =
            drop (j * OBJ_SIZE) (take cur c) @ ch @ drop (cur + length ch) c"
          using below cur by (simp add: overwrite_def)
        moreover have "OBJ_SIZE \<le> length (drop (j * OBJ_SIZE) (take cur c))"
          using below cur by simp
        ultimately show ?thesis using below by (simp add: drop_take min.absorb1)
      qed
      moreover have "f j \<noteq> None" using striped_present [OF f] below cur OBJ_SIZE_pos
        by (metis add_leD1 le_trans less_add_same_cancel1 less_le_trans)
      moreover from this have "f j = Some (take OBJ_SIZE (drop (j * OBJ_SIZE) c)) \<and> j * OBJ_SIZE \<le> length c"
        using striped_block [OF f, of j] by auto
      ultimately show ?thesis using less len by (simp add: le_max_iff_disj)
    next
      case greater
      then have "Suc i * OBJ_SIZE \<le> j * OBJ_SIZE" by (simp del: mult_Suc)
      then have above: "cur + length ch \<le> j * OBJ_SIZE" using cur_eq fits o'_def by simp
      then have "drop (j * OBJ_SIZE) (overwrite c cur ch) = drop (j * OBJ_SIZE) c"
        using cur by (simp add: overwrite_def)
      with striped_block [OF f, of j] striped_missing [OF f, of j] greater len above show ?thesis
        by (cases "f j") (auto simp: le_max_iff_disj)
    qed
  qed
qed

lemma next_bound_minus: "next_bound c - c = OBJ_SIZE - c mod OBJ_SIZE"
proof -
  have "next_bound c - c = (c div OBJ_SIZE * OBJ_SIZE + OBJ_SIZE) - (c div OBJ_SIZE * OBJ_SIZE + c mod OBJ_SIZE)"
    by (simp add: next_bound_eq)
  then show ?thesis by (simp only: diff_cancel)
qed

lemma sub_len_pos: "cursor < stop \<Longrightarrow> 0 < sub_len cursor stop"
  by (simp add: sub_len_def)

lemma sub_len_fits: "cursor mod OBJ_SIZE + sub_len cursor stop \<le> OBJ_SIZE"
proof -
  have "cursor mod OBJ_SIZE < OBJ_SIZE" by simp
  then show ?thesis unfolding sub_len_def next_bound_minus by linarith
qed

lemma sub_len_rest: "cursor < stop \<Longrightarrow> stop - cursor = sub_len cursor stop + (stop - next_bound cursor)"
  using next_bound_gt [of cursor] unfolding sub_len_def by linarith

lemma sub_len_next: "next_bound cursor < stop \<Longrightarrow> cursor + sub_len cursor stop = next_bound cursor"
  using next_bound_gt [of cursor] unfolding sub_len_def by linarith

section \<open>Pools\<close>

lemma frame_refl [simp]: "frame objs cat key s s"
  by (simp add: frame_def)

lemma frame_trans: "frame objs cat key s s' \<Longrightarrow> frame objs cat key s' s'' \<Longrightarrow> frame objs cat key s s''"
  by (simp add: frame_def)

lemma frame_blocks: "frame objs cat key s s' \<Longrightarrow> (cat', key') \<noteq> (cat, key) \<Longrightarrow>
    blocks objs s' cat' key' = blocks objs s cat' key'"
  by (auto simp: frame_def blocks_def)

lemma frame_stores: "frame objs cat key s s' \<Longrightarrow> (cat', key') \<noteq> (cat, key) \<Longrightarrow>
    stores objs s' cat' key' c = stores objs s cat' key' c"
  by (simp add: stores_def frame_blocks)

lemma frame_present: "frame objs cat key s s' \<Longrightarrow> (cat', key') \<noteq> (cat, key) \<Longrightarrow>
    present objs s' cat' key' = present objs s cat' key'"
  by (simp add: present_def frame_blocks)

lemma blocks_upd:
  "objs s' = (objs s)(get_prefix cat @ key @ get_postfix i := x) \<Longrightarrow>
    blocks objs s' cat key = (blocks objs s cat key)(i := x)"
  by (rule ext) (simp add: blocks_def)

lemma frame_upd:
  "objs s' = (objs s)(get_prefix cat @ key @ get_postfix i := x) \<Longrightarrow> frame objs cat key s s'"
  by (simp add: frame_def)

lemma stores_unique: "stores objs s cat key c \<Longrightarrow> stores objs s cat key c' \<Longrightarrow> c = c'"
  by (auto simp: stores_def intro: striped_unique)

lemma stores_absent: "stores objs s cat key c \<Longrightarrow> \<not> present objs s cat key \<Longrightarrow> c = []"
  using striped_missing [of "blocks objs s cat key" c 0] by (simp add: stores_def present_def)

text \<open>
  Sequences of operations: the logical objects outside a set keep their blocks, and every logical
  object of a sound pool is striped.
\<close>

definition unchanged ::
  "('s \<Rightarrow> string \<Rightarrow> byte list option) \<Rightarrow> (obj_category \<times> string) set \<Rightarrow> 's \<Rightarrow> 's \<Rightarrow> bool" where
  "unchanged objs K s s' \<longleftrightarrow>
     (\<forall>cat key. (cat, key) \<notin> K \<longrightarrow> blocks objs s' cat key = blocks objs s cat key)"

definition sound :: "('s \<Rightarrow> string \<Rightarrow> byte list option) \<Rightarrow> 's \<Rightarrow> bool" where
  "sound objs s \<longleftrightarrow> (\<forall>cat key. \<exists>c. stores objs s cat key c)"

lemma frame_unchanged: "frame objs cat key s s' \<Longrightarrow> unchanged objs {(cat, key)} s s'"
  by (simp add: unchanged_def frame_blocks)

lemma unchanged_refl [simp]: "unchanged objs K s s"
  by (simp add: unchanged_def)

lemma unchanged_trans: "unchanged objs K s s' \<Longrightarrow> unchanged objs K' s' s'' \<Longrightarrow> unchanged objs (K \<union> K') s s''"
  by (simp add: unchanged_def)

lemma unchanged_mono: "unchanged objs K s s' \<Longrightarrow> K \<subseteq> K' \<Longrightarrow> unchanged objs K' s s'"
  by (auto simp: unchanged_def)

lemma unchanged_stores:
  "unchanged objs K s s' \<Longrightarrow> (cat, key) \<notin> K \<Longrightarrow> stores objs s' cat key c = stores objs s cat key c"
  by (simp add: stores_def unchanged_def)

lemma sound_step:
  assumes "sound objs s" and "stores objs s' cat key c" and "frame objs cat key s s'"
  shows "sound objs s'"
  unfolding sound_def
proof (intro allI)
  fix cat' key'
  obtain c' where c': "stores objs s cat' key' c'" using assms(1) unfolding sound_def by blast
  show "\<exists>c. stores objs s' cat' key' c"
    using assms(2) c' frame_stores [OF assms(3), of cat' key' c'] by (cases "(cat', key') = (cat, key)") auto
qed

section \<open>Below the largest offset\<close>

text \<open>
  The same loops on natural numbers, without overflow.  They are the loops of the code when the range ends at or
  below \<open>MAX_OFFSET\<close>, the last stripe boundary that an \<^verbatim>\<open>off_t\<close> can hold.
\<close>

definition MAX_OFFSET :: nat where
  "MAX_OFFSET = 2 ^ 63 - OBJ_SIZE"

function zero_blocks :: "'s extern \<Rightarrow> string \<Rightarrow> byte list \<Rightarrow> nat \<Rightarrow> nat \<Rightarrow> ('s, unit) st" where
  "zero_blocks L p_key zeros cursor stop s =
     (if cursor < stop then
        (case write_obj L (p_key @ get_postfix (obj_num_of cursor)) zeros
                (sub_len cursor stop) (block_off cursor) s of
           (Inl e, s') \<Rightarrow> (Inl e, s')
         | (Inr _, s') \<Rightarrow> zero_blocks L p_key zeros (next_bound cursor) stop s')
      else (Inr (), s))"
  by pat_completeness auto
termination
  by (relation "measure (\<lambda>(L, p_key, zeros, cursor, stop, s). stop - cursor)")
    (auto intro: diff_less_mono2)

function read_blocks ::
  "'s extern \<Rightarrow> 's \<Rightarrow> string \<Rightarrow> nat \<Rightarrow> nat \<Rightarrow> byte list \<Rightarrow> byte list result" where
  "read_blocks L s p_key cursor stop value =
     (if cursor < stop then
        (case read_obj L s (p_key @ get_postfix (obj_num_of cursor))
                (sub_len cursor stop) (block_off cursor) of
           Inl (No_such_object _) \<Rightarrow> Inl (No_such_object value)
         | Inl e \<Rightarrow> Inl e
         | Inr bl \<Rightarrow> read_blocks L s p_key (next_bound cursor) stop (value @ bl))
      else Inr value)"
  by pat_completeness auto
termination
  by (relation "measure (\<lambda>(L, s, p_key, cursor, stop, value). stop - cursor)")
    (auto intro: diff_less_mono2)

function write_blocks ::
  "'s extern \<Rightarrow> string \<Rightarrow> byte list \<Rightarrow> nat \<Rightarrow> nat \<Rightarrow> nat \<Rightarrow> ('s, nat) st" where
  "write_blocks L p_key value cursor stop written s =
     (if cursor < stop then
        (case write_obj L (p_key @ get_postfix (obj_num_of cursor)) (drop written value)
                (sub_len cursor stop) (block_off cursor) s of
           (Inl e, s') \<Rightarrow> (Inl e, s')
         | (Inr n, s') \<Rightarrow> write_blocks L p_key value (next_bound cursor) stop (written + n) s')
      else (Inr written, s))"
  by pat_completeness auto
termination
  by (relation "measure (\<lambda>(L, p_key, value, cursor, stop, sum, s). stop - cursor)")
    (auto intro: diff_less_mono2)

declare zero_blocks.simps [simp del] read_blocks.simps [simp del] write_blocks.simps [simp del]

lemma MAX_OFFSET_ge [simp]: "n < 2 ^ 62 \<Longrightarrow> n \<le> MAX_OFFSET" "OBJ_SIZE \<le> MAX_OFFSET"
  by (simp_all add: MAX_OFFSET_def OBJ_SIZE_def)

lemma MAX_OFFSET_obj: "n \<le> OBJ_SIZE \<Longrightarrow> n \<le> MAX_OFFSET"
  by (simp add: MAX_OFFSET_def OBJ_SIZE_def)

lemma MAX_OFFSET_less: "n \<le> MAX_OFFSET \<Longrightarrow> n < 2 ^ 63"
  by (simp add: MAX_OFFSET_def OBJ_SIZE_def)

lemma off_t_small [simp]: "n \<le> MAX_OFFSET \<Longrightarrow> off_t n = int n"
  unfolding off_t_def by (rule signed_take_bit_int_eq_self) (auto simp: MAX_OFFSET_def OBJ_SIZE_def)

lemma off_t_negative: "2 ^ 63 \<le> n \<Longrightarrow> n < 2 ^ 64 \<Longrightarrow> off_t n < 0"
proof -
  assume n: "2 ^ 63 \<le> n" "n < 2 ^ 64"
  then have "n div 2 ^ 63 = 1" by (simp add: div_nat_eqI)
  then have "bit n 63" by (simp add: bit_iff_odd)
  then show "off_t n < 0" by (simp add: off_t_def bit_of_nat_iff)
qed

lemma int_block_start: "int c AND OBJ_MASK = int (block_start c)"
  by (simp add: block_start_def OBJ_MASK_eq)

lemma off_arith:
  assumes "cursor < stop" and "stop \<le> MAX_OFFSET"
  shows "off_obj_num (int cursor) = obj_num_of cursor" and "off_next_bound (int cursor) = int (next_bound cursor)"
    and "off_block_off (int cursor) = block_off cursor" and "off_sub_len (int cursor) (int stop) = sub_len cursor stop"
    and "\<not> off_overflow (int cursor) (int stop)"
proof -
  show n: "off_next_bound (int cursor) = int (next_bound cursor)"
    by (simp add: off_next_bound_def int_block_start next_bound_def)
  show "off_obj_num (int cursor) = obj_num_of cursor"
  proof -
    have "obj_num_of cursor \<le> cursor" by (simp add: obj_num_of_eq)
    then have "obj_num_of cursor < 2 ^ 64" using assms by (simp add: MAX_OFFSET_def OBJ_SIZE_def)
    then have "take_bit 64 (obj_num_of cursor) = obj_num_of cursor" by (rule take_bit_nat_eq_self)
    then have "take_bit 64 (int (obj_num_of cursor)) = int (obj_num_of cursor)" by (metis of_nat_take_bit)
    moreover have "drop_bit OBJ_BITS (int cursor) = int (obj_num_of cursor)" by (simp add: obj_num_of_def of_nat_drop_bit)
    ultimately show ?thesis by (simp add: off_obj_num_def)
  qed
  show "off_block_off (int cursor) = block_off cursor" by (simp add: off_block_off_def block_off_def)
  show "off_sub_len (int cursor) (int stop) = sub_len cursor stop"
    using assms(1) next_bound_gt [of cursor] by (simp add: off_sub_len_def n sub_len_def min_def) linarith
  have "next_bound cursor \<le> MAX_OFFSET"
  proof -
    have "cursor div OBJ_SIZE < MAX_OFFSET div OBJ_SIZE"
    proof -
      have "MAX_OFFSET = (MAX_OFFSET div OBJ_SIZE) * OBJ_SIZE" by (simp add: MAX_OFFSET_def OBJ_SIZE_def)
      then show ?thesis using assms by (metis less_le_trans less_mult_imp_div_less)
    qed
    then have "(cursor div OBJ_SIZE + 1) * OBJ_SIZE \<le> (MAX_OFFSET div OBJ_SIZE) * OBJ_SIZE" by (intro mult_le_mono1) simp
    then show ?thesis by (simp add: next_bound_eq MAX_OFFSET_def OBJ_SIZE_def)
  qed
  then show "\<not> off_overflow (int cursor) (int stop)"
    using assms by (simp add: off_overflow_def n MAX_OFFSET_def OBJ_SIZE_def)
qed

lemma zerofill_loop_blocks:
  "stop \<le> MAX_OFFSET \<Longrightarrow> zerofill_loop L p_key zeros (int cursor) (int stop) s = zero_blocks L p_key zeros cursor stop s"
  by (induction L p_key zeros cursor stop s rule: zero_blocks.induct)
    (subst zerofill_loop.simps, subst zero_blocks.simps, simp add: off_arith split: prod.split sum.split)

lemma read_loop_blocks:
  "stop \<le> MAX_OFFSET \<Longrightarrow> read_loop L s p_key (int cursor) (int stop) v = read_blocks L s p_key cursor stop v"
  by (induction L s p_key cursor stop v rule: read_blocks.induct)
    (subst read_loop.simps, subst read_blocks.simps, simp add: off_arith split: sum.split exn.split)

lemma write_loop_blocks:
  "stop \<le> MAX_OFFSET \<Longrightarrow> write_loop L p_key v (int cursor) (int stop) written s = write_blocks L p_key v cursor stop written s"
  by (induction L p_key v cursor stop written s rule: write_blocks.induct)
    (subst write_loop.simps, subst write_blocks.simps, simp add: off_arith split: prod.split sum.split)

lemma rados_read_blocks:
  "off + len \<le> MAX_OFFSET \<Longrightarrow> rados_read L s cat key len off = read_blocks L s (get_prefix cat @ key) off (off + len) []"
  using read_loop_blocks [of "off + len" L s "get_prefix cat @ key" off "[]"] by (simp add: rados_read_def)

lemma zerofill_blocks:
  "off + len \<le> MAX_OFFSET \<Longrightarrow> zerofill L cat key len off s =
     zero_blocks L (get_prefix cat @ key) (replicate (min len OBJ_SIZE) 0) off (off + len) s"
  using zerofill_loop_blocks [of "off + len" L "get_prefix cat @ key" _ off s] by (simp add: zerofill_def)

section \<open>Operations on a healthy pool\<close>

context librados_healthy
begin

lemma read_obj_present:
  assumes "objs s k = Some d"
  shows "read_obj L s k len off = Inr (take len (drop off d))"
proof -
  obtain ret bl where r: "lr_read L s k len off = (ret, bl)" by fastforce
  with read_healthy [of s k len off] assms have "0 \<le> ret" by simp
  with r show ?thesis by (simp add: read_obj_def read_ok [OF r _ assms])
qed

lemma read_obj_absent:
  assumes "objs s k = None"
  shows "read_obj L s k len off = Inl (No_such_object [])"
proof -
  obtain ret bl where r: "lr_read L s k len off = (ret, bl)" by fastforce
  with read_ENOENT [of s k len off] assms have "ret = - ENOENT" by simp
  with r show ?thesis by (simp add: read_obj_def ENOENT_def)
qed

lemma write_obj_ok:
  obtains s' where "write_obj L k v len off s = (Inr len, s')"
    and "objs s' = (objs s)(k \<mapsto> obj_write (objs s k) off (take len v))"
proof -
  obtain ret s' where r: "lr_write L s k (take len v) off = (ret, s')" by fastforce
  with write_healthy [of s k "take len v" off] have "0 \<le> ret" by simp
  with r that show thesis by (simp add: write_obj_def write_ok [OF r])
qed

lemma stat_present: "objs s k = Some d \<Longrightarrow> \<exists>ret. 0 \<le> ret \<and> lr_stat L s k = (ret, length d)"
  using stat_healthy [of s k] stat_ok [of s k] by (metis option.distinct(1) prod.collapse)

lemma stat_absent: "objs s k = None \<Longrightarrow> \<exists>n. lr_stat L s k = (- ENOENT, n)"
  using stat_ENOENT [of s k] by (metis prod.collapse)

lemma write_chunk:
  assumes st: "stores objs s cat key c" and cur: "cur \<le> length c" and lt: "cur < stop"
    and v: "sub_len cur stop \<le> length v"
  obtains s' where
    "write_obj L (get_prefix cat @ key @ get_postfix (obj_num_of cur)) v (sub_len cur stop) (block_off cur) s
       = (Inr (sub_len cur stop), s')"
    and "stores objs s' cat key (overwrite c cur (take (sub_len cur stop) v))"
    and "frame objs cat key s s'"
proof -
  let ?k = "get_prefix cat @ key @ get_postfix (cur div OBJ_SIZE)"
  obtain s' where w: "write_obj L ?k v (sub_len cur stop) (cur mod OBJ_SIZE) s = (Inr (sub_len cur stop), s')"
    and o: "objs s' = (objs s)(?k \<mapsto> obj_write (objs s ?k) (cur mod OBJ_SIZE) (take (sub_len cur stop) v))"
    by (rule write_obj_ok)
  have "striped ((blocks objs s cat key)(cur div OBJ_SIZE \<mapsto>
      obj_write (blocks objs s cat key (cur div OBJ_SIZE)) (cur mod OBJ_SIZE) (take (sub_len cur stop) v)))
      (overwrite c cur (take (sub_len cur stop) v))"
    using st cur v sub_len_pos [OF lt] sub_len_fits [of cur stop]
    by (intro striped_chunk) (auto simp: stores_def)
  then have "stores objs s' cat key (overwrite c cur (take (sub_len cur stop) v))"
    using blocks_upd [OF o] by (simp add: stores_def blocks_def)
  with w frame_upd [OF o] that show thesis by (simp add: obj_num_of_eq block_off_eq)
qed

lemma write_blocks_ok:
  assumes "stores objs s cat key c" and "cur \<le> length c" and "cur \<le> stop"
    and "written + (stop - cur) \<le> length value"
  shows "\<exists>s'. write_blocks L (get_prefix cat @ key) value cur stop written s = (Inr (written + (stop - cur)), s') \<and>
    stores objs s' cat key (overwrite c cur (take (stop - cur) (drop written value))) \<and>
    frame objs cat key s s'"
  using assms
proof (induction "stop - cur" arbitrary: cur written s c rule: less_induct)
  case less
  show ?case
  proof (cases "cur < stop")
    case False
    with less.prems show ?thesis by (simp add: write_blocks.simps)
  next
    case True
    let ?n = "sub_len cur stop"
    let ?d = "take ?n (drop written value)"
    have rest: "stop - cur = ?n + (stop - next_bound cur)" by (rule sub_len_rest [OF True])
    have v: "?n \<le> length (drop written value)" using less.prems rest by simp
    obtain s1 where w: "write_obj L (get_prefix cat @ key @ get_postfix (obj_num_of cur)) (drop written value)
          ?n (block_off cur) s = (Inr ?n, s1)"
      and st1: "stores objs s1 cat key (overwrite c cur ?d)" and fr1: "frame objs cat key s s1"
      by (rule write_chunk [OF less.prems(1,2) True v])
    have step: "write_blocks L (get_prefix cat @ key) value cur stop written s =
        write_blocks L (get_prefix cat @ key) value (next_bound cur) stop (written + ?n) s1"
      using True w by (subst write_blocks.simps) simp
    have d: "length ?d = ?n" using v by simp
    show ?thesis
    proof (cases "next_bound cur < stop")
      case False
      then have "?n = stop - cur" using rest by simp
      with False step st1 fr1 show ?thesis by (simp add: write_blocks.simps [of _ _ _ "next_bound cur"])
    next
      case nb: True
      have nxt: "cur + ?n = next_bound cur" by (rule sub_len_next [OF nb])
      have "\<exists>s'. write_blocks L (get_prefix cat @ key) value (next_bound cur) stop (written + ?n) s1 =
            (Inr (written + ?n + (stop - next_bound cur)), s') \<and>
          stores objs s' cat key (overwrite (overwrite c cur ?d) (next_bound cur)
            (take (stop - next_bound cur) (drop (written + ?n) value))) \<and> frame objs cat key s1 s'"
        using st1 less.prems nb nxt d rest next_bound_gt [of cur]
        by (intro less.hyps) (auto simp del: next_bound_gt)
      moreover have "overwrite (overwrite c cur ?d) (next_bound cur) (take (stop - next_bound cur) (drop (written + ?n) value))
          = overwrite c cur (take (stop - cur) (drop written value))"
        using overwrite_append [OF less.prems(2), of ?d] d
        by (simp add: nxt [symmetric] rest take_add add.commute [of _ written] drop_drop)
      ultimately show ?thesis using step fr1 rest by (auto intro: frame_trans simp: add.assoc)
    qed
  qed
qed

lemma zerofill_as_write:
  assumes "min (stop - cur) OBJ_SIZE \<le> m" and "written + (stop - cur) \<le> n"
  shows "zero_blocks L p_key (replicate m 0) cur stop s =
    (case write_blocks L p_key (replicate n 0) cur stop written s of (r, s') \<Rightarrow> (map_sum id (\<lambda>_. ()) r, s'))"
  using assms
proof (induction "stop - cur" arbitrary: cur written s rule: less_induct)
  case less
  show ?case
  proof (cases "cur < stop")
    case False
    then show ?thesis by (simp add: zero_blocks.simps write_blocks.simps)
  next
    case True
    let ?n = "sub_len cur stop"
    have rest: "stop - cur = ?n + (stop - next_bound cur)" by (rule sub_len_rest [OF True])
    have small: "?n \<le> min (stop - cur) OBJ_SIZE" using sub_len_fits [of cur stop] rest by simp
    have IH: "zero_blocks L p_key (replicate m 0) (next_bound cur) stop s' =
        (case write_blocks L p_key (replicate n 0) (next_bound cur) stop (written + ?n) s' of
          (r, s'') \<Rightarrow> (map_sum id (\<lambda>_. ()) r, s''))" for s'
      using less.prems True rest next_bound_gt [of cur]
      by (intro less.hyps) (auto simp del: next_bound_gt simp: min_le_iff_disj)
    have same: "take ?n (replicate m (0::byte)) = take ?n (drop written (replicate n 0))"
      using small less.prems rest by (simp add: min_def)
    show ?thesis
      using True same
      by (subst zero_blocks.simps, subst write_blocks.simps)
        (auto simp: write_obj_def IH split: prod.splits sum.splits)
  qed
qed

lemma zerofill_ok:
  assumes "stores objs s cat key c" and "length c \<le> off" and "off \<le> MAX_OFFSET"
  shows "\<exists>s'. zerofill L cat key (off - length c) (length c) s = (Inr (), s') \<and>
    stores objs s' cat key (c @ replicate (off - length c) 0) \<and> frame objs cat key s s'"
proof -
  obtain s' where
    "write_blocks L (get_prefix cat @ key) (replicate (off - length c) 0) (length c) off 0 s =
       (Inr (off - length c), s')"
    "stores objs s' cat key (overwrite c (length c) (replicate (off - length c) 0))"
    "frame objs cat key s s'"
    using write_blocks_ok [of s cat key c "length c" off 0 "replicate (off - length c) 0"] assms by auto
  with assms zerofill_as_write [of off "length c" "min (off - length c) OBJ_SIZE" 0 "off - length c"
      "get_prefix cat @ key" s]
  show ?thesis by (simp add: zerofill_blocks overwrite_end)
qed

lemma lb_file_size_loop_ok:
  assumes st: "stores objs s cat key c"
  shows "\<exists>r. lb_file_size_loop L s (get_prefix cat @ key) msg n = Inr r \<and>
    (case r of None \<Rightarrow> c = [] \<and> \<not> present objs s cat key
     | Some lb \<Rightarrow> lb = min (length c) (Suc n * OBJ_SIZE) \<and> present objs s cat key)"
proof (induction n)
  case 0
  have f: "striped (blocks objs s cat key) c" using st by (simp add: stores_def)
  show ?case
  proof (cases "blocks objs s cat key 0")
    case None
    then obtain m where "lr_stat L s (get_prefix cat @ key @ get_postfix 0) = (- ENOENT, m)"
      using stat_absent [of s] by (auto simp: blocks_def)
    with None striped_missing [OF f None] show ?thesis
      by (subst lb_file_size_loop.simps) (simp add: ENOENT_def present_def)
  next
    case (Some d)
    then obtain ret where "0 \<le> ret" "lr_stat L s (get_prefix cat @ key @ get_postfix 0) = (ret, length d)"
      using stat_present [of s] by (auto simp: blocks_def)
    with Some striped_block [OF f Some] show ?thesis
      by (subst lb_file_size_loop.simps) (simp add: present_def min.commute)
  qed
next
  case (Suc n)
  have f: "striped (blocks objs s cat key) c" using st by (simp add: stores_def)
  show ?case
  proof (cases "blocks objs s cat key (Suc n)")
    case None
    then obtain m where "lr_stat L s (get_prefix cat @ key @ get_postfix (Suc n)) = (- ENOENT, m)"
      using stat_absent [of s] by (auto simp: blocks_def)
    then have "lb_file_size_loop L s (get_prefix cat @ key) msg (Suc n) =
        lb_file_size_loop L s (get_prefix cat @ key) msg n"
      by (subst lb_file_size_loop.simps) (simp add: ENOENT_def)
    with Suc striped_missing [OF f None] show ?thesis
      by (auto split: option.splits simp: min.absorb1)
  next
    case (Some d)
    then obtain ret where r: "0 \<le> ret" "lr_stat L s (get_prefix cat @ key @ get_postfix (Suc n)) = (ret, length d)"
      using stat_present [of s] by (auto simp: blocks_def)
    have d: "d = take OBJ_SIZE (drop (Suc n * OBJ_SIZE) c)" "Suc n * OBJ_SIZE \<le> length c"
      using striped_block [OF f Some] by simp_all
    have "blocks objs s cat key 0 \<noteq> None"
      using striped_present [OF f, of 0] d(2) by (cases c) auto
    moreover have "push_bit OBJ_BITS (Suc n) + length d = min (length c) (Suc (Suc n) * OBJ_SIZE)"
      using striped_block_end [OF f Some] by (simp add: push_bit_eq_mult OBJ_SIZE_pow)
    ultimately show ?thesis using r
      by (subst lb_file_size_loop.simps) (simp add: present_def)
  qed
qed

lemma lb_file_size_cases:
  assumes "stores objs s cat key c"
  obtains "lb_file_size_loop L s (get_prefix cat @ key) msg (obj_num_of off) = Inr None"
      and "c = []" and "\<not> present objs s cat key"
  | "lb_file_size_loop L s (get_prefix cat @ key) msg (obj_num_of off)
        = Inr (Some (min (length c) (next_bound off)))"
      and "present objs s cat key"
  using lb_file_size_loop_ok [OF assms, of msg "obj_num_of off"]
  by (auto split: option.splits simp: next_bound_eq obj_num_of_eq)

lemma rados_write_ok:
  assumes st: "stores objs s cat key c" and len: "len \<le> length value" and fits: "off + len \<le> MAX_OFFSET"
  shows "\<exists>s'. rados_write L cat key value len off s = (Inr len, s') \<and>
    stores objs s' cat key (write_spec c off (take len value)) \<and> frame objs cat key s s'"
proof -
  let ?msg = "''rados_io::write() failed (stat() failed)''"
  let ?c = "c @ replicate (off - length c) 0"
  obtain r where r: "lb_file_size_loop L s (get_prefix cat @ key) ?msg (obj_num_of off) = Inr r"
    and rc: "(case r of None \<Rightarrow> 0 | Some n \<Rightarrow> n) = min (length c) (next_bound off)"
    by (rule lb_file_size_cases [OF st, of ?msg off]) auto
  let ?lb = "case r of None \<Rightarrow> 0 | Some n \<Rightarrow> n"
  have lb: "?lb < off \<longleftrightarrow> length c < off" "?lb < off \<Longrightarrow> ?lb = length c"
    using rc next_bound_gt [of off] by linarith+
  obtain s1 where z: "(if ?lb < off then zerofill L cat key (off - ?lb) ?lb else returnE ()) s = (Inr (), s1)"
    and st1: "stores objs s1 cat key ?c" and fr1: "frame objs cat key s s1"
  proof (cases "?lb < off")
    case True
    then have "?lb = length c" "length c < off" using lb by blast+
    with that zerofill_ok [OF st, of off] fits show thesis by auto
  next
    case False
    then have "\<not> length c < off" using lb by blast
    with False that st show thesis by simp
  qed
  have "off \<le> length ?c" by simp
  then obtain s' where "write_blocks L (get_prefix cat @ key) value off (off + len) 0 s1 = (Inr len, s')"
    "stores objs s' cat key (overwrite ?c off (take len value))" "frame objs cat key s1 s'"
    using write_blocks_ok [OF st1, of off "off + len" 0 "value"] len by auto
  with r z fr1 show ?thesis
    using write_loop_blocks [OF fits, of L "get_prefix cat @ key" "value" off 0 s1] fits
    by (auto simp: rados_write_def write_spec_def Let_def intro: frame_trans)
qed

lemma read_blocks_ok:
  assumes "stores objs s cat key c" and "cur \<le> stop"
  shows "read_blocks L s (get_prefix cat @ key) cur stop acc \<in>
      {Inr (acc @ take (stop - cur) (drop cur c)), Inl (No_such_object (acc @ take (stop - cur) (drop cur c)))}
    \<and> (stop \<le> length c \<longrightarrow> isl (read_blocks L s (get_prefix cat @ key) cur stop acc) = False)"
  using assms(2)
proof (induction "stop - cur" arbitrary: cur acc rule: less_induct)
  case less
  have f: "striped (blocks objs s cat key) c" using assms(1) by (simp add: stores_def)
  show ?case
  proof (cases "cur < stop")
    case False
    with less.prems show ?thesis by (simp add: read_blocks.simps)
  next
    case True
    let ?i = "cur div OBJ_SIZE" and ?n = "sub_len cur stop"
    have cur: "cur = ?i * OBJ_SIZE + cur mod OBJ_SIZE" by simp
    have rest: "stop - cur = ?n + (stop - next_bound cur)" by (rule sub_len_rest [OF True])
    show ?thesis
    proof (cases "blocks objs s cat key ?i")
      case None
      then have "read_blocks L s (get_prefix cat @ key) cur stop acc = Inl (No_such_object acc)"
        using True by (subst read_blocks.simps)
          (simp add: read_obj_absent blocks_def obj_num_of_eq block_off_eq)
      moreover have "length c \<le> cur"
        using striped_missing [OF f None] cur by (metis le_add1 le_trans)
      ultimately show ?thesis using True by simp
    next
      case (Some d)
      have "take ?n (drop (cur mod OBJ_SIZE) d) = take ?n (drop cur c)"
      proof -
        have "?n \<le> OBJ_SIZE - cur mod OBJ_SIZE" using sub_len_fits [of cur stop] by simp
        then have "take ?n (drop (cur mod OBJ_SIZE) d) = take ?n (drop (cur mod OBJ_SIZE) (drop (?i * OBJ_SIZE) c))"
          using striped_block [OF f Some] by (simp add: drop_take min.absorb1)
        then show ?thesis using cur by (simp add: add.commute)
      qed
      then have step: "read_blocks L s (get_prefix cat @ key) cur stop acc =
          read_blocks L s (get_prefix cat @ key) (next_bound cur) stop (acc @ take ?n (drop cur c))"
        using True Some by (subst read_blocks.simps)
          (simp add: read_obj_present blocks_def obj_num_of_eq block_off_eq)
      show ?thesis
      proof (cases "next_bound cur < stop")
        case False
        then have "?n = stop - cur" using rest by simp
        with False step show ?thesis by (simp add: read_blocks.simps [of _ _ _ "next_bound cur"])
      next
        case nb: True
        have nxt: "next_bound cur = cur + ?n" using sub_len_next [OF nb] by simp
        have "take (stop - cur) (drop cur c) =
            take ?n (drop cur c) @ take (stop - next_bound cur) (drop (next_bound cur) c)"
          using rest nxt by (simp add: take_add add.commute)
        then show ?thesis
          using less.hyps [of "next_bound cur" "acc @ take ?n (drop cur c)"] step nb True
          by (simp add: diff_less_mono2)
      qed
    qed
  qed
qed

lemma rados_read_ok:
  assumes "stores objs s cat key c" and "off + len \<le> MAX_OFFSET"
  shows "rados_read L s cat key len off \<in>
      {Inr (take len (drop off c)), Inl (No_such_object (take len (drop off c)))}"
    and "off + len \<le> length c \<Longrightarrow> rados_read L s cat key len off = Inr (take len (drop off c))"
  using read_blocks_ok [OF assms(1), of off "off + len" "[]"] assms(2) by (auto simp: rados_read_blocks)

text \<open>A read depends on nothing but the blocks of its object.\<close>

lemma read_obj_cong: "objs s k = objs s' k \<Longrightarrow> read_obj L s k len off = read_obj L s' k len off"
  by (cases "objs s k"; cases "objs s' k") (simp_all add: read_obj_present read_obj_absent)

lemma read_loop_cong:
  assumes "\<And>n len off. read_obj L s (p_key @ get_postfix n) len off = read_obj L s' (p_key @ get_postfix n) len off"
  shows "read_loop L s p_key cur stop acc = read_loop L s' p_key cur stop acc"
proof (induction "nat (stop - cur)" arbitrary: cur acc rule: less_induct)
  case less
  have "nat (stop - off_next_bound cur) < nat (stop - cur)" if "cur < stop" using that by simp
  then have IH: "read_loop L s p_key (off_next_bound cur) stop x = read_loop L s' p_key (off_next_bound cur) stop x" if "cur < stop" for x
    using less that by blast
  show ?case by (subst read_loop.simps [of L s], subst read_loop.simps [of L s'])
      (simp only: assms IH cong: if_cong split: sum.split exn.split)
qed

lemma rados_read_cong:
  assumes "blocks objs s cat key = blocks objs s' cat key"
  shows "rados_read L s cat key len off = rados_read L s' cat key len off"
proof -
  have "read_obj L s ((get_prefix cat @ key) @ get_postfix n) len' off' =
      read_obj L s' ((get_prefix cat @ key) @ get_postfix n) len' off'" for n len' off'
    using fun_cong [OF assms, of n] by (intro read_obj_cong) (simp add: blocks_def)
  then show ?thesis unfolding rados_read_def by (rule read_loop_cong)
qed

lemma rados_read_empty:
  assumes "stores objs s cat key c" and "\<not> present objs s cat key" and "0 < len" and "len \<le> MAX_OFFSET"
  shows "rados_read L s cat key len 0 = Inl (No_such_object [])"
  using assms by (simp add: rados_read_blocks read_blocks.simps read_obj_absent present_def blocks_def
      obj_num_of_eq block_off_eq)

lemma rados_exist_ok: "rados_exist L s cat key = Inr (present objs s cat key)"
proof (cases "objs s (get_prefix cat @ key @ get_postfix 0)")
  case None
  with stat_absent [OF None] show ?thesis
    by (auto simp: rados_exist_def present_def blocks_def ENOENT_def)
next
  case (Some d)
  with stat_present [OF Some] show ?thesis
    by (auto simp: rados_exist_def present_def blocks_def)
qed

lemma stat_loop_ok:
  assumes st: "stores objs s cat key c" and small: "length c < 2 ^ 64"
    and "i * OBJ_SIZE \<le> length c + OBJ_SIZE" and "i \<noteq> 0 \<longrightarrow> present objs s cat key"
  shows "stat_loop L s (get_prefix cat @ key) i (min (length c) (i * OBJ_SIZE)) =
    Inr (present objs s cat key, length c)"
  using assms(3,4)
proof (induction "2 ^ 64 - i" arbitrary: i rule: less_induct)
  case less
  have f: "striped (blocks objs s cat key) c" using st by (simp add: stores_def)
  have i: "i < 2 ^ 64"
  proof (rule ccontr)
    assume "\<not> i < 2 ^ 64"
    then have "2 ^ 64 * OBJ_SIZE \<le> i * OBJ_SIZE" by simp
    with less.prems small show False by (simp add: OBJ_SIZE_def)
  qed
  show ?case
  proof (cases "blocks objs s cat key i")
    case None
    then obtain n where "lr_stat L s (get_prefix cat @ key @ get_postfix i) = (- ENOENT, n)"
      using stat_absent [of s] by (auto simp: blocks_def)
    with i less.prems striped_missing [OF f None] None show ?thesis
      by (subst stat_loop.simps) (auto simp: present_def)
  next
    case (Some d)
    then obtain ret where "0 \<le> ret" "lr_stat L s (get_prefix cat @ key @ get_postfix i) = (ret, length d)"
      using stat_present [of s] by (auto simp: blocks_def)
    then have step: "stat_loop L s (get_prefix cat @ key) i (min (length c) (i * OBJ_SIZE)) =
        stat_loop L s (get_prefix cat @ key) (Suc i) (min (length c) (i * OBJ_SIZE) + length d)"
      using i by (subst stat_loop.simps) (auto simp: ENOENT_def)
    have d: "d = take OBJ_SIZE (drop (i * OBJ_SIZE) c)" "i * OBJ_SIZE \<le> length c"
      using striped_block [OF f Some] by simp_all
    have "min (length c) (i * OBJ_SIZE) + length d = min (length c) (Suc i * OBJ_SIZE)"
      using d(2) striped_block_end [OF f Some] by (simp only: min.absorb2)
    moreover have "present objs s cat key"
      using striped_present [OF f, of 0] d(2) Some by (cases "i = 0"; cases c) (auto simp: present_def)
    ultimately show ?thesis
      using step d(2) i less.hyps [of "Suc i"] by simp
  qed
qed

lemma rados_stat_ok:
  assumes "stores objs s cat key c" and "length c < 2 ^ 64"
  shows "rados_stat L s cat key = Inr (present objs s cat key, length c)"
  using stat_loop_ok [OF assms, of 0] by (simp add: rados_stat_def)

text \<open>Both removing loops clear every block from their start on.\<close>

lemma remove_loop_ok:
  assumes "gapless_from i (blocks objs s cat key)"
    and "\<forall>j\<ge>B. blocks objs s cat key j = None" and "B < 2 ^ 64" and "i \<le> B"
  shows "\<exists>s'. remove_loop L (get_prefix cat @ key) i s = (Inr (), s') \<and>
    blocks objs s' cat key = (\<lambda>j. if i \<le> j then None else blocks objs s cat key j) \<and> frame objs cat key s s'"
  using assms
proof (induction "B - i" arbitrary: i s rule: less_induct)
  case less
  let ?k = "get_prefix cat @ key @ get_postfix i"
  obtain ret s1 where r: "lr_remove L s ?k = (ret, s1)" by fastforce
  have i: "i < 2 ^ 64" using less.prems by simp
  show ?case
  proof (cases "blocks objs s cat key i")
    case None
    then have ret: "ret = - ENOENT" using remove_ENOENT [of s ?k] r by (simp add: blocks_def)
    then have "objs s1 = objs s" using remove_ENOENT_state [of s ?k s1] r by simp
    moreover have "blocks objs s cat key j = None" if "i \<le> j" for j
      using gapless_from_None [OF less.prems(1) None that] .
    ultimately show ?thesis using r ret i
      by (subst remove_loop.simps) (auto simp: fun_eq_iff blocks_def frame_def)
  next
    case (Some d)
    then have lt: "i < B" using less.prems(2,4) by (metis le_neq_implies_less option.distinct(1) order_refl)
    have ret: "0 \<le> ret" using remove_healthy [of s ?k] r Some by (simp add: blocks_def)
    have o: "objs s1 = (objs s)(?k := None)" by (rule remove_ok [OF r ret])
    note b = blocks_upd [OF o] and fr = frame_upd [OF o]
    have step: "remove_loop L (get_prefix cat @ key) i s = remove_loop L (get_prefix cat @ key) (Suc i) s1"
      using r ret i by (subst remove_loop.simps) (simp add: ENOENT_def)
    have "\<exists>s'. remove_loop L (get_prefix cat @ key) (Suc i) s1 = (Inr (), s') \<and>
        blocks objs s' cat key = (\<lambda>j. if Suc i \<le> j then None else blocks objs s1 cat key j) \<and>
        frame objs cat key s1 s'"
      using less.prems(2-) lt b gapless_from_Suc [OF less.prems(1)] by (intro less.hyps) auto
    with step b fr show ?thesis by (auto simp: fun_eq_iff intro: frame_trans)
  qed
qed

lemma truncate_loop_ok:
  assumes "gapless_from i (blocks objs s cat key)"
    and "\<forall>j\<ge>B. blocks objs s cat key j = None" and "B < 2 ^ 64" and "i \<le> B"
  shows "\<exists>s'. truncate_loop L (get_prefix cat @ key) i s = (Inr (), s') \<and>
    blocks objs s' cat key = (\<lambda>j. if i \<le> j then None else blocks objs s cat key j) \<and> frame objs cat key s s'"
  using assms
proof (induction "B - i" arbitrary: i s rule: less_induct)
  case less
  let ?k = "get_prefix cat @ key @ get_postfix i"
  have i: "i < 2 ^ 64" using less.prems by simp
  show ?case
  proof (cases "blocks objs s cat key i")
    case None
    then obtain n where "lr_stat L s ?k = (- ENOENT, n)"
      using stat_absent [of s ?k] by (auto simp: blocks_def)
    moreover have "blocks objs s cat key j = None" if "i \<le> j" for j
      using gapless_from_None [OF less.prems(1) None that] .
    ultimately show ?thesis using i
      by (subst truncate_loop.simps) (auto simp: fun_eq_iff ENOENT_def)
  next
    case (Some d)
    then have lt: "i < B" using less.prems(2,4) by (metis le_neq_implies_less option.distinct(1) order_refl)
    obtain ret where st: "0 \<le> ret" "lr_stat L s ?k = (ret, length d)"
      using Some stat_present [of s ?k] by (auto simp: blocks_def)
    obtain ret' s1 where r: "lr_remove L s ?k = (ret', s1)" by fastforce
    have ret: "0 \<le> ret'" using remove_healthy [of s ?k] r Some by (simp add: blocks_def)
    have o: "objs s1 = (objs s)(?k := None)" by (rule remove_ok [OF r ret])
    note b = blocks_upd [OF o] and fr = frame_upd [OF o]
    have step: "truncate_loop L (get_prefix cat @ key) i s = truncate_loop L (get_prefix cat @ key) (Suc i) s1"
      using r st i by (subst truncate_loop.simps) simp
    have "\<exists>s'. truncate_loop L (get_prefix cat @ key) (Suc i) s1 = (Inr (), s') \<and>
        blocks objs s' cat key = (\<lambda>j. if Suc i \<le> j then None else blocks objs s1 cat key j) \<and>
        frame objs cat key s1 s'"
      using less.prems(2-) lt b gapless_from_Suc [OF less.prems(1)] by (intro less.hyps) auto
    with step b fr show ?thesis by (auto simp: fun_eq_iff intro: frame_trans)
  qed
qed

lemma striped_block_count:
  assumes "striped f c" and "length c < 2 ^ 63"
  shows "\<forall>j\<ge>Suc (Suc (length c div OBJ_SIZE)). f j = None" and "Suc (Suc (length c div OBJ_SIZE)) < 2 ^ 64"
proof -
  have "length c < (length c div OBJ_SIZE + 1) * OBJ_SIZE"
    using next_bound_gt [of "length c"] by (simp add: next_bound_eq)
  moreover have "(length c div OBJ_SIZE + 1) * OBJ_SIZE \<le> j * OBJ_SIZE" if "Suc (Suc (length c div OBJ_SIZE)) \<le> j" for j
    using that by (intro mult_le_mono1) simp
  ultimately show "\<forall>j\<ge>Suc (Suc (length c div OBJ_SIZE)). f j = None"
    using striped_bounded [OF assms(1)] by (meson less_le_trans)
  have "length c div OBJ_SIZE \<le> length c" by (rule div_le_dividend)
  moreover have "(2 :: nat) ^ 63 + 2 < 2 ^ 64" by simp
  ultimately show "Suc (Suc (length c div OBJ_SIZE)) < 2 ^ 64" using assms(2) by linarith
qed

lemma rados_remove_ok:
  assumes st: "stores objs s cat key c" and small: "length c < 2 ^ 63"
  shows "\<exists>s'. rados_remove L cat key s = (Inr (), s') \<and> stores objs s' cat key [] \<and>
    \<not> present objs s' cat key \<and> frame objs cat key s s'"
proof -
  have f: "striped (blocks objs s cat key) c" using st by (simp add: stores_def)
  obtain s' where "remove_loop L (get_prefix cat @ key) 0 s = (Inr (), s')"
    "blocks objs s' cat key = (\<lambda>j. None)" "frame objs cat key s s'"
    using remove_loop_ok [of 0 s cat key "Suc (Suc (length c div OBJ_SIZE))"]
      striped_gapless [OF f] striped_block_count [OF f small] by auto
  then show ?thesis by (simp add: rados_remove_def stores_def present_def striped_def)
qed

lemma rados_truncate_ok:
  assumes st: "stores objs s cat key c" and small: "length c < 2 ^ 63"
    and edge: "off = length c \<Longrightarrow> present objs s cat key \<Longrightarrow> blocks objs s cat key (off div OBJ_SIZE) \<noteq> None"
    and fits: "off \<le> MAX_OFFSET"
  shows "\<exists>s'. rados_truncate L cat key off s = (Inr 0, s') \<and>
    stores objs s' cat key (truncate_spec c off) \<and> frame objs cat key s s'"
proof (cases rule: lb_file_size_cases [OF st, of "''rados_io::truncate() failed (stat() failed)''" off])
  case 1
  with zerofill_ok [OF st, of off] fits show ?thesis
    by (auto simp: rados_truncate_def Let_def truncate_spec_def)
next
  case 2
  show ?thesis
  proof (cases "length c < off")
    case True
    then have "min (length c) (next_bound off) = length c" using next_bound_gt [of off] by linarith
    with 2 True zerofill_ok [OF st, of off] fits show ?thesis
      by (auto simp: rados_truncate_def Let_def truncate_spec_def)
  next
    case False
    let ?i = "off div OBJ_SIZE" and ?p = "get_prefix cat @ key"
    let ?k = "get_prefix cat @ key @ get_postfix ?i"
    have f: "striped (blocks objs s cat key) c" using st by (simp add: stores_def)
    have "?i * OBJ_SIZE \<le> off" by simp
    then have "blocks objs s cat key ?i \<noteq> None"
      using False edge 2(2) striped_present [OF f, of ?i] by (metis le_less_trans linorder_cases)
    then obtain d where d: "blocks objs s cat key ?i = Some d" by blast
    obtain s1 where t: "lr_trunc L s ?k (off mod OBJ_SIZE) = (0, s1)"
      using trunc_healthy [of s ?k] d by (metis blocks_def option.distinct(1) prod.collapse)
    have o: "objs s1 = (objs s)(?k \<mapsto> obj_trunc d (off mod OBJ_SIZE))"
      using trunc_ok [OF t] d by (simp add: blocks_def)
    note b = blocks_upd [OF o]
    have "gapless_from (Suc ?i) (blocks objs s1 cat key)"
      unfolding b by (rule gapless_from_Suc [OF striped_gapless [OF f]])
    moreover have "?i \<le> length c div OBJ_SIZE" using False by (intro div_le_mono) simp
    ultimately obtain s' where l: "truncate_loop L ?p (Suc ?i) s1 = (Inr (), s')"
      and b': "blocks objs s' cat key = (\<lambda>j. if Suc ?i \<le> j then None else blocks objs s1 cat key j)"
      and fr: "frame objs cat key s1 s'"
      using truncate_loop_ok [of "Suc ?i" s1 cat key "Suc (Suc (length c div OBJ_SIZE))"]
        striped_block_count [OF f small] b by auto
    have "stores objs s' cat key (take off c)"
      unfolding stores_def b' b by (rule striped_cut [OF f _ d]) (use False in simp)
    moreover have "rados_truncate L cat key off s = (Inr 0, s')"
    proof -
      have "off - push_bit OBJ_BITS ?i = off mod OBJ_SIZE"
        by (simp add: push_bit_eq_mult OBJ_SIZE_pow minus_div_mult_eq_mod)
      moreover have "\<not> min (length c) (next_bound off) < off"
        using False next_bound_gt [of off] by linarith
      ultimately show ?thesis using 2(1) t l
        by (simp add: rados_truncate_def Let_def truncate_obj_def obj_num_of_eq)
    qed
    ultimately show ?thesis
      using False frame_trans [OF frame_upd [OF o] fr] by (auto simp: truncate_spec_def)
  qed
qed

end

section \<open>A pool held in memory\<close>

text \<open>
  A concrete pool that keeps the objects in a map.  It satisfies the laws of both locales, so that
  the theorems above are not vacuous.
\<close>

definition mem_librados :: "(string \<rightharpoonup> byte list) extern" where
  "mem_librados =
     \<lparr>lr_read = (\<lambda>s k len off. case s k of None \<Rightarrow> (- ENOENT, [])
        | Some d \<Rightarrow> (int (length (take len (drop off d))), take len (drop off d))),
      lr_write = (\<lambda>s k bl off. (0, s(k \<mapsto> obj_write (s k) off bl))),
      lr_stat = (\<lambda>s k. case s k of None \<Rightarrow> (- ENOENT, 0) | Some d \<Rightarrow> (0, length d)),
      lr_remove = (\<lambda>s k. case s k of None \<Rightarrow> (- ENOENT, s) | Some d \<Rightarrow> (0, s(k := None))),
      lr_trunc = (\<lambda>s k n. case s k of None \<Rightarrow> (- ENOENT, s) | Some d \<Rightarrow> (0, s(k \<mapsto> obj_trunc d n))),
      uuid_to_string = (\<lambda>u. map char_of_byte (uuid_data u))\<rparr>"

lemma char_of_byte_inj: "inj char_of_byte"
  by (rule inj_on_inverseI [of _ byte_of_char]) simp

interpretation mem: librados_healthy mem_librados "\<lambda>s. s"
  by unfold_locales
    (auto simp: mem_librados_def ENOENT_def uuid_data_inject inj_map_eq_map [OF char_of_byte_inj] split: option.splits)

lemma mem_stores_empty [simp]: "stores (\<lambda>s. s) Map.empty cat key []"
  by (simp add: stores_def striped_def blocks_def)

lemma mem_present_empty [simp]: "\<not> present (\<lambda>s. s) Map.empty cat key"
  by (simp add: present_def blocks_def)

section \<open>Properties of the striped I/O layer\<close>

text \<open>
  Beyond: a negative \<^verbatim>\<open>off_t\<close> makes \<^verbatim>\<open>write\<close> read an uninitialised variable, and a length that makes the sum
  negative makes \<^verbatim>\<open>read\<close> return nothing.
\<close>

lemma rados_write_beyond: "2 ^ 63 \<le> off \<Longrightarrow> off < 2 ^ 64 \<Longrightarrow> rados_write L cat key v len off s = (Inl Undefined_behaviour, s)"
  by (simp add: rados_write_def off_t_negative Let_def)

lemma rados_read_beyond:
  assumes "off < 2 ^ 63" and "2 ^ 63 \<le> off + len" and "off + len < 2 ^ 64"
  shows "rados_read L s cat key len off = Inr []"
proof -
  have "off_t off = int off" unfolding off_t_def by (rule signed_take_bit_int_eq_self) (use assms(1) in auto)
  then show ?thesis using off_t_negative [OF assms(2,3)] by (simp add: rados_read_def read_loop.simps)
qed

text \<open>
  C6: \<^verbatim>\<open>rados_io::write\<close> refines a write to one flat byte string: on a healthy pool it succeeds,
  returns the length, extends the contents with zeros up to the offset if they are shorter, replaces
  the bytes of the range, and changes no other logical object, when the range ends at or below
  \<open>MAX_OFFSET\<close>; beyond it \<^verbatim>\<open>off_t\<close> overflows and \<open>rados_write_beyond\<close> says what the code does.
\<close>

theorem rados_write_refines:
  assumes "librados_healthy L objs" and "stores objs s cat key c" and "len \<le> length value"
    and "off + len \<le> MAX_OFFSET"
  shows "\<exists>s'. rados_write L cat key value len off s = (Inr len, s') \<and>
    stores objs s' cat key (write_spec c off (take len value)) \<and> frame objs cat key s s'"
  by (rule librados_healthy.rados_write_ok [OF assms])

theorem rados_write_refines_witness:
  "\<exists>s'. rados_write mem_librados DATA ''k'' [7, 8] 2 1 Map.empty = (Inr 2, s') \<and>
    stores (\<lambda>s. s) s' DATA ''k'' [0, 7, 8] \<and> frame (\<lambda>s. s) DATA ''k'' Map.empty s'"
  using rados_write_refines [OF mem.librados_healthy_axioms mem_stores_empty, of 2 "[7, 8]" 1 DATA "''k''"]
  by (simp add: write_spec_def overwrite_def MAX_OFFSET_def OBJ_SIZE_def)

text \<open>
  C26: \<^verbatim>\<open>rados_io::read\<close> delivers exactly the bytes of the range that exist, either as the result or
  inside the \<^verbatim>\<open>no_such_object\<close> exception when it meets the end of the stripes, and a range that lies
  inside the contents is always returned normally.  The range ends at or below \<open>MAX_OFFSET\<close>.
\<close>

theorem rados_read_refines:
  assumes "librados_healthy L objs" and "stores objs s cat key c" and "off + len \<le> MAX_OFFSET"
  shows "(rados_read L s cat key len off = Inr (take len (drop off c)) \<or>
      rados_read L s cat key len off = Inl (No_such_object (take len (drop off c)))) \<and>
    (off + len \<le> length c \<longrightarrow> rados_read L s cat key len off = Inr (take len (drop off c)))"
  using librados_healthy.rados_read_ok [OF assms] by blast

theorem rados_read_refines_witness:
  "rados_read mem_librados Map.empty DATA ''k'' 5 0 = Inr [] \<or>
   rados_read mem_librados Map.empty DATA ''k'' 5 0 = Inl (No_such_object [])"
  using rados_read_refines [OF mem.librados_healthy_axioms mem_stores_empty, of 0 5 DATA "''k''"]
  by (simp add: MAX_OFFSET_def OBJ_SIZE_def)

text \<open>
  C27: \<^verbatim>\<open>rados_io::truncate\<close> refines truncation of the flat contents: it succeeds, cuts or extends with
  zeros to exactly the given size, which is at most \<open>MAX_OFFSET\<close>, and changes no other logical object,
  provided that when the size is already the requested one the object that holds the end exists: at a
  stripe boundary it need not, and then the code truncates an object that is not there and throws.
\<close>

theorem rados_truncate_refines:
  assumes "librados_healthy L objs" and "stores objs s cat key c" and "length c < 2 ^ 63"
    and "off = length c \<Longrightarrow> present objs s cat key \<Longrightarrow> blocks objs s cat key (off div OBJ_SIZE) \<noteq> None"
    and "off \<le> MAX_OFFSET"
  shows "\<exists>s'. rados_truncate L cat key off s = (Inr 0, s') \<and>
    stores objs s' cat key (truncate_spec c off) \<and> frame objs cat key s s'"
  by (rule librados_healthy.rados_truncate_ok [OF assms])

theorem rados_truncate_refines_witness:
  "\<exists>s'. rados_truncate mem_librados DATA ''k'' 3 Map.empty = (Inr 0, s') \<and>
    stores (\<lambda>s. s) s' DATA ''k'' (replicate 3 0) \<and> frame (\<lambda>s. s) DATA ''k'' Map.empty s'"
  using rados_truncate_refines [OF mem.librados_healthy_axioms mem_stores_empty, of 3 DATA "''k''"]
  by (simp add: truncate_spec_def MAX_OFFSET_def OBJ_SIZE_def)

text \<open>
  C28: \<^verbatim>\<open>rados_io::remove\<close> ends and leaves nothing behind: afterwards \<^verbatim>\<open>exist\<close> answers false, \<^verbatim>\<open>stat\<close>
  finds no object, and every other logical object still has its contents.
\<close>

theorem rados_remove_complete:
  assumes "librados_healthy L objs" and "stores objs s cat key c" and "length c < 2 ^ 63"
  shows "\<exists>s'. rados_remove L cat key s = (Inr (), s') \<and>
    rados_exist L s' cat key = Inr False \<and> rados_stat L s' cat key = Inr (False, 0) \<and>
    (\<forall>cat' key' c'. (cat', key') \<noteq> (cat, key) \<longrightarrow>
       stores objs s' cat' key' c' = stores objs s cat' key' c')"
proof -
  obtain s' where "rados_remove L cat key s = (Inr (), s')" and st: "stores objs s' cat key []"
    and np: "\<not> present objs s' cat key" and fr: "frame objs cat key s s'"
    using librados_healthy.rados_remove_ok [OF assms] by blast
  moreover have "rados_stat L s' cat key = Inr (False, 0)"
    using librados_healthy.rados_stat_ok [OF assms(1) st] np by simp
  moreover have "rados_exist L s' cat key = Inr False"
    using librados_healthy.rados_exist_ok [OF assms(1), of s' cat key] np by simp
  ultimately show ?thesis using frame_stores [OF fr] by blast
qed

theorem rados_remove_complete_witness:
  "\<exists>s'. rados_remove mem_librados DATA ''k'' Map.empty = (Inr (), s') \<and>
    rados_exist mem_librados s' DATA ''k'' = Inr False \<and>
    rados_stat mem_librados s' DATA ''k'' = Inr (False, 0)"
  using rados_remove_complete [OF mem.librados_healthy_axioms mem_stores_empty, of DATA "''k''"] by auto

text \<open>
  \<^verbatim>\<open>rados_io::stat\<close> ends and reports whether the object exists together with the exact length of
  its contents, however many stripes hold it.
\<close>

theorem rados_stat_exact:
  assumes "librados_healthy L objs" and "stores objs s cat key c" and "length c < 2 ^ 64"
  shows "rados_stat L s cat key = Inr (present objs s cat key, length c)"
  by (rule librados_healthy.rados_stat_ok [OF assms])

theorem rados_stat_exact_witness:
  "rados_stat mem_librados Map.empty INODE ''k'' = Inr (False, 0)"
  using rados_stat_exact [OF mem.librados_healthy_axioms mem_stores_empty, of INODE "''k''"] by simp

text \<open>
  reading back a range right after writing it returns the written bytes, for any offset and
  length, across stripe boundaries.
\<close>

theorem rados_write_then_read:
  assumes "librados_healthy L objs" and "stores objs s cat key c" and "len \<le> length value" and "off + len \<le> MAX_OFFSET"
  shows "\<exists>s'. rados_write L cat key value len off s = (Inr len, s') \<and>
    rados_read L s' cat key len off = Inr (take len value)"
proof -
  obtain s' where w: "rados_write L cat key value len off s = (Inr len, s')"
    and st: "stores objs s' cat key (write_spec c off (take len value))"
    using librados_healthy.rados_write_ok [OF assms] by blast
  have "off + len \<le> length (write_spec c off (take len value))"
    using assms(3) by (simp add: write_spec_def)
  moreover have "take len (drop off (write_spec c off (take len value))) = take len value"
    using assms(3) by (simp add: write_spec_def overwrite_def)
  ultimately have "rados_read L s' cat key len off = Inr (take len value)"
    using librados_healthy.rados_read_ok(2) [OF assms(1) st assms(4)] by simp
  with w show ?thesis by blast
qed

theorem rados_write_then_read_witness:
  "\<exists>s'. rados_write mem_librados DATA ''k'' [7, 8] 2 1 Map.empty = (Inr 2, s') \<and>
    rados_read mem_librados s' DATA ''k'' 2 1 = Inr [7, 8]"
  using rados_write_then_read [OF mem.librados_healthy_axioms mem_stores_empty, of 2 "[7, 8]" 1 DATA "''k''"]
  by simp

text \<open>
  C29: the 64-bit shifts and masks of the striping loops compute the stripe number, the offset in the
  stripe and the next stripe boundary, without overflow of \<^verbatim>\<open>off_t\<close>, for every cursor at least one
  stripe below \<open>2 ^ 63\<close>.
\<close>

theorem striping_arithmetic_no_overflow:
  assumes "unat (cursor :: 64 word) + OBJ_SIZE < 2 ^ 63"
  shows "unat (drop_bit OBJ_BITS cursor) = obj_num_of (unat cursor) \<and>
    unat (cursor AND NOT obj_mask_word) = block_off (unat cursor) \<and>
    unat (next_bound_word cursor) = next_bound (unat cursor) \<and>
    obj_num_of (unat cursor) = unat cursor div OBJ_SIZE \<and> block_off (unat cursor) = unat cursor mod OBJ_SIZE \<and>
    unat (next_bound_word cursor) < 2 ^ 63"
proof -
  have "next_bound (unat cursor) \<le> unat cursor + OBJ_SIZE"
    using block_start_le [of "unat cursor"] by (simp add: next_bound_def)
  with assms show ?thesis
    by (simp add: unat_obj_num unat_block_off unat_next_bound obj_num_of_eq block_off_eq)
qed

theorem striping_arithmetic_no_overflow_witness:
  "unat (next_bound_word 5) = next_bound 5"
  using striping_arithmetic_no_overflow [of 5] by (simp add: OBJ_SIZE_def)

end
