(* ===== verification/Util_Path.thy ===== *)
theory Util_Path
  imports Nmfs_Prelude
begin

text \<open>
  Path splitting (\<^verbatim>\<open>client/util.cpp\<close>): the parent directory and the last component of a path.  The
  loops count a \<^verbatim>\<open>size_t\<close> down from the last character; the accesses of \<^verbatim>\<open>std::string_view\<close> are not
  checked, so one outside the path is \<open>Undefined_behaviour\<close>.
\<close>

definition path_delimiter :: char where
  "path_delimiter = CHR ''/''"

fun parent_loop :: "string \<Rightarrow> nat \<Rightarrow> string option" where
  "parent_loop path 0 = None"
| "parent_loop path (Suc i) =
     (if path ! Suc i = path_delimiter then Some (take (Suc i) path) else parent_loop path i)"

definition get_parent_dir_path :: "string \<Rightarrow> string result" where
  "get_parent_dir_path path =
     (if path = [] then Inl (Runtime_error ''Invalid path: path is empty string'')
      else case parent_loop path (length path - 1) of
             Some p \<Rightarrow> Inr p
           | None \<Rightarrow> if path ! 0 = path_delimiter then Inr (take 1 path)
                     else Inl (Runtime_error ''Invalid path: No delimiter on path''))"

text \<open>
  The guard \<^verbatim>\<open>i >= 0\<close> always holds for a \<^verbatim>\<open>size_t\<close>: after index 0 the counter wraps to the
  largest value and the next access is outside the path.
\<close>

fun filename_loop :: "string \<Rightarrow> nat \<Rightarrow> string result" where
  "filename_loop path i =
     (if path ! i = path_delimiter then Inr (drop (i + 1) path)
      else case i of 0 \<Rightarrow> Inl Undefined_behaviour | Suc j \<Rightarrow> filename_loop path j)"

declare filename_loop.simps [simp del]

definition get_filename_from_path :: "string \<Rightarrow> string result" where
  "get_filename_from_path path =
     (if path = [] then Inl (Runtime_error ''Invalid path: path is empty string'')
      else if length path = 1 \<and> path ! 0 = path_delimiter then Inr (take 1 path)
      else filename_loop path (length path - 1))"

section \<open>Loops\<close>

lemma parent_loop_skip:
  "(\<forall>k. i < k \<and> k \<le> i + n \<longrightarrow> path ! k \<noteq> path_delimiter) \<Longrightarrow> parent_loop path (i + n) = parent_loop path i"
  by (induction n) auto

lemma filename_loop_skip:
  "(\<forall>k. i < k \<and> k \<le> i + n \<longrightarrow> path ! k \<noteq> path_delimiter) \<Longrightarrow> filename_loop path (i + n) = filename_loop path i"
proof (induction n)
  case (Suc n)
  then show ?case by (subst filename_loop.simps) auto
qed simp

lemma filename_loop_none:
  "(\<forall>k\<le>i. path ! k \<noteq> path_delimiter) \<Longrightarrow> filename_loop path i = Inl Undefined_behaviour"
  by (induction i) (subst filename_loop.simps; simp)+

lemma after_delimiter:
  assumes "path_delimiter \<notin> set name" and "length dir < k" and "k \<le> length dir + length name"
  shows "(dir @ path_delimiter # name) ! k \<noteq> path_delimiter"
proof -
  have "(dir @ path_delimiter # name) ! k = name ! (k - Suc (length dir))"
    using assms(2) by (simp add: nth_append nth_Cons')
  moreover have "name ! (k - Suc (length dir)) \<in> set name" using assms(2,3) by (intro nth_mem) linarith
  ultimately show ?thesis using assms(1) by metis
qed

lemma filename_loop_path:
  assumes "path_delimiter \<notin> set name"
  shows "filename_loop (dir @ path_delimiter # name) (length dir + length name) = Inr name"
proof -
  have "filename_loop (dir @ path_delimiter # name) (length dir + length name) =
      filename_loop (dir @ path_delimiter # name) (length dir)"
    using after_delimiter [OF assms] by (intro filename_loop_skip) simp
  also have "\<dots> = Inr name" by (subst filename_loop.simps) simp
  finally show ?thesis .
qed

lemma parent_loop_path:
  assumes "path_delimiter \<notin> set name"
  shows "parent_loop (dir @ path_delimiter # name) (length dir + length name) =
    (if dir = [] then None else Some dir)"
proof -
  have "parent_loop (dir @ path_delimiter # name) (length dir + length name) =
      parent_loop (dir @ path_delimiter # name) (length dir)"
    using after_delimiter [OF assms] by (intro parent_loop_skip) simp
  also have "\<dots> = (if dir = [] then None else Some dir)"
    using nth_append_length [of dir path_delimiter name] by (cases "length dir") auto
  finally show ?thesis .
qed

section \<open>Properties\<close>

text \<open>
  an absolute path is split at its last delimiter: the file name is what follows it, the parent
  what precedes it, the root directory when nothing precedes it; the root is its own name and parent.
\<close>

theorem path_split_correct:
  assumes "path_delimiter \<notin> set name"
  shows "get_filename_from_path (dir @ path_delimiter # name) =
      Inr (if dir = [] \<and> name = [] then [path_delimiter] else name) \<and>
    get_parent_dir_path (dir @ path_delimiter # name) =
      Inr (if dir = [] then [path_delimiter] else dir)"
proof
  show "get_filename_from_path (dir @ path_delimiter # name) =
      Inr (if dir = [] \<and> name = [] then [path_delimiter] else name)"
    using filename_loop_path [OF assms, of dir]
    by (cases "dir = [] \<and> name = []") (auto simp: get_filename_from_path_def)
  show "get_parent_dir_path (dir @ path_delimiter # name) = Inr (if dir = [] then [path_delimiter] else dir)"
    using parent_loop_path [OF assms, of dir] by (simp add: get_parent_dir_path_def)
qed

theorem path_split_correct_witness:
  "get_filename_from_path ''/usr/bin'' = Inr ''bin'' \<and> get_parent_dir_path ''/usr/bin'' = Inr ''/usr''"
  using path_split_correct [of "''bin''" "''/usr''"] by (simp add: path_delimiter_def)

text \<open>
  a non-empty path without a delimiter is rejected by \<^verbatim>\<open>get_parent_dir_path\<close>, but
  \<^verbatim>\<open>get_filename_from_path\<close> never reaches its own exception: its loop reads outside the path.
\<close>

theorem path_without_delimiter:
  assumes "path \<noteq> []" and "path_delimiter \<notin> set path"
  shows "get_filename_from_path path = Inl Undefined_behaviour \<and>
    get_parent_dir_path path = Inl (Runtime_error ''Invalid path: No delimiter on path'')"
proof -
  have none: "path ! k \<noteq> path_delimiter" if "k \<le> length path - 1" for k
    using assms that by (metis One_nat_def Suc_pred le_imp_less_Suc length_greater_0_conv nth_mem)
  have "parent_loop path (0 + (length path - 1)) = parent_loop path 0"
    using none by (intro parent_loop_skip) simp
  with none assms(1) filename_loop_none [of "length path - 1" path] show ?thesis
    by (simp add: get_filename_from_path_def get_parent_dir_path_def)
qed

theorem path_without_delimiter_witness:
  "get_filename_from_path ''bin'' = Inl Undefined_behaviour"
  using path_without_delimiter [of "''bin''"] by (simp add: path_delimiter_def)

end
