(* ===== verification/Inode.thy ===== *)
theory Inode
  imports Rados_Refine Util_Path
begin

unbundle bit_operations_syntax

text \<open>
  Inodes (\<^verbatim>\<open>client/meta/inode.cpp\<close>): the record \<open>inode\<close> with its \<open>core\<close>, the constructors, the
  serialisation as the memory image of \<^verbatim>\<open>struct _core\<close> (x86-64 layout, padding kept as fields)
  followed by the target of a symbolic link, loading and storing through \<open>rados_io\<close>, the permission
  check and the transfer of an inode in the messages of a rename across directories.
  Times and fresh inode numbers are arguments; so is the indeterminate contents of the members that
  a constructor leaves uninitialised.
\<close>

section \<open>Data\<close>

datatype meta_location = LOCAL | REMOTE | UNKNOWN | LOC_JOURNAL | NOBODY

record timespec =
  tv_sec :: "64 word"
  tv_nsec :: "64 word"

record core =
  i_mode :: "32 word"
  i_uid :: "32 word"
  i_gid :: "32 word"
  i_ino :: uuid
  pad_ino :: "32 word"
  i_nlink :: "64 word"
  i_size :: "64 word"
  i_atime :: timespec
  i_mtime :: timespec
  i_ctime :: timespec
  link_target_len :: "32 word"
  pad_end :: "32 word"

record inode =
  p_ino :: uuid
  core :: core
  loc :: meta_location
  link_target_name :: "string option"

definition REG_INODE_SIZE :: nat where
  "REG_INODE_SIZE = 104"

definition DIR_INODE_SIZE :: "64 word" where
  "DIR_INODE_SIZE = 4096"

text \<open>The mode bits of \<^verbatim>\<open>sys/stat.h\<close> and \<^verbatim>\<open>unistd.h\<close>.\<close>

definition S_IFMT :: "32 word" where "S_IFMT = 0xF000"
definition S_IFLNK :: "32 word" where "S_IFLNK = 0xA000"
definition S_IFREG :: "32 word" where "S_IFREG = 0x8000"
definition S_IFDIR :: "32 word" where "S_IFDIR = 0x4000"
definition S_IRWXU :: "32 word" where "S_IRWXU = 0x1C0"
definition S_IRWXG :: "32 word" where "S_IRWXG = 0x38"
definition S_IRWXO :: "32 word" where "S_IRWXO = 7"
definition R_OK :: "32 word" where "R_OK = 4"
definition W_OK :: "32 word" where "W_OK = 2"
definition X_OK :: "32 word" where "X_OK = 1"

definition S_ISLNK :: "32 word \<Rightarrow> bool" where
  "S_ISLNK m \<longleftrightarrow> m AND S_IFMT = S_IFLNK"

definition S_ISDIR :: "32 word \<Rightarrow> bool" where
  "S_ISDIR m \<longleftrightarrow> m AND S_IFMT = S_IFDIR"

lemmas mode_bits = S_IFMT_def S_IFLNK_def S_IFREG_def S_IFDIR_def S_IRWXU_def S_IRWXG_def S_IRWXO_def
  R_OK_def W_OK_def X_OK_def

section \<open>Constructors\<close>

definition new_core :: "32 word \<Rightarrow> 32 word \<Rightarrow> 32 word \<Rightarrow> uuid \<Rightarrow> timespec \<Rightarrow> core" where
  "new_core mode owner grp ino ts =
     \<lparr>i_mode = mode, i_uid = owner, i_gid = grp, i_ino = ino, pad_ino = 0, i_nlink = 1, i_size = 0,
      i_atime = ts, i_mtime = ts, i_ctime = ts, link_target_len = 0, pad_end = 0\<rparr>"

text \<open>A regular file or the root directory.\<close>

definition inode_new ::
  "uuid \<Rightarrow> timespec \<Rightarrow> uuid \<Rightarrow> 32 word \<Rightarrow> 32 word \<Rightarrow> 32 word \<Rightarrow> bool \<Rightarrow> inode" where
  "inode_new new_ino ts parent_ino owner grp mode root =
     \<lparr>p_ino = parent_ino,
      core = new_core mode owner grp (if root then get_root_ino else new_ino) ts,
      loc = LOCAL, link_target_name = None\<rparr>"

text \<open>A directory whose number was chosen before.\<close>

definition inode_new_dir ::
  "timespec \<Rightarrow> uuid \<Rightarrow> 32 word \<Rightarrow> 32 word \<Rightarrow> 32 word \<Rightarrow> uuid \<Rightarrow> inode" where
  "inode_new_dir ts parent_ino owner grp mode predefined_ino =
     \<lparr>p_ino = parent_ino, core = new_core mode owner grp predefined_ino ts,
      loc = LOCAL, link_target_name = None\<rparr>"

text \<open>A symbolic link; the target is a C string.\<close>

definition inode_new_symlink ::
  "uuid \<Rightarrow> timespec \<Rightarrow> uuid \<Rightarrow> 32 word \<Rightarrow> 32 word \<Rightarrow> 32 word \<Rightarrow> string \<Rightarrow> inode" where
  "inode_new_symlink new_ino ts parent_ino owner grp mode passed_link_target_name =
     \<lparr>p_ino = parent_ino,
      core = (new_core mode owner grp new_ino ts)
        \<lparr>link_target_len := of_nat (length passed_link_target_name)\<rparr>,
      loc = LOCAL, link_target_name = Some passed_link_target_name\<rparr>"

text \<open>
  The copy constructor sets neither \<^verbatim>\<open>p_ino\<close> nor \<^verbatim>\<open>loc\<close>: both keep the indeterminate values
  of \<open>raw\<close>.
\<close>

definition inode_copy :: "inode \<Rightarrow> inode \<Rightarrow> inode" where
  "inode_copy raw copy =
     raw\<lparr>core := core copy,
         link_target_name :=
           (if S_ISLNK (i_mode (core copy)) \<and> 0 < link_target_len (core copy)
            then link_target_name copy else None)\<rparr>"

section \<open>Serialisation\<close>

definition encode_timespec :: "timespec \<Rightarrow> byte list" where
  "encode_timespec t = le64 (tv_sec t) @ le64 (tv_nsec t)"

definition decode_timespec :: "byte list \<Rightarrow> timespec" where
  "decode_timespec bs = \<lparr>tv_sec = un_le64 bs, tv_nsec = un_le64 (drop 8 bs)\<rparr>"

definition encode_core :: "core \<Rightarrow> byte list" where
  "encode_core c =
     le32 (i_mode c) @ le32 (i_uid c) @ le32 (i_gid c) @ uuid_data (i_ino c) @ le32 (pad_ino c) @
     le64 (i_nlink c) @ le64 (i_size c) @
     encode_timespec (i_atime c) @ encode_timespec (i_mtime c) @ encode_timespec (i_ctime c) @
     le32 (link_target_len c) @ le32 (pad_end c)"

definition decode_core :: "byte list \<Rightarrow> core" where
  "decode_core bs =
     \<lparr>i_mode = un_le32 bs, i_uid = un_le32 (drop 4 bs), i_gid = un_le32 (drop 8 bs),
      i_ino = Uuid (take 16 (drop 12 bs)), pad_ino = un_le32 (drop 28 bs),
      i_nlink = un_le64 (drop 32 bs), i_size = un_le64 (drop 40 bs),
      i_atime = decode_timespec (drop 48 bs), i_mtime = decode_timespec (drop 64 bs),
      i_ctime = decode_timespec (drop 80 bs),
      link_target_len = un_le32 (drop 96 bs), pad_end = un_le32 (drop 100 bs)\<rparr>"

text \<open>
  \<open>serialize\<close> copies \<^verbatim>\<open>link_target_len\<close> bytes from the target name, whose buffer holds the name
  and a terminating NUL; a null name or a longer length is outside the buffer.
\<close>

definition inode_serialize :: "inode \<Rightarrow> byte list result" where
  "inode_serialize i =
     (let c = core i; n = unat (link_target_len c) in
      if S_ISLNK (i_mode c) \<and> 0 < n then
        (case link_target_name i of
           None \<Rightarrow> Inl Undefined_behaviour
         | Some name \<Rightarrow>
             if n \<le> length name + 1
             then Inr (encode_core c @ take n (map byte_of_char name @ [0]))
             else Inl Undefined_behaviour)
      else Inr (encode_core c @ replicate n 0))"

definition inode_deserialize :: "'s extern \<Rightarrow> 's \<Rightarrow> byte list \<Rightarrow> inode \<Rightarrow> inode result" where
  "inode_deserialize L s value i =
     (if length value < REG_INODE_SIZE then Inl Undefined_behaviour
      else
        (let c = decode_core value; n = unat (link_target_len c) in
         if S_ISLNK (i_mode c) then
           (case rados_read L s INODE (uuid_to_string L (i_ino c)) n REG_INODE_SIZE of
              Inl e \<Rightarrow> Inl e
            | Inr bs \<Rightarrow> Inr (i\<lparr>core := c,
                link_target_name := Some (map char_of_byte (bs @ replicate (n - length bs) 0))\<rparr>))
         else Inr (i\<lparr>core := c\<rparr>)))"

definition inode_sync :: "'s extern \<Rightarrow> inode \<Rightarrow> ('s, unit) st" where
  "inode_sync L i s =
     (case inode_serialize i of
        Inl e \<Rightarrow> (Inl e, s)
      | Inr raw \<Rightarrow>
          bindE (rados_write L INODE (uuid_to_string L (i_ino (core i))) raw
                   (REG_INODE_SIZE + unat (link_target_len (core i))) 0)
            (\<lambda>_. returnE ()) s)"

text \<open>
  The constructor that loads an inode: a missing object becomes \<^verbatim>\<open>no_entry\<close>, a short one leaves the
  rest of the zeroed buffer.
\<close>

definition inode_pull :: "'s extern \<Rightarrow> 's \<Rightarrow> inode \<Rightarrow> uuid \<Rightarrow> inode result" where
  "inode_pull L s raw ino =
     (case rados_read L s INODE (uuid_to_string L ino) REG_INODE_SIZE 0 of
        Inl (No_such_object _) \<Rightarrow> Inl No_entry
      | Inl e \<Rightarrow> Inl e
      | Inr bs \<Rightarrow>
          (case inode_deserialize L s (bs @ replicate (REG_INODE_SIZE - length bs) 0)
                  (raw\<lparr>link_target_name := None\<rparr>) of
             Inl (No_such_object _) \<Rightarrow> Inl No_entry
           | r \<Rightarrow> r))"

section \<open>Attributes\<close>

record stat =
  st_mode :: "32 word"
  st_uid :: "32 word"
  st_gid :: "32 word"
  st_ino :: "64 word"
  st_nlink :: "64 word"
  st_size :: "64 word"
  st_atim :: timespec
  st_mtim :: timespec
  st_ctim :: timespec

definition fill_stat :: "inode \<Rightarrow> stat \<Rightarrow> stat" where
  "fill_stat i s =
     (let c = core i in
      s\<lparr>st_mode := i_mode c, st_uid := i_uid c, st_gid := i_gid c,
        st_ino := get_postfix_from_uuid (i_ino c), st_nlink := i_nlink c, st_size := i_size c,
        st_atim := i_atime c, st_mtim := i_mtime c,
        st_ctim := (st_ctim s)\<lparr>tv_sec := tv_nsec (i_ctime c)\<rparr>\<rparr>)"

definition permission_check :: "32 word \<Rightarrow> 32 word \<Rightarrow> 32 word \<Rightarrow> inode \<Rightarrow> unit result" where
  "permission_check client_uid client_gid amask i =
     (let c = core i;
          check_read = amask AND R_OK \<noteq> 0;
          check_write = amask AND W_OK \<noteq> 0;
          check_exec = amask AND X_OK \<noteq> 0;
          target_mode =
            (if client_uid = i_uid c then drop_bit 6 (i_mode c AND S_IRWXU)
             else if client_gid = i_gid c then drop_bit 3 (i_mode c AND S_IRWXG)
             else i_mode c AND S_IRWXO);
          ret = (check_read \<longrightarrow> target_mode AND R_OK \<noteq> 0) \<and>
                (check_write \<longrightarrow> target_mode AND W_OK \<noteq> 0) \<and>
                (check_exec \<longrightarrow> target_mode AND X_OK \<noteq> 0)
      in if ret then Inr () else Inl Permission_denied)"

section \<open>Rename messages\<close>

text \<open>
  The inode fields shared by \<^verbatim>\<open>rpc_rename_not_same_parent_src_respond\<close> and
  \<^verbatim>\<open>rpc_rename_not_same_parent_dst_request\<close>.
\<close>

record target_msg =
  target_i_mode :: "32 word"
  target_i_uid :: "32 word"
  target_i_gid :: "32 word"
  target_i_ino_prefix :: "64 word"
  target_i_ino_postfix :: "64 word"
  target_i_nlink :: "64 word"
  target_i_size :: "64 word"
  target_a_sec :: "64 word"
  target_a_nsec :: "64 word"
  target_m_sec :: "64 word"
  target_m_nsec :: "64 word"
  target_c_sec :: "64 word"
  target_c_nsec :: "64 word"
  target_i_link_target_len :: "32 word"
  target_i_link_target_name :: string

definition inode_to_rename_src_response :: "inode \<Rightarrow> target_msg \<Rightarrow> target_msg result" where
  "inode_to_rename_src_response i response =
     (let c = core i;
          m = response
            \<lparr>target_i_mode := i_mode c, target_i_uid := i_uid c, target_i_gid := i_gid c,
             target_i_ino_prefix := get_prefix_from_uuid (i_ino c),
             target_i_ino_postfix := get_postfix_from_uuid (i_ino c),
             target_i_nlink := i_nlink c, target_i_size := i_size c,
             target_a_sec := tv_sec (i_atime c), target_a_nsec := tv_nsec (i_atime c),
             target_m_sec := tv_sec (i_mtime c), target_m_nsec := tv_nsec (i_mtime c),
             target_c_sec := tv_sec (i_ctime c), target_c_nsec := tv_nsec (i_ctime c),
             target_i_link_target_len := link_target_len c\<rparr>
      in if S_ISLNK (i_mode c) then
           (case link_target_name i of
              None \<Rightarrow> Inl Undefined_behaviour
            | Some name \<Rightarrow>
                Inr (m\<lparr>target_i_link_target_name := takeWhile (\<lambda>ch. ch \<noteq> CHR 0x00) name\<rparr>))
         else Inr m)"

definition rename_src_response_to_inode :: "target_msg \<Rightarrow> inode \<Rightarrow> inode" where
  "rename_src_response_to_inode m i =
     i\<lparr>core := (core i)
         \<lparr>i_mode := target_i_mode m, i_uid := target_i_uid m, i_gid := target_i_gid m,
          i_ino := splice_prefix_and_postfix (target_i_ino_prefix m) (target_i_ino_postfix m),
          i_nlink := target_i_nlink m, i_size := target_i_size m,
          i_atime := \<lparr>tv_sec = target_a_sec m, tv_nsec = target_a_nsec m\<rparr>,
          i_mtime := \<lparr>tv_sec = target_m_sec m, tv_nsec = target_m_nsec m\<rparr>,
          i_ctime := \<lparr>tv_sec = target_c_sec m, tv_nsec = target_c_nsec m\<rparr>,
          link_target_len := target_i_link_target_len m\<rparr>,
        link_target_name :=
          (if S_ISLNK (target_i_mode m) then Some (target_i_link_target_name m) else link_target_name i)\<rparr>"

definition inode_to_rename_dst_request :: "inode \<Rightarrow> target_msg \<Rightarrow> target_msg result" where
  "inode_to_rename_dst_request i request =
     (let c = core i;
          m = request
            \<lparr>target_i_mode := i_mode c, target_i_uid := i_uid c, target_i_gid := i_gid c,
             target_i_ino_prefix := get_prefix_from_uuid (i_ino c),
             target_i_ino_postfix := get_postfix_from_uuid (i_ino c),
             target_i_nlink := i_nlink c, target_i_size := i_size c,
             target_a_sec := tv_sec (i_atime c), target_a_nsec := tv_nsec (i_atime c),
             target_m_sec := tv_sec (i_mtime c), target_m_nsec := tv_nsec (i_mtime c),
             target_c_sec := tv_sec (i_ctime c), target_c_nsec := tv_nsec (i_ctime c),
             target_i_link_target_len := link_target_len c\<rparr>
      in if S_ISLNK (i_mode c) then
           (case link_target_name i of
              None \<Rightarrow> Inl Undefined_behaviour
            | Some name \<Rightarrow>
                Inr (m\<lparr>target_i_link_target_name := takeWhile (\<lambda>ch. ch \<noteq> CHR 0x00) name\<rparr>))
         else Inr m)"

definition rename_dst_request_to_inode :: "target_msg \<Rightarrow> inode \<Rightarrow> inode" where
  "rename_dst_request_to_inode m i =
     i\<lparr>core := (core i)
         \<lparr>i_mode := target_i_mode m, i_uid := target_i_uid m, i_gid := target_i_gid m,
          i_ino := splice_prefix_and_postfix (target_i_ino_prefix m) (target_i_ino_postfix m),
          i_nlink := target_i_nlink m, i_size := target_i_size m,
          i_atime := \<lparr>tv_sec = target_a_sec m, tv_nsec = target_a_nsec m\<rparr>,
          i_mtime := \<lparr>tv_sec = target_m_sec m, tv_nsec = target_m_nsec m\<rparr>,
          i_ctime := \<lparr>tv_sec = target_c_sec m, tv_nsec = target_c_nsec m\<rparr>,
          link_target_len := target_i_link_target_len m\<rparr>,
        link_target_name :=
          (if S_ISLNK (target_i_mode m) then Some (target_i_link_target_name m) else link_target_name i)\<rparr>"

section \<open>Lemmas\<close>

text \<open>
  A well-formed inode: a symbolic link has a non-empty NUL-free target whose length is recorded, another
  inode has none.  Every constructor produces one.
\<close>

definition wf_inode :: "inode \<Rightarrow> bool" where
  "wf_inode i \<longleftrightarrow>
     (if S_ISLNK (i_mode (core i))
      then (case link_target_name i of None \<Rightarrow> False
            | Some name \<Rightarrow> name \<noteq> [] \<and> length name = unat (link_target_len (core i)) \<and> CHR 0x00 \<notin> set name)
      else link_target_len (core i) = 0 \<and> link_target_name i = None)"

text \<open>Other attributes do not matter.\<close>

lemma wf_inode_cong:
  "i_mode (core i) = i_mode (core j) \<Longrightarrow> link_target_len (core i) = link_target_len (core j) \<Longrightarrow>
    link_target_name i = link_target_name j \<Longrightarrow> wf_inode i = wf_inode j"
  unfolding wf_inode_def by (simp only:)

lemma length_encode_timespec [simp, codec_simps]: "length (encode_timespec t) = 16"
  by (simp add: encode_timespec_def)

lemma decode_encode_timespec [simp, codec_simps]: "decode_timespec (encode_timespec t @ r) = t"
  by (simp add: encode_timespec_def decode_timespec_def)

lemma length_encode_core [simp, codec_simps]: "length (encode_core c) = REG_INODE_SIZE"
  by (simp add: encode_core_def REG_INODE_SIZE_def)

lemma decode_encode_core [simp, codec_simps]: "decode_core (encode_core c @ r) = c"
  by (simp add: encode_core_def decode_core_def)

lemma decode_encode_core' [simp, codec_simps]: "decode_core (encode_core c) = c"
  using decode_encode_core [of c "[]"] by simp

lemma wf_serialize:
  assumes "wf_inode i"
  shows "inode_serialize i = Inr (encode_core (core i) @
    (case link_target_name i of None \<Rightarrow> [] | Some name \<Rightarrow> map byte_of_char name))"
  using assms by (auto simp: wf_inode_def inode_serialize_def Let_def split: if_splits option.splits)

lemma wf_new [simp]:
  "\<not> S_ISLNK mode \<Longrightarrow> wf_inode (inode_new ino ts parent owner grp mode root)"
  "\<not> S_ISLNK mode \<Longrightarrow> wf_inode (inode_new_dir ts parent owner grp mode ino)"
  "S_ISLNK mode \<Longrightarrow> target \<noteq> [] \<Longrightarrow> length target < 2 ^ 32 \<Longrightarrow> CHR 0x00 \<notin> set target \<Longrightarrow>
    wf_inode (inode_new_symlink ino ts parent owner grp mode target)"
  by (auto simp: wf_inode_def inode_new_def inode_new_dir_def inode_new_symlink_def new_core_def
      unat_of_nat)

text \<open>The permission triad that applies to a caller, as the position of its lowest bit.\<close>

definition perm_class :: "32 word \<Rightarrow> 32 word \<Rightarrow> core \<Rightarrow> nat" where
  "perm_class client_uid client_gid c =
     (if client_uid = i_uid c then 6 else if client_gid = i_gid c then 3 else 0)"

lemma and_bit_neq_0: "(w :: 32 word) AND 4 \<noteq> 0 \<longleftrightarrow> bit w 2" "w AND 2 \<noteq> 0 \<longleftrightarrow> bit w 1" "w AND 1 \<noteq> 0 \<longleftrightarrow> bit w 0"
  using and_exp_eq_0_iff_not_bit [of w 2] and_exp_eq_0_iff_not_bit [of w 1] and_exp_eq_0_iff_not_bit [of w 0]
  by simp_all

lemma triad_bits:
  "bit (drop_bit 6 (m AND S_IRWXU)) k \<longleftrightarrow> k < 3 \<and> bit (m :: 32 word) (k + 6)"
  "bit (drop_bit 3 (m AND S_IRWXG)) k \<longleftrightarrow> k < 3 \<and> bit m (k + 3)"
  "bit (m AND S_IRWXO) k \<longleftrightarrow> k < 3 \<and> bit m k"
proof -
  have u: "S_IRWXU = push_bit 6 (mask 3)" and g: "S_IRWXG = push_bit 3 (mask 3)" and o: "S_IRWXO = mask 3"
    by (simp_all add: S_IRWXU_def S_IRWXG_def S_IRWXO_def push_bit_eq_mult mask_eq_exp_minus_1)
  have len: "bit m j \<Longrightarrow> j < 32" for j using bit_imp_le_length [of m j] by simp
  show "bit (drop_bit 6 (m AND S_IRWXU)) k \<longleftrightarrow> k < 3 \<and> bit m (k + 6)"
    unfolding u bit_drop_bit_eq o_apply bit_and_iff bit_push_bit_iff bit_mask_iff possible_bit_def
    using len [of "k + 6"] by (auto simp: add.commute)
  show "bit (drop_bit 3 (m AND S_IRWXG)) k \<longleftrightarrow> k < 3 \<and> bit m (k + 3)"
    unfolding g bit_drop_bit_eq o_apply bit_and_iff bit_push_bit_iff bit_mask_iff possible_bit_def
    using len [of "k + 3"] by (auto simp: add.commute)
  show "bit (m AND S_IRWXO) k \<longleftrightarrow> k < 3 \<and> bit m k"
    unfolding o bit_and_iff bit_mask_iff possible_bit_def by auto
qed

text \<open>What a rename message says about an inode.\<close>

definition msg_carries :: "target_msg \<Rightarrow> inode \<Rightarrow> bool" where
  "msg_carries m i \<longleftrightarrow>
     target_i_mode m = i_mode (core i) \<and> target_i_uid m = i_uid (core i) \<and> target_i_gid m = i_gid (core i) \<and>
     splice_prefix_and_postfix (target_i_ino_prefix m) (target_i_ino_postfix m) = i_ino (core i) \<and>
     target_i_nlink m = i_nlink (core i) \<and> target_i_size m = i_size (core i) \<and>
     \<lparr>tv_sec = target_a_sec m, tv_nsec = target_a_nsec m\<rparr> = i_atime (core i) \<and>
     \<lparr>tv_sec = target_m_sec m, tv_nsec = target_m_nsec m\<rparr> = i_mtime (core i) \<and>
     \<lparr>tv_sec = target_c_sec m, tv_nsec = target_c_nsec m\<rparr> = i_ctime (core i) \<and>
     target_i_link_target_len m = link_target_len (core i) \<and>
     (S_ISLNK (i_mode (core i)) \<longrightarrow> link_target_name i = Some (target_i_link_target_name m))"

lemma takeWhile_no_NUL: "CHR 0x00 \<notin> set name \<Longrightarrow> takeWhile (\<lambda>ch. ch \<noteq> CHR 0x00) name = name"
  by (simp add: takeWhile_eq_all_conv) blast

lemma src_response_carries:
  "wf_inode i \<Longrightarrow> \<exists>m. inode_to_rename_src_response i r = Inr m \<and> msg_carries m i"
  by (cases "S_ISLNK (i_mode (core i))")
    (auto simp: inode_to_rename_src_response_def msg_carries_def wf_inode_def Let_def takeWhile_no_NUL
      split: option.splits)

lemma dst_request_carries:
  "wf_inode i \<Longrightarrow> \<exists>m. inode_to_rename_dst_request i r = Inr m \<and> msg_carries m i"
  by (cases "S_ISLNK (i_mode (core i))")
    (auto simp: inode_to_rename_dst_request_def msg_carries_def wf_inode_def Let_def takeWhile_no_NUL
      split: option.splits)

lemma src_response_delivers:
  assumes "wf_inode i" and "msg_carries m i"
  shows "rename_src_response_to_inode m (j\<lparr>link_target_name := None\<rparr>) =
    j\<lparr>core := (core i)\<lparr>pad_ino := pad_ino (core j), pad_end := pad_end (core j)\<rparr>,
      link_target_name := link_target_name i\<rparr>"
  using assms
  by (cases i; cases j; cases "core i"; cases "core j")
    (simp add: rename_src_response_to_inode_def msg_carries_def wf_inode_def split: if_splits)

lemma dst_request_delivers:
  assumes "wf_inode i" and "msg_carries m i"
  shows "rename_dst_request_to_inode m (j\<lparr>link_target_name := None\<rparr>) =
    j\<lparr>core := (core i)\<lparr>pad_ino := pad_ino (core j), pad_end := pad_end (core j)\<rparr>,
      link_target_name := link_target_name i\<rparr>"
  using src_response_delivers [OF assms]
  by (simp add: rename_src_response_to_inode_def rename_dst_request_to_inode_def)

text \<open>A zeroed inode and message, the start values of the witnesses.\<close>

definition null_inode :: inode where
  "null_inode = inode_new nil_uuid \<lparr>tv_sec = 0, tv_nsec = 0\<rparr> nil_uuid 0 0 0 False"

definition empty_msg :: target_msg where
  "empty_msg =
     \<lparr>target_i_mode = 0, target_i_uid = 0, target_i_gid = 0, target_i_ino_prefix = 0,
      target_i_ino_postfix = 0, target_i_nlink = 0, target_i_size = 0, target_a_sec = 0,
      target_a_nsec = 0, target_m_sec = 0, target_m_nsec = 0, target_c_sec = 0, target_c_nsec = 0,
      target_i_link_target_len = 0, target_i_link_target_name = []\<rparr>"

text \<open>Loading what was stored, on a healthy pool; an inode always ends far below \<open>MAX_OFFSET\<close>.\<close>

lemma inode_size_fits [simp]:
  "REG_INODE_SIZE \<le> MAX_OFFSET" "REG_INODE_SIZE + unat (n :: 32 word) \<le> MAX_OFFSET"
  using unsigned_less [of n, where ?'a = nat] by (simp_all add: REG_INODE_SIZE_def MAX_OFFSET_def OBJ_SIZE_def)

context librados_healthy
begin

lemma inode_sync_ok:
  assumes "stores objs s INODE (uuid_to_string L (i_ino (core i))) old" and wf: "wf_inode i"
  shows "\<exists>s'. inode_sync L i s = (Inr (), s') \<and>
    stores objs s' INODE (uuid_to_string L (i_ino (core i)))
      (write_spec old 0 (encode_core (core i) @
         (case link_target_name i of None \<Rightarrow> [] | Some name \<Rightarrow> map byte_of_char name))) \<and>
    frame objs INODE (uuid_to_string L (i_ino (core i))) s s'"
proof -
  let ?raw = "encode_core (core i) @ (case link_target_name i of None \<Rightarrow> [] | Some name \<Rightarrow> map byte_of_char name)"
  have len: "length ?raw = REG_INODE_SIZE + unat (link_target_len (core i))"
    using wf by (auto simp: wf_inode_def split: if_splits option.splits)
  have fits: "0 + length ?raw \<le> MAX_OFFSET" unfolding len by simp
  obtain s' where "rados_write L INODE (uuid_to_string L (i_ino (core i))) ?raw (length ?raw) 0 s
      = (Inr (length ?raw), s')"
    "stores objs s' INODE (uuid_to_string L (i_ino (core i))) (write_spec old 0 ?raw)"
    "frame objs INODE (uuid_to_string L (i_ino (core i))) s s'"
    using rados_write_ok [OF assms(1) order.refl fits] by auto
  then show ?thesis by (simp add: inode_sync_def wf_serialize [OF wf] len [symmetric] del: length_append)
qed

lemma inode_pull_ok:
  assumes st: "stores objs s INODE (uuid_to_string L (i_ino (core i))) (encode_core (core i) @
      (case link_target_name i of None \<Rightarrow> [] | Some name \<Rightarrow> map byte_of_char name) @ rest)"
    and wf: "wf_inode i"
  shows "inode_pull L s raw (i_ino (core i)) =
    Inr (raw\<lparr>core := core i, link_target_name := link_target_name i\<rparr>)"
proof -
  let ?k = "uuid_to_string L (i_ino (core i))"
  have 1: "rados_read L s INODE ?k REG_INODE_SIZE 0 = Inr (encode_core (core i))"
    using rados_read_ok(2) [OF st, of 0 REG_INODE_SIZE] by simp
  show ?thesis
  proof (cases "S_ISLNK (i_mode (core i))")
    case True
    with wf obtain name where name: "link_target_name i = Some name"
      "length name = unat (link_target_len (core i))"
      by (auto simp: wf_inode_def split: option.splits)
    then have "rados_read L s INODE ?k (unat (link_target_len (core i))) REG_INODE_SIZE = Inr (map byte_of_char name)"
      using rados_read_ok(2) [OF st, of REG_INODE_SIZE "unat (link_target_len (core i))"] by simp
    with 1 True name show ?thesis
      by (simp add: inode_pull_def inode_deserialize_def Let_def o_def)
  next
    case False
    with wf have "link_target_name i = None" by (simp add: wf_inode_def)
    with 1 False show ?thesis by (simp add: inode_pull_def inode_deserialize_def Let_def)
  qed
qed

lemma inode_pull_missing:
  assumes "stores objs s INODE (uuid_to_string L ino) c" and "\<not> present objs s INODE (uuid_to_string L ino)"
  shows "inode_pull L s raw ino = Inl No_entry"
  using rados_read_empty [OF assms, of REG_INODE_SIZE] by (simp add: inode_pull_def REG_INODE_SIZE_def)

end

section \<open>Properties\<close>

text \<open>
  an inode that was written with \<^verbatim>\<open>inode::sync\<close> and is read back by the loading constructor
  has the same attributes and, for a symbolic link, the same target, whatever the object held before;
  no other object changes.
\<close>

theorem inode_sync_then_pull:
  assumes "librados_healthy L objs" and "wf_inode i"
    and "stores objs s INODE (uuid_to_string L (i_ino (core i))) old"
  shows "\<exists>s'. inode_sync L i s = (Inr (), s') \<and>
    inode_pull L s' raw (i_ino (core i)) = Inr (raw\<lparr>core := core i, link_target_name := link_target_name i\<rparr>) \<and>
    frame objs INODE (uuid_to_string L (i_ino (core i))) s s'"
  using librados_healthy.inode_sync_ok [OF assms(1,3,2)]
    librados_healthy.inode_pull_ok [OF assms(1) _ assms(2)]
  by (auto simp: write_spec_def overwrite_def)

theorem inode_sync_then_pull_witness:
  "\<exists>s'. inode_sync mem_librados
        (inode_new_symlink get_root_ino \<lparr>tv_sec = 1, tv_nsec = 2\<rparr> nil_uuid 0 0 S_IFLNK ''/a'') Map.empty = (Inr (), s') \<and>
    inode_pull mem_librados s' null_inode get_root_ino =
      Inr (null_inode
        \<lparr>core := (new_core S_IFLNK 0 0 get_root_ino \<lparr>tv_sec = 1, tv_nsec = 2\<rparr>)\<lparr>link_target_len := 2\<rparr>,
         link_target_name := Some ''/a''\<rparr>)"
proof -
  let ?i = "inode_new_symlink get_root_ino \<lparr>tv_sec = 1, tv_nsec = 2\<rparr> nil_uuid 0 0 S_IFLNK ''/a''"
  have "S_ISLNK S_IFLNK" by (simp add: S_ISLNK_def mode_bits)
  then have "wf_inode ?i" by simp
  from inode_sync_then_pull [OF mem.librados_healthy_axioms this mem_stores_empty,
      of null_inode]
  show ?thesis by (auto simp: inode_new_symlink_def new_core_def)
qed

text \<open>
  C33: \<^verbatim>\<open>inode::permission_check\<close> accepts exactly when every requested permission bit is set in
  the one triad that applies to the caller: the owner's, else the group's, else the others'.
\<close>

theorem permission_check_iff:
  "permission_check client_uid client_gid amask i = Inr () \<longleftrightarrow>
     (\<forall>k<3. \<not> bit amask k \<or> bit (i_mode (core i)) (k + perm_class client_uid client_gid (core i)))"
proof -
  have all3: "(\<forall>k<3. P k) \<longleftrightarrow> P 0 \<and> P 1 \<and> P 2" for P :: "nat \<Rightarrow> bool"
    by (auto simp: numeral_eq_Suc less_Suc_eq)
  have triad: "bit (if client_uid = i_uid (core i) then drop_bit 6 (i_mode (core i) AND S_IRWXU)
      else if client_gid = i_gid (core i) then drop_bit 3 (i_mode (core i) AND S_IRWXG)
      else i_mode (core i) AND S_IRWXO) k \<longleftrightarrow>
      k < 3 \<and> bit (i_mode (core i)) (k + perm_class client_uid client_gid (core i))" for k
    unfolding perm_class_def by (cases "client_uid = i_uid (core i)"; cases "client_gid = i_gid (core i)")
      (simp_all only: triad_bits if_True if_False refl add_0_right)
  show ?thesis
    unfolding all3 permission_check_def Let_def R_OK_def W_OK_def X_OK_def and_bit_neq_0 triad
    by auto
qed

theorem permission_check_iff_witness:
  "permission_check 7 7 R_OK (inode_new nil_uuid \<lparr>tv_sec = 0, tv_nsec = 0\<rparr> nil_uuid 7 7 0x100 False) = Inr ()"
proof -
  have "bit (R_OK) k \<longleftrightarrow> k = 2" for k
    using bit_exp_iff [of 2 k, where ?'a = "32 word"] by (auto simp: R_OK_def possible_bit_def)
  moreover have "bit (0x100 :: 32 word) 8" by simp
  ultimately show ?thesis
    by (subst permission_check_iff) (simp add: perm_class_def inode_new_def new_core_def)
qed

text \<open>
  an inode sent in the response of a cross-directory rename and then forwarded in the request to
  the destination arrives there with the attributes and link target it had at the source.
\<close>

theorem rename_messages_roundtrip:
  assumes "wf_inode i"
  shows "\<exists>m m'. inode_to_rename_src_response i response = Inr m \<and>
    inode_to_rename_dst_request
      (rename_src_response_to_inode m (i0\<lparr>link_target_name := None\<rparr>)) request = Inr m' \<and>
    rename_dst_request_to_inode m' (j0\<lparr>link_target_name := None\<rparr>) =
      j0\<lparr>core := (core i)\<lparr>pad_ino := pad_ino (core j0), pad_end := pad_end (core j0)\<rparr>,
         link_target_name := link_target_name i\<rparr>"
proof -
  obtain m where m: "inode_to_rename_src_response i response = Inr m" "msg_carries m i"
    using src_response_carries [OF assms] by blast
  let ?i = "rename_src_response_to_inode m (i0\<lparr>link_target_name := None\<rparr>)"
  have i: "?i = i0\<lparr>core := (core i)\<lparr>pad_ino := pad_ino (core i0), pad_end := pad_end (core i0)\<rparr>,
      link_target_name := link_target_name i\<rparr>"
    using src_response_delivers [OF assms m(2)] .
  have wf: "wf_inode ?i" unfolding i using assms by (auto simp: wf_inode_def split: option.splits)
  obtain m' where m': "inode_to_rename_dst_request ?i request = Inr m'" "msg_carries m' ?i"
    using dst_request_carries [OF wf] by blast
  have "rename_dst_request_to_inode m' (j0\<lparr>link_target_name := None\<rparr>) =
      j0\<lparr>core := (core ?i)\<lparr>pad_ino := pad_ino (core j0), pad_end := pad_end (core j0)\<rparr>,
         link_target_name := link_target_name ?i\<rparr>"
    by (rule dst_request_delivers [OF wf m'(2)])
  with m(1) m'(1) i show ?thesis by simp
qed

theorem rename_messages_roundtrip_witness:
  "\<exists>m m'. inode_to_rename_src_response
        (inode_new_symlink get_root_ino \<lparr>tv_sec = 1, tv_nsec = 2\<rparr> nil_uuid 0 0 S_IFLNK ''/a'') empty_msg = Inr m \<and>
      inode_to_rename_dst_request
        (rename_src_response_to_inode m (null_inode\<lparr>link_target_name := None\<rparr>)) empty_msg = Inr m' \<and>
      link_target_name (rename_dst_request_to_inode m' (null_inode\<lparr>link_target_name := None\<rparr>)) = Some ''/a''"
proof -
  let ?i = "inode_new_symlink get_root_ino \<lparr>tv_sec = 1, tv_nsec = 2\<rparr> nil_uuid 0 0 S_IFLNK ''/a''"
  have "S_ISLNK S_IFLNK" by (simp add: S_ISLNK_def mode_bits)
  then have "wf_inode ?i" by simp
  from rename_messages_roundtrip [OF this, of empty_msg null_inode empty_msg null_inode]
  show ?thesis by (auto simp: inode_new_symlink_def)
qed

text \<open>
  the change time reported by \<^verbatim>\<open>inode::fill_stat\<close> is right only by accident: exactly when its
  seconds equal its nanoseconds and the caller's buffer already held the nanoseconds.  The other
  times are always reported as they are.
\<close>

theorem fill_stat_ctime_wrong:
  "(st_ctim (fill_stat i s) = i_ctime (core i) \<longleftrightarrow>
      tv_sec (i_ctime (core i)) = tv_nsec (i_ctime (core i)) \<and>
      tv_nsec (st_ctim s) = tv_nsec (i_ctime (core i))) \<and>
    st_atim (fill_stat i s) = i_atime (core i) \<and> st_mtim (fill_stat i s) = i_mtime (core i)"
  by (cases "st_ctim s"; cases "i_ctime (core i)") (auto simp: fill_stat_def Let_def)

end
