(* ===== verification/Dentry.thy ===== *)
theory Dentry
  imports Inode
begin

text \<open>
  Directory contents (\<^verbatim>\<open>client/meta/dentry.cpp\<close>): the map from names to inode numbers of one
  directory, its flat serialisation and its loading and storing as one object.  The hash table
  is a finite map; the order in which it is visited is the parameter \<open>it\<close>, constrained by the
  locale \<open>iteration\<close>.
\<close>

section \<open>Data and operations\<close>

record dentry =
  this_ino :: uuid
  child_list :: "string \<rightharpoonup> uuid"

type_synonym order = "(string \<rightharpoonup> uuid) \<Rightarrow> (string \<times> uuid) list"

definition MAX_DENTRY_OBJ_SIZE :: nat where
  "MAX_DENTRY_OBJ_SIZE = OBJ_SIZE"

definition add_child :: "string \<Rightarrow> uuid \<Rightarrow> dentry \<Rightarrow> dentry" where
  "add_child filename ino d =
     (case child_list d filename of
        None \<Rightarrow> d\<lparr>child_list := (child_list d)(filename \<mapsto> ino)\<rparr>
      | Some _ \<Rightarrow> d\<lparr>child_list := (child_list d)(filename \<mapsto> ino)\<rparr>)"

definition delete_child :: "string \<Rightarrow> dentry \<Rightarrow> dentry" where
  "delete_child filename d =
     (case child_list d filename of
        Some _ \<Rightarrow> d\<lparr>child_list := (child_list d)(filename := None)\<rparr>
      | None \<Rightarrow> d)"

definition get_child_ino :: "dentry \<Rightarrow> string \<Rightarrow> uuid" where
  "get_child_ino d child_name =
     (case child_list d child_name of None \<Rightarrow> nil_uuid | Some ino \<Rightarrow> ino)"

definition get_child_num :: "order \<Rightarrow> dentry \<Rightarrow> nat" where
  "get_child_num it d = length (it (child_list d))"

definition get_total_name_length :: "order \<Rightarrow> dentry \<Rightarrow> nat" where
  "get_total_name_length it d = sum_list (map (\<lambda>(name, ino). length name) (it (child_list d)))"

text \<open>The names handed to the FUSE filler, in order.\<close>

definition fill_filler :: "order \<Rightarrow> dentry \<Rightarrow> string list" where
  "fill_filler it d =
     ''.'' # ''..'' # map (\<lambda>(name, ino). takeWhile (\<lambda>ch. ch \<noteq> CHR 0x00) name) (it (child_list d))"

section \<open>Serialisation\<close>

definition encode_child :: "string \<times> uuid \<Rightarrow> byte list" where
  "encode_child ch =
     (case ch of (name, ino) \<Rightarrow>
        le32 (of_nat (length name)) @ map byte_of_char name @ uuid_data ino)"

definition dentry_raw_size :: "order \<Rightarrow> dentry \<Rightarrow> nat" where
  "dentry_raw_size it d =
     8 + get_child_num it d * 4 + get_total_name_length it d + get_child_num it d * 16"

text \<open>
  A name of \<open>2 ^ 31\<close> characters or more would make \<^verbatim>\<open>name_length\<close> negative and the copy leave the
  buffer.
\<close>

definition dentry_serialize :: "order \<Rightarrow> dentry \<Rightarrow> byte list result" where
  "dentry_serialize it d =
     (let children = it (child_list d) in
      if list_all (\<lambda>(name, ino). length name < 2 ^ 31) children
      then Inr (le64 (of_nat (length children)) @ concat (map encode_child children) @ [0])
      else Inl Undefined_behaviour)"

text \<open>
  One iteration of the parsing loop: a negative length requests an impossible allocation (or, for
  \<open>-1\<close>, an empty one that is then overrun); anything that ends outside the buffer is undefined.
  \<^verbatim>\<open>insert\<close> keeps an entry that already exists.
\<close>

primrec decode_children ::
  "nat \<Rightarrow> byte list \<Rightarrow> (string \<rightharpoonup> uuid) \<Rightarrow> (string \<rightharpoonup> uuid) result" where
  "decode_children 0 bs m = Inr m"
| "decode_children (Suc n) bs m =
     (if length bs < 4 then Inl Undefined_behaviour
      else
        (let name_length = un_le32 bs; k = unat name_length in
         if sint name_length = - 1 then Inl Undefined_behaviour
         else if sint name_length < 0 then Inl Bad_alloc
         else if length bs < 4 + k + 16 then Inl Undefined_behaviour
         else
           (let name = c_str (take k (drop 4 bs) @ [0]);
                ino = Uuid (take 16 (drop (4 + k) bs))
            in decode_children n (drop (4 + k + 16) bs)
                 (case m name of None \<Rightarrow> m(name \<mapsto> ino) | Some _ \<Rightarrow> m))))"

declare decode_children.simps(2) [simp del]

definition dentry_deserialize :: "byte list \<Rightarrow> dentry \<Rightarrow> dentry result" where
  "dentry_deserialize raw d =
     (if length raw < 8 then Inl Undefined_behaviour
      else
        (case decode_children (unat (un_le64 raw)) (drop 8 raw) (child_list d) of
           Inl e \<Rightarrow> Inl e
         | Inr m \<Rightarrow> Inr (d\<lparr>child_list := m\<rparr>)))"

definition dentry_sync :: "'s extern \<Rightarrow> order \<Rightarrow> dentry \<Rightarrow> ('s, unit) st" where
  "dentry_sync L it d s =
     (case dentry_serialize it d of
        Inl e \<Rightarrow> (Inl e, s)
      | Inr raw \<Rightarrow>
          bindE (rados_write L DENTRY (uuid_to_string L (this_ino d)) raw (dentry_raw_size it d) 0)
            (\<lambda>_. returnE ()) s)"

definition dentry_new :: "'s extern \<Rightarrow> 's \<Rightarrow> uuid \<Rightarrow> bool \<Rightarrow> dentry result" where
  "dentry_new L s ino mkdir =
     (if mkdir then Inr \<lparr>this_ino = ino, child_list = Map.empty\<rparr>
      else
        (case rados_read L s DENTRY (uuid_to_string L ino) MAX_DENTRY_OBJ_SIZE 0 of
           Inl (No_such_object _) \<Rightarrow>
             Inl (Runtime_error (''Dentry Corrupted: inode number '' @ uuid_to_string L ino))
         | Inl e \<Rightarrow> Inl e
         | Inr bs \<Rightarrow>
             dentry_deserialize (bs @ replicate (MAX_DENTRY_OBJ_SIZE - length bs) 0)
               \<lparr>this_ino = ino, child_list = Map.empty\<rparr>))"

section \<open>The directory as a finite map\<close>

text \<open>
  The contract a table of names offers to the code above it; the directory entry and the in-memory
  directory table rely on it.
\<close>

locale name_table =
  fixes lookup :: "'t \<Rightarrow> string \<Rightarrow> uuid option"
    and enter :: "string \<Rightarrow> uuid \<Rightarrow> 't \<Rightarrow> 't"
    and leave :: "string \<Rightarrow> 't \<Rightarrow> 't"
  assumes lookup_enter: "lookup (enter f u t) = (lookup t)(f \<mapsto> u)"
    and lookup_leave: "lookup (leave f t) = (lookup t)(f := None)"
begin

lemma enter_enter: "lookup (enter f u (enter f v t)) = lookup (enter f u t)"
  by (simp add: lookup_enter)

lemma leave_enter: "lookup t f = None \<Longrightarrow> lookup (leave f (enter f u t)) = lookup t"
  by (auto simp: lookup_enter lookup_leave)

lemma enter_leave_commute:
  "f \<noteq> g \<Longrightarrow> lookup (leave g (enter f u t)) = lookup (enter f u (leave g t))"
  by (auto simp: lookup_enter lookup_leave)

lemma rename_moves:
  "f \<noteq> g \<Longrightarrow> lookup t f = Some u \<Longrightarrow>
    lookup (enter g u (leave f t)) = (lookup t)(f := None, g \<mapsto> u)"
  by (simp add: lookup_enter lookup_leave)

lemma finite_enter: "finite (dom (lookup t)) \<Longrightarrow> finite (dom (lookup (enter f u t)))"
  by (simp add: lookup_enter)

lemma finite_leave: "finite (dom (lookup t)) \<Longrightarrow> finite (dom (lookup (leave f t)))"
  by (simp add: lookup_leave)

end

interpretation dentry: name_table child_list add_child delete_child
  by unfold_locales (auto simp: add_child_def delete_child_def split: option.splits)

section \<open>Parsing what was serialised\<close>

lemma length_encode_child [simp]: "length (encode_child (name, ino)) = 4 + length name + 16"
  by (simp add: encode_child_def)

lemma length_concat_children:
  "length (concat (map encode_child xs)) = length xs * 4 + sum_list (map (\<lambda>(name, ino). length name) xs) + length xs * 16"
  by (induction xs) auto

lemma dentry_raw_size_eq:
  "dentry_raw_size it d = 8 + length (concat (map encode_child (it (child_list d))))"
  by (simp add: dentry_raw_size_def get_child_num_def get_total_name_length_def length_concat_children)

lemma name_length_word:
  assumes "n < 2 ^ 31"
  shows "unat (of_nat n :: 32 word) = n" and "sint (of_nat n :: 32 word) = int n"
proof -
  show u: "unat (of_nat n :: 32 word) = n" using assms by (simp add: unat_of_nat)
  have "uint (of_nat n :: 32 word) = int n" using u by (metis int_nat_eq uint_nat unat_eq_nat_uint)
  then show "sint (of_nat n :: 32 word) = int n"
    using assms by (simp add: sint_uint signed_take_bit_int_eq_self)
qed

lemma decode_child_step:
  assumes "length name < 2 ^ 31" and "CHR 0x00 \<notin> set name"
  shows "decode_children (Suc n) (encode_child (name, ino) @ r) m =
    decode_children n r (case m name of None \<Rightarrow> m(name \<mapsto> ino) | Some _ \<Rightarrow> m)"
proof -
  have "c_str (map byte_of_char name @ [0]) = name" using assms(2) by simp
  then show ?thesis
    using assms(1) by (subst decode_children.simps(2)) (simp add: encode_child_def name_length_word [OF assms(1)] Let_def)
qed

lemma decode_children_concat:
  assumes "\<forall>(name, ino) \<in> set xs. length name < 2 ^ 31 \<and> CHR 0x00 \<notin> set name"
    and "distinct (map fst xs)" and "\<forall>k \<in> fst ` set xs. m k = None"
  shows "decode_children (length xs) (concat (map encode_child xs) @ r) m = Inr (m ++ map_of xs)"
  using assms
proof (induction xs arbitrary: m)
  case Nil
  then show ?case by simp
next
  case (Cons x xs)
  obtain name ino where x: "x = (name, ino)" by fastforce
  have "decode_children (length xs) (concat (map encode_child xs) @ r) (m(name \<mapsto> ino)) =
      Inr (m(name \<mapsto> ino) ++ map_of xs)"
    using Cons.prems x by (intro Cons.IH) (auto simp: image_iff)
  moreover have "m(name \<mapsto> ino) ++ map_of xs = m ++ map_of (x # xs)"
    using Cons.prems(2) x by (simp add: map_add_upd_left dom_map_of_conv_image_fst)
  ultimately have "decode_children (length xs) (concat (map encode_child xs) @ r) (m(name \<mapsto> ino)) =
      Inr (m ++ map_of (x # xs))" by (simp only:)
  then show ?case
    using Cons.prems x decode_child_step [of name "length xs" ino _ m] by (simp del: map_of.simps)
qed

text \<open>A proper prefix of the entries makes the parser run off its end.\<close>

lemma decode_children_truncated:
  assumes "\<forall>(name, ino) \<in> set xs. length name < 2 ^ 31 \<and> CHR 0x00 \<notin> set name"
    and "k < length (concat (map encode_child xs))"
  shows "decode_children (length xs) (take k (concat (map encode_child xs))) m = Inl Undefined_behaviour"
  using assms
proof (induction xs arbitrary: m k)
  case Nil
  then show ?case by simp
next
  case (Cons x xs)
  obtain name ino where x: "x = (name, ino)" by fastforce
  have len: "length name < 2 ^ 31" and nul: "CHR 0x00 \<notin> set name" using Cons.prems(1) x by auto
  show ?case
  proof (cases "4 + length name + 16 \<le> k")
    case True
    then have "take k (concat (map encode_child (x # xs))) =
        encode_child (name, ino) @ take (k - (4 + length name + 16)) (concat (map encode_child xs))"
      using x by simp
    moreover have "k - (4 + length name + 16) < length (concat (map encode_child xs))"
      using Cons.prems(2) True x by simp
    ultimately show ?thesis
      using Cons.IH Cons.prems(1) decode_child_step [OF len nul] by simp
  next
    case False
    let ?bs = "take k (concat (map encode_child (x # xs)))"
    have short: "length ?bs < 4 + length name + 16" using False by simp
    show ?thesis
    proof (cases "k < 4")
      case True
      then have "length ?bs < 4" by simp
      then show ?thesis by (simp add: decode_children.simps(2))
    next
      case False
      then have "take 4 ?bs = le32 (of_nat (length name))"
        using x by (simp add: encode_child_def min.absorb1)
      then have "un_le32 ?bs = of_nat (length name)"
        using un_le32_le32' by (metis take_take un_le32_def min.idem)
      then show ?thesis using short name_length_word [OF len] 
        by (simp add: decode_children.simps(2) Let_def)
    qed
  qed
qed

section \<open>Storing and loading\<close>

definition wf_dentry :: "dentry \<Rightarrow> bool" where
  "wf_dentry d \<longleftrightarrow> finite (dom (child_list d)) \<and>
     (\<forall>name \<in> dom (child_list d). length name < 2 ^ 31 \<and> CHR 0x00 \<notin> set name)"

lemma wf_dentry_add: "wf_dentry d \<Longrightarrow> length name < 2 ^ 31 \<Longrightarrow> CHR 0x00 \<notin> set name \<Longrightarrow>
    wf_dentry (add_child name ino d)"
  by (auto simp: wf_dentry_def dentry.lookup_enter)

lemma wf_dentry_delete: "wf_dentry d \<Longrightarrow> wf_dentry (delete_child name d)"
  by (auto simp: wf_dentry_def dentry.lookup_leave)

locale dentry_io = librados_healthy L objs + iteration it
  for L :: "'s extern" and objs :: "'s \<Rightarrow> string \<Rightarrow> byte list option" and it :: order
begin

abbreviation body :: "dentry \<Rightarrow> byte list" where
  "body d \<equiv> concat (map encode_child (it (child_list d)))"

lemma wf_children:
  "wf_dentry d \<Longrightarrow> \<forall>(name, ino) \<in> set (it (child_list d)). length name < 2 ^ 31 \<and> CHR 0x00 \<notin> set name"
  using iter_mem [of "child_list d"] by (fastforce simp: wf_dentry_def dom_def)

lemma dentry_serialize_ok:
  assumes "wf_dentry d"
  shows "dentry_serialize it d = Inr (le64 (of_nat (length (it (child_list d)))) @ body d @ [0])"
  using wf_children [OF assms] by (fastforce simp: dentry_serialize_def list_all_iff Let_def)

lemma dentry_sync_ok:
  assumes "wf_dentry d" and "stores objs s DENTRY (uuid_to_string L (this_ino d)) old"
    and "dentry_raw_size it d \<le> MAX_OFFSET"
  shows "\<exists>s'. dentry_sync L it d s = (Inr (), s') \<and>
    stores objs s' DENTRY (uuid_to_string L (this_ino d))
      (write_spec old 0 (le64 (of_nat (length (it (child_list d)))) @ body d)) \<and>
    frame objs DENTRY (uuid_to_string L (this_ino d)) s s'"
proof -
  let ?raw = "le64 (of_nat (length (it (child_list d)))) @ body d @ [0]"
  have len: "dentry_raw_size it d \<le> length ?raw" by (simp add: dentry_raw_size_eq)
  have tk: "take (dentry_raw_size it d) ?raw = le64 (of_nat (length (it (child_list d)))) @ body d"
    by (simp add: dentry_raw_size_eq)
  obtain s' where "rados_write L DENTRY (uuid_to_string L (this_ino d)) ?raw (dentry_raw_size it d) 0 s
      = (Inr (dentry_raw_size it d), s')"
    "stores objs s' DENTRY (uuid_to_string L (this_ino d)) (write_spec old 0 (take (dentry_raw_size it d) ?raw))"
    "frame objs DENTRY (uuid_to_string L (this_ino d)) s s'"
    using rados_write_ok [OF assms(2) len, of 0] assms(3) by auto
  then show ?thesis unfolding tk by (simp add: dentry_sync_def dentry_serialize_ok [OF assms(1)])
qed

lemma dentry_read:
  assumes "stores objs s DENTRY (uuid_to_string L ino) c" and "c \<noteq> []"
  shows "rados_read L s DENTRY (uuid_to_string L ino) MAX_DENTRY_OBJ_SIZE 0 = Inr (take OBJ_SIZE c)"
proof -
  let ?k = "get_prefix DENTRY @ uuid_to_string L ino @ get_postfix 0"
  have f: "striped (blocks objs s DENTRY (uuid_to_string L ino)) c" using assms(1) by (simp add: stores_def)
  have "blocks objs s DENTRY (uuid_to_string L ino) 0 \<noteq> None"
    using striped_present [OF f, of 0] assms(2) by simp
  then obtain b where b: "objs s ?k = Some b" by (auto simp: blocks_def)
  moreover have "b = take OBJ_SIZE c" using striped_block [OF f, of 0 b] b by (simp add: blocks_def)
  ultimately show ?thesis
    by (simp add: rados_read_blocks MAX_DENTRY_OBJ_SIZE_def read_blocks.simps [of _ _ _ 0] read_blocks.simps [of _ _ _ OBJ_SIZE]
        obj_num_of_eq block_off_eq sub_len_def next_bound_eq read_obj_present)
qed

lemma count_word: "8 + length (body d) \<le> OBJ_SIZE \<Longrightarrow>
    unat (of_nat (length (it (child_list d))) :: 64 word) = length (it (child_list d))"
  by (simp add: length_concat_children unat_of_nat OBJ_SIZE_def)

lemma dentry_load_ok:
  assumes wf: "wf_dentry d" and fits: "dentry_raw_size it d \<le> OBJ_SIZE"
    and st: "stores objs s DENTRY (uuid_to_string L (this_ino d))
      (le64 (of_nat (length (it (child_list d)))) @ body d @ rest)"
  shows "dentry_new L s (this_ino d) False = Inr d"
proof -
  let ?n = "of_nat (length (it (child_list d))) :: 64 word"
  let ?c = "le64 ?n @ body d @ rest"
  let ?b = "take OBJ_SIZE ?c"
  have fin: "finite (dom (child_list d))" using wf by (simp add: wf_dentry_def)
  obtain r where r: "?b @ replicate (MAX_DENTRY_OBJ_SIZE - length ?b) 0 = le64 ?n @ body d @ r"
    using fits by (simp add: dentry_raw_size_eq OBJ_SIZE_def)
  have "decode_children (length (it (child_list d))) (body d @ r) Map.empty = Inr (Map.empty ++ map_of (it (child_list d)))"
    using wf_children [OF wf] iter_distinct [OF fin] by (intro decode_children_concat) auto
  then have "dentry_deserialize (le64 ?n @ body d @ r) \<lparr>this_ino = this_ino d, child_list = Map.empty\<rparr> = Inr d"
    using count_word [of d] fits iter_map_of [OF fin]
    by (simp add: dentry_deserialize_def dentry_raw_size_eq)
  moreover have "?c \<noteq> []" by simp
  ultimately show ?thesis using dentry_read [OF st] r by (simp add: dentry_new_def)
qed

lemma dentry_load_too_large:
  assumes wf: "wf_dentry d" and big: "OBJ_SIZE < dentry_raw_size it d" and small: "length (it (child_list d)) < 2 ^ 64"
    and st: "stores objs s DENTRY (uuid_to_string L (this_ino d))
      (le64 (of_nat (length (it (child_list d)))) @ body d @ rest)"
  shows "dentry_new L s (this_ino d) False = Inl Undefined_behaviour"
proof -
  let ?n = "of_nat (length (it (child_list d))) :: 64 word"
  let ?c = "le64 ?n @ body d @ rest"
  have len: "OBJ_SIZE - 8 < length (body d)" using big by (simp add: dentry_raw_size_eq OBJ_SIZE_def)
  have tk: "take OBJ_SIZE ?c = le64 ?n @ take (OBJ_SIZE - 8) (body d)"
    using len by (simp add: OBJ_SIZE_def)
  have "length (take OBJ_SIZE ?c) = OBJ_SIZE" using len by (simp add: tk OBJ_SIZE_def)
  moreover have "?c \<noteq> []" by simp
  moreover have "dentry_deserialize (take OBJ_SIZE ?c) \<lparr>this_ino = this_ino d, child_list = Map.empty\<rparr> = Inl Undefined_behaviour"
    unfolding tk using decode_children_truncated [OF wf_children [OF wf] len] small
    by (simp add: dentry_deserialize_def unat_of_nat)
  ultimately show ?thesis using dentry_read [OF st] by (simp add: dentry_new_def MAX_DENTRY_OBJ_SIZE_def)
qed

lemma dentry_new_cong:
  "blocks objs s DENTRY (uuid_to_string L ino) = blocks objs s' DENTRY (uuid_to_string L ino) \<Longrightarrow>
    dentry_new L s ino b = dentry_new L s' ino b"
  by (simp add: dentry_new_def rados_read_cong [of s _ _ s'])

end

lemma dentry_new_ino: "dentry_new L s ino b = Inr d \<Longrightarrow> this_ino d = ino"
  by (auto simp: dentry_new_def dentry_deserialize_def split: if_splits sum.splits exn.splits)

interpretation mem_dentry: dentry_io mem_librados "\<lambda>s. s" sorted_iter
  by unfold_locales

lemma sorted_iter_single [simp]: "sorted_iter [k \<mapsto> v] = [(k, v)]"
  by (simp add: sorted_iter_def)

section \<open>Properties\<close>

text \<open>
  a directory that fits one object and is written with \<^verbatim>\<open>dentry::sync\<close> is read back by the
  constructor with exactly the same entries, whatever order the hash table is visited in and whatever
  the object held before; no other object changes.
\<close>

theorem dentry_sync_then_load:
  assumes "dentry_io L objs it" and "wf_dentry d" and "dentry_raw_size it d \<le> OBJ_SIZE"
    and "stores objs s DENTRY (uuid_to_string L (this_ino d)) old"
  shows "\<exists>s'. dentry_sync L it d s = (Inr (), s') \<and> dentry_new L s' (this_ino d) False = Inr d \<and>
    frame objs DENTRY (uuid_to_string L (this_ino d)) s s'"
  using dentry_io.dentry_sync_ok [OF assms(1,2,4) MAX_OFFSET_obj [OF assms(3)]]
    dentry_io.dentry_load_ok [OF assms(1,2,3)]
  by (auto simp: write_spec_def overwrite_def)

theorem dentry_sync_then_load_witness:
  "\<exists>s'. dentry_sync mem_librados sorted_iter \<lparr>this_ino = get_root_ino, child_list = [''a'' \<mapsto> nil_uuid]\<rparr> Map.empty
        = (Inr (), s') \<and>
    dentry_new mem_librados s' get_root_ino False =
      Inr \<lparr>this_ino = get_root_ino, child_list = [''a'' \<mapsto> nil_uuid]\<rparr>"
proof -
  let ?d = "\<lparr>this_ino = get_root_ino, child_list = [''a'' \<mapsto> nil_uuid]\<rparr>"
  have "wf_dentry ?d" by (simp add: wf_dentry_def)
  moreover have "dentry_raw_size sorted_iter ?d \<le> OBJ_SIZE"
    by (simp add: dentry_raw_size_eq encode_child_def OBJ_SIZE_def)
  ultimately show ?thesis
    using dentry_sync_then_load [OF mem_dentry.dentry_io_axioms _ _ mem_stores_empty, of ?d] by auto
qed

text \<open>
  a directory whose serialisation is larger than one object is stored without an error, but loading
  it again parses beyond the 4 MiB buffer: the limit noted as a TODO in the header is not checked.
\<close>

theorem dentry_larger_than_object:
  assumes "dentry_io L objs it" and "wf_dentry d" and "OBJ_SIZE < dentry_raw_size it d"
    and "dentry_raw_size it d \<le> MAX_OFFSET" and "length (it (child_list d)) < 2 ^ 64"
    and "stores objs s DENTRY (uuid_to_string L (this_ino d)) old"
  shows "\<exists>s'. dentry_sync L it d s = (Inr (), s') \<and>
    dentry_new L s' (this_ino d) False = Inl Undefined_behaviour"
  using dentry_io.dentry_sync_ok [OF assms(1,2,6,4)] dentry_io.dentry_load_too_large [OF assms(1,2,3,5)]
  by (auto simp: write_spec_def overwrite_def)

theorem dentry_larger_than_object_witness:
  "\<exists>s'. dentry_sync mem_librados sorted_iter
        \<lparr>this_ino = get_root_ino, child_list = [replicate 5000000 CHR ''a'' \<mapsto> nil_uuid]\<rparr> Map.empty = (Inr (), s') \<and>
    dentry_new mem_librados s' get_root_ino False = Inl Undefined_behaviour"
proof -
  let ?d = "\<lparr>this_ino = get_root_ino, child_list = [replicate 5000000 CHR ''a'' \<mapsto> nil_uuid]\<rparr>"
  have "wf_dentry ?d" by (simp add: wf_dentry_def)
  moreover have "OBJ_SIZE < dentry_raw_size sorted_iter ?d"
    by (simp add: dentry_raw_size_eq encode_child_def OBJ_SIZE_def)
  moreover have "dentry_raw_size sorted_iter ?d \<le> MAX_OFFSET"
    by (simp add: dentry_raw_size_eq encode_child_def)
  ultimately show ?thesis
    using dentry_larger_than_object [OF mem_dentry.dentry_io_axioms _ _ _ _ mem_stores_empty, of ?d] by auto
qed

end
