(* ===== verification/Transaction.thy ===== *)
theory Transaction
  imports Dentry
begin

unbundle bit_operations_syntax

text \<open>
  Transactions (\<^verbatim>\<open>client/journal/transaction.cpp\<close>): the changes of one directory that are written to
  its journal object as one record and later applied to the stored metadata.  Every operation, the
  record format, the application \<open>tx_sync\<close>, \<open>tx_commit\<close> and \<open>tx_checkpoint\<close>.  The orders in which
  the hash tables are visited are the fields of \<open>orders\<close>.
\<close>

section \<open>Data\<close>

datatype self_status = S_UNCHANGED | S_CREATED | S_DELETED

text \<open>\<open>tx_offset\<close> is uninitialised (\<open>None\<close>) until the transaction is committed.\<close>

record transaction =
  committed :: bool
  tx_offset :: "nat option"
  status :: self_status
  s_ino :: uuid
  s_inode :: "inode option"
  dentries :: "string \<rightharpoonup> bool \<times> uuid"
  f_inodes :: "uuid \<rightharpoonup> inode option"

record orders =
  ord_children :: order
  ord_dentries :: "(string \<rightharpoonup> bool \<times> uuid) \<Rightarrow> (string \<times> bool \<times> uuid) list"
  ord_f_inodes :: "(uuid \<rightharpoonup> inode option) \<Rightarrow> (uuid \<times> inode option) list"

definition transaction_new :: "uuid \<Rightarrow> transaction" where
  "transaction_new self_ino =
     \<lparr>committed = False, tx_offset = None, status = S_UNCHANGED, s_ino = self_ino, s_inode = None,
      dentries = Map.empty, f_inodes = Map.empty\<rparr>"

section \<open>Operations\<close>

text \<open>
  Each returns 0, or -1 when the transaction is already committed.  \<open>raw\<close> is the indeterminate part
  of a copied inode.
\<close>

definition tx_mkself :: "inode \<Rightarrow> inode \<Rightarrow> (transaction, int) st" where
  "tx_mkself raw self_inode tx =
     (if committed tx then (Inr (-1), tx)
      else (Inr 0, tx\<lparr>s_inode := Some (inode_copy raw self_inode), status := S_CREATED\<rparr>))"

definition tx_rmself :: "uuid \<Rightarrow> (transaction, int) st" where
  "tx_rmself self_ino tx =
     (if committed tx then (Inr (-1), tx) else (Inr 0, tx\<lparr>status := S_DELETED\<rparr>))"

definition tx_chself :: "inode \<Rightarrow> inode \<Rightarrow> (transaction, int) st" where
  "tx_chself raw self_inode tx =
     (if committed tx then (Inr (-1), tx)
      else (Inr 0, tx\<lparr>s_inode := Some (inode_copy raw self_inode)\<rparr>))"

text \<open>The block that every change of an entry ends with: the directory's own times.\<close>

definition touch_self :: "inode \<Rightarrow> inode \<Rightarrow> transaction \<Rightarrow> transaction" where
  "touch_self raw self_inode tx =
     (case s_inode tx of
        Some si \<Rightarrow>
          tx\<lparr>s_inode := Some (si\<lparr>core := (core si)\<lparr>i_mtime := i_mtime (core self_inode),
                                                   i_ctime := i_ctime (core self_inode)\<rparr>\<rparr>)\<rparr>
      | None \<Rightarrow> tx\<lparr>s_inode := Some (inode_copy raw self_inode)\<rparr>)"

definition tx_mkdir :: "inode \<Rightarrow> inode \<Rightarrow> string \<Rightarrow> uuid \<Rightarrow> (transaction, int) st" where
  "tx_mkdir raw self_inode d_name d_ino tx =
     (if committed tx then (Inr (-1), tx)
      else
        (case dentries tx d_name of
           Some (True, _) \<Rightarrow>
             (Inl (Logic_error ''transaction::mkdir() failed (directory already exists)''), tx)
         | _ \<Rightarrow>
             (Inr 0, touch_self raw self_inode
                       (tx\<lparr>dentries := (dentries tx)(d_name \<mapsto> (True, d_ino))\<rparr>))))"

definition tx_rmdir :: "inode \<Rightarrow> inode \<Rightarrow> string \<Rightarrow> uuid \<Rightarrow> (transaction, int) st" where
  "tx_rmdir raw self_inode d_name d_ino tx =
     (if committed tx then (Inr (-1), tx)
      else
        (case dentries tx d_name of
           Some (False, _) \<Rightarrow>
             (Inl (Logic_error ''transaction::rmdir() failed (directory doesn't exist)''), tx)
         | _ \<Rightarrow>
             (Inr 0, touch_self raw self_inode
                       (tx\<lparr>dentries := (dentries tx)(d_name \<mapsto> (False, d_ino))\<rparr>))))"

definition tx_mvdir ::
  "inode \<Rightarrow> inode \<Rightarrow> string \<Rightarrow> uuid \<Rightarrow> string \<Rightarrow> uuid \<Rightarrow> (transaction, int) st" where
  "tx_mvdir raw self_inode src_d_name src_d_ino dst_d_name dst_d_ino tx =
     (if committed tx then (Inr (-1), tx)
      else
        (case dentries tx src_d_name of
           Some (False, _) \<Rightarrow>
             (Inl (Logic_error ''transaction::mvdir() failed (src directory doesn't exist)''), tx)
         | _ \<Rightarrow>
             (Inr 0, touch_self raw self_inode
                       (tx\<lparr>dentries := (dentries tx)(src_d_name \<mapsto> (False, src_d_ino),
                                                      dst_d_name \<mapsto> (True, src_d_ino))\<rparr>))))"

definition tx_mkreg :: "inode \<Rightarrow> inode \<Rightarrow> string \<Rightarrow> inode \<Rightarrow> (transaction, int) st" where
  "tx_mkreg raw self_inode f_name f_inode tx =
     (if committed tx then (Inr (-1), tx)
      else
        (case dentries tx f_name of
           Some (True, _) \<Rightarrow>
             (Inl (Logic_error ''transaction::mkreg() failed (file already exists)''), tx)
         | _ \<Rightarrow>
             (let ino = i_ino (core f_inode);
                  tx1 = touch_self raw self_inode
                          (tx\<lparr>dentries := (dentries tx)(f_name \<mapsto> (True, ino))\<rparr>)
              in case f_inodes tx1 ino of
                   Some (Some _) \<Rightarrow>
                     (Inl (Logic_error ''transaction::mkreg() failed (file already exists)''), tx1)
                 | _ \<Rightarrow>
                     (Inr 0, tx1\<lparr>f_inodes := (f_inodes tx1)(ino \<mapsto> Some (inode_copy raw f_inode))\<rparr>))))"

definition tx_rmreg :: "inode \<Rightarrow> inode \<Rightarrow> string \<Rightarrow> inode \<Rightarrow> (transaction, int) st" where
  "tx_rmreg raw self_inode f_name f_inode tx =
     (if committed tx then (Inr (-1), tx)
      else
        (case dentries tx f_name of
           Some (False, _) \<Rightarrow>
             (Inl (Logic_error ''transaction::rmreg() failed (file doesn't exist)''), tx)
         | _ \<Rightarrow>
             (let ino = i_ino (core f_inode);
                  tx1 = touch_self raw self_inode
                          (tx\<lparr>dentries := (dentries tx)(f_name \<mapsto> (False, ino))\<rparr>)
              in case f_inodes tx1 ino of
                   Some None \<Rightarrow>
                     (Inl (Logic_error ''transaction::rmreg() failed (file doesn't exist)''), tx1)
                 | _ \<Rightarrow> (Inr 0, tx1\<lparr>f_inodes := (f_inodes tx1)(ino \<mapsto> None)\<rparr>))))"

definition tx_mvreg ::
  "inode \<Rightarrow> inode \<Rightarrow> string \<Rightarrow> uuid \<Rightarrow> string \<Rightarrow> uuid \<Rightarrow> (transaction, int) st" where
  "tx_mvreg raw self_inode src_f_name src_f_ino dst_f_name dst_f_ino tx =
     (if committed tx then (Inr (-1), tx)
      else
        (case dentries tx src_f_name of
           Some (False, _) \<Rightarrow>
             (Inl (Logic_error ''transaction::mvreg() failed (src file doesn't exist)''), tx)
         | _ \<Rightarrow>
             (let tx1 = touch_self raw self_inode
                          (tx\<lparr>dentries := (dentries tx)(src_f_name \<mapsto> (False, src_f_ino),
                                                         dst_f_name \<mapsto> (True, src_f_ino))\<rparr>)
              in (Inr 0, if is_nil dst_f_ino then tx1
                         else tx1\<lparr>f_inodes := (f_inodes tx1)(dst_f_ino \<mapsto> None)\<rparr>))))"

definition tx_chreg :: "inode \<Rightarrow> inode \<Rightarrow> (transaction, int) st" where
  "tx_chreg raw f_inode tx =
     (if committed tx then (Inr (-1), tx)
      else (Inr 0, tx\<lparr>f_inodes := (f_inodes tx)(i_ino (core f_inode) \<mapsto> Some (inode_copy raw f_inode))\<rparr>))"

section \<open>The journal record\<close>

definition encode_sized :: "byte list \<Rightarrow> byte list" where
  "encode_sized bs = le32 (of_nat (length bs)) @ bs"

definition encode_dentry :: "string \<times> bool \<times> uuid \<Rightarrow> byte list" where
  "encode_dentry d =
     (case d of (name, alive, ino) \<Rightarrow>
        (if alive then 1 else 0) # encode_sized (map byte_of_char name) @ uuid_data ino)"

definition tx_serialize :: "orders \<Rightarrow> transaction \<Rightarrow> byte list result" where
  "tx_serialize ords tx =
     (case (case s_inode tx of
              None \<Rightarrow> Inr [-1, -1, -1, -1]
            | Some i \<Rightarrow> map_sum id encode_sized (inode_serialize i)) of
        Inl e \<Rightarrow> Inl e
      | Inr s_part \<Rightarrow>
          (case mapR inode_serialize (List.map_filter snd (ord_f_inodes ords (f_inodes tx))) of
             Inl e \<Rightarrow> Inl e
           | Inr f_vecs \<Rightarrow>
               (let body = 1 # s_part @
                      concat (map encode_dentry (ord_dentries ords (dentries tx))) @ [-1] @
                      concat (map encode_sized f_vecs) @ [-1, -1, -1, -1]
                in Inr (le32 (of_nat (4 + length body)) @ body))))"

text \<open>
  Reading a record.  \<^verbatim>\<open>sizeof(inode)\<close> on x86-64: virtual table pointer, \<^verbatim>\<open>p_ino\<close>, \<^verbatim>\<open>core\<close>,
  \<^verbatim>\<open>loc\<close>, shared pointer and recursive mutex.
\<close>

definition SIZEOF_INODE :: nat where
  "SIZEOF_INODE = 8 + 16 + REG_INODE_SIZE + 8 + 16 + 40"

function decode_dentries ::
  "byte list \<Rightarrow> (string \<rightharpoonup> bool \<times> uuid) \<Rightarrow> ((string \<rightharpoonup> bool \<times> uuid) \<times> byte list) result" where
  "decode_dentries bs m =
     (case bs of
        [] \<Rightarrow> Inl Undefined_behaviour
      | entry_stat # r \<Rightarrow>
          if entry_stat = -1 then Inr (m, r)
          else if length r < 4 then Inl Undefined_behaviour
          else
            (let dentry_size = un_le32 r; k = unat dentry_size in
             if sint dentry_size < 0 then Inl (Logic_error ''basic_string::_M_create'')
             else if length r < 4 + k + 16 then Inl Undefined_behaviour
             else
               (let name = map char_of_byte (take k (drop 4 r));
                    ino = Uuid (take 16 (drop (4 + k) r))
                in case m name of
                     Some _ \<Rightarrow>
                       Inl (Logic_error ''transaction::deserialize() failed (a duplicated key exists)'')
                   | None \<Rightarrow> decode_dentries (drop (4 + k + 16) r) (m(name \<mapsto> (entry_stat \<noteq> 0, ino))))))"
  by pat_completeness auto
termination
  by (relation "measure (\<lambda>(bs, m). length bs)") auto

declare decode_dentries.simps [simp del]

text \<open>
  The inode blocks.  The stored size moves the index and may be negative.  An index is never met
  twice, because the same block would insert the same number again and raise the exception, so the
  number of blocks is bounded by the length of the record, which is the fuel.
\<close>

fun decode_f_inodes ::
  "'s extern \<Rightarrow> 's \<Rightarrow> inode \<Rightarrow> nat \<Rightarrow> byte list \<Rightarrow> int \<Rightarrow> (uuid \<rightharpoonup> inode option)
     \<Rightarrow> (uuid \<rightharpoonup> inode option) result" where
  "decode_f_inodes L s raw0 0 raw index m = Inl Diverges"
| "decode_f_inodes L s raw0 (Suc fuel) raw index m =
     (if index < 0 \<or> int (length raw) < index + 4 then Inl Undefined_behaviour
      else
        (let f_inode_size = un_le32 (drop (nat index) raw) in
         if f_inode_size = -1 then Inr m
         else
           (case inode_deserialize L s (drop (nat (index + 4)) raw)
                   (raw0\<lparr>loc := LOC_JOURNAL, link_target_name := None\<rparr>) of
              Inl e \<Rightarrow> Inl e
            | Inr i \<Rightarrow>
                (case m (i_ino (core i)) of
                   Some _ \<Rightarrow>
                     Inl (Logic_error ''transaction::deserialize() failed (a duplicated key exists)'')
                 | None \<Rightarrow>
                     decode_f_inodes L s raw0 fuel raw (index + 4 + sint f_inode_size)
                       (m(i_ino (core i) \<mapsto> Some i))))))"

declare decode_f_inodes.simps [simp del]

definition tx_deserialize ::
  "'s extern \<Rightarrow> 's \<Rightarrow> inode \<Rightarrow> byte list \<Rightarrow> transaction \<Rightarrow> int result \<times> transaction" where
  "tx_deserialize L s raw0 raw tx =
     (if length raw < 5 then (Inl Undefined_behaviour, tx)
      else if raw ! 4 = 0 then (Inr (-1), tx)
      else if length raw < 9 then (Inl Undefined_behaviour, tx)
      else
        (case (if un_le32 (drop 5 raw) = -1 then Inr (9, tx)
               else map_sum id (\<lambda>i. (9 + SIZEOF_INODE, tx\<lparr>s_inode := Some i\<rparr>))
                      (inode_deserialize L s (drop 9 raw)
                         (raw0\<lparr>loc := LOC_JOURNAL, link_target_name := None\<rparr>))) of
           Inl e \<Rightarrow> (Inl e, tx)
         | Inr (index, tx1) \<Rightarrow>
             (case decode_dentries (drop index raw) (dentries tx1) of
                Inl e \<Rightarrow> (Inl e, tx1)
              | Inr (m, rest) \<Rightarrow>
                  (let tx2 = tx1\<lparr>dentries := m\<rparr> in
                   case decode_f_inodes L s raw0 (Suc (length raw)) raw
                          (int (length raw) - int (length rest)) (f_inodes tx2) of
                     Inl e \<Rightarrow> (Inl e, tx2)
                   | Inr fm \<Rightarrow> (Inr 0, tx2\<lparr>f_inodes := fm\<rparr>)))))"

section \<open>Application, commit and checkpoint\<close>

definition apply_entry :: "string \<times> bool \<times> uuid \<Rightarrow> dentry \<Rightarrow> dentry" where
  "apply_entry p d =
     (case p of (name, alive, ino) \<Rightarrow> if alive then add_child name ino d else delete_child name d)"

definition tx_sync :: "'s extern \<Rightarrow> orders \<Rightarrow> transaction \<Rightarrow> ('s, unit) st" where
  "tx_sync L ords tx =
     (if status tx = S_DELETED then
        bindE (rados_remove L INODE (uuid_to_string L (s_ino tx)))
          (\<lambda>_. rados_remove L DENTRY (uuid_to_string L (s_ino tx)))
      else
        bindE (case s_inode tx of Some i \<Rightarrow> inode_sync L i | None \<Rightarrow> returnE ())
          (\<lambda>_. bindE (liftE (\<lambda>s. dentry_new L s (s_ino tx) (status tx = S_CREATED)))
          (\<lambda>d. bindE (dentry_sync L (ord_children ords)
                         (fold apply_entry (ord_dentries ords (dentries tx)) d))
          (\<lambda>_. foldE (\<lambda>p. case snd p of Some i \<Rightarrow> inode_sync L i | None \<Rightarrow> returnE ())
                 (ord_f_inodes ords (f_inodes tx))))))"

text \<open>
  \<open>tx_commit\<close> threads the transaction and the pool; the flag is set before anything can fail.
\<close>

definition tx_commit :: "'s extern \<Rightarrow> orders \<Rightarrow> (transaction \<times> 's, unit) st" where
  "tx_commit L ords txs =
     (case txs of (tx, s) \<Rightarrow>
        if committed tx
        then (Inl (Logic_error ''transaction::commit() failed (tx has been already committed)''), (tx, s))
        else
          (let tx1 = tx\<lparr>committed := True\<rparr> in
           case tx_serialize ords tx1 of
             Inl e \<Rightarrow> (Inl e, (tx1, s))
           | Inr raw \<Rightarrow>
               (case rados_stat L s JOURNAL (uuid_to_string L (s_ino tx)) of
                  Inl e \<Rightarrow> (Inl e, (tx1, s))
                | Inr (_, obj_size) \<Rightarrow>
                    (case rados_write L JOURNAL (uuid_to_string L (s_ino tx)) raw (length raw) obj_size s of
                       (Inl e, s') \<Rightarrow> (Inl e, (tx1, s'))
                     | (Inr _, s') \<Rightarrow> (Inr (), (tx1\<lparr>tx_offset := Some obj_size\<rparr>, s'))))))"

definition tx_checkpoint :: "'s extern \<Rightarrow> orders \<Rightarrow> transaction \<Rightarrow> ('s, unit) st" where
  "tx_checkpoint L ords tx =
     bindE (tx_sync L ords tx)
       (\<lambda>_. case tx_offset tx of
              None \<Rightarrow> throwE Undefined_behaviour
            | Some offset \<Rightarrow>
                bindE (rados_write L JOURNAL (uuid_to_string L (s_ino tx)) [0] 1 offset) (\<lambda>_. returnE ()))"

section \<open>A transaction as a change of a directory\<close>

text \<open>The operations as data, and what each means for the entries of a directory.\<close>

datatype tx_op =
    Mkself inode | Rmself uuid | Chself inode
  | Mkdir inode string uuid | Rmdir inode string uuid | Mvdir inode string uuid string uuid
  | Mkreg inode string inode | Rmreg inode string inode | Mvreg inode string uuid string uuid
  | Chreg inode

fun tx_exec :: "inode \<Rightarrow> tx_op \<Rightarrow> (transaction, int) st" where
  "tx_exec raw (Mkself i) = tx_mkself raw i"
| "tx_exec raw (Rmself u) = tx_rmself u"
| "tx_exec raw (Chself i) = tx_chself raw i"
| "tx_exec raw (Mkdir i n u) = tx_mkdir raw i n u"
| "tx_exec raw (Rmdir i n u) = tx_rmdir raw i n u"
| "tx_exec raw (Mvdir i n u n' u') = tx_mvdir raw i n u n' u'"
| "tx_exec raw (Mkreg i n f) = tx_mkreg raw i n f"
| "tx_exec raw (Rmreg i n f) = tx_rmreg raw i n f"
| "tx_exec raw (Mvreg i n u n' u') = tx_mvreg raw i n u n' u'"
| "tx_exec raw (Chreg f) = tx_chreg raw f"

lemmas tx_op_defs = tx_mkself_def tx_rmself_def tx_chself_def tx_mkdir_def tx_rmdir_def tx_mvdir_def
  tx_mkreg_def tx_rmreg_def tx_mvreg_def tx_chreg_def

fun dir_effect :: "tx_op \<Rightarrow> (string \<rightharpoonup> uuid) \<Rightarrow> (string \<rightharpoonup> uuid)" where
  "dir_effect (Mkdir i n u) m = m(n \<mapsto> u)"
| "dir_effect (Rmdir i n u) m = m(n := None)"
| "dir_effect (Mvdir i n u n' u') m = m(n := None, n' \<mapsto> u)"
| "dir_effect (Mkreg i n f) m = m(n \<mapsto> i_ino (core f))"
| "dir_effect (Rmreg i n f) m = m(n := None)"
| "dir_effect (Mvreg i n u n' u') m = m(n := None, n' \<mapsto> u)"
| "dir_effect _ m = m"

definition apply_dentries :: "(string \<rightharpoonup> bool \<times> uuid) \<Rightarrow> (string \<rightharpoonup> uuid) \<Rightarrow> (string \<rightharpoonup> uuid)" where
  "apply_dentries ds m =
     (\<lambda>name. case ds name of None \<Rightarrow> m name | Some (alive, ino) \<Rightarrow> if alive then Some ino else None)"

lemma apply_dentries_empty [simp]: "apply_dentries Map.empty m = m"
  by (simp add: apply_dentries_def)

lemma apply_dentries_upd [simp]:
  "apply_dentries (ds(n \<mapsto> (True, u))) m = (apply_dentries ds m)(n \<mapsto> u)"
  "apply_dentries (ds(n \<mapsto> (False, u))) m = (apply_dentries ds m)(n := None)"
  by (auto simp: apply_dentries_def fun_eq_iff)

lemma touch_self_simps [simp]:
  "dentries (touch_self raw i tx) = dentries tx" "f_inodes (touch_self raw i tx) = f_inodes tx"
  "committed (touch_self raw i tx) = committed tx" "status (touch_self raw i tx) = status tx"
  "s_ino (touch_self raw i tx) = s_ino tx" "tx_offset (touch_self raw i tx) = tx_offset tx"
  by (simp_all add: touch_self_def split: option.split)

lemma tx_exec_entries:
  "tx_exec raw op tx = (Inr 0, tx') \<Longrightarrow>
    apply_dentries (dentries tx') m = dir_effect op (apply_dentries (dentries tx) m)"
  by (cases op) (auto simp: tx_op_defs Let_def split: if_splits option.splits bool.splits prod.splits)

lemma tx_exec_committed: "committed tx \<Longrightarrow> tx_exec raw op tx = (Inr (-1), tx)"
  by (cases op) (simp_all add: tx_op_defs)

lemma tx_exec_result:
  "\<not> committed tx \<Longrightarrow> \<exists>r tx'. tx_exec raw op tx = (r, tx') \<and> \<not> committed tx' \<and> s_ino tx' = s_ino tx \<and>
    (r = Inr 0 \<or> (\<exists>msg. r = Inl (Logic_error msg)))"
  by (cases op) (auto simp: tx_op_defs Let_def split: option.splits bool.splits prod.splits)

section \<open>Well-formed transactions\<close>

definition name_ok :: "string \<Rightarrow> bool" where
  "name_ok name \<longleftrightarrow> length name < 2 ^ 31 \<and> CHR 0x00 \<notin> set name"

definition wf_tx :: "transaction \<Rightarrow> bool" where
  "wf_tx tx \<longleftrightarrow>
     (\<forall>i. s_inode tx = Some i \<longrightarrow> wf_inode i \<and> i_ino (core i) = s_ino tx) \<and>
     finite (dom (dentries tx)) \<and> (\<forall>name \<in> dom (dentries tx). name_ok name) \<and>
     finite (dom (f_inodes tx)) \<and>
     (\<forall>u i. f_inodes tx u = Some (Some i) \<longrightarrow> wf_inode i \<and> i_ino (core i) = u \<and> u \<noteq> s_ino tx)"

text \<open>The blocks of a transaction: one for each name and each file inode it mentions.\<close>

definition tx_entries :: "transaction \<Rightarrow> nat" where
  "tx_entries tx = card (dom (dentries tx)) + card (dom (f_inodes tx))"

fun op_ok :: "uuid \<Rightarrow> tx_op \<Rightarrow> bool" where
  "op_ok self (Mkself i) \<longleftrightarrow> wf_inode i \<and> i_ino (core i) = self"
| "op_ok self (Rmself u) \<longleftrightarrow> u = self"
| "op_ok self (Chself i) \<longleftrightarrow> wf_inode i \<and> i_ino (core i) = self"
| "op_ok self (Mkdir i n u) \<longleftrightarrow> wf_inode i \<and> i_ino (core i) = self \<and> name_ok n"
| "op_ok self (Rmdir i n u) \<longleftrightarrow> wf_inode i \<and> i_ino (core i) = self \<and> name_ok n"
| "op_ok self (Mvdir i n u n' u') \<longleftrightarrow> wf_inode i \<and> i_ino (core i) = self \<and> name_ok n \<and> name_ok n'"
| "op_ok self (Mkreg i n f) \<longleftrightarrow>
     wf_inode i \<and> i_ino (core i) = self \<and> name_ok n \<and> wf_inode f \<and> i_ino (core f) \<noteq> self"
| "op_ok self (Rmreg i n f) \<longleftrightarrow> wf_inode i \<and> i_ino (core i) = self \<and> name_ok n"
| "op_ok self (Mvreg i n u n' u') \<longleftrightarrow> wf_inode i \<and> i_ino (core i) = self \<and> name_ok n \<and> name_ok n'"
| "op_ok self (Chreg f) \<longleftrightarrow> wf_inode f \<and> i_ino (core f) \<noteq> self"

lemma wf_inode_copy [simp]: "wf_inode i \<Longrightarrow> wf_inode (inode_copy raw i)"
  by (auto simp: wf_inode_def inode_copy_def word_gt_0 split: option.splits if_splits)

lemma inode_copy_core [simp]: "core (inode_copy raw i) = core i"
  by (simp add: inode_copy_def)

lemma wf_tx_new [simp]: "wf_tx (transaction_new u)"
  by (simp add: wf_tx_def transaction_new_def)

lemma wf_tx_touch:
  assumes "wf_tx tx" and "wf_inode i" and "i_ino (core i) = s_ino tx"
  shows "wf_tx (touch_self raw i tx)"
proof (cases "s_inode tx")
  case None
  with assms show ?thesis by (simp add: wf_tx_def touch_self_def)
next
  case (Some si)
  then have si: "wf_inode si" "i_ino (core si) = s_ino tx" using assms(1) by (simp_all add: wf_tx_def)
  let ?si = "si\<lparr>core := (core si)\<lparr>i_mtime := i_mtime (core i), i_ctime := i_ctime (core i)\<rparr>\<rparr>"
  have "wf_inode ?si" using si(1) wf_inode_cong [of ?si si] by simp
  with si(2) Some assms(1) show ?thesis by (simp add: wf_tx_def touch_self_def)
qed

lemma wf_tx_dentries: "wf_tx tx \<Longrightarrow> name_ok n \<Longrightarrow> wf_tx (tx\<lparr>dentries := (dentries tx)(n \<mapsto> e)\<rparr>)"
  by (auto simp: wf_tx_def)

lemma wf_tx_f_inodes:
  "wf_tx tx \<Longrightarrow> (\<And>i. x = Some i \<Longrightarrow> wf_inode i \<and> i_ino (core i) = u \<and> u \<noteq> s_ino tx) \<Longrightarrow>
    wf_tx (tx\<lparr>f_inodes := (f_inodes tx)(u \<mapsto> x)\<rparr>)"
  by (auto simp: wf_tx_def)

lemma wf_tx_exec:
  assumes wf: "wf_tx tx" and ok: "op_ok (s_ino tx) op"
  shows "wf_tx (snd (tx_exec raw op tx))"
proof (cases "committed tx")
  case True
  with wf show ?thesis by (simp add: tx_exec_committed)
next
  case False
  note step = wf_tx_touch wf_tx_dentries
  have dir: "wf_tx (touch_self raw i (tx\<lparr>dentries := (dentries tx)(n \<mapsto> e)\<rparr>))"
    if "wf_inode i" "i_ino (core i) = s_ino tx" "name_ok n" for i n e
    using that wf by (simp add: step)
  have dir2: "wf_tx (touch_self raw i (tx\<lparr>dentries := (dentries tx)(n \<mapsto> e, n' \<mapsto> e')\<rparr>))"
    if "wf_inode i" "i_ino (core i) = s_ino tx" "name_ok n" "name_ok n'" for i n e n' e'
  proof -
    have "wf_tx (tx\<lparr>dentries := (dentries tx)(n \<mapsto> e), dentries := (dentries (tx\<lparr>dentries := (dentries tx)(n \<mapsto> e)\<rparr>))(n' \<mapsto> e')\<rparr>)"
      using wf that by (intro wf_tx_dentries)
    with that show ?thesis by (simp add: wf_tx_touch)
  qed
  show ?thesis
  proof (cases op)
    case (Mkself i)
    with wf ok False show ?thesis by (simp add: tx_mkself_def wf_tx_def)
  next
    case (Rmself u)
    with wf False show ?thesis by (simp add: tx_rmself_def wf_tx_def)
  next
    case (Chself i)
    with wf ok False show ?thesis by (simp add: tx_chself_def wf_tx_def)
  next
    case (Mkdir i n u)
    with wf ok False dir show ?thesis by (auto simp: tx_mkdir_def split: option.split bool.split)
  next
    case (Rmdir i n u)
    with wf ok False dir show ?thesis by (auto simp: tx_rmdir_def split: option.split bool.split)
  next
    case (Mvdir i n u n' u')
    with wf ok False dir2 show ?thesis by (auto simp: tx_mvdir_def split: option.split bool.split)
  next
    case (Mkreg i n f)
    let ?tx1 = "touch_self raw i (tx\<lparr>dentries := (dentries tx)(n \<mapsto> (True, i_ino (core f)))\<rparr>)"
    have "wf_tx ?tx1" using Mkreg ok dir by simp
    moreover have "wf_tx (?tx1\<lparr>f_inodes := (f_inodes ?tx1)(i_ino (core f) \<mapsto> Some (inode_copy raw f))\<rparr>)"
      using Mkreg ok dir by (intro wf_tx_f_inodes) auto
    ultimately show ?thesis
      using Mkreg wf False by (auto simp: tx_mkreg_def Let_def split: option.split bool.split)
  next
    case (Rmreg i n f)
    let ?tx1 = "touch_self raw i (tx\<lparr>dentries := (dentries tx)(n \<mapsto> (False, i_ino (core f)))\<rparr>)"
    have "wf_tx ?tx1" using Rmreg ok dir by simp
    moreover have "wf_tx (?tx1\<lparr>f_inodes := (f_inodes ?tx1)(i_ino (core f) \<mapsto> None)\<rparr>)"
      using Rmreg ok dir by (intro wf_tx_f_inodes) auto
    ultimately show ?thesis
      using Rmreg wf False by (auto simp: tx_rmreg_def Let_def split: option.split bool.split)
  next
    case (Mvreg i n u n' u')
    let ?tx1 = "touch_self raw i (tx\<lparr>dentries := (dentries tx)(n \<mapsto> (False, u), n' \<mapsto> (True, u))\<rparr>)"
    have "wf_tx ?tx1" using Mvreg ok dir2 by simp
    moreover have "wf_tx (?tx1\<lparr>f_inodes := (f_inodes ?tx1)(u' \<mapsto> None)\<rparr>)"
      using Mvreg ok dir2 by (intro wf_tx_f_inodes) auto
    ultimately show ?thesis
      using Mvreg wf False by (auto simp: tx_mvreg_def Let_def split: option.split bool.split)
  next
    case (Chreg f)
    have "wf_tx (tx\<lparr>f_inodes := (f_inodes tx)(i_ino (core f) \<mapsto> Some (inode_copy raw f))\<rparr>)"
      using Chreg ok wf by (intro wf_tx_f_inodes) auto
    with Chreg False show ?thesis by (simp add: tx_chreg_def)
  qed
qed

section \<open>Applying a transaction to the pool\<close>

lemma apply_entry_child_list:
  "child_list (apply_entry (n, alive, u) d) = (child_list d)(n := if alive then Some u else None)"
  by (simp add: apply_entry_def dentry.lookup_enter dentry.lookup_leave)

lemma apply_entry_ino [simp]: "this_ino (apply_entry p d) = this_ino d"
  by (auto simp: apply_entry_def add_child_def delete_child_def split: prod.split option.split)

lemma fold_apply_entry_ino [simp]: "this_ino (fold apply_entry xs d) = this_ino d"
  by (induction xs arbitrary: d) simp_all

lemma fold_apply_entry:
  "distinct (map fst xs) \<Longrightarrow>
    child_list (fold apply_entry xs d) = apply_dentries (map_of xs) (child_list d)"
proof (induction xs arbitrary: d)
  case Nil
  then show ?case by simp
next
  case (Cons x xs)
  obtain n alive u where x: "x = (n, alive, u)" by (cases x) auto
  have "map_of xs n = None" using Cons.prems x by (simp add: map_of_eq_None_iff)
  then have "apply_dentries (map_of xs) ((child_list d)(n := if alive then Some u else None)) =
      apply_dentries (map_of (x # xs)) (child_list d)"
    using x by (auto simp: apply_dentries_def fun_eq_iff split: option.split)
  with Cons x show ?case by (simp add: apply_entry_child_list del: map_of.simps)
qed

lemma wf_dentry_apply_entry: "wf_dentry d \<Longrightarrow> name_ok n \<Longrightarrow> wf_dentry (apply_entry (n, e) d)"
  by (cases e) (simp add: apply_entry_def wf_dentry_add wf_dentry_delete name_ok_def)

lemma wf_dentry_fold:
  "wf_dentry d \<Longrightarrow> (\<forall>p \<in> set xs. name_ok (fst p)) \<Longrightarrow> wf_dentry (fold apply_entry xs d)"
  by (induction xs arbitrary: d) (auto simp: wf_dentry_apply_entry)

lemma tx_serialize_committed [simp]: "tx_serialize ords (tx\<lparr>committed := b\<rparr>) = tx_serialize ords tx"
proof -
  have "s_inode (tx\<lparr>committed := b\<rparr>) = s_inode tx" "dentries (tx\<lparr>committed := b\<rparr>) = dentries tx"
    "f_inodes (tx\<lparr>committed := b\<rparr>) = f_inodes tx" by simp_all
  then show ?thesis unfolding tx_serialize_def by (simp only:)
qed

text \<open>The inode numbers whose blocks are written.\<close>

definition live_inodes :: "(uuid \<rightharpoonup> inode option) \<Rightarrow> uuid set" where
  "live_inodes fm = {u. \<exists>i. fm u = Some (Some i)}"

locale tx_io = dentry_io L objs "ord_children ords" + de: iteration "ord_dentries ords" +
    fi: iteration "ord_f_inodes ords"
  for L :: "'s extern" and objs :: "'s \<Rightarrow> string \<Rightarrow> byte list option" and ords :: orders
begin

abbreviation inode_key :: "uuid \<Rightarrow> obj_category \<times> string" where
  "inode_key u \<equiv> (INODE, uuid_to_string L u)"

abbreviation dentry_key :: "uuid \<Rightarrow> obj_category \<times> string" where
  "dentry_key u \<equiv> (DENTRY, uuid_to_string L u)"

text \<open>The pool holds an inode: its loading constructor finds it.\<close>

definition holds_inode :: "'s \<Rightarrow> inode \<Rightarrow> bool" where
  "holds_inode s i \<longleftrightarrow>
     (\<exists>rest. stores objs s INODE (uuid_to_string L (i_ino (core i))) (encode_core (core i) @
        (case link_target_name i of None \<Rightarrow> [] | Some name \<Rightarrow> map byte_of_char name) @ rest))"

lemma uuid_to_string_eq [simp]: "uuid_to_string L u = uuid_to_string L v \<longleftrightarrow> u = v"
  using uuid_to_string_inj by blast

lemma holds_inode_pull:
  "holds_inode s i \<Longrightarrow> wf_inode i \<Longrightarrow>
    inode_pull L s raw (i_ino (core i)) = Inr (raw\<lparr>core := core i, link_target_name := link_target_name i\<rparr>)"
  using inode_pull_ok by (auto simp: holds_inode_def)

lemma holds_inode_unchanged:
  "unchanged objs K s s' \<Longrightarrow> inode_key (i_ino (core i)) \<notin> K \<Longrightarrow> holds_inode s' i = holds_inode s i"
  by (simp add: holds_inode_def unchanged_stores)

lemma inode_sync_holds:
  assumes "sound objs s" and "wf_inode i"
  shows "\<exists>s'. inode_sync L i s = (Inr (), s') \<and> holds_inode s' i \<and> sound objs s' \<and>
    unchanged objs {inode_key (i_ino (core i))} s s'"
proof -
  obtain old where "stores objs s INODE (uuid_to_string L (i_ino (core i))) old"
    using assms(1) by (auto simp: sound_def)
  from inode_sync_ok [OF this assms(2)] show ?thesis
    using sound_step [OF assms(1)] frame_unchanged
    by (fastforce simp: holds_inode_def write_spec_def overwrite_def)
qed

lemma sync_f_inodes_holds:
  assumes "sound objs s" and "distinct (map fst ps)"
    and "\<forall>(u, x) \<in> set ps. \<forall>i. x = Some i \<longrightarrow> wf_inode i \<and> i_ino (core i) = u"
  shows "\<exists>s'. foldE (\<lambda>p. case snd p of Some i \<Rightarrow> inode_sync L i | None \<Rightarrow> returnE ()) ps s = (Inr (), s') \<and>
    sound objs s' \<and> unchanged objs (inode_key ` {u. \<exists>i. (u, Some i) \<in> set ps}) s s' \<and>
    (\<forall>u i. (u, Some i) \<in> set ps \<longrightarrow> holds_inode s' i)"
  using assms
proof (induction ps arbitrary: s)
  case Nil
  then show ?case by simp
next
  case (Cons p ps)
  obtain u x where p: "p = (u, x)" by fastforce
  obtain s1 where s1: "(case x of Some i \<Rightarrow> inode_sync L i | None \<Rightarrow> returnE ()) s = (Inr (), s1)"
    "sound objs s1" "unchanged objs (if x = None then {} else {inode_key u}) s s1"
    "\<forall>i. x = Some i \<longrightarrow> holds_inode s1 i"
  proof (cases x)
    case None
    with that Cons.prems(1) show thesis by simp
  next
    case (Some i)
    with inode_sync_holds [OF Cons.prems(1), of i] Cons.prems(3) p that show thesis by auto
  qed
  obtain s' where s': "foldE (\<lambda>p. case snd p of Some i \<Rightarrow> inode_sync L i | None \<Rightarrow> returnE ()) ps s1 = (Inr (), s')"
    "sound objs s'" "unchanged objs (inode_key ` {u. \<exists>i. (u, Some i) \<in> set ps}) s1 s'"
    "\<forall>u i. (u, Some i) \<in> set ps \<longrightarrow> holds_inode s' i"
    using Cons.IH [OF s1(2)] Cons.prems(2,3) by auto
  have "holds_inode s' i" if "x = Some i" for i
  proof -
    have "i_ino (core i) = u" using Cons.prems(3) p that by auto
    moreover have "inode_key u \<notin> inode_key ` {u. \<exists>i. (u, Some i) \<in> set ps}"
      using Cons.prems(2) p by (auto simp: image_iff)
    ultimately show ?thesis using holds_inode_unchanged [OF s'(3), of i] s1(4) that by simp
  qed
  moreover have "unchanged objs (inode_key ` {u. \<exists>i. (u, Some i) \<in> set (p # ps)}) s s'"
    by (rule unchanged_mono [OF unchanged_trans [OF s1(3) s'(3)]]) (use p in auto)
  ultimately show ?case using p s1(1) s' by (auto simp: bindE_def)
qed

lemma dentry_sync_holds:
  assumes "sound objs s" and "wf_dentry d" and "dentry_raw_size (ord_children ords) d \<le> OBJ_SIZE"
  shows "\<exists>s'. dentry_sync L (ord_children ords) d s = (Inr (), s') \<and> dentry_new L s' (this_ino d) False = Inr d \<and>
    sound objs s' \<and> unchanged objs {dentry_key (this_ino d)} s s'"
proof -
  obtain old where "stores objs s DENTRY (uuid_to_string L (this_ino d)) old"
    using assms(1) by (auto simp: sound_def)
  from dentry_sync_ok [OF assms(2) this MAX_OFFSET_obj [OF assms(3)]] show ?thesis
    using sound_step [OF assms(1)] frame_unchanged dentry_load_ok [OF assms(2,3)]
    by (fastforce simp: write_spec_def overwrite_def)
qed

lemma dentry_new_unchanged:
  "unchanged objs K s s' \<Longrightarrow> dentry_key u \<notin> K \<Longrightarrow> dentry_new L s' u b = dentry_new L s u b"
  by (rule dentry_new_cong) (simp add: unchanged_def)

lemma tx_sync_ok:
  assumes snd: "sound objs s" and wf: "wf_tx tx" and alive: "status tx \<noteq> S_DELETED"
    and d0: "dentry_new L s (s_ino tx) (status tx = S_CREATED) = Inr d0" "wf_dentry d0"
    and fits: "dentry_raw_size (ord_children ords)
      \<lparr>this_ino = s_ino tx, child_list = apply_dentries (dentries tx) (child_list d0)\<rparr> \<le> OBJ_SIZE"
  shows "\<exists>s'. tx_sync L ords tx s = (Inr (), s') \<and> sound objs s' \<and>
    dentry_new L s' (s_ino tx) False =
      Inr \<lparr>this_ino = s_ino tx, child_list = apply_dentries (dentries tx) (child_list d0)\<rparr> \<and>
    (\<forall>i. s_inode tx = Some i \<longrightarrow> holds_inode s' i) \<and>
    (\<forall>u i. f_inodes tx u = Some (Some i) \<longrightarrow> holds_inode s' i) \<and>
    unchanged objs ((if s_inode tx = None then {} else {inode_key (s_ino tx)}) \<union> {dentry_key (s_ino tx)} \<union>
      inode_key ` live_inodes (f_inodes tx)) s s'"
proof -
  let ?self = "if s_inode tx = None then {} else {inode_key (s_ino tx)}"
  let ?d = "fold apply_entry (ord_dentries ords (dentries tx)) d0"
  let ?fs = "ord_f_inodes ords (f_inodes tx)"
  have finD: "finite (dom (dentries tx))" and finF: "finite (dom (f_inodes tx))"
    using wf by (simp_all add: wf_tx_def)
  obtain s1 where s1: "(case s_inode tx of Some i \<Rightarrow> inode_sync L i | None \<Rightarrow> returnE ()) s = (Inr (), s1)"
    "sound objs s1" "unchanged objs ?self s s1" "\<forall>i. s_inode tx = Some i \<longrightarrow> holds_inode s1 i"
  proof (cases "s_inode tx")
    case None
    with that snd show thesis by simp
  next
    case (Some i)
    with inode_sync_holds [OF snd, of i] wf that show thesis by (auto simp: wf_tx_def)
  qed
  have new: "dentry_new L s1 (s_ino tx) (status tx = S_CREATED) = Inr d0"
    using dentry_new_unchanged [OF s1(3), of "s_ino tx" "status tx = S_CREATED"] d0(1) by simp
  have d: "?d = \<lparr>this_ino = s_ino tx, child_list = apply_dentries (dentries tx) (child_list d0)\<rparr>"
    using fold_apply_entry [OF de.iter_distinct [OF finD], of d0] de.iter_map_of [OF finD]
      dentry_new_ino [OF d0(1)] by (intro dentry.equality) simp_all
  have wfd: "wf_dentry ?d"
    using d0(2) wf de.iter_keys [OF finD] by (intro wf_dentry_fold) (auto simp: wf_tx_def)
  obtain s2 where s2: "dentry_sync L (ord_children ords) ?d s1 = (Inr (), s2)"
    "dentry_new L s2 (s_ino tx) False = Inr ?d" "sound objs s2" "unchanged objs {dentry_key (s_ino tx)} s1 s2"
    using dentry_sync_holds [OF s1(2) wfd] fits d by auto
  have "\<forall>(u, x) \<in> set ?fs. \<forall>i. x = Some i \<longrightarrow> wf_inode i \<and> i_ino (core i) = u"
    using wf fi.iter_mem [OF finF] by (auto simp: wf_tx_def)
  then obtain s' where s': "foldE (\<lambda>p. case snd p of Some i \<Rightarrow> inode_sync L i | None \<Rightarrow> returnE ()) ?fs s2 = (Inr (), s')"
    "sound objs s'" "unchanged objs (inode_key ` live_inodes (f_inodes tx)) s2 s'"
    "\<forall>u i. (u, Some i) \<in> set ?fs \<longrightarrow> holds_inode s' i"
    using sync_f_inodes_holds [OF s2(3) fi.iter_distinct [OF finF]] fi.iter_mem [OF finF]
    by (auto simp: live_inodes_def)
  have "tx_sync L ords tx s = (Inr (), s')"
    using alive s1(1) new s2(1) s'(1) by (simp add: tx_sync_def bindE_def)
  moreover have "dentry_new L s' (s_ino tx) False = Inr ?d"
    using dentry_new_unchanged [OF s'(3), of "s_ino tx" False] s2(2) by auto
  moreover have "holds_inode s' i" if i: "s_inode tx = Some i" for i
  proof -
    have "i_ino (core i) = s_ino tx" using wf i by (simp add: wf_tx_def)
    moreover have "s_ino tx \<notin> live_inodes (f_inodes tx)" using wf unfolding wf_tx_def live_inodes_def by blast
    then have "inode_key (s_ino tx) \<notin> inode_key ` live_inodes (f_inodes tx)" by auto
    moreover have "holds_inode s2 i" using holds_inode_unchanged [OF s2(4), of i] s1(4) i by simp
    ultimately show ?thesis using holds_inode_unchanged [OF s'(3), of i] by simp
  qed
  moreover have "\<forall>u i. f_inodes tx u = Some (Some i) \<longrightarrow> holds_inode s' i"
    using s'(4) fi.iter_mem [OF finF] by auto
  moreover have "unchanged objs (?self \<union> {dentry_key (s_ino tx)} \<union> inode_key ` live_inodes (f_inodes tx)) s s'"
    by (rule unchanged_trans [OF unchanged_trans [OF s1(3) s2(4)] s'(3)])
  ultimately show ?thesis using s'(2) d by auto
qed

lemma rados_remove_sound:
  assumes "sound objs s" and "\<forall>c. stores objs s cat key c \<longrightarrow> length c < 2 ^ 63"
  shows "\<exists>s'. rados_remove L cat key s = (Inr (), s') \<and> \<not> present objs s' cat key \<and> sound objs s' \<and>
    frame objs cat key s s'"
proof -
  obtain c where c: "stores objs s cat key c" using assms(1) by (auto simp: sound_def)
  with assms(2) have "length c < 2 ^ 63" by blast
  from rados_remove_ok [OF c this] show ?thesis using sound_step [OF assms(1)] by blast
qed

lemma tx_sync_deleted_ok:
  assumes snd: "sound objs s" and del: "status tx = S_DELETED"
    and small: "\<forall>cat c. stores objs s cat (uuid_to_string L (s_ino tx)) c \<longrightarrow> length c < 2 ^ 63"
  shows "\<exists>s'. tx_sync L ords tx s = (Inr (), s') \<and> sound objs s' \<and>
    \<not> present objs s' INODE (uuid_to_string L (s_ino tx)) \<and>
    \<not> present objs s' DENTRY (uuid_to_string L (s_ino tx)) \<and>
    unchanged objs {inode_key (s_ino tx), dentry_key (s_ino tx)} s s'"
proof -
  let ?k = "uuid_to_string L (s_ino tx)"
  obtain s1 where s1: "rados_remove L INODE ?k s = (Inr (), s1)" "\<not> present objs s1 INODE ?k"
    "sound objs s1" "frame objs INODE ?k s s1"
    using rados_remove_sound [OF snd, of INODE ?k] small by blast
  have "\<forall>c. stores objs s1 DENTRY ?k c \<longrightarrow> length c < 2 ^ 63"
    using small frame_stores [OF s1(4), of DENTRY ?k] by simp
  then obtain s2 where s2: "rados_remove L DENTRY ?k s1 = (Inr (), s2)" "\<not> present objs s2 DENTRY ?k"
    "sound objs s2" "frame objs DENTRY ?k s1 s2"
    using rados_remove_sound [OF s1(3)] by blast
  have "\<not> present objs s2 INODE ?k" using s1(2) frame_present [OF s2(4), of INODE ?k] by simp
  moreover have "unchanged objs {inode_key (s_ino tx), dentry_key (s_ino tx)} s s2"
    using unchanged_trans [OF frame_unchanged [OF s1(4)] frame_unchanged [OF s2(4)]] by (simp add: insert_commute)
  ultimately show ?thesis using del s1(1) s2 by (simp add: tx_sync_def)
qed

text \<open>
  The size of a record.  A name has less than $2^{31}$ bytes and a link target less than $2^{32}$, so a
  transaction with less than $2^{28} + 2$ blocks fits below \<open>MAX_OFFSET\<close> after any journal of less than $2^{62}$ bytes.
\<close>

lemma length_concat_bound: "(\<And>x. x \<in> set xs \<Longrightarrow> length (f x) \<le> b) \<Longrightarrow> length (concat (map f xs)) \<le> length xs * b"
proof (induction xs)
  case (Cons x xs)
  have "length (f x) \<le> b" "length (concat (map f xs)) \<le> length xs * b" using Cons by simp_all
  then show ?case by simp
qed simp

lemma length_map_filter_le: "length (List.map_filter f xs) \<le> length xs"
  by (induction xs) (auto simp: List.map_filter_simps split: option.split)

lemma inode_block_length:
  assumes "wf_inode i"
  shows "length (encode_core (core i) @ (case link_target_name i of None \<Rightarrow> [] | Some name \<Rightarrow> map byte_of_char name)) + 4 \<le> 2 ^ 33"
proof -
  have "length (case link_target_name i of None \<Rightarrow> [] | Some name \<Rightarrow> map byte_of_char name) \<le> unat (link_target_len (core i))"
    using assms by (auto simp: wf_inode_def split: if_splits option.splits)
  moreover have "unat (link_target_len (core i)) < 2 ^ 32"
    using unsigned_less [of "link_target_len (core i)", where ?'a = nat] by simp
  ultimately show ?thesis by (simp add: REG_INODE_SIZE_def)
qed

lemma tx_record_length:
  assumes wf: "wf_tx tx" and ser: "tx_serialize ords tx = Inr raw"
  shows "length raw \<le> (tx_entries tx + 2) * 2 ^ 33"
proof -
  have finD: "finite (dom (dentries tx))" and finF: "finite (dom (f_inodes tx))" using wf by (simp_all add: wf_tx_def)
  let ?ds = "ord_dentries ords (dentries tx)" and ?fs = "List.map_filter snd (ord_f_inodes ords (f_inodes tx))"
  let ?blk = "\<lambda>i. encode_core (core i) @ (case link_target_name i of None \<Rightarrow> [] | Some name \<Rightarrow> map byte_of_char name)"
  have wfi: "wf_inode i" if "i \<in> set ?fs" for i
    using that fi.iter_mem [OF finF] wf by (auto simp: List.map_filter_def wf_tx_def)
  have f: "mapR inode_serialize ?fs = Inr (map ?blk ?fs)" by (rule mapR_map) (simp add: wf_serialize wfi)
  have "length (concat (map encode_dentry ?ds)) \<le> length ?ds * 2 ^ 33"
  proof (rule length_concat_bound)
    fix x assume x: "x \<in> set ?ds"
    obtain name alive ino where e: "x = (name, alive, ino)" by (cases x)
    then have "name \<in> dom (dentries tx)" using x de.iter_mem [OF finD] by auto
    then have "length name < 2 ^ 31" using wf by (simp add: wf_tx_def name_ok_def)
    then show "length (encode_dentry x) \<le> 2 ^ 33" by (simp add: e encode_dentry_def encode_sized_def)
  qed
  then have D: "length (concat (map encode_dentry ?ds)) \<le> card (dom (dentries tx)) * 2 ^ 33"
    using de.iter_length [OF finD] by simp
  have "length (concat (map (\<lambda>i. encode_sized (?blk i)) ?fs)) \<le> length ?fs * 2 ^ 33"
    using inode_block_length wfi by (intro length_concat_bound) (fastforce simp: encode_sized_def)
  moreover have "length ?fs \<le> card (dom (f_inodes tx))"
    using length_map_filter_le fi.iter_length [OF finF] by metis
  ultimately have F: "length (concat (map (\<lambda>i. encode_sized (?blk i)) ?fs)) \<le> card (dom (f_inodes tx)) * 2 ^ 33"
    by (meson le_trans mult_le_mono1)
  obtain s where s: "(case s_inode tx of None \<Rightarrow> Inr [-1, -1, -1, -1]
      | Some i \<Rightarrow> map_sum id encode_sized (inode_serialize i)) = Inr s" "length s \<le> 2 ^ 33"
  proof (cases "s_inode tx")
    case None
    then show ?thesis using that by simp
  next
    case (Some i)
    then have i: "wf_inode i" using wf by (simp add: wf_tx_def)
    then show ?thesis using that [of "encode_sized (?blk i)"] inode_block_length [OF i] Some
      by (simp add: wf_serialize encode_sized_def)
  qed
  have "length raw = 4 + (2 + length s + length (concat (map encode_dentry ?ds)) +
      length (concat (map (\<lambda>i. encode_sized (?blk i)) ?fs)) + 4)"
    using ser s(1) f by (auto simp: tx_serialize_def Let_def o_def simp del: length_concat)
  then show ?thesis using D F s(2) by (simp add: tx_entries_def add_mult_distrib del: length_concat)
qed

lemma record_fits:
  assumes "wf_tx tx" and "tx_serialize ords tx = Inr raw" and "tx_entries tx \<le> 2 ^ 28 + 2" and "length old < 2 ^ 62"
  shows "length old + length raw \<le> MAX_OFFSET"
proof -
  have "length raw \<le> (2 ^ 28 + 2 + 2) * 2 ^ 33"
    using tx_record_length [OF assms(1,2)] assms(3) by (meson add_le_mono1 le_trans mult_le_mono1)
  then show ?thesis using assms(4) by (simp add: MAX_OFFSET_def OBJ_SIZE_def)
qed

text \<open>Committing appends one record to the journal object.\<close>

lemma tx_commit_ok:
  assumes st: "stores objs s JOURNAL (uuid_to_string L (s_ino tx)) old" and small: "length old + length raw \<le> MAX_OFFSET"
    and nc: "\<not> committed tx" and ser: "tx_serialize ords tx = Inr raw"
  shows "\<exists>s'. tx_commit L ords (tx, s) = (Inr (), (tx\<lparr>committed := True, tx_offset := Some (length old)\<rparr>, s')) \<and>
    stores objs s' JOURNAL (uuid_to_string L (s_ino tx)) (old @ raw) \<and>
    frame objs JOURNAL (uuid_to_string L (s_ino tx)) s s'"
proof -
  have ser': "tx_serialize ords (tx\<lparr>committed := True\<rparr>) = Inr raw"
    using ser by simp
  obtain s' where "rados_write L JOURNAL (uuid_to_string L (s_ino tx)) raw (length raw) (length old) s = (Inr (length raw), s')"
    "stores objs s' JOURNAL (uuid_to_string L (s_ino tx)) (write_spec old (length old) raw)"
    "frame objs JOURNAL (uuid_to_string L (s_ino tx)) s s'"
    using rados_write_ok [OF st, of "length raw" raw "length old"] small by auto
  moreover have "length old < 2 ^ 64" using small by (simp add: MAX_OFFSET_def)
  moreover have "write_spec old (length old) raw = old @ raw" by (simp add: write_spec_def overwrite_end)
  ultimately show ?thesis
    using nc ser' rados_stat_ok [OF st] by (simp add: tx_commit_def Let_def)
qed

lemma tx_checkpoint_ok:
  assumes sync: "tx_sync L ords tx s = (Inr (), s1)" and off: "tx_offset tx = Some (length old)"
    and st: "stores objs s1 JOURNAL (uuid_to_string L (s_ino tx)) (old @ b # rest)" and fits: "length old < MAX_OFFSET"
  shows "\<exists>s'. tx_checkpoint L ords tx s = (Inr (), s') \<and>
    stores objs s' JOURNAL (uuid_to_string L (s_ino tx)) (old @ 0 # rest) \<and>
    frame objs JOURNAL (uuid_to_string L (s_ino tx)) s1 s'"
proof -
  obtain s' where "rados_write L JOURNAL (uuid_to_string L (s_ino tx)) [0] 1 (length old) s1 = (Inr 1, s')"
    "stores objs s' JOURNAL (uuid_to_string L (s_ino tx)) (write_spec (old @ b # rest) (length old) [0])"
    "frame objs JOURNAL (uuid_to_string L (s_ino tx)) s1 s'"
    using rados_write_ok [OF st, of 1 "[0]" "length old"] fits by auto
  moreover have "write_spec (old @ b # rest) (length old) [0] = old @ 0 # rest"
    by (simp add: write_spec_def overwrite_def)
  ultimately show ?thesis using sync off by (simp add: tx_checkpoint_def)
qed

end

section \<open>Reading a record back\<close>

lemma decode_dentry_step:
  assumes "name_ok name" and "m name = None"
  shows "decode_dentries (encode_dentry (name, alive, ino) @ r) m = decode_dentries r (m(name \<mapsto> (alive, ino)))"
proof -
  have k: "unat (of_nat (length name) :: 32 word) = length name" "sint (of_nat (length name) :: 32 word) = int (length name)"
    using name_length_word [of "length name"] assms(1) by (simp_all add: name_ok_def)
  show ?thesis
    using assms by (subst decode_dentries.simps)
      (simp add: encode_dentry_def encode_sized_def k Let_def o_def)
qed

lemma decode_dentries_concat:
  assumes "\<forall>p \<in> set xs. name_ok (fst p)" and "distinct (map fst xs)" and "\<forall>k \<in> fst ` set xs. m k = None"
  shows "decode_dentries (concat (map encode_dentry xs) @ -1 # r) m = Inr (m ++ map_of xs, r)"
  using assms
proof (induction xs arbitrary: m)
  case Nil
  then show ?case by (subst decode_dentries.simps) simp
next
  case (Cons x xs)
  obtain name alive ino where x: "x = (name, alive, ino)" by (cases x) auto
  have "decode_dentries (concat (map encode_dentry xs) @ -1 # r) (m(name \<mapsto> (alive, ino))) =
      Inr (m(name \<mapsto> (alive, ino)) ++ map_of xs, r)"
    using Cons.prems x by (intro Cons.IH) (auto simp: image_iff)
  moreover have "m(name \<mapsto> (alive, ino)) ++ map_of xs = m ++ map_of (x # xs)"
    using Cons.prems(2) x by (simp add: map_add_upd_left dom_map_of_conv_image_fst)
  ultimately have "decode_dentries (concat (map encode_dentry xs) @ -1 # r) (m(name \<mapsto> (alive, ino))) =
      Inr (m ++ map_of (x # xs), r)" by (simp only:)
  then show ?case
    using Cons.prems x decode_dentry_step [of name m alive ino] by (simp del: map_of.simps)
qed

text \<open>An inode as the reader of a record creates it.\<close>

definition journal_inode :: "inode \<Rightarrow> inode \<Rightarrow> inode" where
  "journal_inode raw0 i = raw0\<lparr>loc := LOC_JOURNAL, link_target_name := None, core := core i\<rparr>"

lemma inode_deserialize_regular:
  "\<not> S_ISLNK (i_mode (core i)) \<Longrightarrow>
    inode_deserialize L s (encode_core (core i) @ r) (raw0\<lparr>loc := LOC_JOURNAL, link_target_name := None\<rparr>) =
      Inr (journal_inode raw0 i)"
  by (simp add: inode_deserialize_def journal_inode_def Let_def)

lemma decode_f_inodes_concat:
  assumes "\<forall>i \<in> set is. \<not> S_ISLNK (i_mode (core i)) \<and> m (i_ino (core i)) = None"
    and "distinct (map (\<lambda>i. i_ino (core i)) is)" and "length is < fuel"
  shows "decode_f_inodes L s raw0 fuel
      (pre @ concat (map (\<lambda>i. encode_sized (encode_core (core i))) is) @ [-1, -1, -1, -1]) (int (length pre)) m =
    Inr (m ++ map_of (map (\<lambda>i. (i_ino (core i), Some (journal_inode raw0 i))) is))"
  using assms
proof (induction "is" arbitrary: pre m fuel)
  case Nil
  then obtain f where "fuel = Suc f" by (cases fuel) auto
  moreover have "un_le32 [-1, -1, -1, -1] = -1"
    by (simp add: un_le32_def unsigned_minus_1_eq_mask mask_eq_exp_minus_1)
  ultimately show ?case by (simp add: decode_f_inodes.simps)
next
  case (Cons i "is")
  then obtain f where fuel: "fuel = Suc f" by (cases fuel) auto
  let ?blk = "encode_sized (encode_core (core i))"
  let ?rest = "concat (map (\<lambda>i. encode_sized (encode_core (core i))) is) @ [-1, -1, -1, -1]"
  let ?m = "m(i_ino (core i) \<mapsto> Some (journal_inode raw0 i))"
  have len: "length ?blk = 108" by (simp add: encode_sized_def REG_INODE_SIZE_def)
  have ino: "i_ino (core (journal_inode raw0 i)) = i_ino (core i)" by (simp add: journal_inode_def)
  have "decode_f_inodes L s raw0 fuel (pre @ ?blk @ ?rest) (int (length pre)) m =
      decode_f_inodes L s raw0 f ((pre @ ?blk) @ ?rest) (int (length (pre @ ?blk))) ?m"
    using Cons.prems inode_deserialize_regular [of i L s ?rest raw0] ino
    by (simp add: fuel decode_f_inodes.simps Let_def encode_sized_def nat_add_distrib REG_INODE_SIZE_def add.commute [of "108 :: int"])
  also have "\<dots> = Inr (?m ++ map_of (map (\<lambda>i. (i_ino (core i), Some (journal_inode raw0 i))) is))"
    using Cons.prems fuel by (intro Cons.IH) (auto simp: image_iff)
  also have "\<dots> = Inr (m ++ map_of (map (\<lambda>i. (i_ino (core i), Some (journal_inode raw0 i))) (i # is)))"
    using Cons.prems(2) by (simp add: map_add_upd_left dom_map_of_conv_image_fst image_image)
  finally show ?case by (simp only: list.map concat.simps append_assoc)
qed

lemma length_concat_sized: "length xs \<le> length (concat (map (\<lambda>x. encode_sized (f x)) xs))"
  by (induction xs) (auto simp: encode_sized_def)

lemma map_of_live:
  assumes "distinct (map fst xs)" and "\<forall>(u, x) \<in> set xs. \<forall>i. x = Some i \<longrightarrow> i_ino (core i) = u"
  shows "map_of (map (\<lambda>i. (i_ino (core i), Some (g i))) (List.map_filter snd xs)) u =
    (case map_of xs u of Some (Some i) \<Rightarrow> Some (Some (g i)) | _ \<Rightarrow> None)"
  using assms
proof (induction xs)
  case Nil
  then show ?case by (simp add: List.map_filter_def)
next
  case (Cons p xs)
  obtain v x where p: "p = (v, x)" by fastforce
  have "map_of xs v = None" using Cons.prems p by (simp add: map_of_eq_None_iff)
  then show ?case
    using Cons p by (cases x) (auto simp: List.map_filter_simps)
qed

lemma distinct_live:
  assumes "distinct (map fst xs)" and "\<forall>(u, x) \<in> set xs. \<forall>i. x = Some i \<longrightarrow> i_ino (core i) = u"
  shows "distinct (map (\<lambda>i. i_ino (core i)) (List.map_filter snd xs))"
  using assms
proof (induction xs)
  case Nil
  then show ?case by (simp add: List.map_filter_def)
next
  case (Cons p xs)
  obtain v x where p: "p = (v, x)" by fastforce
  show ?case
  proof (cases x)
    case None
    with Cons p show ?thesis by (simp add: List.map_filter_simps)
  next
    case (Some i)
    have "i_ino (core i) \<notin> (\<lambda>i. i_ino (core i)) ` set (List.map_filter snd xs)"
    proof
      assume "i_ino (core i) \<in> (\<lambda>i. i_ino (core i)) ` set (List.map_filter snd xs)"
      then obtain j w where "(w, Some j) \<in> set xs" "i_ino (core j) = i_ino (core i)"
        by (auto simp: List.map_filter_def)
      moreover from this have "w = v" using Cons.prems(2) p Some by auto
      ultimately show False using Cons.prems(1) p by (auto simp: image_iff)
    qed
    with Cons p Some show ?thesis by (simp add: List.map_filter_simps)
  qed
qed

context tx_io
begin

lemma tx_parts:
  assumes wf: "wf_tx tx" and reg: "\<forall>u i. f_inodes tx u = Some (Some i) \<longrightarrow> \<not> S_ISLNK (i_mode (core i))"
  shows "mapR inode_serialize (List.map_filter snd (ord_f_inodes ords (f_inodes tx))) =
      Inr (map (\<lambda>i. encode_core (core i)) (List.map_filter snd (ord_f_inodes ords (f_inodes tx))))"
    and "\<forall>(u, x) \<in> set (ord_f_inodes ords (f_inodes tx)). \<forall>i. x = Some i \<longrightarrow> i_ino (core i) = u"
    and "\<forall>i \<in> set (List.map_filter snd (ord_f_inodes ords (f_inodes tx))). \<not> S_ISLNK (i_mode (core i))"
proof -
  have fin: "finite (dom (f_inodes tx))" using wf by (simp add: wf_tx_def)
  have mem: "\<exists>u. f_inodes tx u = Some (Some i)"
    if "i \<in> set (List.map_filter snd (ord_f_inodes ords (f_inodes tx)))" for i
    using that fi.iter_mem [OF fin] by (auto simp: List.map_filter_def)
  show "mapR inode_serialize (List.map_filter snd (ord_f_inodes ords (f_inodes tx))) =
      Inr (map (\<lambda>i. encode_core (core i)) (List.map_filter snd (ord_f_inodes ords (f_inodes tx))))"
  proof (rule mapR_map)
    fix i
    assume "i \<in> set (List.map_filter snd (ord_f_inodes ords (f_inodes tx)))"
    with mem obtain u where u: "f_inodes tx u = Some (Some i)" by blast
    then have "wf_inode i" "\<not> S_ISLNK (i_mode (core i))" using wf reg by (auto simp: wf_tx_def)
    moreover from this have "link_target_name i = None" by (simp add: wf_inode_def)
    ultimately show "inode_serialize i = Inr (encode_core (core i))" by (simp add: wf_serialize)
  qed
  show "\<forall>(u, x) \<in> set (ord_f_inodes ords (f_inodes tx)). \<forall>i. x = Some i \<longrightarrow> i_ino (core i) = u"
    using wf fi.iter_mem [OF fin] by (auto simp: wf_tx_def)
  show "\<forall>i \<in> set (List.map_filter snd (ord_f_inodes ords (f_inodes tx))). \<not> S_ISLNK (i_mode (core i))"
    using mem reg by blast
qed

lemma tx_roundtrip_ok:
  assumes wf: "wf_tx tx" and self: "s_inode tx = None"
    and reg: "\<forall>u i. f_inodes tx u = Some (Some i) \<longrightarrow> \<not> S_ISLNK (i_mode (core i))"
  shows "\<exists>raw tx'. tx_serialize ords tx = Inr raw \<and>
    tx_deserialize L s raw0 raw (transaction_new u0) = (Inr 0, tx') \<and> dentries tx' = dentries tx \<and>
    (\<forall>u. f_inodes tx' u = (case f_inodes tx u of Some (Some i) \<Rightarrow> Some (Some (journal_inode raw0 i)) | _ \<Rightarrow> None)) \<and>
    s_inode tx' = None"
proof -
  let ?ds = "ord_dentries ords (dentries tx)" and ?fs = "ord_f_inodes ords (f_inodes tx)"
  let ?is = "List.map_filter snd ?fs"
  let ?D = "concat (map encode_dentry ?ds)" and ?F = "concat (map (\<lambda>i. encode_sized (encode_core (core i))) ?is)"
  have finD: "finite (dom (dentries tx))" and finF: "finite (dom (f_inodes tx))"
    using wf by (simp_all add: wf_tx_def)
  note parts = tx_parts [OF wf reg]
  define hd where "hd = le32 (of_nat (4 + length (1 # [-1, -1, -1, -1] @ ?D @ [-1] @ ?F @ [-1, -1, -1, -1] :: byte list)))"
  define raw where "raw = hd @ 1 # [-1, -1, -1, -1] @ ?D @ [-1] @ ?F @ [-1, -1, -1, -1]"
  have hd: "length hd = 4" by (simp add: hd_def)
  have ser: "tx_serialize ords tx = Inr raw"
    using self parts(1) by (simp add: tx_serialize_def raw_def hd_def o_def Let_def)
  have "un_le32 ([-1, -1, -1, -1] @ ?D @ [-1] @ ?F @ [-1, -1, -1, -1]) = -1"
    by (simp add: un_le32_def unsigned_minus_1_eq_mask mask_eq_exp_minus_1)
  then have ones: "un_le32 (drop 5 raw) = -1" using hd by (simp add: raw_def)
  have d9: "drop 9 raw = ?D @ -1 # (?F @ [-1, -1, -1, -1])" using hd by (simp add: raw_def)
  have "decode_dentries (drop 9 raw) Map.empty = Inr (Map.empty ++ map_of ?ds, ?F @ [-1, -1, -1, -1])"
    unfolding d9 using wf de.iter_keys [OF finD] de.iter_distinct [OF finD]
    by (intro decode_dentries_concat) (auto simp: wf_tx_def)
  then have dd: "decode_dentries (drop 9 raw) Map.empty = Inr (dentries tx, ?F @ [-1, -1, -1, -1])"
    using de.iter_map_of [OF finD] by simp
  let ?pre = "hd @ 1 # [-1, -1, -1, -1] @ ?D @ [-1]"
  have "length ?is \<le> length ?F" by (rule length_concat_sized)
  then have fuel: "length ?is < Suc (length raw)" by (simp add: raw_def)
  have "decode_f_inodes L s raw0 (Suc (length raw)) (?pre @ ?F @ [-1, -1, -1, -1]) (int (length ?pre)) Map.empty =
      Inr (Map.empty ++ map_of (map (\<lambda>i. (i_ino (core i), Some (journal_inode raw0 i))) ?is))"
    using parts(3) distinct_live [OF fi.iter_distinct [OF finF] parts(2)] fuel
    by (intro decode_f_inodes_concat) auto
  then have ff: "decode_f_inodes L s raw0 (Suc (length raw)) raw (int (length ?pre)) Map.empty =
      Inr (map_of (map (\<lambda>i. (i_ino (core i), Some (journal_inode raw0 i))) ?is))"
    by (simp add: raw_def)
  define F where "F = ?F @ [-1, -1, -1, -1]"
  have idx: "int (length raw) - int (length F) = int (length ?pre)" by (simp add: raw_def F_def)
  have live: "map_of (map (\<lambda>i. (i_ino (core i), Some (journal_inode raw0 i))) ?is) u =
      (case f_inodes tx u of Some (Some i) \<Rightarrow> Some (Some (journal_inode raw0 i)) | _ \<Rightarrow> None)" for u
    using map_of_live [OF fi.iter_distinct [OF finF] parts(2)] fi.iter_map_of [OF finF] by metis
  have "raw ! 4 = 1" using hd by (simp add: raw_def nth_append)
  moreover have "9 \<le> length raw" using hd by (simp add: raw_def)
  ultimately have "tx_deserialize L s raw0 raw (transaction_new u0) =
      (Inr 0, (transaction_new u0)\<lparr>dentries := dentries tx,
         f_inodes := map_of (map (\<lambda>i. (i_ino (core i), Some (journal_inode raw0 i))) ?is)\<rparr>)"
    using ones dd [folded F_def] ff [folded idx] by (simp add: tx_deserialize_def transaction_new_def Let_def)
  with ser live show ?thesis by (simp add: transaction_new_def)
qed

lemma tx_deserialize_self_ok:
  assumes wf: "wf_tx tx" and self: "s_inode tx = Some i" "\<not> S_ISLNK (i_mode (core i))"
    and ser: "tx_serialize ords tx = Inr raw" and short: "length raw \<le> 9 + SIZEOF_INODE"
  shows "fst (tx_deserialize L s raw0 raw tx0) = Inl Undefined_behaviour"
proof -
  have "inode_serialize i = Inr (encode_core (core i))"
    using wf self by (auto simp: wf_tx_def wf_inode_def wf_serialize)
  with self ser obtain body where raw: "raw = le32 (of_nat (4 + length body)) @ body"
    and body: "\<exists>r. body = 1 # encode_sized (encode_core (core i)) @ r"
    by (auto simp: tx_serialize_def Let_def split: sum.splits)
  then obtain r where raw': "raw = le32 (of_nat (4 + length body)) @ 1 # encode_sized (encode_core (core i)) @ r"
    by auto
  have r4: "raw ! 4 = 1" by (simp add: raw' nth_append)
  have d5: "drop 5 raw = le32 104 @ encode_core (core i) @ r"
    by (simp add: raw' encode_sized_def REG_INODE_SIZE_def)
  have d9: "drop 9 raw = encode_core (core i) @ r"
    by (simp add: raw' encode_sized_def)
  have len: "9 \<le> length raw" by (simp add: raw' encode_sized_def)
  have "decode_dentries (drop (9 + SIZEOF_INODE) raw) m = Inl Undefined_behaviour" for m
    using short by (subst decode_dentries.simps) simp
  then show ?thesis
    using r4 len d5 inode_deserialize_regular [OF self(2), of L s r raw0]
    by (simp add: tx_deserialize_def d9)
qed

end

definition mem_ords :: orders where
  "mem_ords = \<lparr>ord_children = sorted_iter, ord_dentries = sorted_iter, ord_f_inodes = sorted_iter\<rparr>"

lemma mem_ords_simps [simp]:
  "ord_children mem_ords = sorted_iter" "ord_dentries mem_ords = sorted_iter" "ord_f_inodes mem_ords = sorted_iter"
  by (simp_all add: mem_ords_def)

interpretation mem_tx: tx_io mem_librados "\<lambda>s. s" mem_ords
  by unfold_locales (simp_all add: std_map.iter_distinct std_map.iter_map_of)

lemma sorted_iter_empty [simp]: "sorted_iter Map.empty = []"
  by (simp add: sorted_iter_def)

section \<open>Properties\<close>

text \<open>
  C30: every transaction operation that succeeds changes the recorded entries so that applying them to
  any directory contents has exactly the effect of the operation on those contents after the earlier
  changes.
\<close>

theorem tx_ops_refine_directory:
  assumes "tx_exec raw op tx = (Inr 0, tx')"
  shows "apply_dentries (dentries tx') m = dir_effect op (apply_dentries (dentries tx) m)"
  by (rule tx_exec_entries [OF assms])

theorem tx_ops_refine_directory_witness:
  "apply_dentries (dentries (snd (tx_exec null_inode (Mkdir null_inode ''a'' get_root_ino) (transaction_new nil_uuid))))
     Map.empty = [''a'' \<mapsto> get_root_ino]"
  using tx_ops_refine_directory [of null_inode "Mkdir null_inode ''a'' get_root_ino" "transaction_new nil_uuid"
      "snd (tx_exec null_inode (Mkdir null_inode ''a'' get_root_ino) (transaction_new nil_uuid))" Map.empty]
  by (simp add: tx_mkdir_def transaction_new_def)

text \<open>
  a committed transaction refuses every operation with -1 and does not change; an open one either
  records the operation with result 0 or raises a \<^verbatim>\<open>logic_error\<close>, and stays open.
\<close>

theorem tx_frozen_after_commit:
  "(committed tx \<longrightarrow> tx_exec raw op tx = (Inr (-1), tx)) \<and>
   (\<not> committed tx \<longrightarrow> (\<exists>r tx'. tx_exec raw op tx = (r, tx') \<and> \<not> committed tx' \<and>
      (r = Inr 0 \<or> (\<exists>msg. r = Inl (Logic_error msg)))))"
  using tx_exec_committed [of tx raw op] tx_exec_result [of tx raw op] by blast

theorem tx_frozen_after_commit_witness:
  "tx_exec null_inode (Chreg null_inode) ((transaction_new nil_uuid)\<lparr>committed := True\<rparr>) =
     (Inr (-1), (transaction_new nil_uuid)\<lparr>committed := True\<rparr>)"
  using tx_frozen_after_commit [of "(transaction_new nil_uuid)\<lparr>committed := True\<rparr>" null_inode "Chreg null_inode"]
  by simp

text \<open>
  C31: the operations keep a transaction well-formed, on every branch: its own inode block has its own
  number, file blocks are filed under their numbers, names are storable.
\<close>

theorem tx_ops_preserve_wf:
  assumes "wf_tx tx" and "op_ok (s_ino tx) op"
  shows "wf_tx (snd (tx_exec raw op tx))"
  by (rule wf_tx_exec [OF assms])

theorem tx_ops_preserve_wf_witness:
  "wf_tx (snd (tx_exec null_inode (Rmself nil_uuid) (transaction_new nil_uuid)))"
  using tx_ops_preserve_wf [OF wf_tx_new, of nil_uuid "Rmself nil_uuid" null_inode] by (simp add: transaction_new_def)

text \<open>
  C17: applying a transaction whose directory lives writes its inode, the directory with the recorded
  changes applied and every live file inode, so that each can be loaded from the pool afterwards, and
  changes no other object.
\<close>

theorem tx_sync_applies:
  assumes "tx_io L objs ords" and "sound objs s" and "wf_tx tx" and "status tx \<noteq> S_DELETED"
    and "dentry_new L s (s_ino tx) (status tx = S_CREATED) = Inr d0" and "wf_dentry d0"
    and "dentry_raw_size (ord_children ords)
      \<lparr>this_ino = s_ino tx, child_list = apply_dentries (dentries tx) (child_list d0)\<rparr> \<le> OBJ_SIZE"
  shows "\<exists>s'. tx_sync L ords tx s = (Inr (), s') \<and>
    dentry_new L s' (s_ino tx) False =
      Inr \<lparr>this_ino = s_ino tx, child_list = apply_dentries (dentries tx) (child_list d0)\<rparr> \<and>
    (\<forall>i. s_inode tx = Some i \<longrightarrow>
       inode_pull L s' raw (s_ino tx) = Inr (raw\<lparr>core := core i, link_target_name := link_target_name i\<rparr>)) \<and>
    (\<forall>u i. f_inodes tx u = Some (Some i) \<longrightarrow>
       inode_pull L s' raw u = Inr (raw\<lparr>core := core i, link_target_name := link_target_name i\<rparr>)) \<and>
    unchanged objs ({(INODE, uuid_to_string L (s_ino tx)), (DENTRY, uuid_to_string L (s_ino tx))} \<union>
      (\<lambda>u. (INODE, uuid_to_string L u)) ` live_inodes (f_inodes tx)) s s'"
proof -
  have pull: "inode_pull L s' raw u = Inr (raw\<lparr>core := core i, link_target_name := link_target_name i\<rparr>)"
    if "tx_io.holds_inode L objs s' i" "wf_inode i" "i_ino (core i) = u" for s' i u
    using tx_io.holds_inode_pull [OF assms(1) that(1,2)] that(3) by simp
  obtain s' where s': "tx_sync L ords tx s = (Inr (), s')"
    "dentry_new L s' (s_ino tx) False =
      Inr \<lparr>this_ino = s_ino tx, child_list = apply_dentries (dentries tx) (child_list d0)\<rparr>"
    "\<forall>i. s_inode tx = Some i \<longrightarrow> tx_io.holds_inode L objs s' i"
    "\<forall>u i. f_inodes tx u = Some (Some i) \<longrightarrow> tx_io.holds_inode L objs s' i"
    and u: "unchanged objs ((if s_inode tx = None then {} else {(INODE, uuid_to_string L (s_ino tx))}) \<union>
      {(DENTRY, uuid_to_string L (s_ino tx))} \<union> (\<lambda>u. (INODE, uuid_to_string L u)) ` live_inodes (f_inodes tx)) s s'"
    using tx_io.tx_sync_ok [OF assms] by blast
  have u': "unchanged objs ({(INODE, uuid_to_string L (s_ino tx)), (DENTRY, uuid_to_string L (s_ino tx))} \<union>
      (\<lambda>u. (INODE, uuid_to_string L u)) ` live_inodes (f_inodes tx)) s s'"
    by (rule unchanged_mono [OF u]) auto
  have "inode_pull L s' raw (s_ino tx) = Inr (raw\<lparr>core := core i, link_target_name := link_target_name i\<rparr>)"
    if "s_inode tx = Some i" for i
    using pull s'(3) assms(3) that by (simp add: wf_tx_def)
  moreover have "inode_pull L s' raw u = Inr (raw\<lparr>core := core i, link_target_name := link_target_name i\<rparr>)"
    if "f_inodes tx u = Some (Some i)" for u i
    using pull s'(4) assms(3) that by (simp add: wf_tx_def)
  ultimately show ?thesis using s'(1,2) u' by blast
qed

theorem tx_sync_applies_witness:
  "\<exists>s'. tx_sync mem_librados mem_ords
        ((transaction_new get_root_ino)\<lparr>status := S_CREATED, dentries := [''a'' \<mapsto> (True, nil_uuid)]\<rparr>) Map.empty = (Inr (), s') \<and>
      dentry_new mem_librados s' get_root_ino False = Inr \<lparr>this_ino = get_root_ino, child_list = [''a'' \<mapsto> nil_uuid]\<rparr>"
proof -
  let ?tx = "(transaction_new get_root_ino)\<lparr>status := S_CREATED, dentries := [''a'' \<mapsto> (True, nil_uuid)]\<rparr>"
  have "sound (\<lambda>s. s) (Map.empty :: string \<rightharpoonup> byte list)" using mem_stores_empty unfolding sound_def by blast
  moreover have "wf_tx ?tx" by (simp add: wf_tx_def transaction_new_def name_ok_def)
  moreover have "dentry_new mem_librados Map.empty (s_ino ?tx) (status ?tx = S_CREATED) =
      Inr \<lparr>this_ino = get_root_ino, child_list = Map.empty\<rparr>"
    by (simp add: dentry_new_def transaction_new_def)
  moreover have "wf_dentry \<lparr>this_ino = get_root_ino, child_list = Map.empty\<rparr>" by (simp add: wf_dentry_def)
  ultimately show ?thesis
    using tx_sync_applies [OF mem_tx.tx_io_axioms, of Map.empty ?tx "\<lparr>this_ino = get_root_ino, child_list = Map.empty\<rparr>" null_inode]
    by (auto simp: transaction_new_def dentry_raw_size_eq encode_child_def OBJ_SIZE_def)
qed

text \<open>
  applying a transaction whose directory was removed deletes the inode and the entries of the
  directory from the pool, ends, and changes no other object.
\<close>

theorem tx_sync_removes:
  assumes "tx_io L objs ords" and "sound objs s" and "status tx = S_DELETED"
    and "\<forall>cat c. stores objs s cat (uuid_to_string L (s_ino tx)) c \<longrightarrow> length c < 2 ^ 63"
  shows "\<exists>s'. tx_sync L ords tx s = (Inr (), s') \<and>
    rados_exist L s' INODE (uuid_to_string L (s_ino tx)) = Inr False \<and>
    rados_exist L s' DENTRY (uuid_to_string L (s_ino tx)) = Inr False \<and>
    unchanged objs {(INODE, uuid_to_string L (s_ino tx)), (DENTRY, uuid_to_string L (s_ino tx))} s s'"
proof -
  have "librados_healthy L objs" using assms(1) by (simp add: tx_io_def dentry_io_def)
  from librados_healthy.rados_exist_ok [OF this] tx_io.tx_sync_deleted_ok [OF assms] show ?thesis by auto
qed

theorem tx_sync_removes_witness:
  "\<exists>s'. tx_sync mem_librados mem_ords ((transaction_new get_root_ino)\<lparr>status := S_DELETED\<rparr>) Map.empty = (Inr (), s') \<and>
    rados_exist mem_librados s' INODE (uuid_to_string mem_librados get_root_ino) = Inr False"
proof -
  have "sound (\<lambda>s. s) (Map.empty :: string \<rightharpoonup> byte list)" using mem_stores_empty unfolding sound_def by blast
  moreover have "\<forall>cat c. stores (\<lambda>s. s) (Map.empty :: string \<rightharpoonup> byte list) cat k c \<longrightarrow> length c < 2 ^ 63" for k
  proof (intro allI impI)
    fix cat c
    assume "stores (\<lambda>s. s) (Map.empty :: string \<rightharpoonup> byte list) cat k c"
    then have "c = []" using stores_unique [OF mem_stores_empty] by blast
    then show "length c < 2 ^ 63" by simp
  qed
  ultimately show ?thesis
    using tx_sync_removes [OF mem_tx.tx_io_axioms, of Map.empty "(transaction_new get_root_ino)\<lparr>status := S_DELETED\<rparr>"]
    by (auto simp: transaction_new_def)
qed

text \<open>
  a commit appends exactly one record to the journal of the directory, remembers where it starts and
  freezes the transaction; a second commit raises an exception and changes nothing.
\<close>

theorem tx_commit_appends:
  assumes "tx_io L objs ords" and "stores objs s JOURNAL (uuid_to_string L (s_ino tx)) old"
    and "length old + length raw \<le> MAX_OFFSET" and "\<not> committed tx" and "tx_serialize ords tx = Inr raw"
  shows "\<exists>tx' s'. tx_commit L ords (tx, s) = (Inr (), (tx', s')) \<and>
    tx' = tx\<lparr>committed := True, tx_offset := Some (length old)\<rparr> \<and>
    stores objs s' JOURNAL (uuid_to_string L (s_ino tx)) (old @ raw) \<and>
    frame objs JOURNAL (uuid_to_string L (s_ino tx)) s s' \<and>
    (\<exists>msg. tx_commit L ords (tx', s') = (Inl (Logic_error msg), (tx', s')))"
  using tx_io.tx_commit_ok [OF assms] by (auto simp: tx_commit_def)

theorem tx_commit_appends_witness:
  "\<exists>tx' s' raw. tx_commit mem_librados mem_ords (transaction_new get_root_ino, Map.empty) = (Inr (), (tx', s')) \<and>
    tx_serialize mem_ords (transaction_new get_root_ino) = Inr raw \<and>
    stores (\<lambda>s. s) s' JOURNAL (uuid_to_string mem_librados get_root_ino) raw"
proof -
  obtain raw where "tx_serialize mem_ords (transaction_new get_root_ino) = Inr raw" "length raw \<le> MAX_OFFSET"
    by (simp add: tx_serialize_def transaction_new_def List.map_filter_def Let_def)
  moreover from this obtain tx' s' where
    "tx_commit mem_librados mem_ords (transaction_new get_root_ino, Map.empty) = (Inr (), (tx', s'))"
    "stores (\<lambda>s. s) s' JOURNAL (uuid_to_string mem_librados (s_ino (transaction_new get_root_ino))) ([] @ raw)"
    using tx_commit_appends [OF mem_tx.tx_io_axioms mem_stores_empty, of raw "transaction_new get_root_ino"]
    by (fastforce simp: transaction_new_def)
  ultimately show ?thesis by (auto simp: transaction_new_def)
qed

text \<open>
  C32: a record of a transaction without the directory's own inode block and without symbolic links is read
  back with the same entries and, for the live file inodes, the same attributes.  Deleted file inodes are not
  part of a record, so they are dropped; symbolic links are excluded, since their target is read from the pool.
\<close>

theorem tx_record_roundtrip:
  assumes "tx_io L objs ords" and "wf_tx tx" and "s_inode tx = None"
    and "\<forall>u i. f_inodes tx u = Some (Some i) \<longrightarrow> \<not> S_ISLNK (i_mode (core i))"
  shows "\<exists>raw tx'. tx_serialize ords tx = Inr raw \<and>
    tx_deserialize L s raw0 raw (transaction_new u0) = (Inr 0, tx') \<and> dentries tx' = dentries tx \<and>
    (\<forall>u. f_inodes tx' u = (case f_inodes tx u of Some (Some i) \<Rightarrow> Some (Some (journal_inode raw0 i)) | _ \<Rightarrow> None)) \<and>
    s_inode tx' = None"
  by (rule tx_io.tx_roundtrip_ok [OF assms])

theorem tx_record_roundtrip_witness:
  "\<exists>raw tx'. tx_serialize mem_ords ((transaction_new get_root_ino)\<lparr>dentries := [''a'' \<mapsto> (True, nil_uuid)]\<rparr>) = Inr raw \<and>
    tx_deserialize mem_librados Map.empty null_inode raw (transaction_new get_root_ino) = (Inr 0, tx') \<and>
    dentries tx' = [''a'' \<mapsto> (True, nil_uuid)]"
proof -
  let ?tx = "(transaction_new get_root_ino)\<lparr>dentries := [''a'' \<mapsto> (True, nil_uuid)]\<rparr>"
  have "wf_tx ?tx" by (simp add: wf_tx_def transaction_new_def name_ok_def)
  from tx_record_roundtrip [OF mem_tx.tx_io_axioms this, of Map.empty null_inode get_root_ino]
  show ?thesis by (fastforce simp: transaction_new_def)
qed

text \<open>
  C34: a record of at most \<open>9 + SIZEOF_INODE\<close> bytes that holds the directory's own inode block is not read back:
  the reader advances by the size of the in-memory object instead of the size stored in the record, and runs
  beyond the end.  The directory is no symbolic link.  Of longer records, which also hold the blocks of file
  inodes, nothing is claimed: there the reader goes on at the wrong place.
\<close>

theorem tx_record_with_self_unreadable:
  assumes "tx_io L objs ords" and "wf_tx tx" and "s_inode tx = Some i" and "\<not> S_ISLNK (i_mode (core i))"
    and "tx_serialize ords tx = Inr raw" and "length raw \<le> 9 + SIZEOF_INODE"
  shows "fst (tx_deserialize L s raw0 raw tx0) = Inl Undefined_behaviour"
  by (rule tx_io.tx_deserialize_self_ok [OF assms])

theorem tx_record_with_self_unreadable_witness:
  "\<exists>raw. tx_serialize mem_ords
        ((transaction_new get_root_ino)\<lparr>s_inode := Some (inode_new_dir \<lparr>tv_sec = 0, tv_nsec = 0\<rparr> nil_uuid 0 0 S_IFDIR get_root_ino)\<rparr>)
          = Inr raw \<and>
    fst (tx_deserialize mem_librados Map.empty null_inode raw (transaction_new get_root_ino)) = Inl Undefined_behaviour"
proof -
  let ?i = "inode_new_dir \<lparr>tv_sec = 0, tv_nsec = 0\<rparr> nil_uuid 0 0 S_IFDIR get_root_ino"
  let ?tx = "(transaction_new get_root_ino)\<lparr>s_inode := Some ?i\<rparr>"
  have nl: "\<not> S_ISLNK S_IFDIR" by (simp add: S_ISLNK_def mode_bits)
  then have i: "wf_inode ?i" "i_ino (core ?i) = get_root_ino" "\<not> S_ISLNK (i_mode (core ?i))" "link_target_name ?i = None"
    by (simp, simp_all add: inode_new_dir_def new_core_def)
  have wf: "wf_tx ?tx" using i by (simp add: wf_tx_def transaction_new_def)
  obtain raw where raw: "tx_serialize mem_ords ?tx = Inr raw" "length raw \<le> 9 + SIZEOF_INODE"
    using i by (simp add: tx_serialize_def transaction_new_def wf_serialize List.map_filter_def Let_def
        encode_sized_def REG_INODE_SIZE_def SIZEOF_INODE_def)
  have "fst (tx_deserialize mem_librados Map.empty null_inode raw (transaction_new get_root_ino)) = Inl Undefined_behaviour"
    using tx_record_with_self_unreadable [OF mem_tx.tx_io_axioms wf _ i(3) raw] by simp
  with raw show ?thesis by blast
qed

text \<open>
  C35: a checkpoint does not clear the valid bit of its record: it overwrites the first byte of the
  record's size, and the byte that the reader tests is still 1.  The record starts below \<open>MAX_OFFSET\<close>,
  where an \<^verbatim>\<open>off_t\<close> reaches.
\<close>

theorem tx_checkpoint_leaves_valid_bit:
  assumes "tx_io L objs ords" and "tx_serialize ords tx = Inr raw"
    and "tx_sync L ords tx s = (Inr (), s1)" and "tx_offset tx = Some (length old)"
    and "stores objs s1 JOURNAL (uuid_to_string L (s_ino tx)) (old @ raw @ rest)" and "length old < MAX_OFFSET"
  shows "\<exists>s' j. tx_checkpoint L ords tx s = (Inr (), s') \<and>
    stores objs s' JOURNAL (uuid_to_string L (s_ino tx)) j \<and>
    j ! length old = 0 \<and> j ! (length old + 4) = 1 \<and> drop (length old + 1) j = drop 1 raw @ rest"
proof -
  obtain body where raw: "raw = le32 (of_nat (4 + length body)) @ body" and "\<exists>r. body = 1 # r"
    using assms(2) by (auto simp: tx_serialize_def Let_def split: sum.splits)
  then obtain r where r: "raw = le32 (of_nat (4 + length body)) @ 1 # r" by auto
  obtain b bs where le: "le32 (of_nat (4 + length body)) = b # bs" by (cases "le32 (of_nat (4 + length body))") simp_all
  then have bs: "length bs = 3" using length_le32 [of "of_nat (4 + length body)"] by simp
  have eq: "raw = b # bs @ 1 # r" using r le by simp
  obtain s' where "tx_checkpoint L ords tx s = (Inr (), s')"
    "stores objs s' JOURNAL (uuid_to_string L (s_ino tx)) (old @ 0 # (bs @ 1 # r @ rest))"
    using tx_io.tx_checkpoint_ok [OF assms(1,3,4), of b "bs @ 1 # r @ rest"] assms(5,6) eq by auto
  moreover have "(old @ 0 # (bs @ 1 # r @ rest)) ! (length old + 4) = 1"
    using bs by (simp add: nth_append)
  ultimately show ?thesis using eq by (intro exI [of _ s'] exI [of _ "old @ 0 # (bs @ 1 # r @ rest)"]) simp
qed

lemma mem_sound_empty: "sound (\<lambda>s. s) (Map.empty :: string \<rightharpoonup> byte list)"
  using mem_stores_empty unfolding sound_def by blast

theorem tx_checkpoint_leaves_valid_bit_witness:
  "\<exists>tx raw s1 s' j. tx_serialize mem_ords tx = Inr raw \<and>
    stores (\<lambda>s. s) s1 JOURNAL (uuid_to_string mem_librados (s_ino tx)) raw \<and>
    tx_checkpoint mem_librados mem_ords tx s1 = (Inr (), s') \<and>
    stores (\<lambda>s. s) s' JOURNAL (uuid_to_string mem_librados (s_ino tx)) j \<and> j ! 4 = 1"
proof -
  let ?init = "(transaction_new get_root_ino)\<lparr>status := S_DELETED\<rparr>"
  let ?k = "uuid_to_string mem_librados get_root_ino"
  let ?tx = "?init\<lparr>committed := True, tx_offset := Some 0\<rparr>"
  obtain raw where raw: "tx_serialize mem_ords ?init = Inr raw" "length raw < 2 ^ 62"
    by (simp add: tx_serialize_def transaction_new_def List.map_filter_def Let_def)
  obtain s1 where s1: "stores (\<lambda>s. s) s1 JOURNAL ?k raw" "frame (\<lambda>s. s) JOURNAL ?k Map.empty s1"
    using mem_tx.tx_commit_ok [OF mem_stores_empty, of raw ?init] raw by (auto simp: transaction_new_def)
  have snd: "sound (\<lambda>s. s) s1" by (rule sound_step [OF mem_sound_empty s1])
  have small: "length c < 2 ^ 63" if c: "stores (\<lambda>s. s) s1 cat ?k c" for cat c
  proof (cases "cat = JOURNAL")
    case True
    then show ?thesis using stores_unique [OF s1(1)] c raw(2) by fastforce
  next
    case False
    then have "stores (\<lambda>s. s) Map.empty cat ?k c" using frame_stores [OF s1(2), of cat ?k c] c by simp
    then have "c = []" using stores_unique [OF mem_stores_empty] by metis
    then show ?thesis by simp
  qed
  obtain s2 where s2: "tx_sync mem_librados mem_ords ?tx s1 = (Inr (), s2)"
    "unchanged (\<lambda>s. s) {(INODE, ?k), (DENTRY, ?k)} s1 s2"
    using mem_tx.tx_sync_deleted_ok [OF snd, of ?tx] small by (auto simp: transaction_new_def)
  have st2: "stores (\<lambda>s. s) s2 JOURNAL ?k raw"
    using unchanged_stores [OF s2(2), of JOURNAL ?k] s1(1) by simp
  have ser: "tx_serialize mem_ords ?tx = Inr raw" using raw(1) by (simp add: tx_serialize_def transaction_new_def)
  have "length ([] :: byte list) < MAX_OFFSET" by (simp add: MAX_OFFSET_def OBJ_SIZE_def)
  with tx_checkpoint_leaves_valid_bit [OF mem_tx.tx_io_axioms ser s2(1), of "[]" "[]"] st2 obtain s' j where
    "tx_checkpoint mem_librados mem_ords ?tx s1 = (Inr (), s')"
    "stores (\<lambda>s. s) s' JOURNAL (uuid_to_string mem_librados (s_ino ?tx)) j" "j ! 4 = 1"
    by (auto simp: transaction_new_def)
  then show ?thesis using ser s1(1) by (intro exI [of _ ?tx] exI [of _ raw] exI [of _ s1] exI [of _ s'] exI [of _ j])
      (simp add: transaction_new_def)
qed

end
