(* ===== verification/Journal.thy ===== *)
theory Journal
  imports Transaction
begin

text \<open>
  The journal of one client (\<^verbatim>\<open>client/journal\<close>): the table of open transactions, the queues to the
  checkpoint threads, one cycle of the commit thread, one iteration of a checkpoint thread, the
  retrying operations, the recovery \<^verbatim>\<open>check\<close>, and a step relation that interleaves operation
  threads with the commit thread and the checkpoint threads.  Transactions are shared objects, so
  they live in a heap and the table and queues hold their identities.
\<close>

section \<open>The journal table\<close>

record jtable =
  jt_map :: "uuid \<rightharpoonup> nat"
  jt_heap :: "nat \<Rightarrow> transaction"
  jt_next :: nat

definition jt_init :: jtable where
  "jt_init = \<lparr>jt_map = Map.empty, jt_heap = (\<lambda>_. transaction_new nil_uuid), jt_next = 0\<rparr>"

definition jt_delete_entry :: "uuid \<Rightarrow> jtable \<Rightarrow> jtable" where
  "jt_delete_entry ino t = t\<lparr>jt_map := (jt_map t)(ino := None)\<rparr>"

text \<open>
  The second critical section of \<^verbatim>\<open>get_entry\<close> repeats the test of the first, so together they act as
  one lookup-or-insert.
\<close>

definition jt_get_entry :: "uuid \<Rightarrow> jtable \<Rightarrow> nat \<times> jtable" where
  "jt_get_entry ino t =
     (case jt_map t ino of
        Some x \<Rightarrow> (x, t)
      | None \<Rightarrow>
          (jt_next t,
           t\<lparr>jt_map := (jt_map t)(ino \<mapsto> jt_next t),
             jt_heap := (jt_heap t)(jt_next t := transaction_new ino),
             jt_next := Suc (jt_next t)\<rparr>))"

definition jt_replace_map :: "jtable \<Rightarrow> (uuid \<rightharpoonup> nat) \<times> jtable" where
  "jt_replace_map t = (jt_map t, t\<lparr>jt_map := Map.empty\<rparr>)"

section \<open>The queues\<close>

text \<open>\<^verbatim>\<open>dispatch\<close> waits on an empty queue: then there is no result.\<close>

definition mq_issue :: "'a \<Rightarrow> 'a list \<Rightarrow> 'a list" where
  "mq_issue v q = q @ [v]"

definition mq_dispatch :: "'a list \<Rightarrow> ('a \<times> 'a list) option" where
  "mq_dispatch q = (case q of [] \<Rightarrow> None | v # q' \<Rightarrow> Some (v, q'))"

text \<open>What the threads rely on: the queue is first-in first-out.\<close>

locale message_queue =
  fixes issue :: "'a \<Rightarrow> 'q \<Rightarrow> 'q" and dispatch :: "'q \<Rightarrow> ('a \<times> 'q) option" and waiting :: "'q \<Rightarrow> 'a list"
  assumes waiting_issue: "waiting (issue v q) = waiting q @ [v]"
    and dispatch_None: "dispatch q = None \<longleftrightarrow> waiting q = []"
    and dispatch_Some: "dispatch q = Some (v, q') \<Longrightarrow> waiting q = v # waiting q'"
begin

fun issue_all :: "'a list \<Rightarrow> 'q \<Rightarrow> 'q" where
  "issue_all [] q = q"
| "issue_all (v # vs) q = issue_all vs (issue v q)"

fun dispatch_n :: "nat \<Rightarrow> 'q \<Rightarrow> ('a list \<times> 'q) option" where
  "dispatch_n 0 q = Some ([], q)"
| "dispatch_n (Suc n) q =
     (case dispatch q of None \<Rightarrow> None
      | Some (v, q') \<Rightarrow> (case dispatch_n n q' of None \<Rightarrow> None | Some (vs, q'') \<Rightarrow> Some (v # vs, q'')))"

lemma waiting_issue_all: "waiting (issue_all vs q) = waiting q @ vs"
  by (induction vs arbitrary: q) (simp_all add: waiting_issue)

lemma dispatch_nonempty: "waiting q \<noteq> [] \<Longrightarrow> \<exists>q'. dispatch q = Some (hd (waiting q), q') \<and> waiting q' = tl (waiting q)"
  using dispatch_None [of q] dispatch_Some [of q] by (metis list.sel(1,3) not_Some_eq surj_pair)

lemma dispatch_n_fifo:
  "n \<le> length (waiting q) \<Longrightarrow> \<exists>q'. dispatch_n n q = Some (take n (waiting q), q') \<and> waiting q' = drop n (waiting q)"
proof (induction n arbitrary: q)
  case (Suc n)
  then obtain v vs where w: "waiting q = v # vs" by (cases "waiting q") auto
  then obtain q1 where q1: "dispatch q = Some (v, q1)" "waiting q1 = vs" using dispatch_nonempty [of q] by auto
  with Suc.IH [of q1] Suc.prems w show ?case by auto
qed simp

lemma issue_dispatch_roundtrip:
  "waiting q = [] \<Longrightarrow> \<exists>q'. dispatch_n (length vs) (issue_all vs q) = Some (vs, q') \<and> waiting q' = []"
  using dispatch_n_fifo [of "length vs" "issue_all vs q"] by (simp add: waiting_issue_all)

end

interpretation mq: message_queue mq_issue mq_dispatch "\<lambda>q. q"
  by unfold_locales (auto simp: mq_issue_def mq_dispatch_def split: list.splits)

section \<open>The journal and its threads\<close>

definition NUM_CP_THREAD :: nat where
  "NUM_CP_THREAD = 8"

text \<open>A queue holds transactions and, at the end, the null pointer (\<open>None\<close>) that stops its thread.\<close>

record 's journal =
  jtab :: jtable
  jqueues :: "nat \<Rightarrow> nat option list"
  meta :: 's

definition journal_new :: "'s \<Rightarrow> 's journal" where
  "journal_new s = \<lparr>jtab = jt_init, jqueues = (\<lambda>_. []), meta = s\<rparr>"

definition queue_index :: "uuid \<Rightarrow> nat" where
  "queue_index ino = unat (get_prefix_from_uuid ino) mod NUM_CP_THREAD"

text \<open>The body of the commit loop for one entry of the replaced map.\<close>

definition commit_one :: "'s extern \<Rightarrow> orders \<Rightarrow> uuid \<times> nat \<Rightarrow> ('s journal, unit) st" where
  "commit_one L ords p j =
     (case p of (ino, x) \<Rightarrow>
        (case tx_commit L ords (jt_heap (jtab j) x, meta j) of (r, (tx, s)) \<Rightarrow>
           (let j1 = j\<lparr>jtab := (jtab j)\<lparr>jt_heap := (jt_heap (jtab j))(x := tx)\<rparr>, meta := s\<rparr> in
            case r of
              Inl e \<Rightarrow> (Inl e, j1)
            | Inr _ \<Rightarrow>
                (let i = queue_index ino in
                 (Inr (), j1\<lparr>jqueues := (jqueues j1)(i := mq_issue (Some x) (jqueues j1 i))\<rparr>)))))"

definition commit_cycle ::
  "'s extern \<Rightarrow> orders \<Rightarrow> ((uuid \<rightharpoonup> nat) \<Rightarrow> (uuid \<times> nat) list) \<Rightarrow> ('s journal, unit) st" where
  "commit_cycle L ords it j =
     (case jt_replace_map (jtab j) of (m, t) \<Rightarrow> foldE (commit_one L ords) (it m) (j\<lparr>jtab := t\<rparr>))"

definition commit_stop :: "'s journal \<Rightarrow> 's journal" where
  "commit_stop j =
     j\<lparr>jqueues := (\<lambda>i. if i < NUM_CP_THREAD then mq_issue None (jqueues j i) else jqueues j i)\<rparr>"

text \<open>
  One iteration of a checkpoint thread: no result while it waits, false when it was told to stop.
\<close>

definition checkpoint_one :: "'s extern \<Rightarrow> orders \<Rightarrow> nat \<Rightarrow> 's journal \<Rightarrow> (bool result \<times> 's journal) option" where
  "checkpoint_one L ords i j =
     (case mq_dispatch (jqueues j i) of
        None \<Rightarrow> None
      | Some (v, q) \<Rightarrow>
          (let j1 = j\<lparr>jqueues := (jqueues j)(i := q)\<rparr> in
           case v of
             None \<Rightarrow> Some (Inr False, j1)
           | Some x \<Rightarrow>
               (case tx_checkpoint L ords (jt_heap (jtab j) x) (meta j) of
                  (Inl e, s) \<Rightarrow> Some (Inl e, j1\<lparr>meta := s\<rparr>)
                | (Inr _, s) \<Rightarrow> Some (Inr True, j1\<lparr>meta := s\<rparr>))))"

section \<open>Operations\<close>

text \<open>One attempt: fetch the open transaction of the directory and record the operation in it.\<close>

definition journal_try :: "inode \<Rightarrow> uuid \<Rightarrow> tx_op \<Rightarrow> ('s journal, int) st" where
  "journal_try raw ino op j =
     (case jt_get_entry ino (jtab j) of (x, t) \<Rightarrow>
        (case tx_exec raw op (jt_heap t x) of (r, tx) \<Rightarrow>
           (r, j\<lparr>jtab := t\<lparr>jt_heap := (jt_heap t)(x := tx)\<rparr>\<rparr>)))"

text \<open>The \<^verbatim>\<open>while (true)\<close> loop of every operation; not returning is \<open>None\<close>.\<close>

partial_function (option) journal_op ::
  "inode \<Rightarrow> uuid \<Rightarrow> tx_op \<Rightarrow> 's journal \<Rightarrow> (unit result \<times> 's journal) option" where
  "journal_op raw ino op j =
     (case journal_try raw ino op j of (r, j') \<Rightarrow>
        (case r of
           Inl e \<Rightarrow> Some (Inl e, j')
         | Inr n \<Rightarrow> if n = 0 then Some (Inr (), j') else journal_op raw ino op j'))"

definition journal_mkself :: "inode \<Rightarrow> inode \<Rightarrow> 's journal \<Rightarrow> (unit result \<times> 's journal) option" where
  "journal_mkself raw i = journal_op raw (i_ino (core i)) (Mkself i)"

definition journal_rmself :: "inode \<Rightarrow> uuid \<Rightarrow> 's journal \<Rightarrow> (unit result \<times> 's journal) option" where
  "journal_rmself raw u = journal_op raw u (Rmself u)"

definition journal_chself :: "inode \<Rightarrow> inode \<Rightarrow> 's journal \<Rightarrow> (unit result \<times> 's journal) option" where
  "journal_chself raw i = journal_op raw (i_ino (core i)) (Chself i)"

definition journal_mkdir ::
  "inode \<Rightarrow> inode \<Rightarrow> string \<Rightarrow> uuid \<Rightarrow> 's journal \<Rightarrow> (unit result \<times> 's journal) option" where
  "journal_mkdir raw i n u = journal_op raw (i_ino (core i)) (Mkdir i n u)"

definition journal_rmdir ::
  "inode \<Rightarrow> inode \<Rightarrow> string \<Rightarrow> uuid \<Rightarrow> 's journal \<Rightarrow> (unit result \<times> 's journal) option" where
  "journal_rmdir raw i n u = journal_op raw (i_ino (core i)) (Rmdir i n u)"

definition journal_mvdir ::
  "inode \<Rightarrow> inode \<Rightarrow> string \<Rightarrow> uuid \<Rightarrow> string \<Rightarrow> uuid \<Rightarrow> 's journal \<Rightarrow> (unit result \<times> 's journal) option" where
  "journal_mvdir raw i n u n' u' = journal_op raw (i_ino (core i)) (Mvdir i n u n' u')"

definition journal_mkreg ::
  "inode \<Rightarrow> inode \<Rightarrow> string \<Rightarrow> inode \<Rightarrow> 's journal \<Rightarrow> (unit result \<times> 's journal) option" where
  "journal_mkreg raw i n f = journal_op raw (i_ino (core i)) (Mkreg i n f)"

definition journal_rmreg ::
  "inode \<Rightarrow> inode \<Rightarrow> string \<Rightarrow> inode \<Rightarrow> 's journal \<Rightarrow> (unit result \<times> 's journal) option" where
  "journal_rmreg raw i n f = journal_op raw (i_ino (core i)) (Rmreg i n f)"

definition journal_mvreg ::
  "inode \<Rightarrow> inode \<Rightarrow> string \<Rightarrow> uuid \<Rightarrow> string \<Rightarrow> uuid \<Rightarrow> 's journal \<Rightarrow> (unit result \<times> 's journal) option" where
  "journal_mvreg raw i n u n' u' = journal_op raw (i_ino (core i)) (Mvreg i n u n' u')"

definition journal_chreg :: "inode \<Rightarrow> uuid \<Rightarrow> inode \<Rightarrow> 's journal \<Rightarrow> (unit result \<times> 's journal) option" where
  "journal_chreg raw u f = journal_op raw u (Chreg f)"

section \<open>Recovery\<close>

text \<open>
  The loop of \<^verbatim>\<open>check\<close> over the records in the buffer.  A negative size makes the vector
  constructor throw, a size of zero makes the reader access an empty vector.
\<close>

function check_loop ::
  "'s extern \<Rightarrow> orders \<Rightarrow> inode \<Rightarrow> uuid \<Rightarrow> byte list \<Rightarrow> nat \<Rightarrow> nat \<Rightarrow> ('s, unit) st" where
  "check_loop L ords raw0 ino val obj_size index s =
     (if index < obj_size then
        (if length val < index + 4 then (Inl Undefined_behaviour, s)
         else
           (let tx_size = un_le32 (drop index val); n = unat tx_size in
            if sint tx_size < 0 then (Inl (Logic_error ''cannot create std::vector larger than max_size()''), s)
            else if n = 0 \<or> length val < index + n then (Inl Undefined_behaviour, s)
            else
              (case tx_deserialize L s raw0 (take n (drop index val)) (transaction_new ino) of
                 (Inl e, _) \<Rightarrow> (Inl e, s)
               | (Inr r, tx) \<Rightarrow>
                   if r = 0 then
                     (case tx_sync L ords tx s of
                        (Inl e, s') \<Rightarrow> (Inl e, s')
                      | (Inr _, s') \<Rightarrow> check_loop L ords raw0 ino val obj_size (index + n) s')
                   else (Inl (Runtime_error ''journal::check() failed (not implemented yet)''), s))))
      else (Inr (), s))"
  by pat_completeness auto
termination
  by (relation "measure (\<lambda>(L, ords, raw0, ino, val, obj_size, index, s). obj_size - index)") auto

declare check_loop.simps [simp del]

definition journal_check :: "'s extern \<Rightarrow> orders \<Rightarrow> inode \<Rightarrow> uuid \<Rightarrow> ('s journal, unit) st" where
  "journal_check L ords raw0 ino j =
     (let j1 = j\<lparr>jtab := jt_delete_entry ino (jtab j)\<rparr> in
      case rados_read L (meta j1) JOURNAL (uuid_to_string L ino) OBJ_SIZE 0 of
        Inl e \<Rightarrow> (Inl e, j1)
      | Inr bs \<Rightarrow>
          (case check_loop L ords raw0 ino (bs @ replicate (OBJ_SIZE - length bs) 0) (length bs) 0 (meta j1) of
             (r, s) \<Rightarrow> (r, j1\<lparr>meta := s\<rparr>)))"

section \<open>The table of open transactions\<close>

definition jtab_ok :: "jtable \<Rightarrow> bool" where
  "jtab_ok t \<longleftrightarrow> finite (dom (jt_map t)) \<and>
     (\<forall>ino x. jt_map t ino = Some x \<longrightarrow>
        x < jt_next t \<and> \<not> committed (jt_heap t x) \<and> s_ino (jt_heap t x) = ino)"

lemma jtab_okD:
  "jtab_ok t \<Longrightarrow> jt_map t ino = Some x \<Longrightarrow> x < jt_next t \<and> \<not> committed (jt_heap t x) \<and> s_ino (jt_heap t x) = ino"
  by (simp add: jtab_ok_def)

lemma jtab_ok_inj: "jtab_ok t \<Longrightarrow> jt_map t ino = Some x \<Longrightarrow> jt_map t ino' = Some x \<Longrightarrow> ino = ino'"
  by (auto simp: jtab_ok_def)

lemma jtab_ok_init [simp]: "jtab_ok jt_init"
  by (simp add: jtab_ok_def jt_init_def)

text \<open>What a lookup-or-insert yields.\<close>

lemma jt_get_entryE:
  assumes "jt_get_entry ino t = (x, t')" and "jtab_ok t"
  obtains "jt_map t ino = Some x" and "t' = t"
  | "jt_map t ino = None" and "x = jt_next t" and "jt_map t' = (jt_map t)(ino \<mapsto> x)"
    and "jt_heap t' = (jt_heap t)(x := transaction_new ino)" and "jt_next t' = Suc x"
proof (cases "jt_map t ino")
  case None
  with assms(1) show thesis by (intro that(2)) (auto simp: jt_get_entry_def)
next
  case (Some y)
  with assms(1) have "x = y" "t' = t" by (simp_all add: jt_get_entry_def)
  with Some that(1) show thesis by simp
qed

lemma transaction_new_simps [simp]: "\<not> committed (transaction_new u)" "s_ino (transaction_new u) = u"
  by (simp_all add: transaction_new_def)

lemma jt_get_entry_ok:
  assumes "jt_get_entry ino t = (x, t')" and ok: "jtab_ok t"
  shows "jtab_ok t'" and "jt_map t' ino = Some x"
proof -
  from assms have "jtab_ok t' \<and> jt_map t' ino = Some x"
  proof (cases rule: jt_get_entryE)
    case 1
    then show ?thesis using ok by simp
  next
    case 2
    have "jtab_ok t'" unfolding jtab_ok_def
    proof (intro conjI allI impI)
      show "finite (dom (jt_map t'))" using ok 2(3) by (simp add: jtab_ok_def)
      fix u y
      assume y: "jt_map t' u = Some y"
      have "y < jt_next t' \<and> \<not> committed (jt_heap t' y) \<and> s_ino (jt_heap t' y) = u"
      proof (cases "u = ino")
        case True
        with y 2 show ?thesis by simp
      next
        case False
        with y 2(3) have "jt_map t u = Some y" by simp
        from jtab_okD [OF ok this] 2 show ?thesis by auto
      qed
      then show "y < jt_next t'" "\<not> committed (jt_heap t' y)" "s_ino (jt_heap t' y) = u" by simp_all
    qed
    then show ?thesis using 2(3) by simp
  qed
  then show "jtab_ok t'" "jt_map t' ino = Some x" by simp_all
qed

lemma jtab_ok_heap:
  assumes "jtab_ok t" and "committed tx = committed (jt_heap t x)" and "s_ino tx = s_ino (jt_heap t x)"
  shows "jtab_ok (t\<lparr>jt_heap := (jt_heap t)(x := tx)\<rparr>)"
  using assms by (auto simp: jtab_ok_def)

lemma tx_exec_keeps:
  "tx_exec raw op tx = (r, tx') \<Longrightarrow> committed tx' = committed tx \<and> s_ino tx' = s_ino tx"
  using tx_exec_committed [of tx raw op] tx_exec_result [of tx raw op] by (cases "committed tx") auto

text \<open>With a table of open transactions the retry loop ends in its first iteration.\<close>

lemma journal_op_ok:
  assumes ok: "jtab_ok (jtab j)"
  shows "\<exists>r x j'. journal_op raw ino op j = Some (r, j') \<and> jtab_ok (jtab j') \<and>
    jt_map (jtab j') ino = Some x \<and> jqueues j' = jqueues j \<and> meta j' = meta j \<and>
    (let tx = (case jt_map (jtab j) ino of Some y \<Rightarrow> jt_heap (jtab j) y | None \<Rightarrow> transaction_new ino);
         tx' = jt_heap (jtab j') x
     in r = Inr () \<and> tx_exec raw op tx = (Inr 0, tx') \<or>
        (\<exists>msg. r = Inl (Logic_error msg) \<and> tx_exec raw op tx = (Inl (Logic_error msg), tx')))"
proof -
  obtain x t where g: "jt_get_entry ino (jtab j) = (x, t)" by fastforce
  note t = jt_get_entry_ok [OF g ok]
  let ?tx = "jt_heap t x"
  have tx: "?tx = (case jt_map (jtab j) ino of Some y \<Rightarrow> jt_heap (jtab j) y | None \<Rightarrow> transaction_new ino)"
    using g ok by (cases rule: jt_get_entryE) simp_all
  have uncommitted: "\<not> committed ?tx" using jtab_okD [OF t] by simp
  obtain r tx' where e: "tx_exec raw op ?tx = (r, tx')" and r: "r = Inr 0 \<or> (\<exists>msg. r = Inl (Logic_error msg))"
    using tx_exec_result [OF uncommitted, of raw op] by blast
  let ?j = "j\<lparr>jtab := t\<lparr>jt_heap := (jt_heap t)(x := tx')\<rparr>\<rparr>"
  have attempt: "journal_try raw ino op j = (r, ?j)" using g e by (simp add: journal_try_def)
  have "jtab_ok (jtab ?j)" using jtab_ok_heap [OF t(1)] tx_exec_keeps [OF e] by simp
  moreover have "journal_op raw ino op j = Some (map_sum id (\<lambda>_. ()) r, ?j)"
    using r attempt by (subst journal_op.simps) auto
  ultimately show ?thesis using r e t(2) unfolding tx [symmetric] by (auto simp: Let_def)
qed

text \<open>The open transaction of a directory, and what a recorded operation does to it.\<close>

definition open_tx :: "'s journal \<Rightarrow> uuid \<Rightarrow> transaction" where
  "open_tx j ino = (case jt_map (jtab j) ino of Some y \<Rightarrow> jt_heap (jtab j) y | None \<Rightarrow> transaction_new ino)"

lemma jt_get_entry_open:
  assumes "jt_get_entry ino (jtab j) = (x, t)" and "jtab_ok (jtab j)"
  shows "jt_heap t x = open_tx j ino"
    and "u \<noteq> ino \<Longrightarrow> jt_map t u = jt_map (jtab j) u \<and>
      (\<forall>y. jt_map t u = Some y \<longrightarrow> y \<noteq> x \<and> jt_heap t y = jt_heap (jtab j) y)"
proof -
  note ok = jtab_okD [OF assms(2)] and inj = jtab_ok_inj [OF assms(2)]
  from assms have "jt_heap t x = open_tx j ino \<and> (u \<noteq> ino \<longrightarrow> jt_map t u = jt_map (jtab j) u \<and>
      (\<forall>y. jt_map t u = Some y \<longrightarrow> y \<noteq> x \<and> jt_heap t y = jt_heap (jtab j) y))"
  proof (cases rule: jt_get_entryE)
    case 1
    then show ?thesis using inj by (auto simp: open_tx_def)
  next
    case 2
    have "y \<noteq> x" if "jt_map (jtab j) u = Some y" for y using ok [OF that] 2(2) by auto
    with 2 show ?thesis by (simp add: open_tx_def)
  qed
  then show "jt_heap t x = open_tx j ino" "u \<noteq> ino \<Longrightarrow> jt_map t u = jt_map (jtab j) u \<and>
      (\<forall>y. jt_map t u = Some y \<longrightarrow> y \<noteq> x \<and> jt_heap t y = jt_heap (jtab j) y)" by simp_all
qed

lemma journal_op_open:
  assumes ok: "jtab_ok (jtab j)" and e: "tx_exec raw op (open_tx j ino) = (Inr 0, tx')"
  shows "\<exists>j'. journal_op raw ino op j = Some (Inr (), j') \<and> jtab_ok (jtab j') \<and> open_tx j' ino = tx' \<and>
    (\<forall>u. u \<noteq> ino \<longrightarrow> open_tx j' u = open_tx j u) \<and> jt_map (jtab j') ino \<noteq> None \<and> meta j' = meta j \<and> jqueues j' = jqueues j"
proof -
  obtain x t where g: "jt_get_entry ino (jtab j) = (x, t)" by fastforce
  note t = jt_get_entry_ok [OF g ok] and o = jt_get_entry_open [OF g ok]
  let ?j = "j\<lparr>jtab := t\<lparr>jt_heap := (jt_heap t)(x := tx')\<rparr>\<rparr>"
  have "journal_try raw ino op j = (Inr 0, ?j)" using g e o(1) by (simp add: journal_try_def)
  then have "journal_op raw ino op j = Some (Inr (), ?j)" by (subst journal_op.simps) simp
  moreover have "jtab_ok (jtab ?j)" using jtab_ok_heap [OF t(1)] tx_exec_keeps [OF e] o(1) by simp
  moreover have "open_tx ?j ino = tx'" using t(2) by (simp add: open_tx_def)
  moreover have "open_tx ?j u = open_tx j u" if "u \<noteq> ino" for u
    using o(2) [OF that] by (auto simp: open_tx_def split: option.split)
  moreover have "jt_map (jtab ?j) ino \<noteq> None" using t(2) by simp
  ultimately show ?thesis by auto
qed

lemma open_tx_uncommitted: "jtab_ok (jtab j) \<Longrightarrow> \<not> committed (open_tx j ino)"
  using jtab_okD [of "jtab j" ino] by (auto simp: open_tx_def split: option.split)

section \<open>Interleaved threads\<close>

text \<open>
  The state adds the rest of the map that the commit thread is working on, the operations in progress
  (thread, directory, operation, fetched transaction) and the histories of committed and of
  checkpointed transactions.  The critical sections are the steps.  A commit is one step: once its
  flag is set, the transaction refuses every operation, so the writing that follows the critical
  section sees the same contents.
\<close>

record 's jsys =
  jrn :: "'s journal"
  batch :: "(uuid \<times> nat) list"
  pend :: "(nat \<times> uuid \<times> tx_op \<times> nat option) set"
  clog :: "(uuid \<times> nat) list"
  fin :: "(uuid \<times> nat) list"

definition jsys_init :: "'s \<Rightarrow> 's jsys" where
  "jsys_init s = \<lparr>jrn = journal_new s, batch = [], pend = {}, clog = [], fin = []\<rparr>"

abbreviation heap :: "'s jsys \<Rightarrow> nat \<Rightarrow> transaction" where
  "heap g \<equiv> jt_heap (jtab (jrn g))"

abbreviation jmap :: "'s jsys \<Rightarrow> uuid \<rightharpoonup> nat" where
  "jmap g \<equiv> jt_map (jtab (jrn g))"

abbreviation jnext :: "'s jsys \<Rightarrow> nat" where
  "jnext g \<equiv> jt_next (jtab (jrn g))"

inductive jstep ::
  "'s extern \<Rightarrow> orders \<Rightarrow> ((uuid \<rightharpoonup> nat) \<Rightarrow> (uuid \<times> nat) list) \<Rightarrow> inode \<Rightarrow> 's jsys \<Rightarrow> 's jsys \<Rightarrow> bool"
  for L ords it raw where
  begin_op: "jstep L ords it raw g (g\<lparr>pend := insert (k, ino, op, None) (pend g)\<rparr>)"
| fetch: "(k, ino, op, None) \<in> pend g \<Longrightarrow> jt_get_entry ino (jtab (jrn g)) = (x, t) \<Longrightarrow>
    jstep L ords it raw g (g\<lparr>jrn := (jrn g)\<lparr>jtab := t\<rparr>,
      pend := insert (k, ino, op, Some x) (pend g - {(k, ino, op, None)})\<rparr>)"
| exec: "(k, ino, op, Some x) \<in> pend g \<Longrightarrow> tx_exec raw op (heap g x) = (r, tx) \<Longrightarrow>
    P = (if r = Inr (-1) then {(k, ino, op, None)} else {}) \<Longrightarrow>
    jstep L ords it raw g (g\<lparr>jrn := (jrn g)\<lparr>jtab := (jtab (jrn g))\<lparr>jt_heap := (heap g)(x := tx)\<rparr>\<rparr>,
      pend := P \<union> (pend g - {(k, ino, op, Some x)})\<rparr>)"
| replace: "batch g = [] \<Longrightarrow> jt_replace_map (jtab (jrn g)) = (m, t) \<Longrightarrow>
    jstep L ords it raw g (g\<lparr>jrn := (jrn g)\<lparr>jtab := t\<rparr>, batch := it m\<rparr>)"
| commit: "batch g = p # ps \<Longrightarrow> commit_one L ords p (jrn g) = (Inr (), j) \<Longrightarrow>
    jstep L ords it raw g (g\<lparr>jrn := j, batch := ps, clog := clog g @ [p]\<rparr>)"
| checkpoint: "i < NUM_CP_THREAD \<Longrightarrow> jqueues (jrn g) i = Some x # q \<Longrightarrow>
    checkpoint_one L ords i (jrn g) = Some (Inr True, j) \<Longrightarrow>
    jstep L ords it raw g (g\<lparr>jrn := j, fin := fin g @ [(s_ino (heap g x), x)]\<rparr>)"

inductive jreach ::
  "'s extern \<Rightarrow> orders \<Rightarrow> ((uuid \<rightharpoonup> nat) \<Rightarrow> (uuid \<times> nat) list) \<Rightarrow> inode \<Rightarrow> 's jsys \<Rightarrow> bool"
  for L ords it raw where
  start: "jreach L ords it raw (jsys_init s)"
| step: "jreach L ords it raw g \<Longrightarrow> jstep L ords it raw g g' \<Longrightarrow> jreach L ords it raw g'"

text \<open>The invariant, by what it is about: the open transactions, then the queues and histories.\<close>

definition open_inv :: "'s jsys \<Rightarrow> bool" where
  "open_inv g \<longleftrightarrow> jtab_ok (jtab (jrn g)) \<and>
     (\<forall>ino x. (ino, x) \<in> set (batch g) \<longrightarrow>
        x < jnext g \<and> \<not> committed (heap g x) \<and> s_ino (heap g x) = ino \<and> (\<forall>u. jmap g u \<noteq> Some x)) \<and>
     distinct (map snd (batch g)) \<and>
     (\<forall>x. x < jnext g \<and> \<not> committed (heap g x) \<longrightarrow>
        jmap g (s_ino (heap g x)) = Some x \<or> (s_ino (heap g x), x) \<in> set (batch g)) \<and>
     (\<forall>k ino op x. (k, ino, op, Some x) \<in> pend g \<longrightarrow> x < jnext g \<and> s_ino (heap g x) = ino)"

definition queue_inv :: "'s jsys \<Rightarrow> bool" where
  "queue_inv g \<longleftrightarrow>
     (\<forall>i x. Some x \<in> set (jqueues (jrn g) i) \<longrightarrow> x < jnext g \<and> committed (heap g x)) \<and>
     (\<forall>i. filter (\<lambda>(u, x). queue_index u = i) (clog g) =
        filter (\<lambda>(u, x). queue_index u = i) (fin g) @
        map (\<lambda>x. (s_ino (heap g x), x)) (List.map_filter id (jqueues (jrn g) i)))"

lemma tx_commit_success:
  assumes "tx_commit L ords (tx, s) = (Inr (), (tx', s'))"
  shows "\<not> committed tx \<and> (\<exists>n. tx' = tx\<lparr>committed := True, tx_offset := Some n\<rparr>)"
  using assms by (auto simp: tx_commit_def Let_def split: if_splits sum.splits prod.splits)

lemma commit_one_success:
  assumes "commit_one L ords (ino, x) j = (Inr (), j')"
  obtains n where "\<not> committed (jt_heap (jtab j) x)"
    and "jt_heap (jtab j') = (jt_heap (jtab j))(x := (jt_heap (jtab j) x)\<lparr>committed := True, tx_offset := Some n\<rparr>)"
    and "jt_map (jtab j') = jt_map (jtab j)" and "jt_next (jtab j') = jt_next (jtab j)"
    and "jqueues j' = (jqueues j)(queue_index ino := jqueues j (queue_index ino) @ [Some x])"
proof -
  obtain r tx s where c: "tx_commit L ords (jt_heap (jtab j) x, meta j) = (r, (tx, s))" by (metis surj_pair)
  with assms have r: "r = Inr ()" by (auto simp: commit_one_def Let_def split: sum.splits)
  from tx_commit_success [OF c [unfolded r]] obtain n where "\<not> committed (jt_heap (jtab j) x)"
    "tx = (jt_heap (jtab j) x)\<lparr>committed := True, tx_offset := Some n\<rparr>"
    by blast
  moreover have "j' = j\<lparr>jtab := (jtab j)\<lparr>jt_heap := (jt_heap (jtab j))(x := tx)\<rparr>, meta := s,
      jqueues := (jqueues j)(queue_index ino := jqueues j (queue_index ino) @ [Some x])\<rparr>"
    using assms c r by (simp add: commit_one_def Let_def mq_issue_def)
  ultimately show thesis using that by simp
qed

lemma checkpoint_one_success:
  assumes "checkpoint_one L ords i j = Some (Inr True, j')" and "jqueues j i = Some x # q"
  shows "jtab j' = jtab j \<and> jqueues j' = (jqueues j)(i := q)"
  using assms by (auto simp: checkpoint_one_def mq_dispatch_def Let_def split: sum.splits prod.splits)

lemma open_invD:
  assumes "open_inv g"
  shows "jtab_ok (jtab (jrn g))"
    and "(ino, x) \<in> set (batch g) \<Longrightarrow> x < jnext g"
    and "(ino, x) \<in> set (batch g) \<Longrightarrow> \<not> committed (heap g x)"
    and "(ino, x) \<in> set (batch g) \<Longrightarrow> s_ino (heap g x) = ino"
    and "(ino, x) \<in> set (batch g) \<Longrightarrow> jmap g u \<noteq> Some x"
    and "distinct (map snd (batch g))"
    and "x < jnext g \<Longrightarrow> \<not> committed (heap g x) \<Longrightarrow>
      jmap g (s_ino (heap g x)) = Some x \<or> (s_ino (heap g x), x) \<in> set (batch g)"
    and "(k, ino, op, Some x) \<in> pend g \<Longrightarrow> x < jnext g"
    and "(k, ino, op, Some x) \<in> pend g \<Longrightarrow> s_ino (heap g x) = ino"
  using assms unfolding open_inv_def by blast+

lemma open_invI:
  assumes "jtab_ok (jtab (jrn g))"
    and "\<And>ino x. (ino, x) \<in> set (batch g) \<Longrightarrow>
      x < jnext g \<and> \<not> committed (heap g x) \<and> s_ino (heap g x) = ino \<and> (\<forall>u. jmap g u \<noteq> Some x)"
    and "distinct (map snd (batch g))"
    and "\<And>x. x < jnext g \<Longrightarrow> \<not> committed (heap g x) \<Longrightarrow>
      jmap g (s_ino (heap g x)) = Some x \<or> (s_ino (heap g x), x) \<in> set (batch g)"
    and "\<And>k ino op x. (k, ino, op, Some x) \<in> pend g \<Longrightarrow> x < jnext g \<and> s_ino (heap g x) = ino"
  shows "open_inv g"
  using assms unfolding open_inv_def by blast

lemma open_inv_init: "open_inv (jsys_init s)"
  by (simp add: open_inv_def jsys_init_def journal_new_def jtab_ok_def jt_init_def)

lemma open_inv_pend:
  assumes "open_inv g" and "\<And>k ino op x. (k, ino, op, Some x) \<in> P \<Longrightarrow> x < jnext g \<and> s_ino (heap g x) = ino"
  shows "open_inv (g\<lparr>pend := P\<rparr>)"
  using assms unfolding open_inv_def by simp

text \<open>A new transaction is fresh for everything that refers to one.\<close>

lemma open_inv_new:
  assumes inv: "open_inv g" and t: "jtab_ok t" and none: "jmap g ino = None"
    and m: "jt_map t = (jmap g)(ino \<mapsto> jnext g)" and h: "jt_heap t = (heap g)(jnext g := transaction_new ino)"
    and n: "jt_next t = Suc (jnext g)"
  shows "open_inv (g\<lparr>jrn := (jrn g)\<lparr>jtab := t\<rparr>\<rparr>)"
proof (rule open_invI)
  let ?g = "g\<lparr>jrn := (jrn g)\<lparr>jtab := t\<rparr>\<rparr>"
  note D = open_invD [OF inv]
  have f: "jmap ?g = (jmap g)(ino \<mapsto> jnext g)" "heap ?g = (heap g)(jnext g := transaction_new ino)"
    "jnext ?g = Suc (jnext g)" "batch ?g = batch g" "pend ?g = pend g" using m h n by simp_all
  show "jtab_ok (jtab (jrn ?g))" using t by simp
  show "x < jnext ?g \<and> \<not> committed (heap ?g x) \<and> s_ino (heap ?g x) = u \<and> (\<forall>v. jmap ?g v \<noteq> Some x)"
    if "(u, x) \<in> set (batch ?g)" for u x
    using D(2,3,4,5) [of u x] that unfolding f by auto
  show "distinct (map snd (batch ?g))" using D(6) by simp
  show "jmap ?g (s_ino (heap ?g x)) = Some x \<or> (s_ino (heap ?g x), x) \<in> set (batch ?g)"
    if x: "x < jnext ?g" "\<not> committed (heap ?g x)" for x
  proof (cases "x = jnext g")
    case False
    then have "x < jnext g" "\<not> committed (heap g x)" using x unfolding f by simp_all
    then consider "jmap g (s_ino (heap g x)) = Some x" | "(s_ino (heap g x), x) \<in> set (batch g)" using D(7) by blast
    then show ?thesis
    proof cases
      case 1
      then have "s_ino (heap g x) \<noteq> ino" using none by auto
      with 1 False show ?thesis unfolding f by simp
    qed (use False in \<open>simp add: h\<close>)
  qed (simp add: m h)
  show "x < jnext ?g \<and> s_ino (heap ?g x) = u" if "(k, u, op, Some x) \<in> pend ?g" for k u op x
    using D(8,9) [of k u op x] that unfolding f by auto
qed

lemma open_inv_fetch:
  assumes inv: "open_inv g" and e: "jt_get_entry ino (jtab (jrn g)) = (x, t)"
  shows "open_inv (g\<lparr>jrn := (jrn g)\<lparr>jtab := t\<rparr>, pend := insert (k, ino, op, Some x) (pend g - {(k, ino, op, None)})\<rparr>)"
proof -
  let ?g = "g\<lparr>jrn := (jrn g)\<lparr>jtab := t\<rparr>\<rparr>"
  note ok = open_invD(1) [OF inv]
  note t = jt_get_entry_ok [OF e ok]
  have g1: "open_inv ?g"
    using e ok
  proof (cases rule: jt_get_entryE)
    case 1
    with inv show ?thesis by (simp add: open_inv_def)
  next
    case 2
    with open_inv_new [OF inv t(1)] show ?thesis by simp
  qed
  have "open_inv (?g\<lparr>pend := insert (k, ino, op, Some x) (pend g - {(k, ino, op, None)})\<rparr>)"
    using jtab_okD [OF t] open_invD(8,9) [OF g1] by (intro open_inv_pend [OF g1]) auto
  then show ?thesis by simp
qed

lemma open_inv_exec:
  assumes inv: "open_inv g" and p: "(k, ino, op, Some x) \<in> pend g" and e: "tx_exec raw op (heap g x) = (r, tx)"
    and P: "P \<subseteq> {(k, ino, op, None)}"
  shows "open_inv (g\<lparr>jrn := (jrn g)\<lparr>jtab := (jtab (jrn g))\<lparr>jt_heap := (heap g)(x := tx)\<rparr>\<rparr>,
    pend := P \<union> (pend g - {(k, ino, op, Some x)})\<rparr>)" (is "open_inv ?g")
proof (rule open_invI)
  note D = open_invD [OF inv]
  have f: "jmap ?g = jmap g" "heap ?g = (heap g)(x := tx)" "jnext ?g = jnext g" "batch ?g = batch g" by simp_all
  have h: "committed (heap ?g y) = committed (heap g y)" "s_ino (heap ?g y) = s_ino (heap g y)" for y
    using tx_exec_keeps [OF e] by (simp_all add: f)
  show "jtab_ok (jtab (jrn ?g))" using jtab_ok_heap [OF D(1)] tx_exec_keeps [OF e] by simp
  show "y < jnext ?g \<and> \<not> committed (heap ?g y) \<and> s_ino (heap ?g y) = u \<and> (\<forall>v. jmap ?g v \<noteq> Some y)"
    if "(u, y) \<in> set (batch ?g)" for u y
    using D(2,3,4,5) [of u y] that unfolding h f(1,3,4) by auto
  show "distinct (map snd (batch ?g))" using D(6) by simp
  show "jmap ?g (s_ino (heap ?g y)) = Some y \<or> (s_ino (heap ?g y), y) \<in> set (batch ?g)"
    if "y < jnext ?g" "\<not> committed (heap ?g y)" for y
    using D(7) [of y] that unfolding h f(1,3,4) by blast
  show "y < jnext ?g \<and> s_ino (heap ?g y) = u" if q: "(k', u, op', Some y) \<in> pend ?g" for k' u op' y
  proof -
    have "(k', u, op', Some y) \<in> pend g" using q P by auto
    with D(8,9) show ?thesis unfolding h f(3) by blast
  qed
qed

lemma open_inv_commit:
  assumes inv: "open_inv g" and b: "batch g = (ino, x) # ps" and c: "commit_one L ords (ino, x) (jrn g) = (Inr (), j)"
  shows "open_inv (g\<lparr>jrn := j, batch := ps, clog := cl\<rparr>)" (is "open_inv ?g")
proof (rule open_invI)
  note D = open_invD [OF inv]
  obtain n where j: "jt_heap (jtab j) = (heap g)(x := (heap g x)\<lparr>committed := True, tx_offset := Some n\<rparr>)"
    "jt_map (jtab j) = jmap g" "jt_next (jtab j) = jnext g"
    using commit_one_success [OF c] by metis
  have f: "jmap ?g = jmap g" "heap ?g = (heap g)(x := (heap g x)\<lparr>committed := True, tx_offset := Some n\<rparr>)"
    "jnext ?g = jnext g" "batch ?g = ps" using j by simp_all
  have s: "s_ino (heap ?g y) = s_ino (heap g y)" for y unfolding f by simp
  have x: "jmap g u \<noteq> Some x" for u using D(5) [of ino x] b by simp
  show "jtab_ok (jtab (jrn ?g))"
    using D(1) x j by (auto simp: jtab_ok_def)
  show "y < jnext ?g \<and> \<not> committed (heap ?g y) \<and> s_ino (heap ?g y) = u \<and> (\<forall>v. jmap ?g v \<noteq> Some y)"
    if "(u, y) \<in> set (batch ?g)" for u y
  proof -
    have "(u, y) \<in> set (batch g)" "y \<noteq> x" using that b D(6) by (auto simp: image_iff)
    with D(2,3,4,5) show ?thesis unfolding f by auto
  qed
  show "distinct (map snd (batch ?g))" using D(6) b by simp
  show "jmap ?g (s_ino (heap ?g y)) = Some y \<or> (s_ino (heap ?g y), y) \<in> set (batch ?g)"
    if "y < jnext ?g" "\<not> committed (heap ?g y)" for y
  proof -
    have "y < jnext g" "\<not> committed (heap g y)" "y \<noteq> x" using that unfolding f by (auto split: if_splits)
    with D(7) [of y] b show ?thesis unfolding s f(1,4) by auto
  qed
  show "y < jnext ?g \<and> s_ino (heap ?g y) = u" if "(k, u, op, Some y) \<in> pend ?g" for k u op y
    using D(8,9) [of k u op y] that unfolding s f(3) by simp
qed

lemma open_inv_checkpoint:
  assumes "open_inv g" and "jtab j = jtab (jrn g)"
  shows "open_inv (g\<lparr>jrn := j, fin := fs\<rparr>)"
  using assms by (simp add: open_inv_def)

context iteration
begin

lemma distinct_values:
  assumes fin: "finite (dom m)" and inj: "\<And>k k' v. m k = Some v \<Longrightarrow> m k' = Some v \<Longrightarrow> k = k'"
  shows "distinct (map snd (it m))"
proof -
  have "inj_on snd (set (it m))"
    using iter_mem [OF fin] inj by (fastforce simp: inj_on_def)
  then show ?thesis using iter_distinct [OF fin] by (simp add: distinct_map)
qed

end

lemma open_inv_replace:
  assumes "iteration it" and inv: "open_inv g" and b: "batch g = []"
    and r: "jt_replace_map (jtab (jrn g)) = (m, t)"
  shows "open_inv (g\<lparr>jrn := (jrn g)\<lparr>jtab := t\<rparr>, batch := it m\<rparr>)" (is "open_inv ?g")
proof (rule open_invI)
  note D = open_invD [OF inv]
  have m: "m = jmap g" and t: "t = (jtab (jrn g))\<lparr>jt_map := Map.empty\<rparr>"
    using r by (simp_all add: jt_replace_map_def)
  have fin: "finite (dom m)" using D(1) m by (simp add: jtab_ok_def)
  have mem: "(u, y) \<in> set (it m) \<longleftrightarrow> jmap g u = Some y" for u y
    using iteration.iter_mem [OF assms(1) fin] m by simp
  have f: "jmap ?g = Map.empty" "heap ?g = heap g" "jnext ?g = jnext g" "batch ?g = it m" "pend ?g = pend g"
    using t by simp_all
  show "jtab_ok (jtab (jrn ?g))" using t by (simp add: jtab_ok_def)
  show "y < jnext ?g \<and> \<not> committed (heap ?g y) \<and> s_ino (heap ?g y) = u \<and> (\<forall>v. jmap ?g v \<noteq> Some y)"
    if "(u, y) \<in> set (batch ?g)" for u y
    using jtab_okD [OF D(1)] mem that unfolding f by simp
  show "distinct (map snd (batch ?g))"
    using iteration.distinct_values [OF assms(1) fin] jtab_ok_inj [OF D(1)] m unfolding f by blast
  show "jmap ?g (s_ino (heap ?g y)) = Some y \<or> (s_ino (heap ?g y), y) \<in> set (batch ?g)"
    if "y < jnext ?g" "\<not> committed (heap ?g y)" for y
    using D(7) [of y] that mem b unfolding f by simp
  show "y < jnext ?g \<and> s_ino (heap ?g y) = u" if "(k, u, op, Some y) \<in> pend ?g" for k u op y
    using D(8,9) [of k u op y] that unfolding f by simp
qed

lemma open_inv_step:
  assumes "iteration it" and "jstep L ords it raw g g'" and "open_inv g"
  shows "open_inv g'"
  using assms(2,3)
proof (cases rule: jstep.cases)
  case (begin_op k ino op)
  have "open_inv (g\<lparr>pend := insert (k, ino, op, None) (pend g)\<rparr>)"
    using open_invD(8,9) [OF assms(3)] by (intro open_inv_pend [OF assms(3)]) auto
  with begin_op show ?thesis by simp
next
  case (fetch k ino op x t)
  then show ?thesis using open_inv_fetch [OF assms(3)] by simp
next
  case (exec k ino op x r tx P)
  then show ?thesis using open_inv_exec [OF assms(3) exec(2,3), of P] by simp
next
  case (replace m t)
  then show ?thesis using open_inv_replace [OF assms(1,3)] by simp
next
  case (commit p ps j)
  then show ?thesis using open_inv_commit [OF assms(3)] by (cases p) simp
next
  case (checkpoint i x q j)
  then show ?thesis using open_inv_checkpoint [OF assms(3)] checkpoint_one_success by metis
qed

text \<open>A committed transaction is never changed again.\<close>

lemma jstep_frozen:
  assumes st: "jstep L ords it raw g g'" and inv: "open_inv g" and x: "x < jnext g" "committed (heap g x)"
  shows "heap g' x = heap g x \<and> jnext g \<le> jnext g'"
  using st
proof (cases rule: jstep.cases)
  case (fetch k ino op y t)
  from fetch(3) open_invD(1) [OF inv] show ?thesis
    using fetch(1) x by (cases rule: jt_get_entryE) simp_all
next
  case (exec k ino op y r tx P)
  then show ?thesis using x tx_exec_committed [of "heap g x" raw op] by auto
next
  case (replace m t)
  then show ?thesis by (auto simp: jt_replace_map_def)
next
  case (commit p ps j)
  obtain ino y where p: "p = (ino, y)" by fastforce
  obtain n where "jt_heap (jtab j) = (heap g)(y := (heap g y)\<lparr>committed := True, tx_offset := Some n\<rparr>)"
    "jt_next (jtab j) = jnext g" "\<not> committed (heap g y)"
    using commit_one_success [OF commit(3) [unfolded p]] by metis
  with commit(1) x show ?thesis by auto
next
  case (checkpoint i y q j)
  then show ?thesis using checkpoint_one_success [OF checkpoint(4,3)] by simp
qed simp_all

lemma queue_inv_init: "queue_inv (jsys_init s)"
  by (simp add: queue_inv_def jsys_init_def journal_new_def List.map_filter_def)

lemma live_queue: "x \<in> set (List.map_filter id q) \<longleftrightarrow> Some x \<in> set q"
  by (force simp: List.map_filter_def)

lemma queue_inv_same:
  assumes inv: "queue_inv g" and q: "jqueues (jrn g') = jqueues (jrn g)" "clog g' = clog g" "fin g' = fin g"
    and h: "\<And>x. x < jnext g \<Longrightarrow> committed (heap g x) \<Longrightarrow> heap g' x = heap g x \<and> jnext g \<le> jnext g'"
  shows "queue_inv g'"
proof -
  have live: "x < jnext g \<and> committed (heap g x)" if "Some x \<in> set (jqueues (jrn g) i)" for i x
    using inv that unfolding queue_inv_def by blast
  have "map (\<lambda>x. (s_ino (heap g' x), x)) (List.map_filter id (jqueues (jrn g) i)) =
      map (\<lambda>x. (s_ino (heap g x), x)) (List.map_filter id (jqueues (jrn g) i))" for i
    using live h by (intro map_cong) (auto simp: live_queue)
  moreover have "x < jnext g' \<and> committed (heap g' x)" if "Some x \<in> set (jqueues (jrn g) i)" for i x
    using live [OF that] h [of x] by auto
  ultimately show ?thesis using inv unfolding queue_inv_def q by auto
qed

lemma map_filter_append: "List.map_filter f (xs @ ys) = List.map_filter f xs @ List.map_filter f ys"
  by (simp add: List.map_filter_def)

lemma queue_inv_commit:
  assumes inv: "queue_inv g" and op: "open_inv g" and b: "batch g = (ino, x) # ps"
    and c: "commit_one L ords (ino, x) (jrn g) = (Inr (), j)"
  shows "queue_inv (g\<lparr>jrn := j, batch := ps, clog := clog g @ [(ino, x)]\<rparr>)" (is "queue_inv ?g")
proof -
  let ?i = "queue_index ino"
  obtain n where j: "jt_heap (jtab j) = (heap g)(x := (heap g x)\<lparr>committed := True, tx_offset := Some n\<rparr>)"
    "jt_next (jtab j) = jnext g" "jqueues j = (jqueues (jrn g))(?i := jqueues (jrn g) ?i @ [Some x])"
    using commit_one_success [OF c] by metis
  have s: "s_ino (heap ?g y) = s_ino (heap g y)" for y using j(1) by simp
  have x: "x < jnext g" "s_ino (heap g x) = ino" using open_invD(2,4) [OF op, of ino x] b by simp_all
  have live: "y < jnext g \<and> committed (heap g y)" if "Some y \<in> set (jqueues (jrn g) i)" for i y
    using inv that unfolding queue_inv_def by blast
  have hist: "filter (\<lambda>(u, x). queue_index u = i) (clog g) = filter (\<lambda>(u, x). queue_index u = i) (fin g) @
      map (\<lambda>x. (s_ino (heap g x), x)) (List.map_filter id (jqueues (jrn g) i))" for i
    using inv unfolding queue_inv_def by blast
  have "y < jnext ?g \<and> committed (heap ?g y)" if "Some y \<in> set (jqueues (jrn ?g) i)" for i y
    using that live x j by (auto split: if_splits)
  moreover have "filter (\<lambda>(u, x). queue_index u = i) (clog ?g) = filter (\<lambda>(u, x). queue_index u = i) (fin ?g) @
      map (\<lambda>x. (s_ino (heap ?g x), x)) (List.map_filter id (jqueues (jrn ?g) i))" for i
    unfolding s using hist [of i] x j(3) by (auto simp: map_filter_append List.map_filter_def)
  ultimately show ?thesis unfolding queue_inv_def by blast
qed

lemma queue_inv_checkpoint:
  assumes inv: "queue_inv g" and q: "jqueues (jrn g) i = Some x # q"
    and c: "checkpoint_one L ords i (jrn g) = Some (Inr True, j)"
  shows "queue_inv (g\<lparr>jrn := j, fin := fin g @ [(s_ino (heap g x), x)]\<rparr>)" (is "queue_inv ?g")
proof -
  have j: "jtab j = jtab (jrn g)" "jqueues j = (jqueues (jrn g))(i := q)"
    using checkpoint_one_success [OF c q] by simp_all
  have live: "y < jnext g \<and> committed (heap g y)" if "Some y \<in> set (jqueues (jrn g) i')" for i' y
    using inv that unfolding queue_inv_def by blast
  have hist: "filter (\<lambda>(u, x). queue_index u = i') (clog g) = filter (\<lambda>(u, x). queue_index u = i') (fin g) @
      map (\<lambda>x. (s_ino (heap g x), x)) (List.map_filter id (jqueues (jrn g) i'))" for i'
    using inv unfolding queue_inv_def by blast
  have "(s_ino (heap g x), x) \<in> set (filter (\<lambda>(u, x). queue_index u = i) (clog g))"
    unfolding hist [of i] using q by (simp add: List.map_filter_simps)
  then have xi: "queue_index (s_ino (heap g x)) = i" by simp
  have "y < jnext ?g \<and> committed (heap ?g y)" if "Some y \<in> set (jqueues (jrn ?g) i')" for i' y
    using that live [of y i'] q j by (auto split: if_splits)
  moreover have "filter (\<lambda>(u, x). queue_index u = i') (clog ?g) = filter (\<lambda>(u, x). queue_index u = i') (fin ?g) @
      map (\<lambda>x. (s_ino (heap ?g x), x)) (List.map_filter id (jqueues (jrn ?g) i'))" for i'
    using hist [of i'] j q xi by (auto simp: List.map_filter_simps)
  ultimately show ?thesis unfolding queue_inv_def by blast
qed

lemma queue_inv_step:
  assumes st: "jstep L ords it raw g g'" and op: "open_inv g" and inv: "queue_inv g"
  shows "queue_inv g'"
proof -
  note same = queue_inv_same [OF inv _ _ _ jstep_frozen [OF st op]]
  from st show ?thesis
  proof (cases rule: jstep.cases)
    case (begin_op k ino op)
    then show ?thesis by (intro same) simp_all
  next
    case (fetch k ino op x t)
    then show ?thesis by (intro same) simp_all
  next
    case (exec k ino op x r tx P)
    then show ?thesis by (intro same) simp_all
  next
    case (replace m t)
    then show ?thesis by (intro same) simp_all
  next
    case (commit p ps j)
    then show ?thesis using queue_inv_commit [OF inv op] by (cases p) simp
  next
    case (checkpoint i x q j)
    then show ?thesis using queue_inv_checkpoint [OF inv] by simp
  qed
qed

text \<open>Every committed transaction is in the history of commits.\<close>

definition log_inv :: "'s jsys \<Rightarrow> bool" where
  "log_inv g \<longleftrightarrow> (\<forall>x < jnext g. committed (heap g x) \<longrightarrow> (s_ino (heap g x), x) \<in> set (clog g))"

text \<open>A transaction that a step finds open, or makes, is open after it, unless the step commits it.\<close>

lemma jstep_open:
  assumes st: "jstep L ords it raw g g'" and inv: "open_inv g" and x: "x < jnext g'" "\<not> (x < jnext g \<and> committed (heap g x))"
  shows "committed (heap g' x) \<longrightarrow> (s_ino (heap g' x), x) \<in> set (clog g')"
  using st
proof (cases rule: jstep.cases)
  case (fetch k ino op y t)
  from fetch(3) open_invD(1) [OF inv] show ?thesis
    using fetch(1) x by (cases rule: jt_get_entryE) (auto simp: transaction_new_def)
next
  case (exec k ino op y r tx P)
  have "committed (heap g' x) = committed (heap g x)"
    using exec(1) tx_exec_keeps [OF exec(3)] by simp
  then show ?thesis using exec(1) x by simp
next
  case (replace m t)
  then show ?thesis using x by (auto simp: jt_replace_map_def)
next
  case (commit p ps j)
  obtain ino y where p: "p = (ino, y)" by fastforce
  obtain n where j: "jt_heap (jtab j) = (heap g)(y := (heap g y)\<lparr>committed := True, tx_offset := Some n\<rparr>)"
    "jt_next (jtab j) = jnext g"
    using commit_one_success [OF commit(3) [unfolded p]] by metis
  have "s_ino (heap g y) = ino" using open_invD(4) [OF inv, of ino y] commit(2) p by simp
  then show ?thesis using commit(1) p x j by auto
next
  case (checkpoint i y q j)
  then show ?thesis using checkpoint_one_success [OF checkpoint(4,3)] x by simp
qed (use x in simp_all)

lemma jstep_clog: "jstep L ords it raw g g' \<Longrightarrow> set (clog g) \<subseteq> set (clog g')"
  by (cases rule: jstep.cases) auto

lemma log_inv_step:
  assumes st: "jstep L ords it raw g g'" and op: "open_inv g" and inv: "log_inv g"
  shows "log_inv g'"
  unfolding log_inv_def
proof (intro allI impI)
  fix x
  assume x: "x < jnext g'" "committed (heap g' x)"
  show "(s_ino (heap g' x), x) \<in> set (clog g')"
  proof (cases "x < jnext g \<and> committed (heap g x)")
    case True
    then have "heap g' x = heap g x" "(s_ino (heap g x), x) \<in> set (clog g)"
      using jstep_frozen [OF st op] inv by (auto simp: log_inv_def)
    then show ?thesis using jstep_clog [OF st] by auto
  next
    case False
    then show ?thesis using jstep_open [OF st op x(1)] x(2) by blast
  qed
qed

lemma jreach_inv:
  assumes "iteration it" and "jreach L ords it raw g"
  shows "open_inv g \<and> queue_inv g \<and> log_inv g"
  using assms(2)
proof (induction rule: jreach.induct)
  case (start s)
  then show ?case by (simp add: open_inv_init queue_inv_init) (simp add: log_inv_def jsys_init_def journal_new_def jt_init_def)
next
  case (step g g')
  then show ?case using open_inv_step [OF assms(1)] queue_inv_step log_inv_step by blast
qed

lemma jreach_committed:
  assumes "iteration it" and "jreach L ords it raw g" and "x < jnext g" and "committed (heap g x)"
  shows "Some x \<in> set (jqueues (jrn g) (queue_index (s_ino (heap g x)))) \<or> (s_ino (heap g x), x) \<in> set (fin g)"
proof -
  let ?u = "s_ino (heap g x)"
  have inv: "queue_inv g" "log_inv g" using jreach_inv [OF assms(1,2)] by blast+
  have "(?u, x) \<in> set (filter (\<lambda>(u, y). queue_index u = queue_index ?u) (clog g))"
    using inv(2) assms(3,4) by (simp add: log_inv_def)
  also have "filter (\<lambda>(u, y). queue_index u = queue_index ?u) (clog g) =
      filter (\<lambda>(u, y). queue_index u = queue_index ?u) (fin g) @
      map (\<lambda>y. (s_ino (heap g y), y)) (List.map_filter id (jqueues (jrn g) (queue_index ?u)))"
    using inv(1) unfolding queue_inv_def by blast
  finally show ?thesis by (auto simp: live_queue)
qed

section \<open>A concrete run\<close>

text \<open>A removal of the directory is recorded in a new transaction, and the commit thread commits it.\<close>

lemma journal_example:
  "\<exists>g. jreach mem_librados mem_ords sorted_iter null_inode g \<and> clog g = [(nil_uuid, 0)] \<and>
    0 < jnext g \<and> committed (heap g 0) \<and> status (heap g 0) = S_DELETED \<and> s_ino (heap g 0) = nil_uuid"
proof -
  let ?z = "Map.empty :: string \<rightharpoonup> byte list"
  let ?R = "jreach mem_librados mem_ords sorted_iter null_inode"
  let ?op = "(0 :: nat, nil_uuid, Rmself nil_uuid, None :: nat option)"
  let ?tx = "(transaction_new nil_uuid)\<lparr>status := S_DELETED\<rparr>"
  let ?a = "(jsys_init ?z)\<lparr>pend := insert ?op (pend (jsys_init ?z))\<rparr>"
  let ?t = "jt_init\<lparr>jt_map := [nil_uuid \<mapsto> 0], jt_heap := (jt_heap jt_init)(0 := transaction_new nil_uuid), jt_next := Suc 0\<rparr>"
  let ?b = "?a\<lparr>jrn := (jrn ?a)\<lparr>jtab := ?t\<rparr>, pend := insert (0, nil_uuid, Rmself nil_uuid, Some 0) (pend ?a - {?op})\<rparr>"
  let ?b' = "?b\<lparr>jrn := (jrn ?b)\<lparr>jtab := (jtab (jrn ?b))\<lparr>jt_heap := (heap ?b)(0 := ?tx)\<rparr>\<rparr>,
      pend := {} \<union> (pend ?b - {(0, nil_uuid, Rmself nil_uuid, Some 0)})\<rparr>"
  let ?c = "?b'\<lparr>jrn := (jrn ?b')\<lparr>jtab := (jtab (jrn ?b'))\<lparr>jt_map := Map.empty\<rparr>\<rparr>, batch := sorted_iter [nil_uuid \<mapsto> 0]\<rparr>"
  have a: "?R ?a" by (rule jreach.step [OF jreach.start begin_op])
  have "jt_get_entry nil_uuid (jtab (jrn ?a)) = (0, ?t)"
    by (simp add: jsys_init_def journal_new_def jt_get_entry_def jt_init_def)
  then have b: "?R ?b" by (intro jreach.step [OF a fetch]) simp_all
  have e: "tx_exec null_inode (Rmself nil_uuid) (heap ?b 0) = (Inr 0, ?tx)"
    by (simp add: tx_rmself_def transaction_new_def)
  have b': "?R ?b'" by (rule jreach.step [OF b exec [OF _ e]]) simp_all
  have c: "?R ?c"
    by (rule jreach.step [OF b' replace]) (simp_all add: jsys_init_def jt_replace_map_def)
  obtain raw where "tx_serialize mem_ords ?tx = Inr raw" "length raw \<le> MAX_OFFSET"
    by (simp add: tx_serialize_def transaction_new_def List.map_filter_def Let_def)
  then obtain tx s where tx: "tx_commit mem_librados mem_ords (?tx, ?z) = (Inr (), (tx, s))"
    using mem_tx.tx_commit_ok [OF mem_stores_empty, of raw ?tx] by (auto simp: transaction_new_def)
  then obtain j where j: "commit_one mem_librados mem_ords (nil_uuid, 0) (jrn ?c) = (Inr (), j)"
    by (simp add: commit_one_def jsys_init_def journal_new_def Let_def)
  let ?d = "?c\<lparr>jrn := j, batch := [], clog := clog ?c @ [(nil_uuid, 0)]\<rparr>"
  have "?R ?d" by (rule jreach.step [OF c commit [OF _ j]]) simp
  moreover obtain n where
    "jt_heap (jtab j) = (heap ?c)(0 := (heap ?c 0)\<lparr>committed := True, tx_offset := Some n\<rparr>)"
    "jt_next (jtab j) = jnext ?c"
    by (rule commit_one_success [OF j])
  then have "0 < jnext ?d" "committed (heap ?d 0)" "status (heap ?d 0) = S_DELETED" "s_ino (heap ?d 0) = nil_uuid"
    by (simp_all add: transaction_new_def)
  ultimately show ?thesis by (intro exI [of _ ?d]) (simp add: jsys_init_def)
qed

section \<open>Properties\<close>

text \<open>
  a journal operation on a table of open transactions returns: it records the operation in the open
  transaction of the directory (a new one if there is none) or raises the exception of that
  transaction, keeps the table a table of open transactions, and touches neither queues nor pool.
\<close>

theorem journal_op_returns:
  assumes "jtab_ok (jtab j)"
  shows "\<exists>r x j'. journal_op raw ino op j = Some (r, j') \<and> jtab_ok (jtab j') \<and>
    jt_map (jtab j') ino = Some x \<and> jqueues j' = jqueues j \<and> meta j' = meta j \<and>
    (let tx = (case jt_map (jtab j) ino of Some y \<Rightarrow> jt_heap (jtab j) y | None \<Rightarrow> transaction_new ino);
         tx' = jt_heap (jtab j') x
     in r = Inr () \<and> tx_exec raw op tx = (Inr 0, tx') \<or>
        (\<exists>msg. r = Inl (Logic_error msg) \<and> tx_exec raw op tx = (Inl (Logic_error msg), tx')))"
  by (rule journal_op_ok [OF assms])

theorem journal_op_returns_witness:
  "\<exists>r j'. journal_op null_inode nil_uuid (Chreg null_inode) (journal_new (0 :: nat)) = Some (r, j') \<and> jtab_ok (jtab j')"
proof -
  have "jtab_ok (jtab (journal_new (0 :: nat)))" by (simp add: journal_new_def)
  from journal_op_returns [OF this, of null_inode nil_uuid "Chreg null_inode"] show ?thesis by auto
qed

text \<open>
  C25: however operation threads, the commit thread and the checkpoint threads interleave, the
  transactions of one directory are checkpointed in the order in which they were committed, none is
  skipped, and those not yet checkpointed wait in the queue of that directory in the same order.
\<close>

theorem journal_checkpoint_order:
  assumes "iteration it" and "jreach L ords it raw g"
  shows "filter (\<lambda>(u, x). u = ino) (clog g) = filter (\<lambda>(u, x). u = ino) (fin g) @
    map (\<lambda>x. (ino, x)) (filter (\<lambda>x. s_ino (heap g x) = ino)
      (List.map_filter id (jqueues (jrn g) (queue_index ino))))"
proof -
  let ?i = "queue_index ino"
  have sub: "filter (\<lambda>(u, x). u = ino) xs = filter (\<lambda>(u, x). u = ino) (filter (\<lambda>(u, x). queue_index u = ?i) xs)"
    for xs :: "(uuid \<times> nat) list" by (induction xs) auto
  have hist: "filter (\<lambda>(u, x). queue_index u = ?i) (clog g) = filter (\<lambda>(u, x). queue_index u = ?i) (fin g) @
      map (\<lambda>x. (s_ino (heap g x), x)) (List.map_filter id (jqueues (jrn g) ?i))"
    using jreach_inv [OF assms] unfolding queue_inv_def by blast
  have q: "filter (\<lambda>(u, x). u = ino) (map (\<lambda>x. (s_ino (heap g x), x)) xs) =
      map (\<lambda>x. (ino, x)) (filter (\<lambda>x. s_ino (heap g x) = ino) xs)" for xs
    by (induction xs) auto
  show ?thesis
    by (subst sub, subst hist, simp only: filter_append q, subst sub [of "fin g", symmetric], rule refl)
qed

theorem journal_checkpoint_order_witness:
  "\<exists>g. jreach mem_librados mem_ords sorted_iter null_inode g \<and> clog g = [(nil_uuid, 0)] \<and>
    filter (\<lambda>(u, x). u = nil_uuid) (clog g) = filter (\<lambda>(u, x). u = nil_uuid) (fin g) @
      map (\<lambda>x. (nil_uuid, x)) (filter (\<lambda>x. s_ino (heap g x) = nil_uuid)
        (List.map_filter id (jqueues (jrn g) (queue_index nil_uuid))))"
proof -
  obtain g where g: "jreach mem_librados mem_ords sorted_iter null_inode g" "clog g = [(nil_uuid, 0)]"
    using journal_example by blast
  with journal_checkpoint_order [OF std_map.iteration_axioms g(1), of nil_uuid] show ?thesis by blast
qed

text \<open>
  C13: no transaction is lost, whatever the threads do.  One that is still open is in the table or in the
  batch that the commit thread is working on; one that is committed waits in the queue of its directory or
  has been checkpointed, and no later step changes it.  A thread that fetched a transaction before its
  commit is refused and tries again, so an operation is only ever recorded in an open one.
\<close>

theorem journal_no_lost_operation:
  assumes "iteration it" and "jreach L ords it raw g"
  shows "(\<forall>x < jnext g. let u = s_ino (heap g x) in
      if committed (heap g x)
      then (Some x \<in> set (jqueues (jrn g) (queue_index u)) \<or> (u, x) \<in> set (fin g)) \<and>
        (\<forall>g'. jstep L ords it raw g g' \<longrightarrow> heap g' x = heap g x)
      else jmap g u = Some x \<or> (u, x) \<in> set (batch g)) \<and>
    (\<forall>k u op x. (k, u, op, Some x) \<in> pend g \<longrightarrow> x < jnext g \<and> s_ino (heap g x) = u \<and>
      (committed (heap g x) \<longrightarrow> tx_exec raw op (heap g x) = (Inr (-1), heap g x)))"
proof -
  have inv: "open_inv g" using jreach_inv [OF assms] by blast
  show ?thesis
    using jreach_committed [OF assms] jstep_frozen [OF _ inv] open_invD(7-9) [OF inv] tx_exec_committed
    by (auto simp: Let_def)
qed

theorem journal_no_lost_operation_witness:
  "\<exists>g. jreach mem_librados mem_ords sorted_iter null_inode g \<and> clog g = [(nil_uuid, 0)] \<and> status (heap g 0) = S_DELETED \<and>
    (Some 0 \<in> set (jqueues (jrn g) (queue_index nil_uuid)) \<or> (nil_uuid, 0) \<in> set (fin g))"
proof -
  obtain g where g: "jreach mem_librados mem_ords sorted_iter null_inode g" "clog g = [(nil_uuid, 0)]"
    "0 < jnext g" "committed (heap g 0)" "status (heap g 0) = S_DELETED" "s_ino (heap g 0) = nil_uuid"
    using journal_example by blast
  with journal_no_lost_operation [OF std_map.iteration_axioms g(1)] show ?thesis by (metis (no_types))
qed

text \<open>
  once committed, the contents of a transaction are never changed by any thread, so what is
  checkpointed is what was written to the journal.
\<close>

theorem journal_committed_frozen:
  assumes "iteration it" and "jreach L ords it raw g" and "jstep L ords it raw g g'"
    and "x < jnext g" and "committed (heap g x)"
  shows "heap g' x = heap g x"
  using jstep_frozen [OF assms(3) _ assms(4,5)] jreach_inv [OF assms(1,2)] by blast

theorem journal_committed_frozen_witness:
  "\<exists>g g'. jreach mem_librados mem_ords sorted_iter null_inode g \<and> jstep mem_librados mem_ords sorted_iter null_inode g g' \<and>
    committed (heap g 0) \<and> heap g' 0 = heap g 0"
proof -
  obtain g where g: "jreach mem_librados mem_ords sorted_iter null_inode g" "0 < jnext g" "committed (heap g 0)"
    using journal_example by blast
  have st: "jstep mem_librados mem_ords sorted_iter null_inode g (g\<lparr>pend := insert (0, nil_uuid, Chreg null_inode, None) (pend g)\<rparr>)"
    by (rule begin_op)
  from journal_committed_frozen [OF std_map.iteration_axioms g(1) st g(2,3)] g st show ?thesis by blast
qed

end
