(* ===== verification/Lease.thy ===== *)
theory Lease
  imports Uuid
begin

text \<open>
  Leases on directories: the manager's table (\<^verbatim>\<open>manager/lease\<close>), the client's cache of it
  (\<^verbatim>\<open>client/lease\<close>) and the protocol between them.  Times are nanoseconds since the epoch; every
  reading of the clock is an argument.  The manager's table is keyed by the printed inode number;
  the printer \<open>ts\<close> is Boost's.  \<open>lease_step\<close> interleaves the critical sections of concurrent requests,
  with messages in flight, on one clock that only moves forward.
\<close>

section \<open>The manager's table\<close>

definition LEASE_PERIOD_MS :: int where
  "LEASE_PERIOD_MS = 200000000"

definition lease_period :: int where
  "lease_period = LEASE_PERIOD_MS * 1000000"

record lease_entry =
  due :: int
  addr :: string

type_synonym lease_table = "string \<rightharpoonup> lease_entry"

definition lease_entry_new :: "int \<Rightarrow> string \<Rightarrow> lease_entry" where
  "lease_entry_new now remote_addr = \<lparr>due = now + lease_period, addr = remote_addr\<rparr>"

definition get_info :: "lease_entry \<Rightarrow> int \<times> string" where
  "get_info e = (due e, addr e)"

text \<open>
  \<^verbatim>\<open>cas\<close> reads the clock twice.  The result is the returned flag, the new values of
  \<^verbatim>\<open>latest_due\<close> and \<^verbatim>\<open>remote_addr\<close>, and the entry.
\<close>

definition cas :: "int \<Rightarrow> int \<Rightarrow> string \<Rightarrow> lease_entry \<Rightarrow> bool \<times> int \<times> string \<times> lease_entry" where
  "cas now1 now2 remote_addr e =
     (if due e \<le> now1 then
        (True, now2 + lease_period, remote_addr, \<lparr>due = now2 + lease_period, addr = remote_addr\<rparr>)
      else if addr e = remote_addr then (True, due e, remote_addr, e)
      else (False, due e, addr e, e))"

text \<open>
  The three critical sections of \<^verbatim>\<open>lease_table::acquire\<close>: the lookup under the shared lock, the
  attempt on an entry that was found (entries are never removed, so it still exists; the other case
  of the definition is excluded by the invariant below), and the insertion under the exclusive lock, which may find
  that another thread was faster.
\<close>

definition acquire_find :: "(uuid \<Rightarrow> string) \<Rightarrow> uuid \<Rightarrow> lease_table \<Rightarrow> bool" where
  "acquire_find ts ino tbl \<longleftrightarrow> tbl (ts ino) \<noteq> None"

definition acquire_found ::
  "(uuid \<Rightarrow> string) \<Rightarrow> int \<Rightarrow> int \<Rightarrow> uuid \<Rightarrow> string \<Rightarrow> lease_table \<Rightarrow> int \<times> int \<times> string \<times> lease_table" where
  "acquire_found ts now1 now2 ino remote_addr tbl =
     (case tbl (ts ino) of
        None \<Rightarrow> (-1, 0, remote_addr, tbl)
      | Some e \<Rightarrow>
          (case cas now1 now2 remote_addr e of (ok, latest_due, remote_addr', e') \<Rightarrow>
             (if ok then 0 else -1, latest_due, remote_addr', tbl(ts ino \<mapsto> e'))))"

definition acquire_insert ::
  "(uuid \<Rightarrow> string) \<Rightarrow> int \<Rightarrow> uuid \<Rightarrow> string \<Rightarrow> lease_table \<Rightarrow> int \<times> int \<times> string \<times> lease_table" where
  "acquire_insert ts now ino remote_addr tbl =
     (case tbl (ts ino) of
        None \<Rightarrow>
          (let e = lease_entry_new now remote_addr in (0, due e, remote_addr, tbl(ts ino \<mapsto> e)))
      | Some e \<Rightarrow>
          (case get_info e of (latest_due, a) \<Rightarrow>
             (if a = remote_addr then 0 else -1, latest_due, remote_addr, tbl)))"

text \<open>\<^verbatim>\<open>lease_table::acquire\<close> when no other thread interferes.\<close>

definition lease_table_acquire ::
  "(uuid \<Rightarrow> string) \<Rightarrow> int \<Rightarrow> int \<Rightarrow> uuid \<Rightarrow> string \<Rightarrow> lease_table \<Rightarrow> int \<times> int \<times> string \<times> lease_table" where
  "lease_table_acquire ts now1 now2 ino remote_addr tbl =
     (if acquire_find ts ino tbl then acquire_found ts now1 now2 ino remote_addr tbl
      else acquire_insert ts now1 ino remote_addr tbl)"

section \<open>Messages\<close>

record lease_request =
  ino_prefix :: "64 word"
  ino_postfix :: "64 word"
  req_remote_addr :: string

record lease_response =
  ret :: int
  resp_due :: int
  resp_remote_addr :: string

text \<open>The answer \<^verbatim>\<open>lease_impl::acquire\<close> builds; the address is only set on failure.\<close>

definition lease_reply :: "int \<times> int \<times> string \<times> lease_table \<Rightarrow> lease_response" where
  "lease_reply r =
     (case r of (rt, d, a, tbl) \<Rightarrow>
        \<lparr>ret = rt, resp_due = d, resp_remote_addr = (if rt \<noteq> 0 then a else [])\<rparr>)"

definition lease_impl_acquire ::
  "(uuid \<Rightarrow> string) \<Rightarrow> int \<Rightarrow> int \<Rightarrow> lease_request \<Rightarrow> lease_table \<Rightarrow> lease_response \<times> lease_table" where
  "lease_impl_acquire ts now1 now2 request tbl =
     (let r = lease_table_acquire ts now1 now2
                (splice_prefix_and_postfix (ino_prefix request) (ino_postfix request))
                (req_remote_addr request) tbl
      in (lease_reply r, snd (snd (snd r))))"

section \<open>The client's cache\<close>

record client_entry =
  c_due :: int
  leader :: bool

type_synonym lease_table_client = "uuid \<rightharpoonup> client_entry"

definition set_info :: "int \<Rightarrow> bool \<Rightarrow> client_entry \<Rightarrow> client_entry" where
  "set_info new_due mine e = (if c_due e < new_due then \<lparr>c_due = new_due, leader = mine\<rparr> else e)"

definition is_valid :: "int \<Rightarrow> uuid \<Rightarrow> lease_table_client \<Rightarrow> bool" where
  "is_valid now ino tbl = (case tbl ino of None \<Rightarrow> False | Some e \<Rightarrow> now < c_due e)"

definition is_mine :: "int \<Rightarrow> uuid \<Rightarrow> lease_table_client \<Rightarrow> bool" where
  "is_mine now ino tbl = (case tbl ino of None \<Rightarrow> False | Some e \<Rightarrow> leader e \<and> now < c_due e)"

text \<open>Both critical sections of \<^verbatim>\<open>update\<close> do the same to an entry that exists.\<close>

definition lease_update :: "uuid \<Rightarrow> int \<Rightarrow> bool \<Rightarrow> lease_table_client \<Rightarrow> lease_table_client" where
  "lease_update ino new_due mine tbl =
     (case tbl ino of
        Some e \<Rightarrow> tbl(ino \<mapsto> set_info new_due mine e)
      | None \<Rightarrow> tbl(ino \<mapsto> \<lparr>c_due = new_due, leader = mine\<rparr>))"

definition make_request :: "string \<Rightarrow> uuid \<Rightarrow> lease_request" where
  "make_request remote ino =
     \<lparr>ino_prefix = get_prefix_from_uuid ino, ino_postfix = get_postfix_from_uuid ino,
      req_remote_addr = remote\<rparr>"

text \<open>What the client does with an answer: the result, the caller's address variable, its table.\<close>

definition handle_response ::
  "uuid \<Rightarrow> lease_response \<Rightarrow> string \<Rightarrow> lease_table_client \<Rightarrow> int \<times> string \<times> lease_table_client" where
  "handle_response ino response remote_addr tbl =
     (ret response,
      (if ret response \<noteq> 0 then resp_remote_addr response else remote_addr),
      lease_update ino (resp_due response) (ret response = 0) tbl)"

text \<open>
  \<^verbatim>\<open>lease_client::acquire\<close> against a manager; \<open>rpc\<close> is the remote call, \<open>None\<close> when it fails.
\<close>

definition lease_client_acquire ::
  "(lease_request \<Rightarrow> 'm \<Rightarrow> lease_response option \<times> 'm) \<Rightarrow> int \<Rightarrow> string \<Rightarrow> uuid \<Rightarrow> string
     \<Rightarrow> (lease_table_client \<times> 'm, int \<times> string) st" where
  "lease_client_acquire rpc now remote ino remote_addr tm =
     (case tm of (tbl, m) \<Rightarrow>
        if is_mine now ino tbl then (Inr (0, remote_addr), (tbl, m))
        else
          (case rpc (make_request remote ino) m of
             (None, m') \<Rightarrow> (Inl (Runtime_error ''lease_client::acquire() failed''), (tbl, m'))
           | (Some response, m') \<Rightarrow>
               (case handle_response ino response remote_addr tbl of (r, a, tbl') \<Rightarrow>
                  (Inr (r, a), (tbl', m')))))"

section \<open>The protocol\<close>

text \<open>
  A request at the manager is about to look up, or has found an entry, or has found none; an answer
  is in flight to its client.  Clients are named by their address.
\<close>

datatype phase = Lookup | Found | Missing | Answered lease_response

record lease_sys =
  clock :: int
  table :: lease_table
  calls :: "(string \<times> uuid \<times> phase) set"
  caches :: "string \<Rightarrow> lease_table_client"

definition lease_init :: "int \<Rightarrow> lease_sys" where
  "lease_init t = \<lparr>clock = t, table = Map.empty, calls = {}, caches = (\<lambda>_. Map.empty)\<rparr>"

inductive lease_step :: "(uuid \<Rightarrow> string) \<Rightarrow> lease_sys \<Rightarrow> lease_sys \<Rightarrow> bool" for ts where
  tick: "clock s \<le> t \<Longrightarrow> lease_step ts s (s\<lparr>clock := t\<rparr>)"
| call: "\<not> is_mine (clock s) ino (caches s c) \<Longrightarrow>
    lease_step ts s (s\<lparr>calls := insert (c, ino, Lookup) (calls s)\<rparr>)"
| find: "(c, ino, Lookup) \<in> calls s \<Longrightarrow>
    p = (if acquire_find ts ino (table s) then Found else Missing) \<Longrightarrow>
    lease_step ts s (s\<lparr>calls := insert (c, ino, p) (calls s - {(c, ino, Lookup)})\<rparr>)"
| found: "(c, ino, Found) \<in> calls s \<Longrightarrow> clock s \<le> t1 \<Longrightarrow> t1 \<le> t2 \<Longrightarrow>
    r = acquire_found ts t1 t2 ino c (table s) \<Longrightarrow>
    lease_step ts s (s\<lparr>clock := t2, table := snd (snd (snd r)),
      calls := insert (c, ino, Answered (lease_reply r)) (calls s - {(c, ino, Found)})\<rparr>)"
| missing: "(c, ino, Missing) \<in> calls s \<Longrightarrow> clock s \<le> t \<Longrightarrow>
    r = acquire_insert ts t ino c (table s) \<Longrightarrow>
    lease_step ts s (s\<lparr>clock := t, table := snd (snd (snd r)),
      calls := insert (c, ino, Answered (lease_reply r)) (calls s - {(c, ino, Missing)})\<rparr>)"
| answer: "(c, ino, Answered response) \<in> calls s \<Longrightarrow>
    lease_step ts s (s\<lparr>calls := calls s - {(c, ino, Answered response)},
      caches := (caches s)(c := snd (snd (handle_response ino response a (caches s c))))\<rparr>)"
| lost: "x \<in> calls s \<Longrightarrow> lease_step ts s (s\<lparr>calls := calls s - {x}\<rparr>)"

inductive lease_reachable :: "(uuid \<Rightarrow> string) \<Rightarrow> lease_sys \<Rightarrow> bool" for ts where
  start: "lease_reachable ts (lease_init t)"
| step: "lease_reachable ts s \<Longrightarrow> lease_step ts s s' \<Longrightarrow> lease_reachable ts s'"

text \<open>
  The invariant: whatever a client was told it owns, and that is not yet over, is what the table says.
\<close>

definition grant_ok :: "(uuid \<Rightarrow> string) \<Rightarrow> int \<Rightarrow> lease_table \<Rightarrow> string \<Rightarrow> uuid \<Rightarrow> int \<Rightarrow> bool" where
  "grant_ok ts now tbl c ino d \<longleftrightarrow> d \<le> now \<or> tbl (ts ino) = Some \<lparr>due = d, addr = c\<rparr>"

definition lease_inv :: "(uuid \<Rightarrow> string) \<Rightarrow> lease_sys \<Rightarrow> bool" where
  "lease_inv ts s \<longleftrightarrow>
     (\<forall>c ino e. caches s c ino = Some e \<and> leader e \<longrightarrow> grant_ok ts (clock s) (table s) c ino (c_due e)) \<and>
     (\<forall>c ino r. (c, ino, Answered r) \<in> calls s \<and> ret r = 0 \<longrightarrow>
        grant_ok ts (clock s) (table s) c ino (resp_due r)) \<and>
     (\<forall>c ino. (c, ino, Found) \<in> calls s \<longrightarrow> (\<exists>e. table s (ts ino) = Some e))"

lemma lease_invI:
  assumes "\<And>c ino e. caches s c ino = Some e \<Longrightarrow> leader e \<Longrightarrow> grant_ok ts (clock s) (table s) c ino (c_due e)"
    and "\<And>c ino r. (c, ino, Answered r) \<in> calls s \<Longrightarrow> ret r = 0 \<Longrightarrow> grant_ok ts (clock s) (table s) c ino (resp_due r)"
    and "\<And>c ino. (c, ino, Found) \<in> calls s \<Longrightarrow> (\<exists>e. table s (ts ino) = Some e)"
  shows "lease_inv ts s"
  using assms by (simp add: lease_inv_def)

lemma lease_invD:
  assumes "lease_inv ts s"
  shows "caches s c ino = Some e \<Longrightarrow> leader e \<Longrightarrow> grant_ok ts (clock s) (table s) c ino (c_due e)"
    and "(c, ino, Answered r) \<in> calls s \<Longrightarrow> ret r = 0 \<Longrightarrow> grant_ok ts (clock s) (table s) c ino (resp_due r)"
    and "(c, ino, Found) \<in> calls s \<Longrightarrow> (\<exists>e. table s (ts ino) = Some e)"
  using assms unfolding lease_inv_def by blast+

lemma grant_ok_later: "grant_ok ts now tbl c ino d \<Longrightarrow> now \<le> now' \<Longrightarrow> grant_ok ts now' tbl c ino d"
  by (auto simp: grant_ok_def)

lemma grant_ok_found:
  assumes "grant_ok ts now tbl c ino d" and "now \<le> t1" and "t1 \<le> t2"
  shows "grant_ok ts t2 (snd (snd (snd (acquire_found ts t1 t2 ino' c' tbl)))) c ino d"
  using assms by (auto simp: grant_ok_def acquire_found_def cas_def split: option.splits)

lemma grant_ok_insert:
  assumes "grant_ok ts now tbl c ino d" and "now \<le> t"
  shows "grant_ok ts t (snd (snd (snd (acquire_insert ts t ino' c' tbl)))) c ino d"
  using assms by (auto simp: grant_ok_def acquire_insert_def get_info_def Let_def split: option.splits)

lemma acquire_keeps_entries:
  "\<exists>e. tbl k = Some e \<Longrightarrow> \<exists>e. snd (snd (snd (acquire_found ts t1 t2 ino c tbl))) k = Some e"
  "\<exists>e. tbl k = Some e \<Longrightarrow> \<exists>e. snd (snd (snd (acquire_insert ts t ino c tbl))) k = Some e"
  by (auto simp: acquire_found_def acquire_insert_def get_info_def Let_def split: option.splits prod.splits)

text \<open>A positive answer is the truth at the moment it is given.\<close>

lemma found_reply_ok:
  "ret (lease_reply (acquire_found ts t1 t2 ino c tbl)) = 0 \<Longrightarrow>
    grant_ok ts t2 (snd (snd (snd (acquire_found ts t1 t2 ino c tbl)))) c ino
      (resp_due (lease_reply (acquire_found ts t1 t2 ino c tbl)))"
  by (auto simp: grant_ok_def acquire_found_def cas_def lease_reply_def split: option.splits)

lemma insert_reply_ok:
  "ret (lease_reply (acquire_insert ts t ino c tbl)) = 0 \<Longrightarrow>
    grant_ok ts t (snd (snd (snd (acquire_insert ts t ino c tbl)))) c ino
      (resp_due (lease_reply (acquire_insert ts t ino c tbl)))"
  by (auto simp: grant_ok_def acquire_insert_def lease_reply_def lease_entry_new_def get_info_def Let_def
      split: option.splits if_splits)

lemma lease_inv_init: "lease_inv ts (lease_init t)"
  by (simp add: lease_inv_def lease_init_def)

lemma lease_inv_step: "lease_step ts s s' \<Longrightarrow> lease_inv ts s \<Longrightarrow> lease_inv ts s'"
proof (induction rule: lease_step.induct)
  case (tick s t)
  then show ?case unfolding lease_inv_def by simp (meson grant_ok_later)
next
  case (find c ino s p)
  then show ?case by (auto simp: lease_inv_def acquire_find_def split: if_splits)
next
  case (found c ino s t1 t2 r)
  then show ?case
    using lease_invD(1,2) [OF found.prems] lease_invD(3) [OF found.prems]
      grant_ok_found [OF _ found.hyps(2,3)] found_reply_ok acquire_keeps_entries(1)
    by (intro lease_invI) auto
next
  case (missing c ino s t r)
  then show ?case
    using lease_invD(1,2) [OF missing.prems] lease_invD(3) [OF missing.prems]
      grant_ok_insert [OF _ missing.hyps(2)] insert_reply_ok acquire_keeps_entries(2)
    by (intro lease_invI) auto
next
  case (answer c ino response s a)
  then show ?case
    by (auto simp: lease_inv_def handle_response_def lease_update_def set_info_def split: option.splits if_splits)
qed (auto simp: lease_inv_def)

lemma lease_inv_reachable: "lease_reachable ts s \<Longrightarrow> lease_inv ts s"
  by (induction rule: lease_reachable.induct) (auto intro: lease_inv_init lease_inv_step)

inductive_simps lease_step_simps: "lease_step ts s s'"

section \<open>Properties\<close>

text \<open>
  C7: mutual exclusion.  However requests of different clients interleave inside the manager, and
  however messages are delayed or lost, at no moment do two clients both believe to hold the valid
  lease of one directory.
\<close>

theorem lease_mutual_exclusion:
  assumes "lease_reachable ts s"
    and "is_mine (clock s) ino (caches s c1)" and "is_mine (clock s) ino (caches s c2)"
  shows "c1 = c2"
proof -
  have inv: "lease_inv ts s" by (rule lease_inv_reachable [OF assms(1)])
  have "\<exists>d. table s (ts ino) = Some \<lparr>due = d, addr = c\<rparr>" if "is_mine (clock s) ino (caches s c)" for c
    using lease_invD(1) [OF inv, of c ino] that by (auto simp: is_mine_def grant_ok_def split: option.splits)
  from this [OF assms(2)] this [OF assms(3)] show ?thesis by auto
qed

definition lease_example :: lease_sys where
  "lease_example =
     \<lparr>clock = 5, table = [''k'' \<mapsto> lease_entry_new 5 ''a''], calls = {},
      caches = (\<lambda>_. Map.empty)(''a'' := [nil_uuid \<mapsto> \<lparr>c_due = 5 + lease_period, leader = True\<rparr>])\<rparr>"

lemma lease_example_reachable: "lease_reachable (\<lambda>_. ''k'') lease_example"
proof -
  let ?ts = "\<lambda>_ :: uuid. ''k''"
  let ?r = "acquire_insert ?ts 5 nil_uuid ''a'' Map.empty"
  let ?s1 = "(lease_init 5)\<lparr>calls := insert (''a'', nil_uuid, Lookup) (calls (lease_init 5))\<rparr>"
  let ?s2 = "?s1\<lparr>calls := insert (''a'', nil_uuid, Missing) (calls ?s1 - {(''a'', nil_uuid, Lookup)})\<rparr>"
  let ?s3 = "?s2\<lparr>clock := 5, table := snd (snd (snd ?r)),
      calls := insert (''a'', nil_uuid, Answered (lease_reply ?r)) (calls ?s2 - {(''a'', nil_uuid, Missing)})\<rparr>"
  let ?s4 = "?s3\<lparr>calls := calls ?s3 - {(''a'', nil_uuid, Answered (lease_reply ?r))},
      caches := (caches ?s3)(''a'' := snd (snd (handle_response nil_uuid (lease_reply ?r) [] (caches ?s3 ''a''))))\<rparr>"
  have s1: "lease_reachable ?ts ?s1"
    by (rule lease_reachable.step [OF lease_reachable.start call]) (simp add: lease_init_def is_mine_def)
  have s2: "lease_reachable ?ts ?s2"
    by (rule lease_reachable.step [OF s1 find]) (simp_all add: lease_init_def acquire_find_def)
  have s3: "lease_reachable ?ts ?s3"
    by (rule lease_reachable.step [OF s2 missing]) (simp_all add: lease_init_def)
  have "lease_reachable ?ts ?s4"
    by (rule lease_reachable.step [OF s3 answer]) simp
  moreover have "?s4 = lease_example"
    by (simp add: lease_init_def lease_example_def acquire_insert_def lease_reply_def handle_response_def
        lease_update_def lease_entry_new_def Let_def)
  ultimately show ?thesis by simp
qed

theorem lease_mutual_exclusion_witness:
  "lease_reachable (\<lambda>_. ''k'') lease_example \<and> is_mine (clock lease_example) nil_uuid (caches lease_example ''a'') \<and>
    \<not> is_mine (clock lease_example) nil_uuid (caches lease_example ''b'')"
proof -
  have a: "is_mine (clock lease_example) nil_uuid (caches lease_example ''a'')"
    by (simp add: lease_example_def is_mine_def lease_period_def LEASE_PERIOD_MS_def)
  show ?thesis
    using lease_mutual_exclusion [OF lease_example_reachable a, of "''b''"] lease_example_reachable a by auto
qed

text \<open>
  C36: an undisturbed \<^verbatim>\<open>lease_table::acquire\<close> grants the lease exactly when no other client holds it,
  and keeps its promises: on success the table names the requester with the returned due time; on
  failure the returned address and due time are those of the current holder and nothing changes.
\<close>

theorem lease_acquire_contract:
  assumes "lease_table_acquire ts now1 now2 ino c tbl = (r, d, a, tbl')" and "now1 \<le> now2"
  shows "(r = 0 \<longleftrightarrow> (case tbl (ts ino) of None \<Rightarrow> True | Some e \<Rightarrow> due e \<le> now1 \<or> addr e = c)) \<and>
    (r = 0 \<longrightarrow> tbl' = tbl(ts ino \<mapsto> \<lparr>due = d, addr = c\<rparr>) \<and> now1 < d) \<and>
    (r \<noteq> 0 \<longrightarrow> r = -1 \<and> tbl' = tbl \<and> tbl (ts ino) = Some \<lparr>due = d, addr = a\<rparr> \<and> a \<noteq> c \<and> now1 < d)"
  using assms
  by (auto simp: lease_table_acquire_def acquire_find_def acquire_found_def acquire_insert_def cas_def
      lease_entry_new_def lease_period_def LEASE_PERIOD_MS_def Let_def fun_upd_idem split: option.splits if_splits)

theorem lease_acquire_contract_witness:
  "lease_table_acquire (\<lambda>_. ''k'') 1 2 nil_uuid ''a'' Map.empty = (0, 1 + lease_period, ''a'', [''k'' \<mapsto> \<lparr>due = 1 + lease_period, addr = ''a''\<rparr>])"
proof -
  obtain r d a tbl' where r: "lease_table_acquire (\<lambda>_. ''k'') 1 2 nil_uuid ''a'' Map.empty = (r, d, a, tbl')"
    by (metis prod_cases4)
  moreover have "a = ''a''" "d = 1 + lease_period"
    using r by (auto simp: lease_table_acquire_def acquire_find_def acquire_insert_def lease_entry_new_def Let_def)
  ultimately show ?thesis using lease_acquire_contract [OF r] by simp
qed

text \<open>
  when two first requests for a directory race and the second finds the entry of the first, it is
  refused but the address it is told is its own, not the leader's as the interface promises.
\<close>

theorem lease_race_wrong_leader:
  assumes "tbl (ts ino) = Some e" and "addr e \<noteq> c"
  shows "lease_reply (acquire_insert ts now ino c tbl) = \<lparr>ret = -1, resp_due = due e, resp_remote_addr = c\<rparr>"
  using assms by (simp add: acquire_insert_def lease_reply_def get_info_def)

theorem lease_race_wrong_leader_witness:
  "resp_remote_addr (lease_reply (acquire_insert (\<lambda>_. ''k'') 7 nil_uuid ''b'' [''k'' \<mapsto> lease_entry_new 5 ''a''])) = ''b''"
  using lease_race_wrong_leader [of "[''k'' \<mapsto> lease_entry_new 5 ''a'']" "\<lambda>_. ''k''" nil_uuid "lease_entry_new 5 ''a''" "''b''" 7]
  by (simp add: lease_entry_new_def)

text \<open>
  a client call to \<^verbatim>\<open>lease_client::acquire\<close> over a working channel to the manager succeeds exactly
  when the lease is already its own or no other client holds it at the manager, and on success the
  client's cache says so until the due time, provided its cache held no later due time.
\<close>

theorem lease_client_acquire_correct:
  assumes "now \<le> now1" and "now1 \<le> now2" and "\<not> is_mine now ino tbl"
    and "\<forall>e. tbl ino = Some e \<longrightarrow> c_due e \<le> now1"
  shows "\<exists>r a tbl' m'. lease_client_acquire (\<lambda>q m. map_prod Some id (lease_impl_acquire ts now1 now2 q m)) now c ino remote_addr (tbl, m)
      = (Inr (r, a), (tbl', m')) \<and>
    (r = 0 \<longleftrightarrow> (case m (ts ino) of None \<Rightarrow> True | Some e \<Rightarrow> due e \<le> now1 \<or> addr e = c)) \<and>
    (r = 0 \<longrightarrow> is_mine now1 ino tbl' \<and> a = remote_addr) \<and>
    (r \<noteq> 0 \<longrightarrow> \<not> is_mine now1 ino tbl' \<and> (\<exists>d. m' (ts ino) = Some \<lparr>due = d, addr = a\<rparr>))"
proof -
  obtain r d a m' where q: "lease_table_acquire ts now1 now2 ino c m = (r, d, a, m')" by (metis prod_cases4)
  have contract: "(r = 0 \<longleftrightarrow> (case m (ts ino) of None \<Rightarrow> True | Some e \<Rightarrow> due e \<le> now1 \<or> addr e = c)) \<and>
    now1 < d \<and> (r \<noteq> 0 \<longrightarrow> m' (ts ino) = Some \<lparr>due = d, addr = a\<rparr>)"
    using q assms(2)
    by (auto simp: lease_table_acquire_def acquire_find_def acquire_found_def acquire_insert_def cas_def
        lease_entry_new_def lease_period_def LEASE_PERIOD_MS_def Let_def split: option.splits if_splits)
  let ?tbl = "lease_update ino d (r = 0) tbl"
  have upd: "?tbl ino = Some \<lparr>c_due = d, leader = (r = 0)\<rparr>"
    using assms(4) contract by (auto simp: lease_update_def set_info_def split: option.split)
  have "lease_client_acquire (\<lambda>q m. map_prod Some id (lease_impl_acquire ts now1 now2 q m)) now c ino remote_addr (tbl, m)
      = (Inr (r, if r \<noteq> 0 then a else remote_addr), (?tbl, m'))"
    using assms(3) q by (simp add: lease_client_acquire_def lease_impl_acquire_def make_request_def
        lease_reply_def handle_response_def Let_def)
  with contract upd show ?thesis by (auto simp: is_mine_def)
qed

theorem lease_client_acquire_correct_witness:
  "\<exists>a tbl' m'. lease_client_acquire (\<lambda>q m. map_prod Some id (lease_impl_acquire (\<lambda>_. ''k'') 2 3 q m)) 1 ''a'' nil_uuid ''''
      (Map.empty, Map.empty) = (Inr (0, a), (tbl', m')) \<and> is_mine 2 nil_uuid tbl'"
  using lease_client_acquire_correct [of 1 2 3 nil_uuid Map.empty "\<lambda>_. ''k''" "''a''" "''''" Map.empty]
  by (fastforce simp: is_mine_def)

end
