(* ===== verification/Session.thy ===== *)
theory Session
  imports Rados_Refine
begin

text \<open>
  Client numbers: the manager's session service (\<^verbatim>\<open>manager/session/session_impl.cpp\<close>), which hands
  out numbers and keeps the next one in the pool, and the client's side
  (\<^verbatim>\<open>client/client/session_client.cpp\<close>, \<^verbatim>\<open>client/client/client.cpp\<close>).
\<close>

definition CLIENT_BITS :: nat where
  "CLIENT_BITS = 24"

definition next_id_key :: string where
  "next_id_key = ''next_id''"

record session_impl =
  next_id :: "64 word"

text \<open>
  The constructor reads \<^verbatim>\<open>size\<close> bytes over the uninitialised member \<open>raw\<close>; more than eight would
  leave it.
\<close>

definition session_impl_new :: "'s extern \<Rightarrow> 's \<Rightarrow> 64 word \<Rightarrow> session_impl result" where
  "session_impl_new L s raw =
     (case rados_stat L s CLIENT next_id_key of
        Inl e \<Rightarrow> Inl e
      | Inr (True, n) \<Rightarrow>
          (case rados_read L s CLIENT next_id_key n 0 of
             Inl e \<Rightarrow> Inl e
           | Inr bs \<Rightarrow>
               if length bs \<le> 8 then Inr \<lparr>next_id = un_le64 (bs @ drop (length bs) (le64 raw))\<rparr>
               else Inl Undefined_behaviour)
      | Inr (False, n) \<Rightarrow> Inr \<lparr>next_id = 1\<rparr>)"

text \<open>The answer is an \<^verbatim>\<open>int64\<close>; -1 when the numbers are used up.\<close>

definition session_mount :: "'s extern \<Rightarrow> (session_impl \<times> 's, 64 word) st" where
  "session_mount L ss =
     (case ss of (m, s) \<Rightarrow>
        if next_id m < push_bit CLIENT_BITS 1 then
          (let m' = m\<lparr>next_id := next_id m + 1\<rparr> in
           case rados_write L CLIENT next_id_key (le64 (next_id m')) 8 0 s of
             (Inl e, s') \<Rightarrow> (Inl e, (m', s'))
           | (Inr _, s') \<Rightarrow> (Inr (next_id m), (m', s')))
        else (Inr (-1), (m, s)))"

definition session_umount :: "(session_impl \<times> 's, unit) st" where
  "session_umount = returnE ()"

text \<open>The client: \<open>rpc\<close> is the remote call, \<open>None\<close> when it fails.\<close>

definition session_client_mount :: "('m \<Rightarrow> 64 word option \<times> 'm) \<Rightarrow> ('m, 64 word) st" where
  "session_client_mount rpc m =
     (case rpc m of
        (Some i, m') \<Rightarrow> (Inr i, m')
      | (None, m') \<Rightarrow> (Inl (Runtime_error ''session_client::mount() failed''), m'))"

definition session_client_umount :: "('m \<Rightarrow> bool \<times> 'm) \<Rightarrow> ('m, unit) st" where
  "session_client_umount rpc m =
     (case rpc m of
        (True, m') \<Rightarrow> (Inr (), m')
      | (False, m') \<Rightarrow> (Inl (Runtime_error ''session_client::umount() failed''), m'))"

record nmfs_client =
  client_id :: "64 word"
  client_uid :: "32 word"
  client_gid :: "32 word"

definition client_new :: "('m \<Rightarrow> 64 word option \<times> 'm) \<Rightarrow> nmfs_client \<Rightarrow> ('m, nmfs_client) st" where
  "client_new rpc raw =
     bindE (session_client_mount rpc) (\<lambda>i. returnE (raw\<lparr>client_id := i\<rparr>))"

section \<open>Histories of the service\<close>

datatype session_event = Mount | Restart "64 word"

text \<open>A run collects the answers; a restart builds the service again from the pool.\<close>

fun session_run :: "'s extern \<Rightarrow> session_event list \<Rightarrow> (session_impl \<times> 's, 64 word list) st" where
  "session_run L [] = returnE []"
| "session_run L (Mount # es) =
     bindE (session_mount L) (\<lambda>i. bindE (session_run L es) (\<lambda>is. returnE (i # is)))"
| "session_run L (Restart raw # es) =
     (\<lambda>(m, s). case session_impl_new L s raw of
        Inl e \<Rightarrow> (Inl e, (m, s))
      | Inr m' \<Rightarrow> session_run L es (m', s))"

definition session_inv :: "('s \<Rightarrow> string \<Rightarrow> byte list option) \<Rightarrow> session_impl \<Rightarrow> 's \<Rightarrow> bool" where
  "session_inv objs m s \<longleftrightarrow>
     (present objs s CLIENT next_id_key \<and> stores objs s CLIENT next_id_key (le64 (next_id m)) \<or>
      \<not> present objs s CLIENT next_id_key \<and> stores objs s CLIENT next_id_key [] \<and> next_id m = 1) \<and>
     1 \<le> next_id m \<and> next_id m \<le> push_bit CLIENT_BITS 1"

lemma next_id_plus: "n < (0x1000000 :: 64 word) \<Longrightarrow> unat (n + 1) = unat n + 1"
  by (simp add: word_less_nat_alt unat_word_ariths)

context librados_healthy
begin

lemma session_new_ok: "session_inv objs m s \<Longrightarrow> session_impl_new L s raw = Inr m"
  unfolding session_inv_def
proof (elim conjE disjE)
  assume p: "present objs s CLIENT next_id_key" and st: "stores objs s CLIENT next_id_key (le64 (next_id m))"
  have "rados_stat L s CLIENT next_id_key = Inr (True, 8)" using rados_stat_ok [OF st] p by simp
  moreover have "rados_read L s CLIENT next_id_key 8 0 = Inr (le64 (next_id m))"
    using rados_read_ok(2) [OF st, of 0 8] by simp
  ultimately show ?thesis by (simp add: session_impl_new_def)
next
  assume "\<not> present objs s CLIENT next_id_key" "stores objs s CLIENT next_id_key []" "next_id m = 1"
  then show ?thesis using rados_stat_ok [of s CLIENT next_id_key "[]"] by (simp add: session_impl_new_def)
qed

lemma session_mount_ok:
  assumes inv: "session_inv objs m s"
  shows "\<exists>m' s'. session_inv objs m' s' \<and>
    (if next_id m < push_bit CLIENT_BITS 1
     then session_mount L (m, s) = (Inr (next_id m), (m', s')) \<and> unat (next_id m') = unat (next_id m) + 1
     else session_mount L (m, s) = (Inr (-1), (m', s')) \<and> m' = m)"
proof (cases "next_id m < push_bit CLIENT_BITS 1")
  case False
  with inv show ?thesis by (auto simp: session_mount_def)
next
  case True
  let ?m = "m\<lparr>next_id := next_id m + 1\<rparr>"
  obtain old where old: "stores objs s CLIENT next_id_key old" "length old \<le> 8"
    using inv by (auto simp: session_inv_def)
  obtain s' where w: "rados_write L CLIENT next_id_key (le64 (next_id ?m)) 8 0 s = (Inr 8, s')"
    and st: "stores objs s' CLIENT next_id_key (write_spec old 0 (le64 (next_id ?m)))"
    using rados_write_ok [OF old(1), of 8 "le64 (next_id ?m)" 0] by auto
  have st': "stores objs s' CLIENT next_id_key (le64 (next_id ?m))"
    using st old(2) by (simp add: write_spec_def overwrite_def)
  have "present objs s' CLIENT next_id_key" using stores_absent [OF st'] by auto
  moreover have u: "unat (next_id ?m) = unat (next_id m) + 1"
    using True next_id_plus by (simp add: CLIENT_BITS_def)
  moreover have "1 \<le> next_id ?m" "next_id ?m \<le> push_bit CLIENT_BITS 1"
    using True u by (simp_all add: word_le_nat_alt word_less_nat_alt CLIENT_BITS_def)
  ultimately have "session_inv objs ?m s'" using st' by (simp add: session_inv_def)
  with w u True show ?thesis by (auto simp: session_mount_def Let_def)
qed

text \<open>Successive numbers of a run increase until they are used up.\<close>

lemma session_run_ok:
  "session_inv objs m s \<Longrightarrow> \<exists>is m' s'. session_run L es (m, s) = (Inr is, (m', s')) \<and>
    session_inv objs m' s' \<and> length is = length (filter (\<lambda>e. e = Mount) es) \<and>
    (let ok = filter (\<lambda>i. i \<noteq> -1) is in
     distinct ok \<and> (\<forall>i \<in> set ok. next_id m \<le> i \<and> i < push_bit CLIENT_BITS 1))"
proof (induction es arbitrary: m s)
  case Nil
  then show ?case by simp
next
  case (Cons e es)
  show ?case
  proof (cases e)
    case (Restart raw)
    with Cons session_new_ok [OF Cons.prems, of raw] show ?thesis by simp
  next
    case Mount
    obtain m1 s1 where inv1: "session_inv objs m1 s1"
      and r: "if next_id m < push_bit CLIENT_BITS 1
        then session_mount L (m, s) = (Inr (next_id m), (m1, s1)) \<and> unat (next_id m1) = unat (next_id m) + 1
        else session_mount L (m, s) = (Inr (-1), (m1, s1)) \<and> m1 = m"
      using session_mount_ok [OF Cons.prems] by blast
    obtain "is" m' s' where run: "session_run L es (m1, s1) = (Inr is, (m', s'))" "session_inv objs m' s'"
      "length is = length (filter (\<lambda>e. e = Mount) es)" "distinct (filter (\<lambda>i. i \<noteq> -1) is)"
      "\<forall>i \<in> set (filter (\<lambda>i. i \<noteq> -1) is). next_id m1 \<le> i \<and> i < push_bit CLIENT_BITS 1"
      using Cons.IH [OF inv1] by (auto simp: Let_def)
    show ?thesis
    proof (cases "next_id m < push_bit CLIENT_BITS 1")
      case False
      with r run Mount show ?thesis by (auto simp: Let_def)
    next
      case True
      then have "next_id m < next_id m1" using r by (simp add: word_less_nat_alt)
      then have "\<forall>i \<in> set (filter (\<lambda>i. i \<noteq> -1) is). next_id m < i" using run(5) by (meson less_le_trans)
      with True r run Mount show ?thesis by (auto simp: Let_def intro: order.strict_implies_order)
    qed
  qed
qed

end

section \<open>Properties\<close>

text \<open>
  C37: over any history of mounts and restarts of the manager on a healthy pool that starts without a
  recorded number, every mount is answered, and no number other than the refusal -1 is given twice.
\<close>

theorem session_ids_unique:
  assumes "librados_healthy L objs" and "stores objs s CLIENT next_id_key []"
    and "\<not> present objs s CLIENT next_id_key"
  shows "\<exists>is m' s'. session_run L es (\<lparr>next_id = 1\<rparr>, s) = (Inr is, (m', s')) \<and>
    length is = length (filter (\<lambda>e. e = Mount) es) \<and> distinct (filter (\<lambda>i. i \<noteq> -1) is) \<and>
    (\<forall>i \<in> set is. i = -1 \<or> 1 \<le> i \<and> i < push_bit CLIENT_BITS 1)"
proof -
  have "session_inv objs \<lparr>next_id = 1\<rparr> s" using assms(2,3) by (simp add: session_inv_def CLIENT_BITS_def)
  from librados_healthy.session_run_ok [OF assms(1) this, of es] show ?thesis by (auto simp: Let_def)
qed

theorem session_ids_unique_witness:
  "\<exists>is m' s'. session_run mem_librados [Mount, Restart 9, Mount] (\<lparr>next_id = 1\<rparr>, Map.empty) = (Inr is, (m', s')) \<and>
    length is = 2 \<and> distinct (filter (\<lambda>i. i \<noteq> -1) is)"
  using session_ids_unique [OF mem.librados_healthy_axioms mem_stores_empty mem_present_empty,
      of "[Mount, Restart 9, Mount]"]
  by fastforce

end
