(* ===== verification/Rpc_Messages.thy ===== *)
theory Rpc_Messages
  imports Inode
begin

text \<open>
  The messages between clients (\<^verbatim>\<open>client/proto/rpc.proto\<close>).  A request is one constructor per remote
  procedure with the fields the client can set; an inode number travels as its two 64-bit halves.  The
  response messages are one record: every response sets the fields its message has, the others keep
  the default value of the wire format, as a field that the server does not set does.
\<close>

definition ENOTLEADER :: int where "ENOTLEADER = 8000"
definition ENEEDRECOV :: int where "ENEEDRECOV = 8001"
definition EACCES :: int where "EACCES = 13"

section \<open>Inode numbers on the wire\<close>

type_synonym wire_ino = "64 word \<times> 64 word"

definition ino_to_wire :: "uuid \<Rightarrow> wire_ino" where
  "ino_to_wire u = (get_prefix_from_uuid u, get_postfix_from_uuid u)"

definition wire_to_ino :: "wire_ino \<Rightarrow> uuid" where
  "wire_to_ino w = splice_prefix_and_postfix (fst w) (snd w)"

lemma wire_roundtrip [simp]: "wire_to_ino (ino_to_wire u) = u" "ino_to_wire (wire_to_ino w) = w"
  by (simp_all add: wire_to_ino_def ino_to_wire_def)

section \<open>Messages\<close>

text \<open>
  The first argument is the number of the directory whose table the request is about.  Sizes, offsets
  and times are 64-bit, modes, masks, flags and user numbers 32-bit.
\<close>

datatype rpc_request =
    Rpc_check_child_inode wire_ino string
  | Rpc_get_mode wire_ino string
  | Rpc_permission_check wire_ino string "32 word" bool
  | Rpc_getattr wire_ino string bool
  | Rpc_access wire_ino string "32 word" bool
  | Rpc_opendir wire_ino string bool
  | Rpc_readdir wire_ino
  | Rpc_mkdir wire_ino string "32 word" "32 word" "32 word"
  | Rpc_rmdir_top wire_ino wire_ino
  | Rpc_rmdir_down wire_ino string wire_ino
  | Rpc_symlink wire_ino string string string
  | Rpc_readlink wire_ino string "64 word"
  | Rpc_rename_same_parent wire_ino string string "32 word"
  | Rpc_rename_not_same_parent_src wire_ino string "32 word"
  | Rpc_rename_not_same_parent_dst wire_ino target_msg wire_ino string "32 word"
  | Rpc_open wire_ino string "32 word"
  | Rpc_create wire_ino string "32 word"
  | Rpc_unlink wire_ino string
  | Rpc_write wire_ino string "64 word" "64 word" "32 word"
  | Rpc_chmod wire_ino string "32 word" bool
  | Rpc_chown wire_ino string "32 word" "32 word" bool
  | Rpc_utimens wire_ino string timespec timespec bool
  | Rpc_truncate wire_ino string "64 word" bool

text \<open>\<open>rsp_stream\<close> is the sequence of messages that \<^verbatim>\<open>rpc_readdir\<close> writes: a name and a code each.\<close>

record respond =
  rsp_ret :: int
  rsp_ino :: wire_ino
  rsp_mode :: "32 word"
  rsp_uid :: "32 word"
  rsp_gid :: "32 word"
  rsp_nlink :: "64 word"
  rsp_size :: "64 word"
  rsp_offset :: "64 word"
  rsp_atime :: timespec
  rsp_mtime :: timespec
  rsp_ctime :: timespec
  rsp_filename :: string
  rsp_target :: target_msg
  rsp_stream :: "(string \<times> int) list"

definition default_target :: target_msg where
  "default_target =
     \<lparr>target_i_mode = 0, target_i_uid = 0, target_i_gid = 0, target_i_ino_prefix = 0, target_i_ino_postfix = 0,
      target_i_nlink = 0, target_i_size = 0, target_a_sec = 0, target_a_nsec = 0, target_m_sec = 0,
      target_m_nsec = 0, target_c_sec = 0, target_c_nsec = 0, target_i_link_target_len = 0,
      target_i_link_target_name = []\<rparr>"

definition default_respond :: respond where
  "default_respond =
     \<lparr>rsp_ret = 0, rsp_ino = (0, 0), rsp_mode = 0, rsp_uid = 0, rsp_gid = 0, rsp_nlink = 0, rsp_size = 0,
      rsp_offset = 0, rsp_atime = \<lparr>tv_sec = 0, tv_nsec = 0\<rparr>, rsp_mtime = \<lparr>tv_sec = 0, tv_nsec = 0\<rparr>,
      rsp_ctime = \<lparr>tv_sec = 0, tv_nsec = 0\<rparr>, rsp_filename = [], rsp_target = default_target,
      rsp_stream = []\<rparr>"

definition answer :: "int \<Rightarrow> respond" where
  "answer r = default_respond\<lparr>rsp_ret := r\<rparr>"

lemma answer_ret [simp]: "rsp_ret (answer r) = r"
  by (simp add: answer_def)

end
