(* ===== verification/Fs_State.thy ===== *)
theory Fs_State
  imports Journal Lease Session Rpc_Messages
begin

text \<open>
  The state of a mounted client: inodes and directory tables as shared objects in heaps (an inode of
  this client or a \<^verbatim>\<open>remote_inode\<close> that stands for one at another client,
  \<^verbatim>\<open>client/meta/remote_inode.cpp\<close>), the index of directory tables, the leases, the journal, the data pool and the open file handles
  (\<^verbatim>\<open>client/meta/file_handler.cpp\<close>).  What comes from outside is explicit: the functions of \<open>world\<close>
  (librados, the manager and the other clients over gRPC) and the readings of the clock, the random
  generator and the allocator, which the state supplies one after the other.
\<close>

section \<open>Objects\<close>

record remote_inode =
  r_leader_ip :: string
  r_dentry_table_ino :: uuid
  r_target_is_parent :: bool
  r_file_name :: string

datatype iobj = Inode inode | Remote inode remote_inode

primrec base_inode :: "iobj \<Rightarrow> inode" where
  "base_inode (Inode i) = i"
| "base_inode (Remote i r) = i"

primrec map_base :: "(inode \<Rightarrow> inode) \<Rightarrow> iobj \<Rightarrow> iobj" where
  "map_base f (Inode i) = Inode (f i)"
| "map_base f (Remote i r) = Remote (f i) r"

lemma base_map_base [simp]: "base_inode (map_base f ob) = f (base_inode ob)"
  by (cases ob) simp_all

text \<open>The constructor of \<^verbatim>\<open>remote_inode\<close>; \<open>raw\<close> is what the base object leaves uninitialised.\<close>

definition remote_inode_new :: "inode \<Rightarrow> string \<Rightarrow> uuid \<Rightarrow> string \<Rightarrow> bool \<Rightarrow> iobj" where
  "remote_inode_new raw leader_ip dentry_table_ino file_name target_is_parent =
     Remote (raw\<lparr>loc := REMOTE, link_target_name := None\<rparr>)
       \<lparr>r_leader_ip = leader_ip, r_dentry_table_ino = dentry_table_ino,
        r_target_is_parent = target_is_parent, r_file_name = file_name\<rparr>"

record dentry_table =
  dir_ino :: uuid
  this_dir_inode :: "nat option"
  dt_dentries :: "dentry option"
  child_inodes :: "string \<rightharpoonup> nat"
  dt_loc :: meta_location
  leader_ip :: string

record file_handler =
  fh_ino :: uuid
  fh_loc :: "meta_location option"
  fhno :: "64 word"
  fh_i :: "nat option"
  fh_remote_i :: "nat option"

section \<open>World and state\<close>

text \<open>
  \<open>w_rpc\<close> is the gRPC channel to the client at an address: the response, or nothing when the call fails
  (the status is not \<^verbatim>\<open>ok\<close>).  \<open>w_manager\<close> is the channel to the manager.
\<close>

record ('s, 'e) world =
  w_pool :: "'s extern"
  w_ords :: orders
  w_self :: string
  w_raw :: inode
  w_manager :: "lease_request \<Rightarrow> 'e \<Rightarrow> lease_response option \<times> 'e"
  w_rpc :: "string \<Rightarrow> rpc_request \<Rightarrow> 'e \<Rightarrow> respond option \<times> 'e"

record ('s, 'e) fs =
  inodes :: "nat \<Rightarrow> iobj"
  inode_next :: nat
  dtables :: "nat \<Rightarrow> dentry_table"
  dtable_next :: nat
  dentry_tables :: "uuid \<rightharpoonup> nat"
  leases :: lease_table_client
  jrnl :: "'s journal"
  data_pool :: 's
  fh_list :: "64 word \<rightharpoonup> file_handler"
  this_client :: nmfs_client
  env :: 'e
  clock_src :: "nat \<Rightarrow> int"
  clock_reads :: nat
  time_src :: "nat \<Rightarrow> timespec"
  time_reads :: nat
  uuid_src :: "nat \<Rightarrow> uuid"
  uuid_reads :: nat
  addr_src :: "nat \<Rightarrow> 64 word"
  addr_reads :: nat

type_synonym ('s, 'e, 'a) fsm = "(('s, 'e) fs, 'a) st"

definition read_clock :: "('s, 'e, int) fsm" where
  "read_clock g = (Inr (clock_src g (clock_reads g)), g\<lparr>clock_reads := Suc (clock_reads g)\<rparr>)"

definition get_time :: "('s, 'e, timespec) fsm" where
  "get_time g = (Inr (time_src g (time_reads g)), g\<lparr>time_reads := Suc (time_reads g)\<rparr>)"

definition alloc_new_ino :: "('s, 'e, uuid) fsm" where
  "alloc_new_ino g = (Inr (uuid_src g (uuid_reads g)), g\<lparr>uuid_reads := Suc (uuid_reads g)\<rparr>)"

definition new_address :: "('s, 'e, 64 word) fsm" where
  "new_address g = (Inr (addr_src g (addr_reads g)), g\<lparr>addr_reads := Suc (addr_reads g)\<rparr>)"

lemmas source_defs = read_clock_def get_time_def alloc_new_ino_def new_address_def

text \<open>Heap access.\<close>

definition new_iobj :: "iobj \<Rightarrow> ('s, 'e, nat) fsm" where
  "new_iobj ob g =
     (Inr (inode_next g),
      g\<lparr>inodes := (inodes g)(inode_next g := ob), inode_next := Suc (inode_next g)\<rparr>)"

definition inode_at :: "('s, 'e) fs \<Rightarrow> nat \<Rightarrow> inode" where
  "inode_at g x = base_inode (inodes g x)"

definition update_inode :: "nat \<Rightarrow> (inode \<Rightarrow> inode) \<Rightarrow> ('s, 'e, unit) fsm" where
  "update_inode x f g = (Inr (), g\<lparr>inodes := (inodes g)(x := map_base f (inodes g x))\<rparr>)"

definition update_core :: "nat \<Rightarrow> (core \<Rightarrow> core) \<Rightarrow> ('s, 'e, unit) fsm" where
  "update_core x f = update_inode x (\<lambda>i. i\<lparr>core := f (core i)\<rparr>)"

definition new_dtable :: "dentry_table \<Rightarrow> ('s, 'e, nat) fsm" where
  "new_dtable dt g =
     (Inr (dtable_next g),
      g\<lparr>dtables := (dtables g)(dtable_next g := dt), dtable_next := Suc (dtable_next g)\<rparr>)"

definition update_dtable :: "nat \<Rightarrow> (dentry_table \<Rightarrow> dentry_table) \<Rightarrow> ('s, 'e, unit) fsm" where
  "update_dtable t f g = (Inr (), g\<lparr>dtables := (dtables g)(t := f (dtables g t))\<rparr>)"

definition ino_of :: "('s, 'e) fs \<Rightarrow> nat \<Rightarrow> uuid" where
  "ino_of g x = i_ino (core (inode_at g x))"

text \<open>Running a call that changes only the environment, or only the journal.\<close>

definition remote_call :: "('e \<Rightarrow> 'a result \<times> 'e) \<Rightarrow> ('s, 'e, 'a) fsm" where
  "remote_call f g = (case f (env g) of (r, e) \<Rightarrow> (r, g\<lparr>env := e\<rparr>))"

definition journal_call :: "('s journal \<Rightarrow> (unit result \<times> 's journal) option) \<Rightarrow> ('s, 'e, unit) fsm" where
  "journal_call f g =
     (case f (jrnl g) of
        None \<Rightarrow> (Inl Diverges, g)
      | Some (r, j) \<Rightarrow> (r, g\<lparr>jrnl := j\<rparr>))"

definition data_call :: "('s, 'a) st \<Rightarrow> ('s, 'e, 'a) fsm" where
  "data_call f g = (case f (data_pool g) of (r, s) \<Rightarrow> (r, g\<lparr>data_pool := s\<rparr>))"

section \<open>Calls to the leader of a directory\<close>

text \<open>
  The three calls of \<^verbatim>\<open>rpc_client\<close> that the tables and the remote inodes make themselves.  They turn a
  refusal or a failure into an exception.
\<close>

definition improper_leader :: exn where
  "improper_leader = Runtime_error ''ACCESS IMPROPER LEADER''"

definition rc_check_child_inode ::
  "('s, 'e) world \<Rightarrow> string \<Rightarrow> uuid \<Rightarrow> string \<Rightarrow> 'e \<Rightarrow> uuid result \<times> 'e" where
  "rc_check_child_inode W address dentry_table_ino filename e =
     (case w_rpc W address (Rpc_check_child_inode (ino_to_wire dentry_table_ino) filename) e of
        (Some out, e') \<Rightarrow>
          (if rsp_ret out = - ENOTLEADER then Inl improper_leader else Inr (wire_to_ino (rsp_ino out)), e')
      | (None, e') \<Rightarrow> (Inl (Runtime_error ''rpc_client::check_child_inode() failed''), e'))"

definition rc_get_mode ::
  "('s, 'e) world \<Rightarrow> string \<Rightarrow> uuid \<Rightarrow> string \<Rightarrow> 'e \<Rightarrow> 32 word result \<times> 'e" where
  "rc_get_mode W address dentry_table_ino filename e =
     (case w_rpc W address (Rpc_get_mode (ino_to_wire dentry_table_ino) filename) e of
        (Some out, e') \<Rightarrow>
          (if rsp_ret out = - ENOTLEADER then Inl improper_leader else Inr (rsp_mode out), e')
      | (None, e') \<Rightarrow> (Inl (Runtime_error ''rpc_client::get_mode() failed''), e'))"

definition rc_permission_check ::
  "('s, 'e) world \<Rightarrow> string \<Rightarrow> uuid \<Rightarrow> string \<Rightarrow> 32 word \<Rightarrow> bool \<Rightarrow> 'e \<Rightarrow> unit result \<times> 'e" where
  "rc_permission_check W address dentry_table_ino filename amask target_is_parent e =
     (case w_rpc W address (Rpc_permission_check (ino_to_wire dentry_table_ino) filename amask target_is_parent) e of
        (Some out, e') \<Rightarrow>
          (if rsp_ret out = - ENOTLEADER then Inl improper_leader
           else if rsp_ret out = - EACCES then Inl Permission_denied
           else Inr (), e')
      | (None, e') \<Rightarrow> (Inl (Runtime_error ''rpc_client::permission_check() failed''), e'))"

section \<open>Virtual member functions\<close>

definition get_mode :: "('s, 'e) world \<Rightarrow> nat \<Rightarrow> ('s, 'e, 32 word) fsm" where
  "get_mode W x g =
     (case inodes g x of
        Inode i \<Rightarrow> (Inr (i_mode (core i)), g)
      | Remote i r \<Rightarrow>
          bindE (remote_call (rc_get_mode W (r_leader_ip r) (r_dentry_table_ino r) (r_file_name r)))
            (\<lambda>m. bindE (update_core x (\<lambda>c. c\<lparr>i_mode := m\<rparr>)) (\<lambda>_. returnE m)) g)"

definition check_permission :: "('s, 'e) world \<Rightarrow> nat \<Rightarrow> 32 word \<Rightarrow> ('s, 'e, unit) fsm" where
  "check_permission W x amask g =
     (case inodes g x of
        Inode i \<Rightarrow>
          (permission_check (client_uid (this_client g)) (client_gid (this_client g)) amask i, g)
      | Remote i r \<Rightarrow>
          remote_call (rc_permission_check W (r_leader_ip r) (r_dentry_table_ino r) (r_file_name r)
            amask (r_target_is_parent r)) g)"

section \<open>Open file handles\<close>

definition EIO :: int where "EIO = 5"

definition file_handler_new :: "uuid \<Rightarrow> file_handler" where
  "file_handler_new ino = \<lparr>fh_ino = ino, fh_loc = None, fhno = 0, fh_i = None, fh_remote_i = None\<rparr>"

text \<open>The location of a handle has no value until it is set: \<open>None\<close>, and reading it is undefined.\<close>

definition get_open_inode_info :: "file_handler \<Rightarrow> nat option result" where
  "get_open_inode_info fh =
     (case fh_loc fh of
        None \<Rightarrow> Inl Undefined_behaviour
      | Some LOCAL \<Rightarrow> Inr (fh_i fh)
      | Some REMOTE \<Rightarrow> Inr (fh_remote_i fh)
      | Some _ \<Rightarrow> Inl (Runtime_error ''file_handler is corrupted : cannot know loc of opened file''))"

definition add_file_handler :: "64 word \<Rightarrow> file_handler \<Rightarrow> ('s, 'e, unit) fsm" where
  "add_file_handler key fh g =
     (case fh_list g key of
        None \<Rightarrow> (Inr (), g\<lparr>fh_list := (fh_list g)(key \<mapsto> fh)\<rparr>)
      | Some _ \<Rightarrow> (Inl (Runtime_error ''file_handler is corrupted : cannot add file_handler to list''), g))"

definition get_file_handler :: "64 word \<Rightarrow> ('s, 'e, file_handler) fsm" where
  "get_file_handler key g =
     (case fh_list g key of
        None \<Rightarrow> (Inl (Runtime_error ''file_handler is corrupted : cannot get file_handler from list''), g)
      | Some fh \<Rightarrow> (Inr fh, g))"

definition delete_file_handler :: "64 word \<Rightarrow> ('s, 'e, int) fsm" where
  "delete_file_handler key g =
     (case fh_list g key of
        None \<Rightarrow> (Inr (- EIO), g)
      | Some _ \<Rightarrow> (Inr 0, g\<lparr>fh_list := (fh_list g)(key := None)\<rparr>))"

end
