(* ===== verification/Dentry_Table.thy ===== *)
theory Dentry_Table
  imports Fs_State
begin

text \<open>
  The in-memory table of one directory (\<^verbatim>\<open>client/in_memory/dentry_table.cpp\<close>): a local table holds
  the directory's inode, its entries and the inode objects of its children; a remote one only names
  the client that leads the directory.  The contract the operations above rely on is the locale
  \<open>directory_ops\<close>, interpreted on the operations of this table.
\<close>

section \<open>Construction\<close>

definition empty_table :: "uuid \<Rightarrow> meta_location \<Rightarrow> dentry_table" where
  "empty_table ino l =
     \<lparr>dir_ino = ino, this_dir_inode = None, dt_dentries = None, child_inodes = Map.empty,
      dt_loc = l, leader_ip = []\<rparr>"

definition dentry_table_new :: "('s, 'e) world \<Rightarrow> uuid \<Rightarrow> meta_location \<Rightarrow> ('s, 'e, nat) fsm" where
  "dentry_table_new W ino l g =
     (if l = LOCAL then
        (case inode_pull (w_pool W) (meta (jrnl g)) (w_raw W) ino of
           Inl e \<Rightarrow> (Inl e, g)
         | Inr i \<Rightarrow>
             bindE (new_iobj (Inode (i\<lparr>loc := LOCAL\<rparr>)))
               (\<lambda>x. new_dtable ((empty_table ino l)\<lparr>this_dir_inode := Some x\<rparr>)) g)
      else new_dtable (empty_table ino l) g)"

text \<open>The table of a directory that was just made; \<open>raw_ino\<close> is an uninitialised number.\<close>

definition dentry_table_new_dir ::
  "uuid \<Rightarrow> nat \<Rightarrow> dentry \<Rightarrow> meta_location \<Rightarrow> ('s, 'e, nat) fsm" where
  "dentry_table_new_dir raw_ino new_dir_inode new_dir_dentry l g =
     (if l = LOCAL then
        bindE (update_inode new_dir_inode (\<lambda>i. i\<lparr>loc := LOCAL\<rparr>))
          (\<lambda>_. new_dtable ((empty_table (ino_of g new_dir_inode) l)
             \<lparr>this_dir_inode := Some new_dir_inode, dt_dentries := Some new_dir_dentry\<rparr>)) g
      else new_dtable (empty_table raw_ino l) g)"

definition set_leader_ip :: "nat \<Rightarrow> string \<Rightarrow> ('s, 'e, unit) fsm" where
  "set_leader_ip t ip = update_dtable t (\<lambda>dt. dt\<lparr>leader_ip := ip\<rparr>)"

section \<open>Children\<close>

text \<open>
  A remote table has no entries: the null pointer is dereferenced.  The child is in the map of inodes
  by then.
\<close>

definition create_child_inode :: "nat \<Rightarrow> string \<Rightarrow> nat \<Rightarrow> ('s, 'e, int) fsm" where
  "create_child_inode t filename x g =
     (case child_inodes (dtables g t) filename of
        None \<Rightarrow>
          bindE (update_dtable t (\<lambda>dt. dt\<lparr>child_inodes := (child_inodes dt)(filename \<mapsto> x)\<rparr>))
            (\<lambda>_ g1. case dt_dentries (dtables g1 t) of
               None \<Rightarrow> (Inl Undefined_behaviour, g1)
             | Some d \<Rightarrow>
                 bindE (update_dtable t (\<lambda>dt. dt\<lparr>dt_dentries := Some (add_child filename (ino_of g1 x) d)\<rparr>))
                   (\<lambda>_. returnE 0) g1) g
      | Some _ \<Rightarrow> (Inr (-1), g))"

definition add_child_inode :: "nat \<Rightarrow> string \<Rightarrow> nat \<Rightarrow> ('s, 'e, int) fsm" where
  "add_child_inode t filename x g =
     (case child_inodes (dtables g t) filename of
        None \<Rightarrow>
          bindE (update_dtable t (\<lambda>dt. dt\<lparr>child_inodes := (child_inodes dt)(filename \<mapsto> x)\<rparr>))
            (\<lambda>_. returnE 0) g
      | Some _ \<Rightarrow> (Inr (-1), g))"

definition delete_child_inode :: "nat \<Rightarrow> string \<Rightarrow> ('s, 'e, int) fsm" where
  "delete_child_inode t filename g =
     (case child_inodes (dtables g t) filename of
        None \<Rightarrow> (Inr (-1), g)
      | Some _ \<Rightarrow>
          bindE (update_dtable t (\<lambda>dt. dt\<lparr>child_inodes := (child_inodes dt)(filename := None)\<rparr>))
            (\<lambda>_ g1. case dt_dentries (dtables g1 t) of
               None \<Rightarrow> (Inl Undefined_behaviour, g1)
             | Some d \<Rightarrow>
                 bindE (update_dtable t (\<lambda>dt. dt\<lparr>dt_dentries := Some (delete_child filename d)\<rparr>))
                   (\<lambda>_. returnE 0) g1) g)"

text \<open>The result \<open>None\<close> is the null pointer.\<close>

definition get_child_inode :: "('s, 'e) world \<Rightarrow> nat \<Rightarrow> string \<Rightarrow> uuid \<Rightarrow> ('s, 'e, nat option) fsm" where
  "get_child_inode W t filename target_ino g =
     (let dt = dtables g t in
      if dt_loc dt = LOCAL then
        (case child_inodes dt filename of
           None \<Rightarrow> (Inl No_entry, g)
         | Some x \<Rightarrow> bindE (update_inode x (\<lambda>i. i\<lparr>loc := LOCAL\<rparr>)) (\<lambda>_. returnE (Some x)) g)
      else if dt_loc dt = REMOTE then
        bindE (new_iobj (remote_inode_new (w_raw W) (leader_ip dt) (dir_ino dt) filename False))
          (\<lambda>x. bindE (update_core x (\<lambda>c. c\<lparr>i_ino := target_ino\<rparr>))
             (\<lambda>_. bindE (update_inode x (\<lambda>i. i\<lparr>loc := REMOTE\<rparr>)) (\<lambda>_. returnE (Some x)))) g
      else (Inr None, g))"

definition check_child_inode :: "('s, 'e) world \<Rightarrow> nat \<Rightarrow> string \<Rightarrow> ('s, 'e, uuid) fsm" where
  "check_child_inode W t filename g =
     (let dt = dtables g t in
      if dt_loc dt = LOCAL then
        (if filename = ''/'' then (Inr get_root_ino, g)
         else
           (case dt_dentries dt of
              None \<Rightarrow> (Inl Undefined_behaviour, g)
            | Some d \<Rightarrow> (Inr (get_child_ino d filename), g)))
      else if dt_loc dt = REMOTE then
        remote_call (rc_check_child_inode W (leader_ip dt) (dir_ino dt) filename) g
      else (Inr nil_uuid, g))"

text \<open>One iteration of \<^verbatim>\<open>pull_child_metadata\<close>, and the whole.\<close>

definition pull_child :: "('s, 'e) world \<Rightarrow> nat \<Rightarrow> string \<times> uuid \<Rightarrow> ('s, 'e, unit) fsm" where
  "pull_child W t p g =
     (case inode_pull (w_pool W) (meta (jrnl g)) (w_raw W) (snd p) of
        Inl e \<Rightarrow> (Inl e, g)
      | Inr i \<Rightarrow>
          bindE (new_iobj (Inode (i\<lparr>p_ino := dir_ino (dtables g t),
                   loc := (if S_ISDIR (i_mode (core i)) then UNKNOWN else LOCAL)\<rparr>)))
            (\<lambda>x. bindE (add_child_inode t (fst p) x) (\<lambda>_. returnE ())) g)"

definition pull_child_metadata :: "('s, 'e) world \<Rightarrow> nat \<Rightarrow> ('s, 'e, int) fsm" where
  "pull_child_metadata W t g =
     (case dentry_new (w_pool W) (meta (jrnl g)) (dir_ino (dtables g t)) False of
        Inl e \<Rightarrow> (Inl e, g)
      | Inr d \<Rightarrow>
          bindE (update_dtable t (\<lambda>dt. dt\<lparr>dt_dentries := Some d\<rparr>))
            (\<lambda>_. bindE (foldE (pull_child W t) (ord_children (w_ords W) (child_list d)))
               (\<lambda>_. returnE 0)) g)"

definition dt_fill_filler :: "('s, 'e) world \<Rightarrow> nat \<Rightarrow> ('s, 'e, string list) fsm" where
  "dt_fill_filler W t g =
     (case dt_dentries (dtables g t) of
        None \<Rightarrow> (Inl Undefined_behaviour, g)
      | Some d \<Rightarrow> (Inr (fill_filler (ord_children (w_ords W)) d), g))"

definition dt_get_child_num :: "('s, 'e) world \<Rightarrow> nat \<Rightarrow> ('s, 'e, nat) fsm" where
  "dt_get_child_num W t g =
     (case dt_dentries (dtables g t) of
        None \<Rightarrow> (Inl Undefined_behaviour, g)
      | Some d \<Rightarrow> (Inr (get_child_num (ord_children (w_ords W)) d), g))"

definition get_this_dir_inode :: "('s, 'e) world \<Rightarrow> nat \<Rightarrow> ('s, 'e, nat option) fsm" where
  "get_this_dir_inode W t g =
     (let dt = dtables g t in
      if dt_loc dt = LOCAL then (Inr (this_dir_inode dt), g)
      else if dt_loc dt = REMOTE then
        bindE (new_iobj (remote_inode_new (w_raw W) (leader_ip dt) (dir_ino dt) [] True))
          (\<lambda>x. bindE (update_core x (\<lambda>c. c\<lparr>i_ino := dir_ino dt\<rparr>))
             (\<lambda>_. bindE (update_inode x (\<lambda>i. i\<lparr>loc := REMOTE\<rparr>)) (\<lambda>_. returnE (Some x)))) g
      else (Inr None, g))"

lemmas heap_ops = new_iobj_def update_inode_def update_core_def new_dtable_def update_dtable_def bindE_def
lemmas dtable_ops = create_child_inode_def add_child_inode_def delete_child_inode_def get_child_inode_def
  check_child_inode_def

section \<open>The contract of a directory table\<close>

text \<open>
  What the file operations rely on, over any state \<open>'g\<close>: \<open>view\<close> is the directory a table stands for,
  \<open>ok\<close> its invariant, \<open>alive\<close> the allocated inodes and \<open>inum\<close> their numbers.
\<close>

locale directory_ops =
  fixes view :: "'g \<Rightarrow> nat \<Rightarrow> string \<rightharpoonup> uuid"
    and ok :: "'g \<Rightarrow> nat \<Rightarrow> bool"
    and alive :: "'g \<Rightarrow> nat \<Rightarrow> bool"
    and inum :: "'g \<Rightarrow> nat \<Rightarrow> uuid"
    and create :: "nat \<Rightarrow> string \<Rightarrow> nat \<Rightarrow> ('g, int) st"
    and delete :: "nat \<Rightarrow> string \<Rightarrow> ('g, int) st"
    and check :: "nat \<Rightarrow> string \<Rightarrow> ('g, uuid) st"
  assumes create_fresh: "ok g t \<Longrightarrow> alive g x \<Longrightarrow> view g t n = None \<Longrightarrow>
      \<exists>g'. create t n x g = (Inr 0, g') \<and> ok g' t \<and> view g' t = (view g t)(n \<mapsto> inum g x) \<and>
        alive g' = alive g \<and> inum g' = inum g"
    and create_taken: "view g t n = Some u \<Longrightarrow> create t n x g = (Inr (-1), g)"
    and delete_present: "ok g t \<Longrightarrow> view g t n = Some u \<Longrightarrow>
      \<exists>g'. delete t n g = (Inr 0, g') \<and> ok g' t \<and> view g' t = (view g t)(n := None) \<and>
        alive g' = alive g \<and> inum g' = inum g"
    and delete_absent: "view g t n = None \<Longrightarrow> delete t n g = (Inr (-1), g)"
    and check_view: "ok g t \<Longrightarrow> n \<noteq> ''/'' \<Longrightarrow>
      check t n g = (Inr (case view g t n of None \<Rightarrow> nil_uuid | Some u \<Rightarrow> u), g)"
begin

lemma create_then_check:
  assumes "ok g t" and "alive g x" and "view g t n = None" and "n \<noteq> ''/''"
  shows "\<exists>g'. bindE (create t n x) (\<lambda>_. check t n) g = (Inr (inum g x), g') \<and> ok g' t \<and>
    view g' t = (view g t)(n \<mapsto> inum g x)"
  using create_fresh [OF assms(1-3)] check_view [OF _ assms(4)] by (auto simp: bindE_def)

lemma delete_then_check:
  assumes "ok g t" and "n \<noteq> ''/''"
  shows "\<exists>g'. bindE (delete t n) (\<lambda>_. check t n) g = (Inr nil_uuid, g') \<and> ok g' t \<and>
    view g' t = (view g t)(n := None)"
proof (cases "view g t n")
  case None
  then show ?thesis using delete_absent check_view [OF assms] assms(1) by (auto simp: bindE_def)
next
  case (Some u)
  from delete_present [OF assms(1) this] check_view [OF _ assms(2)] show ?thesis
    by (auto simp: bindE_def)
qed

lemma delete_any:
  assumes "ok g t"
  shows "\<exists>r g'. delete t n g = (Inr r, g') \<and> ok g' t \<and> view g' t = (view g t)(n := None) \<and>
    alive g' = alive g \<and> inum g' = inum g"
proof (cases "view g t n")
  case None
  then show ?thesis using delete_absent assms by (auto simp: fun_upd_idem)
next
  case (Some u)
  from delete_present [OF assms this] show ?thesis by blast
qed

text \<open>Renaming within a table as the code does it: remove the target, remove the source, enter again.\<close>

lemma rename_within:
  assumes "ok g t" and "alive g x" and "view g t old = Some u" and "inum g x = u"
  shows "\<exists>g'. bindE (delete t new) (\<lambda>_. bindE (delete t old) (\<lambda>_. create t new x)) g = (Inr 0, g') \<and>
    ok g' t \<and> view g' t = (view g t)(old := None, new \<mapsto> u)"
proof -
  obtain r1 g1 where 1: "delete t new g = (Inr r1, g1)" "ok g1 t" "view g1 t = (view g t)(new := None)"
    "alive g1 = alive g" "inum g1 = inum g" using delete_any [OF assms(1)] by blast
  obtain r2 g2 where 2: "delete t old g1 = (Inr r2, g2)" "ok g2 t" "view g2 t = (view g1 t)(old := None)"
    "alive g2 = alive g1" "inum g2 = inum g1" using delete_any [OF 1(2)] by blast
  have "alive g2 x" and "view g2 t new = None" using assms(2) 1 2 by simp_all
  from create_fresh [OF 2(2) this] obtain g3 where
    3: "create t new x g2 = (Inr 0, g3)" "ok g3 t" "view g3 t = (view g2 t)(new \<mapsto> inum g2 x)" by blast
  then show ?thesis using 1 2 assms(4) by (auto simp: bindE_def fun_eq_iff)
qed

end

section \<open>Coherence\<close>

text \<open>
  A local table is coherent when its directory inode is there and the two maps it keeps, names to
  inode objects and names to numbers, agree.
\<close>

definition listing :: "('s, 'e) fs \<Rightarrow> nat \<Rightarrow> string \<rightharpoonup> uuid" where
  "listing g t = (\<lambda>n. map_option (ino_of g) (child_inodes (dtables g t) n))"

definition coherent :: "('s, 'e) fs \<Rightarrow> nat \<Rightarrow> bool" where
  "coherent g t \<longleftrightarrow>
     dt_loc (dtables g t) = LOCAL \<and>
     (\<exists>x. this_dir_inode (dtables g t) = Some x \<and> x < inode_next g \<and> ino_of g x = dir_ino (dtables g t)) \<and>
     (\<exists>d. dt_dentries (dtables g t) = Some d \<and> child_list d = listing g t) \<and>
     (\<forall>n x. child_inodes (dtables g t) n = Some x \<longrightarrow> x < inode_next g)"

lemma ino_of_simps [simp]:
  "ino_of (g\<lparr>dtables := a\<rparr>) = ino_of g" "ino_of (g\<lparr>dtable_next := n\<rparr>) = ino_of g"
  "ino_of (g\<lparr>dentry_tables := b\<rparr>) = ino_of g"
  by (simp_all add: ino_of_def inode_at_def fun_eq_iff)

lemma listing_None: "listing g t n = None \<longleftrightarrow> child_inodes (dtables g t) n = None"
  by (simp add: listing_def)

lemma listing_Some: "listing g t n = Some u \<Longrightarrow> \<exists>x. child_inodes (dtables g t) n = Some x \<and> ino_of g x = u"
  by (auto simp: listing_def)

lemma create_child_fresh:
  assumes "coherent g t" and "x < inode_next g" and "listing g t n = None"
  shows "\<exists>g'. create_child_inode t n x g = (Inr 0, g') \<and> coherent g' t \<and>
    listing g' t = (listing g t)(n \<mapsto> ino_of g x) \<and> inode_next g' = inode_next g \<and> ino_of g' = ino_of g \<and>
    g' = g\<lparr>dtables := dtables g'\<rparr> \<and> (\<forall>t'. t' \<noteq> t \<longrightarrow> dtables g' t' = dtables g t') \<and>
    dir_ino (dtables g' t) = dir_ino (dtables g t) \<and> child_inodes (dtables g' t) = (child_inodes (dtables g t))(n \<mapsto> x)"
  using assms
  by (auto simp: create_child_inode_def coherent_def listing_None heap_ops dentry.lookup_enter)
    (auto simp: listing_def fun_eq_iff)

lemma delete_child_present:
  assumes "coherent g t" and "listing g t n = Some u"
  shows "\<exists>g'. delete_child_inode t n g = (Inr 0, g') \<and> coherent g' t \<and>
    listing g' t = (listing g t)(n := None) \<and> inode_next g' = inode_next g \<and> ino_of g' = ino_of g \<and>
    g' = g\<lparr>dtables := dtables g'\<rparr> \<and> (\<forall>t'. t' \<noteq> t \<longrightarrow> dtables g' t' = dtables g t') \<and>
    dir_ino (dtables g' t) = dir_ino (dtables g t) \<and> child_inodes (dtables g' t) = (child_inodes (dtables g t))(n := None)"
proof -
  obtain x where "child_inodes (dtables g t) n = Some x" using listing_Some [OF assms(2)] by auto
  then show ?thesis using assms(1)
    by (auto simp: delete_child_inode_def coherent_def heap_ops dentry.lookup_leave)
      (auto simp: listing_def fun_eq_iff)
qed

interpretation dt: directory_ops listing coherent "\<lambda>g x. x < inode_next g" ino_of
  create_child_inode delete_child_inode "check_child_inode (W :: ('s, 'e) world)"
proof unfold_locales
  fix g :: "('s, 'e) fs" and t x n u
  show "\<exists>g'. create_child_inode t n x g = (Inr 0, g') \<and> coherent g' t \<and>
      listing g' t = (listing g t)(n \<mapsto> ino_of g x) \<and>
      (\<lambda>x. x < inode_next g') = (\<lambda>x. x < inode_next g) \<and> ino_of g' = ino_of g"
    if "coherent g t" "x < inode_next g" "listing g t n = None"
    using create_child_fresh [OF that] by force
  show "create_child_inode t n x g = (Inr (-1), g)" if "listing g t n = Some u"
    using listing_Some [OF that] by (auto simp: create_child_inode_def)
  show "\<exists>g'. delete_child_inode t n g = (Inr 0, g') \<and> coherent g' t \<and>
      listing g' t = (listing g t)(n := None) \<and>
      (\<lambda>x. x < inode_next g') = (\<lambda>x. x < inode_next g) \<and> ino_of g' = ino_of g"
    if "coherent g t" "listing g t n = Some u"
    using delete_child_present [OF that] by force
  show "delete_child_inode t n g = (Inr (-1), g)" if "listing g t n = None"
    using that by (simp add: delete_child_inode_def listing_None)
  show "check_child_inode W t n g = (Inr (case listing g t n of None \<Rightarrow> nil_uuid | Some u \<Rightarrow> u), g)"
    if "coherent g t" "n \<noteq> ''/''"
    using that by (auto simp: check_child_inode_def coherent_def get_child_ino_def Let_def)
qed

section \<open>Loading\<close>

text \<open>
  Loading the children: \<open>pulled\<close> lists the state after the first entries.  The loop allocates one
  object per child and registers it under its name.
\<close>

definition pulled_child :: "('s, 'e) world \<Rightarrow> ('s, 'e) fs \<Rightarrow> nat \<Rightarrow> uuid \<Rightarrow> iobj \<Rightarrow> bool" where
  "pulled_child W g t u ob \<longleftrightarrow>
     (\<exists>i. inode_pull (w_pool W) (meta (jrnl g)) (w_raw W) u = Inr i \<and>
        ob = Inode (i\<lparr>p_ino := dir_ino (dtables g t),
               loc := (if S_ISDIR (i_mode (core i)) then UNKNOWN else LOCAL)\<rparr>))"

definition stored_child :: "('s, 'e) world \<Rightarrow> 's \<Rightarrow> uuid \<Rightarrow> bool" where
  "stored_child W s u \<longleftrightarrow> (\<exists>i. inode_pull (w_pool W) s (w_raw W) u = Inr i \<and> i_ino (core i) = u)"

text \<open>What the loop keeps of the state, and what it has registered after the entries \<open>ps\<close>.\<close>

definition pull_frame :: "nat \<Rightarrow> ('s, 'e) fs \<Rightarrow> ('s, 'e) fs \<Rightarrow> bool" where
  "pull_frame t g g' \<longleftrightarrow>
     (\<exists>a n b. g' = g\<lparr>inodes := a, inode_next := n, dtables := b\<rparr>) \<and>
     inode_next g \<le> inode_next g' \<and> (\<forall>x < inode_next g. inodes g' x = inodes g x) \<and>
     (\<forall>t'. t' \<noteq> t \<longrightarrow> dtables g' t' = dtables g t') \<and>
     (\<exists>c. dtables g' t = (dtables g t)\<lparr>child_inodes := c\<rparr>)"

lemma pull_frame_refl [simp]: "pull_frame t g g"
proof -
  have "g = g\<lparr>inodes := inodes g, inode_next := inode_next g, dtables := dtables g\<rparr>" by simp
  moreover have "dtables g t = (dtables g t)\<lparr>child_inodes := child_inodes (dtables g t)\<rparr>" by simp
  ultimately show ?thesis unfolding pull_frame_def by blast
qed

lemma pull_frame_trans:
  assumes "pull_frame t g g1" and "pull_frame t g1 g2"
  shows "pull_frame t g g2"
proof -
  from assms obtain a n b a' n' b' c c' where
    *: "g1 = g\<lparr>inodes := a, inode_next := n, dtables := b\<rparr>"
      "g2 = g1\<lparr>inodes := a', inode_next := n', dtables := b'\<rparr>"
      "dtables g1 t = (dtables g t)\<lparr>child_inodes := c\<rparr>"
      "dtables g2 t = (dtables g1 t)\<lparr>child_inodes := c'\<rparr>"
    unfolding pull_frame_def by blast
  have "g2 = g\<lparr>inodes := a', inode_next := n', dtables := b'\<rparr>" unfolding *(2) unfolding *(1) by simp
  moreover have "dtables g2 t = (dtables g t)\<lparr>child_inodes := c'\<rparr>" unfolding *(4) unfolding *(3) by simp
  moreover have "inode_next g \<le> inode_next g2" "\<forall>x < inode_next g. inodes g2 x = inodes g x"
    "\<forall>t'. t' \<noteq> t \<longrightarrow> dtables g2 t' = dtables g t'"
    using assms unfolding pull_frame_def by simp_all
  ultimately show ?thesis unfolding pull_frame_def by blast
qed

lemma pull_frame_simps:
  assumes "pull_frame t g g'"
  shows "meta (jrnl g') = meta (jrnl g)" "dir_ino (dtables g' t) = dir_ino (dtables g t)"
    "dt_dentries (dtables g' t) = dt_dentries (dtables g t)" "dt_loc (dtables g' t) = dt_loc (dtables g t)"
    "this_dir_inode (dtables g' t) = this_dir_inode (dtables g t)" "dentry_tables g' = dentry_tables g"
    "leader_ip (dtables g' t) = leader_ip (dtables g t)" "leases g' = leases g" "dtable_next g' = dtable_next g"
  using assms unfolding pull_frame_def by auto

lemma pull_child_ok:
  assumes "stored_child W (meta (jrnl g)) u" and "child_inodes (dtables g t) n = None"
  shows "\<exists>g'. pull_child W t (n, u) g = (Inr (), g') \<and> pull_frame t g g' \<and>
    child_inodes (dtables g' t) = (child_inodes (dtables g t))(n \<mapsto> inode_next g) \<and>
    inode_next g' = Suc (inode_next g) \<and> pulled_child W g t u (inodes g' (inode_next g)) \<and>
    ino_of g' (inode_next g) = u"
proof -
  from assms(1) obtain i where i: "inode_pull (w_pool W) (meta (jrnl g)) (w_raw W) u = Inr i" "i_ino (core i) = u"
    unfolding stored_child_def by blast
  show ?thesis
    using i assms(2)
    by (auto simp: pull_child_def heap_ops add_child_inode_def pull_frame_def pulled_child_def ino_of_def inode_at_def)
qed

lemma pull_children_ok:
  assumes "\<forall>(n, u) \<in> set ps. stored_child W (meta (jrnl g)) u \<and> child_inodes (dtables g t) n = None"
    and "distinct (map fst ps)"
  shows "\<exists>g'. foldE (pull_child W t) ps g = (Inr (), g') \<and> pull_frame t g g' \<and>
    (\<forall>n. n \<notin> fst ` set ps \<longrightarrow> child_inodes (dtables g' t) n = child_inodes (dtables g t) n) \<and>
    (\<forall>(n, u) \<in> set ps. \<exists>x. child_inodes (dtables g' t) n = Some x \<and> inode_next g \<le> x \<and> x < inode_next g' \<and>
       pulled_child W g t u (inodes g' x) \<and> ino_of g' x = u)"
  using assms
proof (induction ps arbitrary: g)
  case Nil
  then show ?case by simp
next
  case (Cons p ps)
  obtain n u where p: "p = (n, u)" by fastforce
  from Cons.prems(1) p have "stored_child W (meta (jrnl g)) u" "child_inodes (dtables g t) n = None" by auto
  from pull_child_ok [OF this] obtain g1 where
    g1: "pull_child W t (n, u) g = (Inr (), g1)" "pull_frame t g g1"
      "child_inodes (dtables g1 t) = (child_inodes (dtables g t))(n \<mapsto> inode_next g)"
      "inode_next g1 = Suc (inode_next g)" "pulled_child W g t u (inodes g1 (inode_next g))"
      "ino_of g1 (inode_next g) = u" by blast
  note f1 = pull_frame_simps [OF g1(2)]
  have "\<forall>(n, u) \<in> set ps. stored_child W (meta (jrnl g1)) u \<and> child_inodes (dtables g1 t) n = None"
    using Cons.prems p f1(1) g1(3) by (fastforce simp: image_iff)
  moreover have "distinct (map fst ps)" using Cons.prems(2) by simp
  ultimately obtain g2 where
    g2: "foldE (pull_child W t) ps g1 = (Inr (), g2)" "pull_frame t g1 g2"
      "\<forall>n. n \<notin> fst ` set ps \<longrightarrow> child_inodes (dtables g2 t) n = child_inodes (dtables g1 t) n"
      "\<forall>(n, u) \<in> set ps. \<exists>x. child_inodes (dtables g2 t) n = Some x \<and> inode_next g1 \<le> x \<and> x < inode_next g2 \<and>
         pulled_child W g1 t u (inodes g2 x) \<and> ino_of g2 x = u"
    using Cons.IH [of g1] by blast
  have le: "inode_next g1 \<le> inode_next g2" "inodes g2 (inode_next g) = inodes g1 (inode_next g)"
    using g2(2) g1(4) unfolding pull_frame_def by simp_all
  have same: "pulled_child W g1 t v ob = pulled_child W g t v ob" for v ob
    by (simp add: pulled_child_def f1)
  have "n \<notin> fst ` set ps" using Cons.prems(2) p by simp
  then have head: "child_inodes (dtables g2 t) n = Some (inode_next g)" using g2(3) g1(3) by simp
  have ino: "ino_of g2 (inode_next g) = u" using g1(6) le(2) by (simp add: ino_of_def inode_at_def)
  show ?case
  proof (intro exI [of _ g2] conjI)
    show "foldE (pull_child W t) (p # ps) g = (Inr (), g2)" using g1(1) g2(1) p by simp
    show "pull_frame t g g2" by (rule pull_frame_trans [OF g1(2) g2(2)])
    show "\<forall>m. m \<notin> fst ` set (p # ps) \<longrightarrow> child_inodes (dtables g2 t) m = child_inodes (dtables g t) m"
      using g2(3) g1(3) p by simp
    show "\<forall>(n, u) \<in> set (p # ps). \<exists>x. child_inodes (dtables g2 t) n = Some x \<and> inode_next g \<le> x \<and>
        x < inode_next g2 \<and> pulled_child W g t u (inodes g2 x) \<and> ino_of g2 x = u"
      using head ino g1(4,5) le g2(4) p by (fastforce simp: same)
  qed
qed

text \<open>The whole of \<^verbatim>\<open>pull_child_metadata\<close> on a new local table.\<close>

lemma pull_child_metadata_ok:
  assumes it: "iteration (ord_children (w_ords W))"
    and d: "dentry_new (w_pool W) (meta (jrnl g)) (dir_ino (dtables g t)) False = Inr d"
    and fin: "finite (dom (child_list d))"
    and ch: "\<forall>u \<in> ran (child_list d). stored_child W (meta (jrnl g)) u"
    and new: "child_inodes (dtables g t) = Map.empty" "dt_loc (dtables g t) = LOCAL"
      "this_dir_inode (dtables g t) = Some self" "self < inode_next g" "ino_of g self = dir_ino (dtables g t)"
  shows "\<exists>g'. pull_child_metadata W t g = (Inr 0, g') \<and> coherent g' t \<and> listing g' t = child_list d \<and>
    pull_frame t (g\<lparr>dtables := (dtables g)(t := (dtables g t)\<lparr>dt_dentries := Some d\<rparr>)\<rparr>) g' \<and>
    (\<forall>n u. child_list d n = Some u \<longrightarrow>
       (\<exists>x. child_inodes (dtables g' t) n = Some x \<and> pulled_child W g t u (inodes g' x)))"
proof -
  let ?ps = "ord_children (w_ords W) (child_list d)"
  let ?g = "g\<lparr>dtables := (dtables g)(t := (dtables g t)\<lparr>dt_dentries := Some d\<rparr>)\<rparr>"
  have ps: "map_of ?ps = child_list d" "distinct (map fst ?ps)"
    using it fin by (simp_all add: iteration_def)
  have mem: "(n, u) \<in> set ?ps \<longleftrightarrow> child_list d n = Some u" for n u
    using ps by (metis map_of_eq_Some_iff)
  have "\<forall>(n, u) \<in> set ?ps. stored_child W (meta (jrnl ?g)) u \<and> child_inodes (dtables ?g t) n = None"
    using mem ch new(1) by (auto simp: ran_def)
  from pull_children_ok [OF this ps(2)] obtain g' where
    g': "foldE (pull_child W t) ?ps ?g = (Inr (), g')" "pull_frame t ?g g'"
      "\<forall>n. n \<notin> fst ` set ?ps \<longrightarrow> child_inodes (dtables g' t) n = child_inodes (dtables ?g t) n"
      "\<forall>(n, u) \<in> set ?ps. \<exists>x. child_inodes (dtables g' t) n = Some x \<and> inode_next ?g \<le> x \<and> x < inode_next g' \<and>
       pulled_child W ?g t u (inodes g' x) \<and> ino_of g' x = u" by blast
  have some: "\<exists>x. child_inodes (dtables g' t) n = Some x \<and> x < inode_next g' \<and>
      pulled_child W ?g t u (inodes g' x) \<and> ino_of g' x = u" if "child_list d n = Some u" for n u
    using g'(4) mem that by fastforce
  have none: "child_inodes (dtables g' t) n = None" if "child_list d n = None" for n
  proof -
    have "n \<notin> fst ` set ?ps" using mem that by fastforce
    then show ?thesis using g'(3) new(1) by simp
  qed
  have lst: "listing g' t = child_list d"
  proof
    fix n
    show "listing g' t n = child_list d n"
    proof (cases "child_list d n")
      case None
      then show ?thesis using none by (simp add: listing_def)
    next
      case (Some u)
      from some [OF this] Some show ?thesis by (auto simp: listing_def)
    qed
  qed
  have bound: "x < inode_next g'" if "child_inodes (dtables g' t) n = Some x" for n x
  proof (cases "child_list d n")
    case None
    then show ?thesis using none that by simp
  next
    case (Some u)
    from some [OF this] that show ?thesis by auto
  qed
  have self: "self < inode_next g'" "ino_of g' self = dir_ino (dtables g t)"
    using g'(2) new(4,5) unfolding pull_frame_def by (auto simp: ino_of_def inode_at_def)
  have "coherent g' t"
    using pull_frame_simps [OF g'(2)] new self bound lst by (auto simp: coherent_def fun_eq_iff)
  moreover have "pull_child_metadata W t g = (Inr 0, g')"
    using d g'(1) by (simp add: pull_child_metadata_def update_dtable_def bindE_def)
  moreover have same: "pulled_child W ?g t = pulled_child W g t" by (simp add: pulled_child_def fun_eq_iff)
  moreover have "\<forall>n u. child_list d n = Some u \<longrightarrow>
      (\<exists>x. child_inodes (dtables g' t) n = Some x \<and> pulled_child W g t u (inodes g' x))"
    using some unfolding same by blast
  ultimately show ?thesis using lst g'(2) by blast
qed

end
