(* ===== verification/Directory_Table.thy ===== *)
theory Directory_Table
  imports Dentry_Table Util_Path
begin

text \<open>
  The index of directory tables (\<^verbatim>\<open>client/in_memory/directory_table.cpp\<close>): finding the table of a
  directory, which acquires the lease and loads or delegates when it has none that is valid, and
  resolving a path.
\<close>

section \<open>Leases of this client\<close>

text \<open>\<^verbatim>\<open>lc->acquire\<close> and \<^verbatim>\<open>lc->is_valid\<close> on the client's state; \<open>a\<close> is the caller's address variable.\<close>

definition lc_acquire :: "('s, 'e) world \<Rightarrow> uuid \<Rightarrow> string \<Rightarrow> ('s, 'e, int \<times> string) fsm" where
  "lc_acquire W ino a =
     bindE read_clock (\<lambda>now g.
       case lease_client_acquire (w_manager W) now (w_self W) ino a (leases g, env g) of
         (r, (tbl, e)) \<Rightarrow> (r, g\<lparr>leases := tbl, env := e\<rparr>))"

definition lc_is_valid :: "uuid \<Rightarrow> ('s, 'e, bool) fsm" where
  "lc_is_valid ino = bindE read_clock (\<lambda>now g. (Inr (is_valid now ino (leases g)), g))"

section \<open>The index\<close>

definition add_dentry_table :: "uuid \<Rightarrow> nat \<Rightarrow> ('s, 'e, int) fsm" where
  "add_dentry_table ino t g =
     (case dentry_tables g ino of
        None \<Rightarrow> (Inr 0, g\<lparr>dentry_tables := (dentry_tables g)(ino \<mapsto> t)\<rparr>)
      | Some _ \<Rightarrow> (Inr (-1), g))"

definition delete_dentry_table :: "uuid \<Rightarrow> ('s, 'e, int) fsm" where
  "delete_dentry_table ino g =
     (case dentry_tables g ino of
        None \<Rightarrow> (Inr (-1), g)
      | Some _ \<Rightarrow> (Inr 0, g\<lparr>dentry_tables := (dentry_tables g)(ino := None)\<rparr>))"

definition lease_dentry_table :: "('s, 'e) world \<Rightarrow> uuid \<Rightarrow> ('s, 'e, nat option) fsm" where
  "lease_dentry_table W ino =
     bindE (lc_acquire W ino []) (\<lambda>(r, temp_address).
       if r = 0 then
         bindE (dentry_table_new W ino LOCAL) (\<lambda>t.
         bindE (set_leader_ip t temp_address) (\<lambda>_.
         bindE (pull_child_metadata W t) (\<lambda>_.
         bindE (add_dentry_table ino t) (\<lambda>_. returnE (Some t)))))
       else if r = -1 then
         bindE (dentry_table_new W ino REMOTE) (\<lambda>t.
         bindE (set_leader_ip t temp_address) (\<lambda>_.
         bindE (add_dentry_table ino t) (\<lambda>_. returnE (Some t))))
       else returnE None)"

definition lease_dentry_table_mkdir :: "('s, 'e) world \<Rightarrow> nat \<Rightarrow> dentry \<Rightarrow> ('s, 'e, nat option) fsm" where
  "lease_dentry_table_mkdir W new_dir_inode new_dir_dentry g0 =
     (let ino = ino_of g0 new_dir_inode in
      bindE (lc_acquire W ino []) (\<lambda>(r, temp_address).
        if r = 0 then
          bindE (dentry_table_new_dir (p_ino (w_raw W)) new_dir_inode new_dir_dentry LOCAL) (\<lambda>t.
          bindE (set_leader_ip t temp_address) (\<lambda>_.
          bindE (add_dentry_table ino t) (\<lambda>_. returnE (Some t))))
        else if r = -1 then throwE (Runtime_error ''New directory should have local dentry table'')
        else returnE None) g0)"

definition get_dentry_table :: "('s, 'e) world \<Rightarrow> uuid \<Rightarrow> bool \<Rightarrow> ('s, 'e, nat option) fsm" where
  "get_dentry_table W ino remote g =
     (if remote then
        (case dentry_tables g ino of
           Some t \<Rightarrow>
             bindE (lc_is_valid ino) (\<lambda>valid.
               if valid then returnE (Some t)
               else bindE (delete_dentry_table ino) (\<lambda>_. throwE Not_leader)) g
         | None \<Rightarrow> (Inl Not_leader, g))
      else
        (case dentry_tables g ino of
           Some t \<Rightarrow>
             bindE (lc_is_valid ino) (\<lambda>valid.
               if valid then returnE (Some t)
               else bindE (delete_dentry_table ino) (\<lambda>_. lease_dentry_table W ino)) g
         | None \<Rightarrow> lease_dentry_table W ino g))"

definition directory_table_new :: "('s, 'e) world \<Rightarrow> ('s, 'e, unit) fsm" where
  "directory_table_new W = bindE (get_dentry_table W get_root_ino False) (\<lambda>_. returnE ())"

text \<open>The pointer to a table or inode that the code dereferences without a test.\<close>

definition deref :: "nat option \<Rightarrow> ('s, 'e, nat) fsm" where
  "deref p = (case p of None \<Rightarrow> throwE Undefined_behaviour | Some x \<Rightarrow> returnE x)"

definition find_remote_dentry_table_again :: "('s, 'e) world \<Rightarrow> nat \<Rightarrow> ('s, 'e, unit) fsm" where
  "find_remote_dentry_table_again W remote_i g =
     (case inodes g remote_i of
        Inode _ \<Rightarrow> (Inl Undefined_behaviour, g)
      | Remote _ r \<Rightarrow>
          bindE (get_dentry_table W (r_dentry_table_ino r) False) (\<lambda>p.
          bindE (deref p) (\<lambda>t g1.
            (case inodes g1 remote_i of
               Inode _ \<Rightarrow> (Inl Undefined_behaviour, g1)
             | Remote i r1 \<Rightarrow>
                 (Inr (), g1\<lparr>inodes := (inodes g1)(remote_i := Remote i (r1\<lparr>r_leader_ip := leader_ip (dtables g1 t)\<rparr>))\<rparr>)))) g)"

section \<open>Path resolution\<close>

text \<open>
  \<^verbatim>\<open>set_name_bound\<close>: the loop stops at the next delimiter or at the end of the path; \<open>None\<close> is the
  return value \<open>-1\<close>.  The arithmetic is on \<^verbatim>\<open>int\<close>.
\<close>

function scan_name :: "string \<Rightarrow> int \<Rightarrow> int \<Rightarrow> int" where
  "scan_name path path_len i =
     (if i < path_len then
        (if path ! nat i = path_delimiter then i else scan_name path path_len (i + 1))
      else i)"
  by pat_completeness auto
termination
  by (relation "measure (\<lambda>(path, path_len, i). nat (path_len - i))") auto

declare scan_name.simps [simp del]

definition set_name_bound :: "int \<Rightarrow> string \<Rightarrow> int \<Rightarrow> (int \<times> int) option" where
  "set_name_bound end_name path path_len =
     (let start_name = end_name + 2 in
      if path_len \<le> start_name then None
      else Some (start_name, scan_name path path_len start_name - 1))"

lemma scan_name_ge: "i \<le> scan_name path path_len i"
proof (induction path path_len i rule: scan_name.induct)
  case (1 path path_len i)
  then show ?case by (subst scan_name.simps) force
qed

lemma set_name_bound_progress:
  "set_name_bound end_name path path_len = Some (start_name, end_name') \<Longrightarrow>
    start_name = end_name + 2 \<and> start_name < path_len \<and> end_name < end_name'"
  using scan_name_ge [of start_name path path_len]
  by (auto simp: set_name_bound_def Let_def split: if_splits)

definition substr :: "string \<Rightarrow> int \<Rightarrow> int \<Rightarrow> string" where
  "substr path start_name end_name = take (nat (end_name - start_name + 1)) (drop (nat start_name) path)"

text \<open>One round of the loop: the new parent table and target.\<close>

definition traverse_step :: "('s, 'e) world \<Rightarrow> string \<Rightarrow> nat \<Rightarrow> ('s, 'e, nat \<times> nat) fsm" where
  "traverse_step W target_name parent =
     bindE (check_child_inode W parent target_name) (\<lambda>check_target_ino.
       if is_nil check_target_ino then throwE No_entry
       else
         bindE (get_child_inode W parent target_name check_target_ino) (\<lambda>ti.
           case ti of
             None \<Rightarrow> throwE (Runtime_error ''Failed to make remote_inode in path_traversal()'')
           | Some x \<Rightarrow>
               bindE (get_mode W x) (\<lambda>m.
                 if S_ISDIR m then
                   bindE (get_dentry_table W check_target_ino False) (\<lambda>pt.
                   bindE (deref pt) (\<lambda>parent'.
                   bindE (get_this_dir_inode W parent') (\<lambda>ti'.
                   bindE (deref ti') (\<lambda>y.
                   bindE (check_permission W y X_OK) (\<lambda>_. returnE (parent', y))))))
                 else returnE (parent, x))))"

function traverse ::
  "('s, 'e) world \<Rightarrow> string \<Rightarrow> int \<Rightarrow> int \<Rightarrow> nat \<Rightarrow> nat \<Rightarrow> ('s, 'e, nat) fsm" where
  "traverse W path path_len end_name parent target g =
     (case set_name_bound end_name path path_len of
        None \<Rightarrow> (Inr target, g)
      | Some (start_name, end_name') \<Rightarrow>
          (case traverse_step W (substr path start_name end_name') parent g of
             (Inl e, g') \<Rightarrow> (Inl e, g')
           | (Inr (parent', target'), g') \<Rightarrow> traverse W path path_len end_name' parent' target' g'))"
  by pat_completeness auto
termination
  by (relation "measure (\<lambda>(W, path, path_len, end_name, parent, target, g). nat (path_len - end_name))")
    (auto dest!: set_name_bound_progress)

declare traverse.simps [simp del]

text \<open>The length is cast to a 32-bit \<^verbatim>\<open>int\<close>.\<close>

definition path_traversal :: "('s, 'e) world \<Rightarrow> string \<Rightarrow> ('s, 'e, nat) fsm" where
  "path_traversal W path =
     bindE (get_dentry_table W get_root_ino False) (\<lambda>pt.
     bindE (deref pt) (\<lambda>parent.
     bindE (get_this_dir_inode W parent) (\<lambda>ti.
     bindE (deref ti) (\<lambda>target.
       traverse W path (sint (of_nat (length path) :: 32 word)) (-1) parent target))))"

section \<open>Finding a table\<close>

lemma coherent_simps [simp]:
  "coherent (g\<lparr>dentry_tables := b\<rparr>) t = coherent g t" "listing (g\<lparr>dentry_tables := b\<rparr>) t = listing g t"
  by (simp_all add: coherent_def listing_def)

text \<open>What acquiring a lease leaves alone.\<close>

lemma lc_acquire_frame:
  "lc_acquire W ino a g = (r, g1) \<Longrightarrow> \<exists>l e k. g1 = g\<lparr>clock_reads := k, leases := l, env := e\<rparr>"
  by (auto simp: lc_acquire_def bindE_def read_clock_def split: prod.splits)

definition stored_directory :: "('s, 'e) world \<Rightarrow> 's \<Rightarrow> uuid \<Rightarrow> dentry \<Rightarrow> bool" where
  "stored_directory W s ino d \<longleftrightarrow>
     stored_child W s ino \<and> dentry_new (w_pool W) s ino False = Inr d \<and> finite (dom (child_list d)) \<and>
     (\<forall>u \<in> ran (child_list d). stored_child W s u)"

lemma new_local_table:
  assumes "stored_child W (meta (jrnl g)) ino"
  shows "\<exists>i. dentry_table_new W ino LOCAL g =
      (Inr (dtable_next g),
       g\<lparr>inodes := (inodes g)(inode_next g := Inode i), inode_next := Suc (inode_next g),
         dtables := (dtables g)(dtable_next g := (empty_table ino LOCAL)\<lparr>this_dir_inode := Some (inode_next g)\<rparr>),
         dtable_next := Suc (dtable_next g)\<rparr>) \<and> i_ino (core i) = ino"
proof -
  from assms obtain i where "inode_pull (w_pool W) (meta (jrnl g)) (w_raw W) ino = Inr i" "i_ino (core i) = ino"
    unfolding stored_child_def by blast
  then show ?thesis by (intro exI [of _ "i\<lparr>loc := LOCAL\<rparr>"]) (simp add: dentry_table_new_def heap_ops)
qed

lemma lease_dentry_table_local:
  assumes acq: "lc_acquire W ino [] g = (Inr (0, a), g1)" and none: "dentry_tables g ino = None"
    and it: "iteration (ord_children (w_ords W))" and d: "stored_directory W (meta (jrnl g)) ino d"
  shows "\<exists>g'. lease_dentry_table W ino g = (Inr (Some (dtable_next g)), g') \<and>
    coherent g' (dtable_next g) \<and> listing g' (dtable_next g) = child_list d \<and>
    dir_ino (dtables g' (dtable_next g)) = ino \<and>
    dentry_tables g' = (dentry_tables g)(ino \<mapsto> dtable_next g) \<and> leases g' = leases g1 \<and>
    this_client g' = this_client g \<and> jrnl g' = jrnl g \<and>
    (\<forall>t. t \<noteq> dtable_next g \<longrightarrow> dtables g' t = dtables g t) \<and> (\<forall>x < inode_next g. inodes g' x = inodes g x)"
proof -
  let ?t = "dtable_next g"
  from lc_acquire_frame [OF acq] obtain l e k where
    g1: "g1 = g\<lparr>clock_reads := k, leases := l, env := e\<rparr>" by blast
  from d have "stored_child W (meta (jrnl g1)) ino" by (simp add: stored_directory_def g1)
  from new_local_table [OF this] obtain i where
    new: "dentry_table_new W ino LOCAL g1 = (Inr ?t, g1\<lparr>inodes := (inodes g1)(inode_next g1 := Inode i),
         inode_next := Suc (inode_next g1),
         dtables := (dtables g1)(?t := (empty_table ino LOCAL)\<lparr>this_dir_inode := Some (inode_next g1)\<rparr>),
         dtable_next := Suc ?t\<rparr>)" and i: "i_ino (core i) = ino"
    by (auto simp: g1)
  let ?g2 = "g1\<lparr>inodes := (inodes g1)(inode_next g1 := Inode i), inode_next := Suc (inode_next g1),
         dtables := (dtables g1)(?t := (empty_table ino LOCAL)\<lparr>this_dir_inode := Some (inode_next g1)\<rparr>),
         dtable_next := Suc ?t\<rparr>"
  let ?g3 = "?g2\<lparr>dtables := (dtables ?g2)(?t := (dtables ?g2 ?t)\<lparr>leader_ip := a\<rparr>)\<rparr>"
  have "\<exists>g4. pull_child_metadata W ?t ?g3 = (Inr 0, g4) \<and> coherent g4 ?t \<and> listing g4 ?t = child_list d \<and>
    pull_frame ?t (?g3\<lparr>dtables := (dtables ?g3)(?t := (dtables ?g3 ?t)\<lparr>dt_dentries := Some d\<rparr>)\<rparr>) g4 \<and>
    (\<forall>n u. child_list d n = Some u \<longrightarrow>
       (\<exists>x. child_inodes (dtables g4 ?t) n = Some x \<and> pulled_child W ?g3 ?t u (inodes g4 x)))"
    by (rule pull_child_metadata_ok [OF it, where self = "inode_next g"])
      (use d i in \<open>simp_all add: stored_directory_def g1 empty_table_def ino_of_def inode_at_def\<close>)
  then obtain g4 where
    g4: "pull_child_metadata W ?t ?g3 = (Inr 0, g4)" "coherent g4 ?t" "listing g4 ?t = child_list d"
      "pull_frame ?t (?g3\<lparr>dtables := (dtables ?g3)(?t := (dtables ?g3 ?t)\<lparr>dt_dentries := Some d\<rparr>)\<rparr>) g4"
    by blast
  note f = pull_frame_simps [OF g4(4)]
  have idx: "dentry_tables g4 = dentry_tables g" using f(6) by (simp add: g1)
  have "lease_dentry_table W ino g = (Inr (Some ?t), g4\<lparr>dentry_tables := (dentry_tables g4)(ino \<mapsto> ?t)\<rparr>)"
    using acq new g4(1) none idx
    by (simp add: lease_dentry_table_def set_leader_ip_def update_dtable_def add_dentry_table_def)
  moreover have "leases g4 = leases g1" "dir_ino (dtables g4 ?t) = ino" using f by (simp_all add: empty_table_def)
  moreover have "\<forall>t. t \<noteq> ?t \<longrightarrow> dtables g4 t = dtables g t" "\<forall>x < inode_next g. inodes g4 x = inodes g x"
    using g4(4) unfolding pull_frame_def by (simp_all add: g1)
  moreover have "this_client g4 = this_client g" "jrnl g4 = jrnl g" using g4(4) unfolding pull_frame_def by (auto simp: g1)
  ultimately show ?thesis using g4(2,3) idx by simp
qed

lemma lease_dentry_table_remote:
  assumes acq: "lc_acquire W ino [] g = (Inr (-1, a), g1)" and none: "dentry_tables g ino = None"
  shows "\<exists>g'. lease_dentry_table W ino g = (Inr (Some (dtable_next g)), g') \<and>
    dtables g' (dtable_next g) = (empty_table ino REMOTE)\<lparr>leader_ip := a\<rparr> \<and>
    dentry_tables g' = (dentry_tables g)(ino \<mapsto> dtable_next g) \<and> leases g' = leases g1 \<and>
    (\<forall>t. t \<noteq> dtable_next g \<longrightarrow> dtables g' t = dtables g t) \<and> inodes g' = inodes g"
proof -
  from lc_acquire_frame [OF acq] obtain l e k where
    g1: "g1 = g\<lparr>clock_reads := k, leases := l, env := e\<rparr>" by blast
  show ?thesis using acq none
    by (simp add: lease_dentry_table_def set_leader_ip_def update_dtable_def add_dentry_table_def
        dentry_table_new_def new_dtable_def g1)
qed

text \<open>A table is served when it is registered and its lease has not run out; otherwise it is dropped.\<close>

definition served :: "uuid \<Rightarrow> ('s, 'e) fs \<Rightarrow> nat option" where
  "served ino g =
     (case dentry_tables g ino of
        Some t \<Rightarrow> if is_valid (clock_src g (clock_reads g)) ino (leases g) then Some t else None
      | None \<Rightarrow> None)"

definition dropped :: "uuid \<Rightarrow> ('s, 'e) fs \<Rightarrow> ('s, 'e) fs" where
  "dropped ino g =
     (case dentry_tables g ino of
        Some t \<Rightarrow> g\<lparr>clock_reads := Suc (clock_reads g), dentry_tables := (dentry_tables g)(ino := None)\<rparr>
      | None \<Rightarrow> g)"

lemma dropped_simps [simp]:
  "dentry_tables (dropped ino g) = (dentry_tables g)(ino := None)" "meta (jrnl (dropped ino g)) = meta (jrnl g)"
  "dtable_next (dropped ino g) = dtable_next g" "dtables (dropped ino g) = dtables g"
  "inodes (dropped ino g) = inodes g" "inode_next (dropped ino g) = inode_next g"
  by (auto simp: dropped_def split: option.split)

lemma get_dentry_table_hit:
  "served ino g = Some t \<Longrightarrow>
    get_dentry_table W ino remote g = (Inr (Some t), g\<lparr>clock_reads := Suc (clock_reads g)\<rparr>)"
  by (auto simp: served_def get_dentry_table_def lc_is_valid_def read_clock_def bindE_def
      split: option.splits if_splits)

lemma get_dentry_table_miss:
  "served ino g = None \<Longrightarrow>
    get_dentry_table W ino remote g =
      (if remote then (Inl Not_leader, dropped ino g) else lease_dentry_table W ino (dropped ino g))"
  by (auto simp: served_def dropped_def get_dentry_table_def lc_is_valid_def read_clock_def
      delete_dentry_table_def bindE_def split: option.splits if_splits)

section \<open>The root directory\<close>

text \<open>What \<^verbatim>\<open>fuse_ops::init\<close> does about the root: it is made when its inode is missing.\<close>

definition root_inode :: "timespec \<Rightarrow> 32 word \<Rightarrow> 32 word \<Rightarrow> inode" where
  "root_inode ts owner grp =
     (let i = inode_new get_root_ino ts get_root_ino owner grp (S_IFDIR OR 0x1FF) True
      in i\<lparr>core := (core i)\<lparr>i_size := DIR_INODE_SIZE\<rparr>\<rparr>)"

definition init_root :: "'s extern \<Rightarrow> orders \<Rightarrow> timespec \<Rightarrow> 32 word \<Rightarrow> 32 word \<Rightarrow> ('s, unit) st" where
  "init_root L ords ts owner grp s =
     (case rados_exist L s INODE (uuid_to_string L get_root_ino) of
        Inl e \<Rightarrow> (Inl e, s)
      | Inr True \<Rightarrow> (Inr (), s)
      | Inr False \<Rightarrow>
          (case dentry_new L s get_root_ino True of
             Inl e \<Rightarrow> (Inl e, s)
           | Inr d \<Rightarrow>
               bindE (inode_sync L (root_inode ts owner grp))
                 (\<lambda>_. dentry_sync L (ord_children ords) d) s))"

lemma root_inode_simps [simp]:
  "wf_inode (root_inode ts owner grp)" "i_ino (core (root_inode ts owner grp)) = get_root_ino"
  "link_target_name (root_inode ts owner grp) = None"
  by (simp_all add: root_inode_def inode_new_def new_core_def wf_inode_def S_ISLNK_def mode_bits Let_def)

context tx_io
begin

lemma init_root_ok:
  assumes absent: "\<not> present objs s INODE (uuid_to_string L get_root_ino)"
    and st: "stores objs s INODE (uuid_to_string L get_root_ino) []"
      "stores objs s DENTRY (uuid_to_string L get_root_ino) old"
  shows "\<exists>s'. init_root L ords ts owner grp s = (Inr (), s') \<and>
    inode_pull L s' raw get_root_ino = Inr (raw\<lparr>core := core (root_inode ts owner grp), link_target_name := None\<rparr>) \<and>
    dentry_new L s' get_root_ino False = Inr \<lparr>this_ino = get_root_ino, child_list = Map.empty\<rparr> \<and>
    (sound objs s \<longrightarrow> sound objs s') \<and> unchanged objs {inode_key get_root_ino, dentry_key get_root_ino} s s'"
proof -
  let ?k = "uuid_to_string L get_root_ino"
  let ?i = "root_inode ts owner grp"
  let ?d = "\<lparr>this_ino = get_root_ino, child_list = Map.empty\<rparr> :: dentry"
  obtain s1 where s1: "inode_sync L ?i s = (Inr (), s1)"
    "stores objs s1 INODE ?k (write_spec [] 0 (encode_core (core ?i)))" "frame objs INODE ?k s s1"
    using inode_sync_ok [of s ?i "[]"] st(1) by auto
  have "stores objs s1 DENTRY ?k old" using st(2) frame_stores [OF s1(3), of DENTRY] by simp
  then obtain s2 where s2: "dentry_sync L (ord_children ords) ?d s1 = (Inr (), s2)"
    "stores objs s2 DENTRY ?k (write_spec old 0 (le64 0))" "frame objs DENTRY ?k s1 s2"
    using dentry_sync_ok [of ?d s1 old] by (auto simp: wf_dentry_def dentry_raw_size_eq)
  have "stores objs s2 INODE ?k (encode_core (core ?i))"
    using s1(2) frame_stores [OF s2(3), of INODE] by (simp add: write_spec_def overwrite_def)
  then have "inode_pull L s2 raw get_root_ino = Inr (raw\<lparr>core := core ?i, link_target_name := None\<rparr>)"
    using inode_pull_ok [of s2 ?i "[]" raw] by simp
  moreover have "dentry_new L s2 get_root_ino False = Inr ?d"
    using dentry_load_ok [of ?d s2 "drop 8 old"] s2(2)
    by (simp add: wf_dentry_def write_spec_def overwrite_def dentry_raw_size_def get_child_num_def
        get_total_name_length_def OBJ_SIZE_def)
  moreover have "init_root L ords ts owner grp s = (Inr (), s2)"
    using absent s1(1) s2(1) by (simp add: init_root_def rados_exist_ok dentry_new_def)
  moreover have "sound objs s2" if "sound objs s"
    by (rule sound_step [OF sound_step [OF that s1(2,3)] s2(2,3)])
  moreover have "unchanged objs {inode_key get_root_ino, dentry_key get_root_ino} s s2"
    using unchanged_trans [OF frame_unchanged [OF s1(3)] frame_unchanged [OF s2(3)]] by (simp add: insert_commute)
  ultimately show ?thesis by blast
qed

end

section \<open>A mounted client\<close>

text \<open>
  A concrete instance for the witnesses: a pool in memory, the manager's own model behind the calls,
  no other clients.
\<close>

type_synonym pool = "string \<rightharpoonup> byte list"

definition mem_world :: "(pool, lease_table) world" where
  "mem_world =
     \<lparr>w_pool = mem_librados, w_ords = mem_ords, w_self = ''a'', w_raw = null_inode,
      w_manager = (\<lambda>q m. map_prod Some id (lease_impl_acquire (uuid_to_string mem_librados) 1 1 q m)),
      w_rpc = (\<lambda>_ _ m. (None, m))\<rparr>"

definition zero_time :: timespec where
  "zero_time = \<lparr>tv_sec = 0, tv_nsec = 0\<rparr>"

definition mem_fs :: "pool \<Rightarrow> pool \<Rightarrow> (pool, lease_table) fs" where
  "mem_fs md dp =
     \<lparr>inodes = (\<lambda>_. Inode null_inode), inode_next = 0,
      dtables = (\<lambda>_. empty_table nil_uuid UNKNOWN), dtable_next = 0, dentry_tables = Map.empty,
      leases = Map.empty, jrnl = journal_new md, data_pool = dp, fh_list = Map.empty,
      this_client = \<lparr>client_id = 1, client_uid = 0, client_gid = 0\<rparr>, env = Map.empty,
      clock_src = (\<lambda>_. 1), clock_reads = 0, time_src = (\<lambda>_. zero_time), time_reads = 0,
      uuid_src = (\<lambda>n. splice_prefix_and_postfix 1 (of_nat n)), uuid_reads = 0,
      addr_src = of_nat, addr_reads = 1\<rparr>"

definition root_pool :: pool where
  "root_pool = snd (init_root mem_librados mem_ords zero_time 0 0 Map.empty)"

lemma root_pool_stored:
  "stored_directory mem_world root_pool get_root_ino \<lparr>this_ino = get_root_ino, child_list = Map.empty\<rparr>"
  and root_pool_sound: "sound (\<lambda>s. s) root_pool"
  and root_pool_journal: "stores (\<lambda>s. s) root_pool JOURNAL k []"
proof -
  let ?k = "uuid_to_string mem_librados get_root_ino"
  obtain s where s: "init_root mem_librados mem_ords zero_time 0 0 Map.empty = (Inr (), s)"
    "inode_pull mem_librados s null_inode get_root_ino =
       Inr (null_inode\<lparr>core := core (root_inode zero_time 0 0), link_target_name := None\<rparr>)"
    "dentry_new mem_librados s get_root_ino False = Inr \<lparr>this_ino = get_root_ino, child_list = Map.empty\<rparr>"
    "sound (\<lambda>s. s) s" "unchanged (\<lambda>s. s) {(INODE, ?k), (DENTRY, ?k)} Map.empty s"
    using mem_tx.init_root_ok [of Map.empty "[]" zero_time 0 0 null_inode] mem_sound_empty by auto
  moreover have "root_pool = s" using s(1) by (simp add: root_pool_def)
  moreover have "stores (\<lambda>s. s) s JOURNAL k []" using unchanged_stores [OF s(5), of JOURNAL k] by simp
  ultimately show "stored_directory mem_world root_pool get_root_ino \<lparr>this_ino = get_root_ino, child_list = Map.empty\<rparr>"
    "sound (\<lambda>s. s) root_pool" "stores (\<lambda>s. s) root_pool JOURNAL k []"
    by (simp_all add: stored_directory_def stored_child_def mem_world_def)
qed

lemma mem_world_iteration: "iteration (ord_children (w_ords mem_world))"
  using std_map.iteration_axioms by (simp add: mem_world_def)

lemma mem_fs_acquire_root:
  "\<exists>g. lc_acquire mem_world ino [] (dropped ino (mem_fs md dp)) = (Inr (0, []), g)"
  by (simp add: lc_acquire_def bindE_def read_clock_def dropped_def mem_fs_def mem_world_def lease_client_acquire_def
      is_mine_def lease_impl_acquire_def lease_table_acquire_def acquire_find_def acquire_insert_def Let_def
      lease_reply_def handle_response_def)

section \<open>Properties of the index\<close>

text \<open>
  C24: \<^verbatim>\<open>get_dentry_table\<close> never serves a table whose lease ran out.  A registered table with a valid
  lease is returned.  Otherwise the table is dropped: a request of another client is refused with
  \<^verbatim>\<open>not_leader\<close>; a request of this client acquires the lease, and when it is granted gets a new local
  table with exactly the stored entries and inodes, when another client leads the directory a remote
  table with the leader's address.  Tables of other directories are not touched.
\<close>

theorem get_dentry_table_correct:
  assumes "iteration (ord_children (w_ords W))"
    and "stored_directory W (meta (jrnl g)) ino d"
    and "lc_acquire W ino [] (dropped ino g) = (Inr (r, a), g1)"
  shows "(\<forall>t. served ino g = Some t \<longrightarrow>
      get_dentry_table W ino remote g = (Inr (Some t), g\<lparr>clock_reads := Suc (clock_reads g)\<rparr>)) \<and>
    (served ino g = None \<and> remote \<longrightarrow>
      (\<exists>g'. get_dentry_table W ino remote g = (Inl Not_leader, g') \<and>
         dentry_tables g' = (dentry_tables g)(ino := None) \<and> dtables g' = dtables g)) \<and>
    (served ino g = None \<and> \<not> remote \<and> r = 0 \<longrightarrow>
      (\<exists>t g'. get_dentry_table W ino remote g = (Inr (Some t), g') \<and> coherent g' t \<and>
         listing g' t = child_list d \<and> dir_ino (dtables g' t) = ino \<and>
         dentry_tables g' = (dentry_tables g)(ino \<mapsto> t) \<and>
         (\<forall>t'. t' \<noteq> t \<longrightarrow> dtables g' t' = dtables g t'))) \<and>
    (served ino g = None \<and> \<not> remote \<and> r = -1 \<longrightarrow>
      (\<exists>t g'. get_dentry_table W ino remote g = (Inr (Some t), g') \<and>
         dt_loc (dtables g' t) = REMOTE \<and> leader_ip (dtables g' t) = a \<and> dir_ino (dtables g' t) = ino \<and>
         dentry_tables g' = (dentry_tables g)(ino \<mapsto> t) \<and>
         (\<forall>t'. t' \<noteq> t \<longrightarrow> dtables g' t' = dtables g t')))"
proof (intro conjI allI impI; (elim conjE)?)
  show "get_dentry_table W ino remote g = (Inr (Some t), g\<lparr>clock_reads := Suc (clock_reads g)\<rparr>)"
    if "served ino g = Some t" for t
    by (rule get_dentry_table_hit [OF that])
next
  assume "served ino g = None" "remote"
  then show "\<exists>g'. get_dentry_table W ino remote g = (Inl Not_leader, g') \<and>
      dentry_tables g' = (dentry_tables g)(ino := None) \<and> dtables g' = dtables g"
    by (simp add: get_dentry_table_miss)
next
  assume *: "served ino g = None" "\<not> remote" "r = 0"
  have "stored_directory W (meta (jrnl (dropped ino g))) ino d" using assms(2) by simp
  from lease_dentry_table_local [OF assms(3) [unfolded *(3)] _ assms(1) this]
  show "\<exists>t g'. get_dentry_table W ino remote g = (Inr (Some t), g') \<and> coherent g' t \<and>
      listing g' t = child_list d \<and> dir_ino (dtables g' t) = ino \<and>
      dentry_tables g' = (dentry_tables g)(ino \<mapsto> t) \<and> (\<forall>t'. t' \<noteq> t \<longrightarrow> dtables g' t' = dtables g t')"
    unfolding get_dentry_table_miss [OF *(1)] using *(2) by auto
next
  assume *: "served ino g = None" "\<not> remote" "r = -1"
  from lease_dentry_table_remote [OF assms(3) [unfolded *(3)]]
  show "\<exists>t g'. get_dentry_table W ino remote g = (Inr (Some t), g') \<and>
      dt_loc (dtables g' t) = REMOTE \<and> leader_ip (dtables g' t) = a \<and> dir_ino (dtables g' t) = ino \<and>
      dentry_tables g' = (dentry_tables g)(ino \<mapsto> t) \<and> (\<forall>t'. t' \<noteq> t \<longrightarrow> dtables g' t' = dtables g t')"
    unfolding get_dentry_table_miss [OF *(1)] using *(2) by (auto simp: empty_table_def)
qed

theorem get_dentry_table_correct_witness:
  "\<exists>t g'. get_dentry_table mem_world get_root_ino False (mem_fs root_pool Map.empty) = (Inr (Some t), g') \<and>
     coherent g' t \<and> listing g' t = Map.empty"
proof -
  let ?g = "mem_fs root_pool Map.empty"
  obtain g1 where acq: "lc_acquire mem_world get_root_ino [] (dropped get_root_ino ?g) = (Inr (0, []), g1)"
    using mem_fs_acquire_root by blast
  have "stored_directory mem_world (meta (jrnl ?g)) get_root_ino \<lparr>this_ino = get_root_ino, child_list = Map.empty\<rparr>"
    using root_pool_stored by (simp add: mem_fs_def journal_new_def)
  from get_dentry_table_correct [OF mem_world_iteration this acq, of False]
  show ?thesis by (auto simp: served_def mem_fs_def)
qed

section \<open>Paths as component lists\<close>

function split_path :: "string \<Rightarrow> string list" where
  "split_path s =
     (if s = [] then []
      else takeWhile (\<lambda>c. c \<noteq> path_delimiter) s # split_path (drop 1 (dropWhile (\<lambda>c. c \<noteq> path_delimiter) s)))"
  by pat_completeness auto
termination
proof (relation "measure length")
  fix s :: string
  assume "s \<noteq> []"
  then have "0 < length s" by simp
  moreover have "length (dropWhile (\<lambda>c. c \<noteq> path_delimiter) s) \<le> length s" by (rule length_dropWhile_le)
  ultimately have "length (dropWhile (\<lambda>c. c \<noteq> path_delimiter) s) - 1 < length s" by linarith
  then show "(drop 1 (dropWhile (\<lambda>c. c \<noteq> path_delimiter) s), s) \<in> measure length" by simp
qed simp

declare split_path.simps [simp del]

lemma split_path_simps [simp]: "split_path [] = []"
  "path_delimiter \<notin> set n \<Longrightarrow> n \<noteq> [] \<Longrightarrow> split_path n = [n]"
  "path_delimiter \<notin> set n \<Longrightarrow> split_path (n @ path_delimiter # r) = n # split_path r"
proof -
  show "split_path [] = []" by (simp add: split_path.simps)
  show "split_path n = [n]" if "path_delimiter \<notin> set n" "n \<noteq> []"
  proof -
    have "\<forall>c \<in> set n. c \<noteq> path_delimiter" using that(1) by auto
    then have "takeWhile (\<lambda>c. c \<noteq> path_delimiter) n = n" "dropWhile (\<lambda>c. c \<noteq> path_delimiter) n = []"
      by (simp_all add: dropWhile_eq_Nil_conv)
    then show ?thesis using that(2) by (subst split_path.simps) (simp only: drop_Nil split_path.simps [of "[]"] simp_thms if_True if_False)
  qed
  show "split_path (n @ path_delimiter # r) = n # split_path r" if "path_delimiter \<notin> set n"
  proof -
    have "\<And>c. c \<in> set n \<Longrightarrow> c \<noteq> path_delimiter" using that by auto
    then show ?thesis by (subst split_path.simps) (simp add: takeWhile_append2 dropWhile_append2)
  qed
qed

text \<open>The reference: a walk over a list of names.\<close>

fun walk :: "('s, 'e) world \<Rightarrow> string list \<Rightarrow> nat \<Rightarrow> nat \<Rightarrow> ('s, 'e, nat) fsm" where
  "walk W [] parent target = returnE target"
| "walk W (n # ns) parent target = bindE (traverse_step W n parent) (\<lambda>(parent', target'). walk W ns parent' target')"

lemma scan_name_takeWhile:
  assumes "i \<le> length path"
  shows "scan_name path (int (length path)) (int i) =
    int (i + length (takeWhile (\<lambda>c. c \<noteq> path_delimiter) (drop i path)))"
  using assms
proof (induction "length path - i" arbitrary: i)
  case 0
  then show ?case by (subst scan_name.simps) simp
next
  case (Suc k)
  then have i: "i < length path" by simp
  then have d: "drop i path = path ! i # drop (Suc i) path" by (simp add: Cons_nth_drop_Suc)
  show ?case
  proof (cases "path ! i = path_delimiter")
    case True
    then show ?thesis using i d by (subst scan_name.simps) simp
  next
    case False
    have "scan_name path (int (length path)) (int (Suc i)) =
        int (Suc i + length (takeWhile (\<lambda>c. c \<noteq> path_delimiter) (drop (Suc i) path)))"
      using Suc i by (intro Suc.hyps) auto
    then show ?thesis using False i d by (subst scan_name.simps) (simp add: add.commute)
  qed
qed

lemma traverse_walk:
  "traverse W path (int (length path)) (int p - 2) parent target g = walk W (split_path (drop p path)) parent target g"
proof (induction "length path - p" arbitrary: p parent target g rule: less_induct)
  case less
  show ?case
  proof (cases "p < length path")
    case False
    then show ?thesis by (subst traverse.simps) (simp add: set_name_bound_def)
  next
    case True
    let ?w = "takeWhile (\<lambda>c. c \<noteq> path_delimiter) (drop p path)"
    let ?q = "p + length ?w + 1"
    have b: "set_name_bound (int p - 2) path (int (length path)) = Some (int p, int (p + length ?w) - 1)"
      using True scan_name_takeWhile [of p path] by (simp add: set_name_bound_def Let_def)
    have n: "substr path (int p) (int (p + length ?w) - 1) = ?w"
      by (simp add: substr_def) (metis takeWhile_eq_take)
    have "drop 1 (dropWhile (\<lambda>c. c \<noteq> path_delimiter) (drop p path)) = drop ?q path"
      by (simp add: dropWhile_eq_drop add.commute add.left_commute)
    then have sp: "split_path (drop p path) = ?w # split_path (drop ?q path)"
      using True by (subst split_path.simps) simp
    have pos: "int (p + length ?w) - 1 = int ?q - 2" by simp
    have IH: "traverse W path (int (length path)) (int (p + length ?w) - 1) t x h =
        walk W (split_path (drop ?q path)) t x h" for t x h
      unfolding pos using True by (intro less.hyps) simp
    show ?thesis
      unfolding sp walk.simps bindE_def
      by (subst traverse.simps) (simp only: b n option.case prod.case IH split: prod.splits sum.splits, simp)
  qed
qed

section \<open>Resolution in a local tree\<close>

text \<open>
  A client that leads every directory: the tables are coherent, their leases last, their inodes are
  local objects with proper numbers, and every child directory has its table.
\<close>

definition local_tree :: "('s, 'e) fs \<Rightarrow> bool" where
  "local_tree g \<longleftrightarrow>
     (\<forall>ino t. dentry_tables g ino = Some t \<longrightarrow>
        coherent g t \<and> (\<forall>k. is_valid (clock_src g k) ino (leases g)) \<and>
        (\<exists>x i. this_dir_inode (dtables g t) = Some x \<and> inodes g x = Inode i) \<and>
        (\<forall>n x. child_inodes (dtables g t) n = Some x \<longrightarrow>
           (\<exists>i. inodes g x = Inode i) \<and> \<not> is_nil (ino_of g x) \<and>
           (S_ISDIR (i_mode (core (inode_at g x))) \<longrightarrow> (\<exists>t'. dentry_tables g (ino_of g x) = Some t'))))"

text \<open>Resolving names in it, as a function of the state: the inode, or the exception.\<close>

fun resolve :: "('s, 'e) fs \<Rightarrow> string list \<Rightarrow> nat \<Rightarrow> nat \<Rightarrow> nat result" where
  "resolve g [] t x = Inr x"
| "resolve g (n # ns) t x =
     (case child_inodes (dtables g t) n of
        None \<Rightarrow> Inl No_entry
      | Some y \<Rightarrow>
          if S_ISDIR (i_mode (core (inode_at g y))) then
            (case dentry_tables g (ino_of g y) of
               None \<Rightarrow> Inl Undefined_behaviour
             | Some t' \<Rightarrow>
                 (case this_dir_inode (dtables g t') of
                    None \<Rightarrow> Inl Undefined_behaviour
                  | Some z \<Rightarrow>
                      (case permission_check (client_uid (this_client g)) (client_gid (this_client g)) X_OK (inode_at g z) of
                         Inl e \<Rightarrow> Inl e
                       | Inr _ \<Rightarrow> resolve g ns t' z)))
          else resolve g ns t y)"

text \<open>What resolving changes: the clock is read and the location mark of a found child is set.\<close>

definition same_tree :: "('s, 'e) fs \<Rightarrow> ('s, 'e) fs \<Rightarrow> bool" where
  "same_tree g g' \<longleftrightarrow>
     (\<exists>h k f. g' = g\<lparr>inodes := h, clock_reads := k\<rparr> \<and> (\<forall>x. h x = map_base (\<lambda>i. i\<lparr>loc := f x\<rparr>) (inodes g x)))"

lemma same_treeE:
  assumes "same_tree g g'"
  obtains h k f where "g' = g\<lparr>inodes := h, clock_reads := k\<rparr>"
    and "\<And>x. h x = map_base (\<lambda>i. i\<lparr>loc := f x\<rparr>) (inodes g x)"
  using assms unfolding same_tree_def by blast

lemma same_tree_refl [simp]: "same_tree g g"
proof -
  have "inodes g x = map_base (\<lambda>i. i\<lparr>loc := loc (base_inode (inodes g x))\<rparr>) (inodes g x)" for x
    by (cases "inodes g x") simp_all
  moreover have "g = g\<lparr>inodes := inodes g, clock_reads := clock_reads g\<rparr>" by simp
  ultimately show ?thesis unfolding same_tree_def
    by (intro exI [of _ "inodes g"] exI [of _ "clock_reads g"] exI [of _ "\<lambda>x. loc (base_inode (inodes g x))"]) simp
qed

lemma same_tree_simps:
  assumes "same_tree g g'"
  shows "dtables g' = dtables g" "dentry_tables g' = dentry_tables g" "leases g' = leases g"
    "clock_src g' = clock_src g" "this_client g' = this_client g" "ino_of g' = ino_of g"
    "core (inode_at g' x) = core (inode_at g x)" "(\<exists>i. inodes g' x = Inode i) = (\<exists>i. inodes g x = Inode i)"
    "inode_next g' = inode_next g"
  using assms by (auto elim!: same_treeE simp: ino_of_def inode_at_def fun_eq_iff) (cases "inodes g x"; simp)+

lemma same_tree_clock: "same_tree g g' \<Longrightarrow> same_tree g (g'\<lparr>clock_reads := k\<rparr>)"
  by (fastforce simp: same_tree_def)

lemma same_tree_loc:
  assumes "same_tree g g'"
  shows "same_tree g (g'\<lparr>inodes := (inodes g')(y := map_base (\<lambda>i. i\<lparr>loc := l\<rparr>) (inodes g' y))\<rparr>)"
proof -
  from assms obtain h k f where g': "g' = g\<lparr>inodes := h, clock_reads := k\<rparr>"
    and h: "\<And>x. h x = map_base (\<lambda>i. i\<lparr>loc := f x\<rparr>) (inodes g x)"
    by (elim same_treeE) blast
  let ?h = "h(y := map_base (\<lambda>i. i\<lparr>loc := l\<rparr>) (h y))"
  have "\<forall>x. ?h x = map_base (\<lambda>i. i\<lparr>loc := (f(y := l)) x\<rparr>) (inodes g x)"
  proof
    fix x
    show "?h x = map_base (\<lambda>i. i\<lparr>loc := (f(y := l)) x\<rparr>) (inodes g x)" using h by (cases "inodes g x") auto
  qed
  moreover have "g'\<lparr>inodes := (inodes g')(y := map_base (\<lambda>i. i\<lparr>loc := l\<rparr>) (inodes g' y))\<rparr> =
      g\<lparr>inodes := ?h, clock_reads := k\<rparr>" unfolding g' by (cases g) simp
  ultimately show ?thesis unfolding same_tree_def by blast
qed

lemma permission_check_core: "core i = core j \<Longrightarrow> permission_check u v m i = permission_check u v m j"
  by (simp add: permission_check_def)

lemma local_treeD:
  assumes "local_tree g" and "dentry_tables g ino = Some t"
  shows "coherent g t" "is_valid (clock_src g k) ino (leases g)"
    "\<exists>x i. this_dir_inode (dtables g t) = Some x \<and> inodes g x = Inode i"
    "child_inodes (dtables g t) n = Some x \<Longrightarrow> \<exists>i. inodes g x = Inode i"
    "child_inodes (dtables g t) n = Some x \<Longrightarrow> \<not> is_nil (ino_of g x)"
    "child_inodes (dtables g t) n = Some x \<Longrightarrow> S_ISDIR (i_mode (core (inode_at g x))) \<Longrightarrow>
       \<exists>t'. dentry_tables g (ino_of g x) = Some t'"
  using assms unfolding local_tree_def by blast+

lemma served_same_tree:
  assumes "local_tree g" and "same_tree g g'" and "dentry_tables g ino = Some t"
  shows "served ino g' = Some t"
  using local_treeD(2) [OF assms(1,3)] assms(3) by (simp add: served_def same_tree_simps [OF assms(2)])

text \<open>One component.\<close>

lemma traverse_step_local:
  assumes tree: "local_tree g" and same: "same_tree g g'" and t: "dentry_tables g ino = Some t"
    and n: "path_delimiter \<notin> set n"
  shows "\<exists>r g''. traverse_step W n t g' = (r, g'') \<and> same_tree g g'' \<and>
    (case r of Inl e \<Rightarrow> (\<forall>ns x. resolve g (n # ns) t x = Inl e)
     | Inr (t', z) \<Rightarrow> (\<exists>ino'. dentry_tables g ino' = Some t') \<and> (\<forall>ns x. resolve g (n # ns) t x = resolve g ns t' z))"
proof -
  note sim = same_tree_simps [OF same]
  have "coherent g t" by (rule local_treeD(1) [OF tree t])
  then have coh: "coherent g' t" by (auto simp: coherent_def listing_def sim)
  have "n \<noteq> ''/''" using n by (auto simp: path_delimiter_def)
  with dt.check_view [OF coh, of n W]
  have check: "check_child_inode W t n g' = (Inr (case listing g t n of None \<Rightarrow> nil_uuid | Some u \<Rightarrow> u), g')"
    by (simp add: listing_def sim)
  show ?thesis
  proof (cases "child_inodes (dtables g t) n")
    case None
    then have "traverse_step W n t g' = (Inl No_entry, g')"
      using check by (simp add: traverse_step_def listing_def is_nil_def)
    with None same show ?thesis by auto
  next
    case (Some y)
    let ?g1 = "g'\<lparr>inodes := (inodes g')(y := map_base (\<lambda>i. i\<lparr>loc := LOCAL\<rparr>) (inodes g' y))\<rparr>"
    note y = local_treeD(4,5,6) [OF tree t Some]
    have same1: "same_tree g ?g1" by (rule same_tree_loc [OF same])
    note sim1 = same_tree_simps [OF same1]
    from y(1) sim1(8) obtain i where i: "inodes ?g1 y = Inode i" by blast
    have mode: "i_mode (core i) = i_mode (core (inode_at g y))"
      using sim1(7) [of y] unfolding inode_at_def i by simp
    have u: "check_child_inode W t n g' = (Inr (ino_of g y), g')" using check Some by (simp add: listing_def)
    have child: "get_child_inode W t n (ino_of g y) g' = (Inr (Some y), ?g1)"
      using coh Some by (simp add: get_child_inode_def coherent_def sim update_inode_def Let_def)
    have get: "get_mode W y ?g1 = (Inr (i_mode (core (inode_at g y))), ?g1)"
      using i mode by (simp add: get_mode_def)
    show ?thesis
    proof (cases "S_ISDIR (i_mode (core (inode_at g y)))")
      case False
      have "traverse_step W n t g' = (Inr (t, y), ?g1)"
        using u child get y(2) False by (simp add: traverse_step_def)
      with Some False same1 t show ?thesis by auto
    next
      case True
      from y(3) [OF True] obtain t' where t': "dentry_tables g (ino_of g y) = Some t'" by blast
      let ?g2 = "?g1\<lparr>clock_reads := Suc (clock_reads ?g1)\<rparr>"
      have same2: "same_tree g ?g2" by (rule same_tree_clock [OF same1])
      note sim2 = same_tree_simps [OF same2]
      have tbl: "get_dentry_table W (ino_of g y) False ?g1 = (Inr (Some t'), ?g2)"
        by (rule get_dentry_table_hit [OF served_same_tree [OF tree same1 t']])
      from local_treeD(3) [OF tree t'] obtain z where z: "this_dir_inode (dtables g t') = Some z" "\<exists>j. inodes g z = Inode j"
        by blast
      from z(2) sim2(8) obtain j where j: "inodes ?g2 z = Inode j" by blast
      have pc: "permission_check (client_uid (this_client g)) (client_gid (this_client g)) X_OK j =
          permission_check (client_uid (this_client g)) (client_gid (this_client g)) X_OK (inode_at g z)"
        using sim2(7) [of z] j by (intro permission_check_core) (simp add: inode_at_def)
      have loc: "dt_loc (dtables g t') = LOCAL" using local_treeD(1) [OF tree t'] by (simp add: coherent_def)
      have self: "get_this_dir_inode W t' ?g2 = (Inr (Some z), ?g2)"
        using loc z(1) by (simp add: get_this_dir_inode_def sim Let_def)
      have perm: "check_permission W z X_OK ?g2 =
          (permission_check (client_uid (this_client g)) (client_gid (this_client g)) X_OK (inode_at g z), ?g2)"
        using j pc sim2(5) by (simp add: check_permission_def)
      have step: "traverse_step W n t g' =
          (case permission_check (client_uid (this_client g)) (client_gid (this_client g)) X_OK (inode_at g z) of
             Inl e \<Rightarrow> (Inl e, ?g2) | Inr _ \<Rightarrow> (Inr (t', z), ?g2))"
        using u child get y(2) True tbl self perm
        by (simp add: traverse_step_def deref_def bindE_def [of "check_permission W z X_OK"] split: sum.split)
      show ?thesis
        using step Some True t' z(1) same2 by (auto split: sum.splits)
    qed
  qed
qed

lemma walk_local:
  assumes "local_tree g" and "same_tree g g'" and "dentry_tables g ino = Some t"
    and "\<forall>n \<in> set ns. path_delimiter \<notin> set n"
  shows "\<exists>g''. walk W ns t x g' = (resolve g ns t x, g'') \<and> same_tree g g''"
  using assms(2-4)
proof (induction ns arbitrary: t x g' ino)
  case Nil
  then show ?case by auto
next
  case (Cons n ns)
  from Cons.prems(3) have n: "path_delimiter \<notin> set n" by simp
  from traverse_step_local [OF assms(1) Cons.prems(1,2) n, of W] obtain r g1 where
    s: "traverse_step W n t g' = (r, g1)" "same_tree g g1"
      "case r of Inl e \<Rightarrow> (\<forall>ns x. resolve g (n # ns) t x = Inl e)
       | Inr (t', z) \<Rightarrow> (\<exists>ino'. dentry_tables g ino' = Some t') \<and> (\<forall>ns x. resolve g (n # ns) t x = resolve g ns t' z)"
    by blast
  show ?case
  proof (cases r)
    case (Inl e)
    with s show ?thesis by (simp del: resolve.simps)
  next
    case (Inr p)
    obtain t' z where p: "p = (t', z)" by fastforce
    with s(3) Inr obtain ino' where t': "dentry_tables g ino' = Some t'"
      and res: "resolve g (n # ns) t x = resolve g ns t' z" by (auto simp del: resolve.simps)
    from Cons.prems(3) have "\<forall>n \<in> set ns. path_delimiter \<notin> set n" by simp
    from Cons.IH [OF s(2) t' this, of z] s(1) Inr p res show ?thesis by (auto simp del: resolve.simps)
  qed
qed

lemma split_path_names: "\<forall>n \<in> set (split_path p). path_delimiter \<notin> set n"
proof (induction p rule: split_path.induct)
  case (1 s)
  then show ?case by (subst split_path.simps) (auto dest: set_takeWhileD)
qed

text \<open>\<^verbatim>\<open>path_traversal\<close> is the walk over the components behind the leading delimiter.\<close>

lemma path_length_int: "n < 2 ^ 31 \<Longrightarrow> sint (of_nat n :: 32 word) = int n"
  by (rule name_length_word(2))

lemma path_traversal_walk:
  assumes "length path < 2 ^ 31"
  shows "path_traversal W path =
    bindE (get_dentry_table W get_root_ino False) (\<lambda>pt.
    bindE (deref pt) (\<lambda>parent.
    bindE (get_this_dir_inode W parent) (\<lambda>ti.
    bindE (deref ti) (\<lambda>target. walk W (split_path (drop 1 path)) parent target))))"
proof -
  have "traverse W path (int (length path)) (-1) parent = walk W (split_path (drop 1 path)) parent" for parent
    using traverse_walk [of W path 1 parent] by (intro ext) simp
  then show ?thesis unfolding path_traversal_def path_length_int [OF assms] by simp
qed

lemma path_traversal_local:
  assumes "local_tree g" and "dentry_tables g get_root_ino = Some t" and "length path < 2 ^ 31"
    and "this_dir_inode (dtables g t) = Some x"
  shows "\<exists>g'. path_traversal W path g = (resolve g (split_path (drop 1 path)) t x, g') \<and> same_tree g g'"
proof -
  let ?g1 = "g\<lparr>clock_reads := Suc (clock_reads g)\<rparr>"
  have same: "same_tree g ?g1" by (rule same_tree_clock) simp
  have "get_dentry_table W get_root_ino False g = (Inr (Some t), ?g1)"
    by (rule get_dentry_table_hit [OF served_same_tree [OF assms(1) same_tree_refl assms(2)]])
  moreover have "get_this_dir_inode W t ?g1 = (Inr (Some x), ?g1)"
    using local_treeD(1) [OF assms(1,2)] assms(4) by (simp add: get_this_dir_inode_def coherent_def Let_def)
  ultimately have "path_traversal W path g = walk W (split_path (drop 1 path)) t x ?g1"
    unfolding path_traversal_walk [OF assms(3)] by (simp add: deref_def)
  then show ?thesis using walk_local [OF assms(1) same assms(2) split_path_names] by simp
qed

text \<open>A small tree: the root with one regular file \<open>f\<close>.\<close>

definition file_inode :: inode where
  "file_inode = inode_new (splice_prefix_and_postfix 1 7) zero_time get_root_ino 0 0 (S_IFREG OR 0x1A4) False"

definition tree_fs :: "(pool, lease_table) fs" where
  "tree_fs = (mem_fs root_pool Map.empty)
     \<lparr>inodes := (\<lambda>_. Inode null_inode)(0 := Inode (root_inode zero_time 0 0), 1 := Inode file_inode), inode_next := 2,
      dtables := (\<lambda>_. empty_table nil_uuid UNKNOWN)(0 :=
        \<lparr>dir_ino = get_root_ino, this_dir_inode = Some 0,
         dt_dentries = Some \<lparr>this_ino = get_root_ino, child_list = [''f'' \<mapsto> splice_prefix_and_postfix 1 7]\<rparr>,
         child_inodes = [''f'' \<mapsto> 1], dt_loc = LOCAL, leader_ip = []\<rparr>), dtable_next := 1,
      dentry_tables := [get_root_ino \<mapsto> 0], leases := [get_root_ino \<mapsto> \<lparr>c_due = 100, leader = True\<rparr>]\<rparr>"

lemma tree_fs_file:
  "ino_of tree_fs 1 = splice_prefix_and_postfix 1 7" "\<not> S_ISDIR (i_mode (core (inode_at tree_fs 1)))"
  "ino_of tree_fs 0 = get_root_ino"
  by (simp_all add: tree_fs_def ino_of_def inode_at_def file_inode_def inode_new_def new_core_def S_ISDIR_def mode_bits)

lemma listing_tree_fs: "listing tree_fs 0 = [''f'' \<mapsto> splice_prefix_and_postfix 1 7]"
proof -
  have "child_inodes (dtables tree_fs 0) = [''f'' \<mapsto> 1]" by (simp add: tree_fs_def)
  then show ?thesis using tree_fs_file(1) by (auto simp: listing_def fun_eq_iff)
qed

lemma coherent_tree_fs: "coherent tree_fs 0"
  using listing_tree_fs tree_fs_file(3) by (simp add: coherent_def) (simp add: tree_fs_def)

lemma local_tree_fs: "local_tree tree_fs"
proof -
  have dom: "dentry_tables tree_fs = [get_root_ino \<mapsto> 0]" "this_dir_inode (dtables tree_fs 0) = Some 0"
    "child_inodes (dtables tree_fs 0) = [''f'' \<mapsto> 1]" "\<exists>i. inodes tree_fs 0 = Inode i" "\<exists>i. inodes tree_fs 1 = Inode i"
    by (simp_all add: tree_fs_def)
  have "is_valid (clock_src tree_fs k) get_root_ino (leases tree_fs)" for k
    by (simp add: tree_fs_def mem_fs_def is_valid_def)
  moreover have "\<not> is_nil (splice_prefix_and_postfix 1 7)" by (simp add: splice_not_nil)
  ultimately show ?thesis
    using dom coherent_tree_fs tree_fs_file by (auto simp: local_tree_def split: if_splits)
qed

section \<open>Properties of path resolution\<close>

text \<open>
  for every path shorter than 2 GiB and every state, whether the directories are local or remote,
  \<^verbatim>\<open>path_traversal\<close>, which scans the path with two indices, behaves exactly as a walk from the root over
  the list of its components; for an absolute path built from names, that list is the names.
\<close>

theorem path_traversal_components:
  assumes "length path < 2 ^ 31"
  shows "path_traversal W path =
      bindE (get_dentry_table W get_root_ino False) (\<lambda>pt.
      bindE (deref pt) (\<lambda>parent.
      bindE (get_this_dir_inode W parent) (\<lambda>ti.
      bindE (deref ti) (\<lambda>target. walk W (split_path (drop 1 path)) parent target)))) \<and>
    (\<forall>names. path = concat (map (\<lambda>n. path_delimiter # n) names) \<and>
       (\<forall>n \<in> set names. n \<noteq> [] \<and> path_delimiter \<notin> set n) \<longrightarrow> split_path (drop 1 path) = names)"
proof (intro conjI allI impI)
  show "path_traversal W path =
      bindE (get_dentry_table W get_root_ino False) (\<lambda>pt.
      bindE (deref pt) (\<lambda>parent.
      bindE (get_this_dir_inode W parent) (\<lambda>ti.
      bindE (deref ti) (\<lambda>target. walk W (split_path (drop 1 path)) parent target))))"
    by (rule path_traversal_walk [OF assms])
next
  fix names
  assume "path = concat (map (\<lambda>n. path_delimiter # n) names) \<and> (\<forall>n \<in> set names. n \<noteq> [] \<and> path_delimiter \<notin> set n)"
  then have p: "path = concat (map (\<lambda>n. path_delimiter # n) names)"
    and ok: "\<forall>n \<in> set names. n \<noteq> [] \<and> path_delimiter \<notin> set n" by simp_all
  from ok have "split_path (drop 1 (concat (map (\<lambda>n. path_delimiter # n) names))) = names"
  proof (induction names)
    case (Cons n ns)
    then show ?case by (cases ns) simp_all
  qed simp
  with p show "split_path (drop 1 path) = names" by simp
qed

theorem path_traversal_components_witness: "split_path (drop 1 ''/usr/bin'') = [''usr'', ''bin'']"
proof -
  have "length ''/usr/bin'' < 2 ^ 31" by simp
  from conjunct2 [OF path_traversal_components [OF this], rule_format, of "[''usr'', ''bin'']"]
  show ?thesis by (simp add: path_delimiter_def)
qed

text \<open>
  C18: in a client that leads every directory, \<^verbatim>\<open>path_traversal\<close> returns what the pure function
  \<open>resolve\<close> computes from the tables: the inode of the last component, \<^verbatim>\<open>no_entry\<close> for a missing name,
  \<^verbatim>\<open>permission_denied\<close> for a directory without search permission; it changes nothing but location marks.
\<close>

theorem path_traversal_resolves:
  assumes "local_tree g" and "dentry_tables g get_root_ino = Some t" and "length path < 2 ^ 31"
    and "this_dir_inode (dtables g t) = Some x"
  shows "\<exists>g'. path_traversal W path g = (resolve g (split_path (drop 1 path)) t x, g') \<and> same_tree g g'"
  by (rule path_traversal_local [OF assms])

theorem path_traversal_resolves_witness:
  "fst (path_traversal mem_world ''/f'' tree_fs) = Inr 1 \<and> fst (path_traversal mem_world ''/g'' tree_fs) = Inl No_entry"
proof -
  have t: "dentry_tables tree_fs get_root_ino = Some 0" "this_dir_inode (dtables tree_fs 0) = Some 0"
    "child_inodes (dtables tree_fs 0) = [''f'' \<mapsto> 1]" by (simp_all add: tree_fs_def)
  note r = path_traversal_resolves [OF local_tree_fs t(1) _ t(2), of _ mem_world]
  show ?thesis using r [of "''/f''"] r [of "''/g''"] t(3) tree_fs_file(2) by (auto simp: path_delimiter_def)
qed

text \<open>
  a regular file in the middle of a path is skipped instead of being an error: in a client that
  leads every directory, \<open>/f/rest\<close> resolves to what \<open>/rest\<close> resolves to.
\<close>

theorem path_through_regular_file:
  assumes "local_tree g" and "dentry_tables g get_root_ino = Some t"
    and "child_inodes (dtables g t) f = Some y" and "\<not> S_ISDIR (i_mode (core (inode_at g y)))"
    and "path_delimiter \<notin> set f" and "rest \<noteq> []" and "length f + length rest + 2 < 2 ^ 31"
  shows "fst (path_traversal W (path_delimiter # f @ path_delimiter # rest) g) =
    fst (path_traversal W (path_delimiter # rest) g)"
proof -
  from local_treeD(3) [OF assms(1,2)] obtain x where x: "this_dir_inode (dtables g t) = Some x" by blast
  have "resolve g (split_path rest) t y = resolve g (split_path rest) t x"
    using assms(6) by (subst (1 2) split_path.simps) simp
  then show ?thesis
    using path_traversal_local [OF assms(1,2) _ x, of "path_delimiter # f @ path_delimiter # rest" W]
      path_traversal_local [OF assms(1,2) _ x, of "path_delimiter # rest" W] assms(3-5,7)
    by auto
qed

theorem path_through_regular_file_witness:
  "fst (path_traversal mem_world ''/f/f'' tree_fs) = fst (path_traversal mem_world ''/f'' tree_fs)"
proof -
  have t: "dentry_tables tree_fs get_root_ino = Some 0" "child_inodes (dtables tree_fs 0) ''f'' = Some 1"
    by (simp_all add: tree_fs_def)
  show ?thesis
    using path_through_regular_file [OF local_tree_fs t tree_fs_file(2), of "''f''" mem_world]
    by (simp add: path_delimiter_def)
qed

end
