(* ===== verification/Local_Ops.thy ===== *)
theory Local_Ops
  imports Directory_Table
begin

text \<open>
  The file operations on directories that this client leads (\<^verbatim>\<open>client/fs_ops/local_ops.cpp\<close>), each as
  one computation on the client's state: inode objects, directory tables, the journal and the data
  pool.  The mutexes make an operation atomic with respect to the objects it locks; the model runs
  one operation at a time.  An integer result is the return code, a negated \<^verbatim>\<open>errno\<close> on failure.
\<close>

section \<open>Constants of the system headers\<close>

definition EEXIST :: int where "EEXIST = 17"
definition ENOTDIR :: int where "ENOTDIR = 20"
definition EISDIR :: int where "EISDIR = 21"
definition EINVAL :: int where "EINVAL = 22"
definition ENOSYS :: int where "ENOSYS = 38"
definition ENOTEMPTY :: int where "ENOTEMPTY = 39"
definition ELOOP :: int where "ELOOP = 40"
definition O_TRUNC :: "32 word" where "O_TRUNC = 0x200"
definition O_APPEND :: "32 word" where "O_APPEND = 0x400"
definition O_DIRECTORY :: "32 word" where "O_DIRECTORY = 0x10000"
definition O_NOFOLLOW :: "32 word" where "O_NOFOLLOW = 0x20000"
definition O_PATH :: "32 word" where "O_PATH = 0x200000"
definition UTIME_NOW :: "64 word" where "UTIME_NOW = 0x3FFFFFFF"
definition UTIME_OMIT :: "64 word" where "UTIME_OMIT = 0x3FFFFFFE"

section \<open>Shared pieces\<close>

text \<open>\<open>readE\<close> runs a computation that depends on the current state.\<close>

definition readE :: "('g \<Rightarrow> ('g, 'a) st) \<Rightarrow> ('g, 'a) st" where
  "readE f g = f g g"

text \<open>The table of a directory, dereferenced at once.\<close>

definition table_of :: "('s, 'e) world \<Rightarrow> nat \<Rightarrow> ('s, 'e, nat) fsm" where
  "table_of W i = readE (\<lambda>g. bindE (get_dentry_table W (ino_of g i) False) deref)"

text \<open>A new inode below the directory \<open>parent\<close>, owned by the client's user.\<close>

definition make_inode :: "nat \<Rightarrow> 32 word \<Rightarrow> ('s, 'e, nat) fsm" where
  "make_inode parent mode =
     bindE get_time (\<lambda>ts.
     bindE alloc_new_ino (\<lambda>ino.
       readE (\<lambda>g. new_iobj (Inode (inode_new ino ts (ino_of g parent)
         (client_uid (this_client g)) (client_gid (this_client g)) mode False)))))"

text \<open>The modification and change time of a directory.\<close>

definition touch_dir :: "nat \<Rightarrow> ('s, 'e, unit) fsm" where
  "touch_dir i =
     bindE get_time (\<lambda>ts.
     bindE (update_core i (\<lambda>c. c\<lparr>i_mtime := ts\<rparr>)) (\<lambda>_.
       update_core i (\<lambda>c. c\<lparr>i_ctime := ts\<rparr>)))"

text \<open>Journal calls; the journal copies the inodes it is given.\<close>

definition j_mkself :: "('s, 'e) world \<Rightarrow> nat \<Rightarrow> ('s, 'e, unit) fsm" where
  "j_mkself W i = readE (\<lambda>g. journal_call (journal_mkself (w_raw W) (inode_at g i)))"

definition j_chself :: "('s, 'e) world \<Rightarrow> nat \<Rightarrow> ('s, 'e, unit) fsm" where
  "j_chself W i = readE (\<lambda>g. journal_call (journal_chself (w_raw W) (inode_at g i)))"

definition j_rmself :: "('s, 'e) world \<Rightarrow> uuid \<Rightarrow> ('s, 'e, unit) fsm" where
  "j_rmself W ino = journal_call (journal_rmself (w_raw W) ino)"

definition j_mkdir :: "('s, 'e) world \<Rightarrow> nat \<Rightarrow> string \<Rightarrow> uuid \<Rightarrow> ('s, 'e, unit) fsm" where
  "j_mkdir W i n u = readE (\<lambda>g. journal_call (journal_mkdir (w_raw W) (inode_at g i) n u))"

definition j_rmdir :: "('s, 'e) world \<Rightarrow> nat \<Rightarrow> string \<Rightarrow> uuid \<Rightarrow> ('s, 'e, unit) fsm" where
  "j_rmdir W i n u = readE (\<lambda>g. journal_call (journal_rmdir (w_raw W) (inode_at g i) n u))"

definition j_mkreg :: "('s, 'e) world \<Rightarrow> nat \<Rightarrow> string \<Rightarrow> nat \<Rightarrow> ('s, 'e, unit) fsm" where
  "j_mkreg W i n f = readE (\<lambda>g. journal_call (journal_mkreg (w_raw W) (inode_at g i) n (inode_at g f)))"

definition j_rmreg :: "('s, 'e) world \<Rightarrow> nat \<Rightarrow> string \<Rightarrow> nat \<Rightarrow> ('s, 'e, unit) fsm" where
  "j_rmreg W i n f = readE (\<lambda>g. journal_call (journal_rmreg (w_raw W) (inode_at g i) n (inode_at g f)))"

definition j_chreg :: "('s, 'e) world \<Rightarrow> nat \<Rightarrow> ('s, 'e, unit) fsm" where
  "j_chreg W f = readE (\<lambda>g. journal_call (journal_chreg (w_raw W) (p_ino (inode_at g f)) (inode_at g f)))"

text \<open>The end of every attribute change: a directory is its own entry, a file its parent's.\<close>

definition j_change :: "('s, 'e) world \<Rightarrow> nat \<Rightarrow> ('s, 'e, unit) fsm" where
  "j_change W i = bindE (get_mode W i) (\<lambda>m. if S_ISDIR m then j_chself W i else j_chreg W i)"

text \<open>A new local file handle, registered under its address.\<close>

definition open_handle :: "nat \<Rightarrow> ('s, 'e, 64 word) fsm" where
  "open_handle i =
     bindE new_address (\<lambda>a.
       readE (\<lambda>g.
         bindE (add_file_handler a
           ((file_handler_new (ino_of g i))\<lparr>fh_loc := Some LOCAL, fh_i := Some i, fhno := a\<rparr>))
           (\<lambda>_. returnE a)))"

section \<open>Attributes and directories\<close>

definition local_getattr :: "nat \<Rightarrow> stat \<Rightarrow> ('s, 'e, stat) fsm" where
  "local_getattr i st = readE (\<lambda>g. returnE (fill_stat (inode_at g i) st))"

definition local_access :: "('s, 'e) world \<Rightarrow> nat \<Rightarrow> 32 word \<Rightarrow> ('s, 'e, unit) fsm" where
  "local_access W i amask = check_permission W i amask"

text \<open>The second component is the new value of \<^verbatim>\<open>file_info->fh\<close>.\<close>

definition local_opendir :: "('s, 'e) world \<Rightarrow> nat \<Rightarrow> 64 word \<Rightarrow> ('s, 'e, int \<times> 64 word) fsm" where
  "local_opendir W i fh =
     bindE (get_mode W i) (\<lambda>m.
       if \<not> S_ISDIR m then returnE (- ENOTDIR, fh)
       else bindE (open_handle i) (\<lambda>a. returnE (0, a)))"

definition local_releasedir :: "nat \<Rightarrow> 64 word \<Rightarrow> ('s, 'e, int) fsm" where
  "local_releasedir i fh = delete_file_handler fh"

text \<open>The result is the list of names given to the filler.\<close>

definition local_readdir :: "('s, 'e) world \<Rightarrow> nat \<Rightarrow> ('s, 'e, string list) fsm" where
  "local_readdir W i = bindE (table_of W i) (dt_fill_filler W)"

definition local_mkdir ::
  "('s, 'e) world \<Rightarrow> nat \<Rightarrow> string \<Rightarrow> 32 word \<Rightarrow> ('s, 'e, int \<times> nat \<times> dentry) fsm" where
  "local_mkdir W parent_i new_child_name mode =
     bindE (table_of W parent_i) (\<lambda>t.
     bindE (make_inode parent_i (mode OR S_IFDIR)) (\<lambda>new_i.
     bindE (create_child_inode t new_child_name new_i) (\<lambda>_.
     bindE (touch_dir parent_i) (\<lambda>_.
     bindE (readE (\<lambda>g. j_mkdir W parent_i new_child_name (ino_of g new_i))) (\<lambda>_.
     bindE (update_core new_i (\<lambda>c. c\<lparr>i_size := DIR_INODE_SIZE\<rparr>)) (\<lambda>_.
     bindE (liftE (\<lambda>g. dentry_new (w_pool W) (meta (jrnl g)) (ino_of g new_i) True)) (\<lambda>new_d.
     bindE (j_mkself W new_i) (\<lambda>_. returnE (0, new_i, new_d)))))))))"

definition local_rmdir_top :: "('s, 'e) world \<Rightarrow> nat \<Rightarrow> uuid \<Rightarrow> ('s, 'e, int) fsm" where
  "local_rmdir_top W target_i target_ino =
     bindE (get_dentry_table W target_ino False) (\<lambda>p.
       case p of
         None \<Rightarrow> throwE (Runtime_error ''directory table is corrupted : Can't find leased directory'')
       | Some t \<Rightarrow>
           bindE (dt_get_child_num W t) (\<lambda>n.
             if 0 < n then returnE (- ENOTEMPTY)
             else
               bindE (j_rmself W target_ino) (\<lambda>_.
               bindE (delete_dentry_table target_ino) (\<lambda>_. returnE 0))))"

definition local_rmdir_down :: "('s, 'e) world \<Rightarrow> nat \<Rightarrow> uuid \<Rightarrow> string \<Rightarrow> ('s, 'e, int) fsm" where
  "local_rmdir_down W parent_i target_ino target_name =
     bindE (readE (\<lambda>g. get_dentry_table W (ino_of g parent_i) False)) (\<lambda>p.
       case p of
         None \<Rightarrow> throwE (Runtime_error ''directory table is corrupted : Can't find leased directory'')
       | Some t \<Rightarrow>
           bindE (delete_child_inode t target_name) (\<lambda>_.
           bindE (touch_dir parent_i) (\<lambda>_.
           bindE (j_rmdir W parent_i target_name target_ino) (\<lambda>_.
           bindE (delete_dentry_table target_ino) (\<lambda>_. returnE 0)))))"

section \<open>Symbolic links\<close>

definition local_symlink :: "('s, 'e) world \<Rightarrow> nat \<Rightarrow> string \<Rightarrow> string \<Rightarrow> ('s, 'e, int) fsm" where
  "local_symlink W dst_parent_i src dst =
     bindE (table_of W dst_parent_i) (\<lambda>t.
     bindE (liftE (\<lambda>_. get_filename_from_path dst)) (\<lambda>symlink_name.
     bindE (check_child_inode W t symlink_name) (\<lambda>found.
       if \<not> is_nil found then returnE (- EEXIST)
       else
         bindE get_time (\<lambda>ts.
         bindE alloc_new_ino (\<lambda>ino.
         bindE (readE (\<lambda>g. new_iobj (Inode (inode_new_symlink ino ts (ino_of g dst_parent_i)
           (client_uid (this_client g)) (client_gid (this_client g)) (S_IFLNK OR 0x1FF) src)))) (\<lambda>symlink_i.
         bindE (update_core symlink_i (\<lambda>c. c\<lparr>i_size := of_nat (length src)\<rparr>)) (\<lambda>_.
         bindE (create_child_inode t symlink_name symlink_i) (\<lambda>_.
         bindE get_time (\<lambda>_.
         bindE (j_mkreg W dst_parent_i symlink_name symlink_i) (\<lambda>_. returnE 0))))))))))"

text \<open>
  The bytes written to the buffer, which has room for \<open>sz\<close>.  The name's own buffer ends with a NUL.
\<close>

definition local_readlink :: "('s, 'e) world \<Rightarrow> nat \<Rightarrow> 64 word \<Rightarrow> ('s, 'e, int \<times> byte list) fsm" where
  "local_readlink W i sz =
     bindE (get_mode W i) (\<lambda>m.
       if \<not> S_ISLNK m then returnE (- EINVAL, [])
       else readE (\<lambda>g.
         let n = ucast (link_target_len (core (inode_at g i))) :: 64 word;
             len = (if n < sz - 1 then n else sz - 1)
         in case link_target_name (inode_at g i) of
              None \<Rightarrow> throwE Undefined_behaviour
            | Some name \<Rightarrow>
                if unat len \<le> length name + 1 \<and> unat len < unat sz
                then returnE (0, take (unat len) (map byte_of_char name @ [0]) @ [0])
                else throwE Undefined_behaviour))"

section \<open>Rename\<close>

text \<open>
  The test for moving a directory below itself: \<^verbatim>\<open>find\<close> gives 0 exactly for a prefix, and \<^verbatim>\<open>at\<close>
  throws when the new path is no longer than the old one.
\<close>

definition paradox_check :: "string \<Rightarrow> string \<Rightarrow> bool result" where
  "paradox_check old_path new_path =
     (if take (length old_path) new_path = old_path then
        (if length new_path \<le> length old_path then Inl Out_of_range
         else Inr (new_path ! length old_path = path_delimiter))
      else Inr False)"

text \<open>Removing the entry that the new name had.\<close>

definition drop_target :: "('s, 'e) world \<Rightarrow> nat \<Rightarrow> nat \<Rightarrow> string \<Rightarrow> uuid \<Rightarrow> ('s, 'e, unit) fsm" where
  "drop_target W parent_i t new_name check_dst_ino =
     (if \<not> is_nil check_dst_ino then
        bindE (get_child_inode W t new_name nil_uuid) (\<lambda>q.
        bindE (delete_child_inode t new_name) (\<lambda>_.
        bindE (deref q) (\<lambda>check_dst_inode. j_rmreg W parent_i new_name check_dst_inode)))
      else returnE ())"

definition local_rename_same_parent ::
  "('s, 'e) world \<Rightarrow> nat \<Rightarrow> string \<Rightarrow> string \<Rightarrow> 32 word \<Rightarrow> ('s, 'e, int) fsm" where
  "local_rename_same_parent W parent_i old_path new_path flags =
     bindE (liftE (\<lambda>_. paradox_check old_path new_path)) (\<lambda>below.
       if below then returnE (- EINVAL)
       else
         bindE (liftE (\<lambda>_. get_filename_from_path old_path)) (\<lambda>old_name.
         bindE (liftE (\<lambda>_. get_filename_from_path new_path)) (\<lambda>new_name.
         bindE (table_of W parent_i) (\<lambda>t.
         bindE (get_child_inode W t old_name nil_uuid) (\<lambda>p.
         bindE (deref p) (\<lambda>target_i.
         bindE (check_child_inode W t new_name) (\<lambda>check_dst_ino.
         bindE (touch_dir parent_i) (\<lambda>_.
           if flags = 0 then
             bindE (drop_target W parent_i t new_name check_dst_ino) (\<lambda>_.
             bindE (delete_child_inode t old_name) (\<lambda>_.
             bindE (j_rmreg W parent_i old_name target_i) (\<lambda>_.
             bindE (create_child_inode t new_name target_i) (\<lambda>_.
             bindE (j_mkreg W parent_i new_name target_i) (\<lambda>_. returnE 0)))))
           else returnE (- ENOSYS)))))))))"

definition local_rename_not_same_parent_src ::
  "('s, 'e) world \<Rightarrow> nat \<Rightarrow> string \<Rightarrow> 32 word \<Rightarrow> ('s, 'e, nat) fsm" where
  "local_rename_not_same_parent_src W src_parent_i old_path flags =
     bindE (liftE (\<lambda>_. get_filename_from_path old_path)) (\<lambda>old_name.
     bindE (table_of W src_parent_i) (\<lambda>t.
     bindE (get_child_inode W t old_name nil_uuid) (\<lambda>p.
     bindE (deref p) (\<lambda>target_i.
       if flags = 0 then
         bindE (delete_child_inode t old_name) (\<lambda>_.
         bindE (j_rmreg W src_parent_i old_name target_i) (\<lambda>_. returnE target_i))
       else throwE (Runtime_error ''NOT IMPLEMENTED'')))))"

definition local_rename_not_same_parent_dst ::
  "('s, 'e) world \<Rightarrow> nat \<Rightarrow> nat \<Rightarrow> uuid \<Rightarrow> string \<Rightarrow> 32 word \<Rightarrow> ('s, 'e, int) fsm" where
  "local_rename_not_same_parent_dst W dst_parent_i target_inode check_dst_ino new_path flags =
     bindE (liftE (\<lambda>_. get_filename_from_path new_path)) (\<lambda>new_name.
     bindE (table_of W dst_parent_i) (\<lambda>t.
     bindE (update_inode target_inode (\<lambda>i. i\<lparr>loc := LOCAL\<rparr>)) (\<lambda>_.
     bindE (readE (\<lambda>g. update_inode target_inode (\<lambda>i. i\<lparr>p_ino := ino_of g dst_parent_i\<rparr>))) (\<lambda>_.
       if flags = 0 then
         bindE (drop_target W dst_parent_i t new_name check_dst_ino) (\<lambda>_.
         bindE (create_child_inode t new_name target_inode) (\<lambda>_.
         bindE (j_mkreg W dst_parent_i new_name target_inode) (\<lambda>_. returnE 0)))
       else throwE (Runtime_error ''NOT IMPLEMENTED'')))))"

section \<open>Files\<close>

definition local_open :: "('s, 'e) world \<Rightarrow> nat \<Rightarrow> 32 word \<Rightarrow> 64 word \<Rightarrow> ('s, 'e, int \<times> 64 word) fsm" where
  "local_open W i flags fh =
     bindE (if flags AND O_DIRECTORY \<noteq> 0 then bindE (get_mode W i) (\<lambda>m. returnE (\<not> S_ISDIR m)) else returnE False)
       (\<lambda>notdir. if notdir then returnE (- ENOTDIR, fh)
        else
     bindE (if flags AND O_NOFOLLOW \<noteq> 0 then bindE (get_mode W i) (\<lambda>m. returnE (S_ISLNK m)) else returnE False)
       (\<lambda>link. if link then returnE (- ELOOP, fh)
        else
     bindE (if flags AND O_TRUNC \<noteq> 0 \<and> flags AND O_PATH = 0 then
              bindE (update_core i (\<lambda>c. c\<lparr>i_size := 0\<rparr>)) (\<lambda>_. j_chreg W i)
            else returnE ()) (\<lambda>_.
     bindE (open_handle i) (\<lambda>a. returnE (0, a)))))"

definition local_release :: "nat \<Rightarrow> 64 word \<Rightarrow> ('s, 'e, int) fsm" where
  "local_release i fh = delete_file_handler fh"

definition local_create :: "('s, 'e) world \<Rightarrow> nat \<Rightarrow> string \<Rightarrow> 32 word \<Rightarrow> ('s, 'e, 64 word) fsm" where
  "local_create W parent_i new_child_name mode =
     bindE (table_of W parent_i) (\<lambda>t.
     bindE (make_inode parent_i (mode OR S_IFREG)) (\<lambda>i.
     bindE (create_child_inode t new_child_name i) (\<lambda>_.
     bindE (touch_dir parent_i) (\<lambda>_.
     bindE (j_mkreg W parent_i new_child_name i) (\<lambda>_. open_handle i)))))"

definition data_key :: "('s, 'e) world \<Rightarrow> ('s, 'e) fs \<Rightarrow> nat \<Rightarrow> string" where
  "data_key W g i = uuid_to_string (w_pool W) (ino_of g i)"

definition local_unlink :: "('s, 'e) world \<Rightarrow> nat \<Rightarrow> string \<Rightarrow> ('s, 'e, unit) fsm" where
  "local_unlink W parent_i child_name =
     bindE (table_of W parent_i) (\<lambda>t.
     bindE (get_child_inode W t child_name nil_uuid) (\<lambda>p.
     bindE (deref p) (\<lambda>target_i.
     readE (\<lambda>g.
       let nlink = i_nlink (core (inode_at g target_i)) - 1 in
       if nlink = 0 then
         bindE (data_call (rados_remove (w_pool W) DATA (data_key W g target_i))) (\<lambda>_.
         bindE (delete_child_inode t child_name) (\<lambda>_.
         bindE (touch_dir parent_i) (\<lambda>_. j_rmreg W parent_i child_name target_i)))
       else
         bindE (update_core target_i (\<lambda>c. c\<lparr>i_nlink := nlink\<rparr>)) (\<lambda>_. j_chreg W target_i)))))"

text \<open>Reading returns the bytes copied to the buffer.\<close>

definition local_read :: "('s, 'e) world \<Rightarrow> nat \<Rightarrow> nat \<Rightarrow> nat \<Rightarrow> ('s, 'e, byte list) fsm" where
  "local_read W i len offset =
     readE (\<lambda>g. liftE (\<lambda>h. rados_read (w_pool W) (data_pool h) DATA (data_key W g i) len offset))"

text \<open>
  Offset and size are 64-bit; the comparison of \<^verbatim>\<open>off_t\<close> with the sum is unsigned.  \<open>unat\<close> hands on the bits
  of the offset, which \<open>rados_write\<close> reads as a signed \<^verbatim>\<open>off_t\<close>: a negative one is undefined there.
\<close>

definition local_write ::
  "('s, 'e) world \<Rightarrow> nat \<Rightarrow> byte list \<Rightarrow> 64 word \<Rightarrow> 64 word \<Rightarrow> 32 word \<Rightarrow> ('s, 'e, nat) fsm" where
  "local_write W i buffer sz offset0 flags =
     readE (\<lambda>g.
       let offset = (if flags AND O_APPEND \<noteq> 0 then i_size (core (inode_at g i)) else offset0) in
       bindE (data_call (rados_write (w_pool W) DATA (data_key W g i) buffer (unat sz) (unat offset))) (\<lambda>written_len.
       bindE (readE (\<lambda>g1.
                if i_size (core (inode_at g1 i)) < offset + sz then
                  bindE (update_core i (\<lambda>c. c\<lparr>i_size := offset + sz\<rparr>)) (\<lambda>_. j_chreg W i)
                else returnE ())) (\<lambda>_. returnE written_len)))"

definition local_chmod :: "('s, 'e) world \<Rightarrow> nat \<Rightarrow> 32 word \<Rightarrow> ('s, 'e, unit) fsm" where
  "local_chmod W i mode =
     bindE (get_mode W i) (\<lambda>m.
     bindE (update_core i (\<lambda>c. c\<lparr>i_mode := mode OR (m AND S_IFMT)\<rparr>)) (\<lambda>_. j_change W i))"

definition local_chown :: "('s, 'e) world \<Rightarrow> nat \<Rightarrow> 32 word \<Rightarrow> 32 word \<Rightarrow> ('s, 'e, unit) fsm" where
  "local_chown W i owner grp =
     bindE (if 0 \<le> sint owner then update_core i (\<lambda>c. c\<lparr>i_uid := owner\<rparr>) else returnE ()) (\<lambda>_.
     bindE (if 0 \<le> sint grp then update_core i (\<lambda>c. c\<lparr>i_gid := grp\<rparr>) else returnE ()) (\<lambda>_.
       j_change W i))"

text \<open>One of the two times of \<^verbatim>\<open>utimens\<close>; \<open>put\<close> stores it.\<close>

definition utime_one :: "nat \<Rightarrow> (timespec \<Rightarrow> core \<Rightarrow> core) \<Rightarrow> timespec \<Rightarrow> ('s, 'e, unit) fsm" where
  "utime_one i put tv =
     (if tv_nsec tv = UTIME_NOW then bindE get_time (\<lambda>ts. update_core i (put ts))
      else if tv_nsec tv = UTIME_OMIT then returnE ()
      else update_core i (put tv))"

definition local_utimens :: "('s, 'e) world \<Rightarrow> nat \<Rightarrow> timespec \<Rightarrow> timespec \<Rightarrow> ('s, 'e, unit) fsm" where
  "local_utimens W i tv0 tv1 =
     bindE (utime_one i (\<lambda>ts c. c\<lparr>i_atime := ts\<rparr>) tv0) (\<lambda>_.
     bindE (utime_one i (\<lambda>ts c. c\<lparr>i_mtime := ts\<rparr>) tv1) (\<lambda>_. j_change W i))"

definition local_truncate :: "('s, 'e) world \<Rightarrow> nat \<Rightarrow> 64 word \<Rightarrow> ('s, 'e, int) fsm" where
  "local_truncate W i offset =
     bindE (get_mode W i) (\<lambda>m.
       if S_ISDIR m then returnE (- EISDIR)
       else readE (\<lambda>g.
         bindE (data_call (rados_truncate (w_pool W) DATA (data_key W g i) (unat offset))) (\<lambda>r.
         bindE (update_core i (\<lambda>c. c\<lparr>i_size := offset\<rparr>)) (\<lambda>_.
         bindE (touch_dir i) (\<lambda>_.
         bindE (j_change W i) (\<lambda>_. returnE r))))))"

end
