(* ===== verification/Local_Refine.thy ===== *)
theory Local_Refine
  imports Local_Ops
begin

text \<open>
  Correctness of the leader's operations.  A directory table and the journal are \<^emph>\<open>in step\<close> when
  applying the open transaction to the stored entries gives the entries the table shows; the
  operations that change a directory keep them so.  Reading and writing go through to the contents of
  the data object.
\<close>

section \<open>In step\<close>

definition in_step :: "('s, 'e) fs \<Rightarrow> nat \<Rightarrow> (string \<rightharpoonup> uuid) \<Rightarrow> bool" where
  "in_step g t base \<longleftrightarrow>
     coherent g t \<and> jtab_ok (jtab (jrnl g)) \<and>
     apply_dentries (dentries (open_tx (jrnl g) (dir_ino (dtables g t)))) base = listing g t \<and>
     inj_on (listing g t) (dom (listing g t)) \<and>
     (\<forall>u \<in> ran (listing g t). f_inodes (open_tx (jrnl g) (dir_ino (dtables g t))) u \<noteq> Some None)"

lemma in_step_coherent: "in_step g t b \<Longrightarrow> coherent g t"
  by (simp add: in_step_def)

text \<open>Changes that concern neither tables nor journal: clock readings, new objects, times, marks.\<close>

definition quiet :: "('s, 'e) fs \<Rightarrow> ('s, 'e) fs \<Rightarrow> bool" where
  "quiet g g' \<longleftrightarrow> dtables g' = dtables g \<and> jrnl g' = jrnl g \<and> inode_next g \<le> inode_next g' \<and>
     (\<forall>x < inode_next g. ino_of g' x = ino_of g x)"

lemma quiet_refl [simp]: "quiet g g"
  by (simp add: quiet_def)

lemma quiet_trans: "quiet g g1 \<Longrightarrow> quiet g1 g2 \<Longrightarrow> quiet g g2"
  by (auto simp: quiet_def)

lemma quiet_listing:
  assumes "quiet g g'" and "coherent g t"
  shows "listing g' t = listing g t" and "coherent g' t"
proof -
  have "map_option (ino_of g') (child_inodes (dtables g t) n) = map_option (ino_of g) (child_inodes (dtables g t) n)" for n
    using assms by (cases "child_inodes (dtables g t) n") (auto simp: quiet_def coherent_def)
  then show l: "listing g' t = listing g t" using assms(1) by (simp add: listing_def quiet_def)
  show "coherent g' t" using assms l unfolding coherent_def quiet_def by (metis order_less_le_trans)
qed

lemma quiet_in_step: "quiet g g' \<Longrightarrow> in_step g t b \<Longrightarrow> in_step g' t b"
  using quiet_listing [of g g' t] by (simp add: in_step_def quiet_def)

text \<open>
  What a journal call does: the open transaction of the directory becomes \<open>tx\<close>, the others stay, and so
  do the pool and the queues.
\<close>

definition journaled :: "uuid \<Rightarrow> transaction \<Rightarrow> ('s, 'e) fs \<Rightarrow> ('s, 'e) fs \<Rightarrow> bool" where
  "journaled d tx g g' \<longleftrightarrow>
     (\<exists>j. g' = g\<lparr>jrnl := j\<rparr>) \<and> open_tx (jrnl g') d = tx \<and> (\<forall>u. u \<noteq> d \<longrightarrow> open_tx (jrnl g') u = open_tx (jrnl g) u) \<and>
     jt_map (jtab (jrnl g')) d \<noteq> None \<and> meta (jrnl g') = meta (jrnl g) \<and> jqueues (jrnl g') = jqueues (jrnl g)"

abbreviation journaled_in :: "uuid \<Rightarrow> ('s, 'e) fs \<Rightarrow> ('s, 'e) fs \<Rightarrow> bool" where
  "journaled_in d g g' \<equiv> \<exists>tx. journaled d tx g g'"

lemma journaledD: "journaled d tx g g' \<Longrightarrow> \<exists>j. g' = g\<lparr>jrnl := j\<rparr>"
  by (auto simp: journaled_def)

text \<open>The same for one journal and the operation that was recorded.\<close>

definition logs :: "inode \<Rightarrow> uuid \<Rightarrow> tx_op \<Rightarrow> 's journal \<Rightarrow> 's journal \<Rightarrow> bool" where
  "logs raw d op j j' \<longleftrightarrow> tx_exec raw op (open_tx j d) = (Inr 0, open_tx j' d) \<and>
     jt_map (jtab j') d \<noteq> None \<and> meta j' = meta j \<and> jqueues j' = jqueues j"

definition recorded :: "inode \<Rightarrow> uuid \<Rightarrow> tx_op \<Rightarrow> ('s, 'e) fs \<Rightarrow> ('s, 'e) fs \<Rightarrow> bool" where
  "recorded raw d op g g' \<longleftrightarrow> journaled_in d g g' \<and> logs raw d op (jrnl g) (jrnl g')"

lemma recorded_journaled: "recorded raw d op g g' \<Longrightarrow> journaled_in d g g'"
  by (simp add: recorded_def)

lemma recordedI:
  "tx_exec raw op (open_tx (jrnl g) d) = (Inr 0, tx) \<Longrightarrow> journaled d tx g g' \<Longrightarrow> recorded raw d op g g'"
  by (auto simp: recorded_def logs_def journaled_def)

text \<open>Recording the operation that the table has already undergone brings the journal in step again.\<close>

lemma journal_in_step:
  assumes "coherent g t" and ok: "jtab_ok (jtab (jrnl g))" and d: "d = dir_ino (dtables g t)"
    and e: "tx_exec raw op (open_tx (jrnl g) d) = (Inr 0, tx')"
    and eff: "dir_effect op (apply_dentries (dentries (open_tx (jrnl g) d)) b) = listing g t"
    and "inj_on (listing g t) (dom (listing g t))"
    and "\<forall>u \<in> ran (listing g t). f_inodes tx' u \<noteq> Some None"
  shows "yields (journal_call (journal_op raw d op)) g
    (\<lambda>_ g'. in_step g' t b \<and> listing g' t = listing g t \<and> journaled d tx' g g')"
proof -
  from journal_op_open [OF ok e] obtain j where
    j: "journal_op raw d op (jrnl g) = Some (Inr (), j)" "jtab_ok (jtab j)" "open_tx j d = tx'"
      "\<forall>u. u \<noteq> d \<longrightarrow> open_tx j u = open_tx (jrnl g) u"
      "jt_map (jtab j) d \<noteq> None" "meta j = meta (jrnl g)" "jqueues j = jqueues (jrnl g)" by blast
  let ?g = "g\<lparr>jrnl := j\<rparr>"
  have "ino_of ?g = ino_of g" by (simp add: ino_of_def inode_at_def fun_eq_iff)
  then have "coherent ?g t" "listing ?g t = listing g t" using assms(1) by (simp_all add: coherent_def listing_def)
  moreover have "apply_dentries (dentries tx') b = listing g t"
    using tx_exec_entries [OF e, of b] eff by simp
  ultimately have "in_step ?g t b \<and> listing ?g t = listing g t" using assms(6,7) j(2,3) d by (simp add: in_step_def)
  then show ?thesis using j by (intro yieldsI [of _ _ "()" ?g]) (auto simp: journal_call_def journaled_def)
qed

lemma tx_mkreg_ok:
  assumes "\<not> committed tx" and "\<And>v. dentries tx n \<noteq> Some (True, v)"
    and "\<And>k. f_inodes tx (i_ino (core f)) \<noteq> Some (Some k)"
  shows "\<exists>tx'. tx_exec raw (Mkreg i n f) tx = (Inr 0, tx') \<and>
    f_inodes tx' = (f_inodes tx)(i_ino (core f) \<mapsto> Some (inode_copy raw f))"
  using assms by (auto simp: tx_mkreg_def Let_def split: option.splits bool.splits)

lemma tx_rmreg_ok:
  assumes "\<not> committed tx" and "\<And>v. dentries tx n \<noteq> Some (False, v)" and "f_inodes tx (i_ino (core f)) \<noteq> Some None"
  shows "\<exists>tx'. tx_exec raw (Rmreg i n f) tx = (Inr 0, tx') \<and> f_inodes tx' = (f_inodes tx)(i_ino (core f) \<mapsto> None)"
  using assms by (auto simp: tx_rmreg_def Let_def split: option.splits bool.splits)

lemma tx_mkdir_ok:
  assumes "\<not> committed tx" and "\<And>v. dentries tx n \<noteq> Some (True, v)"
  shows "\<exists>tx'. tx_exec raw (Mkdir i n u) tx = (Inr 0, tx') \<and> f_inodes tx' = f_inodes tx"
  using assms by (auto simp: tx_mkdir_def split: option.splits bool.splits)

lemma tx_rmdir_ok:
  assumes "\<not> committed tx" and "\<And>v. dentries tx n \<noteq> Some (False, v)"
  shows "\<exists>tx'. tx_exec raw (Rmdir i n u) tx = (Inr 0, tx') \<and> f_inodes tx' = f_inodes tx"
  using assms by (auto simp: tx_rmdir_def split: option.splits bool.splits)

text \<open>What being in step says about the marks in the open transaction.\<close>

lemma in_step_marks:
  assumes "in_step g t b"
  shows "listing g t n = None \<Longrightarrow> dentries (open_tx (jrnl g) (dir_ino (dtables g t))) n \<noteq> Some (True, v)"
    and "listing g t n = Some u \<Longrightarrow> dentries (open_tx (jrnl g) (dir_ino (dtables g t))) n \<noteq> Some (False, v)"
proof -
  let ?ds = "dentries (open_tx (jrnl g) (dir_ino (dtables g t)))"
  have "listing g t n = apply_dentries ?ds b n" using assms by (simp add: in_step_def)
  then show "listing g t n = None \<Longrightarrow> ?ds n \<noteq> Some (True, v)" "listing g t n = Some u \<Longrightarrow> ?ds n \<noteq> Some (False, v)"
    by (auto simp: apply_dentries_def)
qed

section \<open>Entering and leaving names\<close>

text \<open>
  \<open>edited g t f g'\<close>: the table \<open>t\<close> has been changed to show \<open>f\<close>, the journal does not know it yet.
\<close>

definition edited :: "('s, 'e) fs \<Rightarrow> nat \<Rightarrow> (string \<rightharpoonup> uuid) \<Rightarrow> ('s, 'e) fs \<Rightarrow> bool" where
  "edited g t f g' \<longleftrightarrow> coherent g' t \<and> listing g' t = f \<and> jrnl g' = jrnl g \<and>
     dir_ino (dtables g' t) = dir_ino (dtables g t) \<and> (\<forall>t'. t' \<noteq> t \<longrightarrow> dtables g' t' = dtables g t') \<and>
     inode_next g \<le> inode_next g' \<and> (\<forall>x < inode_next g. ino_of g' x = ino_of g x)"

lemma edited_quiet: "edited g t f g1 \<Longrightarrow> quiet g1 g2 \<Longrightarrow> edited g t f g2"
  using quiet_listing [of g1 g2 t] by (auto simp: edited_def quiet_def)

lemma quiet_edited: "quiet g g1 \<Longrightarrow> edited g1 t f g2 \<Longrightarrow> edited g t f g2"
  by (auto simp: edited_def quiet_def)

lemma create_edited:
  assumes "coherent g t" and "x < inode_next g" and "listing g t n = None"
  shows "yields (create_child_inode t n x) g (\<lambda>_ g'. edited g t ((listing g t)(n \<mapsto> ino_of g x)) g' \<and>
    (\<exists>ds. g' = g\<lparr>dtables := ds\<rparr>) \<and> child_inodes (dtables g' t) = (child_inodes (dtables g t))(n \<mapsto> x))"
proof -
  from create_child_fresh [OF assms] obtain g' where g': "create_child_inode t n x g = (Inr 0, g')" "g' = g\<lparr>dtables := dtables g'\<rparr>"
    and rest: "edited g t (listing g' t) g'" "listing g' t = (listing g t)(n \<mapsto> ino_of g x)"
      "child_inodes (dtables g' t) = (child_inodes (dtables g t))(n \<mapsto> x)"
    unfolding edited_def by (metis (no_types, lifting) fs.select_convs(7) fs.surjective fs.update_convs(3) order_refl)
  from g'(2) have "\<exists>ds. g' = g\<lparr>dtables := ds\<rparr>" by (rule exI [of _ "dtables g'"])
  with g'(1) rest show ?thesis unfolding yields_def by simp
qed

lemma delete_edited:
  assumes "coherent g t" and "listing g t n = Some u"
  shows "yields (delete_child_inode t n) g (\<lambda>_ g'. edited g t ((listing g t)(n := None)) g' \<and>
    (\<exists>ds. g' = g\<lparr>dtables := ds\<rparr>) \<and> child_inodes (dtables g' t) = (child_inodes (dtables g t))(n := None))"
proof -
  from delete_child_present [OF assms] obtain g' where g': "delete_child_inode t n g = (Inr 0, g')" "g' = g\<lparr>dtables := dtables g'\<rparr>"
    and rest: "edited g t (listing g' t) g'" "listing g' t = (listing g t)(n := None)"
      "child_inodes (dtables g' t) = (child_inodes (dtables g t))(n := None)"
    unfolding edited_def by (metis (no_types, lifting) fs.select_convs(7) fs.surjective fs.update_convs(3) order_refl)
  from g'(2) have "\<exists>ds. g' = g\<lparr>dtables := ds\<rparr>" by (rule exI [of _ "dtables g'"])
  with g'(1) rest show ?thesis unfolding yields_def by simp
qed

lemma inj_on_enter: "inj_on m (dom m) \<Longrightarrow> u \<notin> ran m \<Longrightarrow> inj_on (m(n \<mapsto> u)) (dom (m(n \<mapsto> u)))"
  by (auto simp: inj_on_def ran_def dom_def)

lemma inj_on_leave: "inj_on m (dom m) \<Longrightarrow> inj_on (m(n := None)) (dom (m(n := None)))"
  by (auto simp: inj_on_def dom_def split: if_splits)

lemma ran_leave: "inj_on m (dom m) \<Longrightarrow> m n = Some u \<Longrightarrow> v \<in> ran (m(n := None)) \<Longrightarrow> v \<in> ran m \<and> v \<noteq> u"
  by (auto simp: inj_on_def ran_def dom_def split: if_splits)

lemma ran_enter: "v \<in> ran (m(n \<mapsto> u)) \<Longrightarrow> v = u \<or> v \<in> ran m"
  by (auto simp: ran_def split: if_splits)

text \<open>The four journal calls that follow.\<close>

lemma record_mkreg:
  assumes s: "in_step g t b" and e: "edited g t ((listing g t)(n \<mapsto> ino_of g1 x)) g1"
    and p: "ino_of g1 p = dir_ino (dtables g t)" and n: "listing g t n = None" and u: "ino_of g1 x \<notin> ran (listing g t)"
    and f: "\<And>k. f_inodes (open_tx (jrnl g) (dir_ino (dtables g t))) (ino_of g1 x) \<noteq> Some (Some k)"
  shows "yields (j_mkreg W p n x) g1 (\<lambda>_ g2. in_step g2 t b \<and> listing g2 t = listing g1 t \<and> 
    recorded (w_raw W) (dir_ino (dtables g t)) (Mkreg (inode_at g1 p) n (inode_at g1 x)) g1 g2)"
proof -
  let ?tx = "open_tx (jrnl g) (dir_ino (dtables g t))"
  note S = s [unfolded in_step_def] and E = e [unfolded edited_def]
  have "\<not> committed ?tx" using S by (simp add: open_tx_uncommitted)
  from tx_mkreg_ok [OF this in_step_marks(1) [OF s n], of "inode_at g1 x"] f obtain tx' where
    x: "tx_exec (w_raw W) (Mkreg (inode_at g1 p) n (inode_at g1 x)) ?tx = (Inr 0, tx')"
      "f_inodes tx' = (f_inodes ?tx)(ino_of g1 x \<mapsto> Some (inode_copy (w_raw W) (inode_at g1 x)))"
    unfolding ino_of_def by blast
  have "yields (journal_call (journal_op (w_raw W) (ino_of g1 p) (Mkreg (inode_at g1 p) n (inode_at g1 x)))) g1
      (\<lambda>_ g'. in_step g' t b \<and> listing g' t = listing g1 t \<and> journaled (ino_of g1 p) tx' g1 g')"
  proof (rule journal_in_step)
    show "tx_exec (w_raw W) (Mkreg (inode_at g1 p) n (inode_at g1 x)) (open_tx (jrnl g1) (ino_of g1 p)) = (Inr 0, tx')"
      using x(1) E p by simp
    show "dir_effect (Mkreg (inode_at g1 p) n (inode_at g1 x))
        (apply_dentries (dentries (open_tx (jrnl g1) (ino_of g1 p))) b) = listing g1 t"
      using S E p by (simp add: ino_of_def)
    show "inj_on (listing g1 t) (dom (listing g1 t))" using inj_on_enter [OF _ u, of n] S E by simp
    show "\<forall>v \<in> ran (listing g1 t). f_inodes tx' v \<noteq> Some None"
    proof
      fix v
      assume "v \<in> ran (listing g1 t)"
      then have "v = ino_of g1 x \<or> v \<in> ran (listing g t)" using E ran_enter [of v "listing g t"] by simp
      then show "f_inodes tx' v \<noteq> Some None" using S by (auto simp: x(2))
    qed
  qed (use S E p in simp_all)
  moreover have "recorded (w_raw W) (ino_of g1 p) (Mkreg (inode_at g1 p) n (inode_at g1 x)) g1 g'"
    if "journaled (ino_of g1 p) tx' g1 g'" for g' by (rule recordedI [OF _ that]) (use x(1) E p in simp)
  ultimately show ?thesis using p by (auto simp: j_mkreg_def readE_def journal_mkreg_def ino_of_def yields_def)
qed

lemma record_rmreg:
  assumes s: "in_step g t b" and e: "edited g t ((listing g t)(n := None)) g1"
    and p: "ino_of g1 p = dir_ino (dtables g t)" and n: "listing g t n = Some (ino_of g1 x)"
  shows "yields (j_rmreg W p n x) g1 (\<lambda>_ g2. in_step g2 t b \<and> listing g2 t = listing g1 t \<and> 
    recorded (w_raw W) (dir_ino (dtables g t)) (Rmreg (inode_at g1 p) n (inode_at g1 x)) g1 g2 \<and>
    f_inodes (open_tx (jrnl g2) (dir_ino (dtables g t))) = (f_inodes (open_tx (jrnl g) (dir_ino (dtables g t))))(ino_of g1 x \<mapsto> None))"
proof -
  let ?tx = "open_tx (jrnl g) (dir_ino (dtables g t))"
  note S = s [unfolded in_step_def] and E = e [unfolded edited_def]
  have "\<not> committed ?tx" using S by (simp add: open_tx_uncommitted)
  moreover have "f_inodes ?tx (ino_of g1 x) \<noteq> Some None" using S n by (auto simp: ran_def)
  ultimately obtain tx' where
    x: "tx_exec (w_raw W) (Rmreg (inode_at g1 p) n (inode_at g1 x)) ?tx = (Inr 0, tx')"
      "f_inodes tx' = (f_inodes ?tx)(ino_of g1 x \<mapsto> None)"
    using tx_rmreg_ok [of ?tx n "inode_at g1 x" "w_raw W" "inode_at g1 p"] in_step_marks(2) [OF s n]
    unfolding ino_of_def by blast
  have exec: "tx_exec (w_raw W) (Rmreg (inode_at g1 p) n (inode_at g1 x)) (open_tx (jrnl g1) (ino_of g1 p)) = (Inr 0, tx')"
    using x(1) E p by simp
  have "yields (journal_call (journal_op (w_raw W) (ino_of g1 p) (Rmreg (inode_at g1 p) n (inode_at g1 x)))) g1
      (\<lambda>_ g'. in_step g' t b \<and> listing g' t = listing g1 t \<and> journaled (ino_of g1 p) tx' g1 g')"
  proof (rule journal_in_step [OF _ _ _ exec])
    show "dir_effect (Rmreg (inode_at g1 p) n (inode_at g1 x))
        (apply_dentries (dentries (open_tx (jrnl g1) (ino_of g1 p))) b) = listing g1 t"
      using S E p by simp
    show "inj_on (listing g1 t) (dom (listing g1 t))" using inj_on_leave [of "listing g t" n] S E by simp
    show "\<forall>v \<in> ran (listing g1 t). f_inodes tx' v \<noteq> Some None"
    proof
      fix v
      assume "v \<in> ran (listing g1 t)"
      then have "v \<in> ran (listing g t) \<and> v \<noteq> ino_of g1 x" using E S n ran_leave [of "listing g t" n _ v] by simp
      then show "f_inodes tx' v \<noteq> Some None" using S by (auto simp: x(2))
    qed
  qed (use S E p in simp_all)
  moreover have "recorded (w_raw W) (ino_of g1 p) (Rmreg (inode_at g1 p) n (inode_at g1 x)) g1 g' \<and>
      f_inodes (open_tx (jrnl g') (ino_of g1 p)) = (f_inodes ?tx)(ino_of g1 x \<mapsto> None)"
    if "journaled (ino_of g1 p) tx' g1 g'" for g' using recordedI [OF exec that] that x(2) by (simp add: journaled_def)
  ultimately show ?thesis using p by (auto simp: j_rmreg_def readE_def journal_rmreg_def ino_of_def yields_def)
qed

section \<open>The shared pieces\<close>

lemma readE_apply [simp]: "readE f g = f g g"
  by (simp add: readE_def)

lemma table_of_served:
  "served (ino_of g i) g = Some t \<Longrightarrow> table_of W i g = (Inr t, g\<lparr>clock_reads := Suc (clock_reads g)\<rparr>)"
  by (simp add: table_of_def get_dentry_table_hit deref_def)

lemma make_inode_eq:
  "make_inode p m g = (Inr (inode_next g), g\<lparr>time_reads := Suc (time_reads g), uuid_reads := Suc (uuid_reads g),
     inodes := (inodes g)(inode_next g := Inode (inode_new (uuid_src g (uuid_reads g)) (time_src g (time_reads g)) (ino_of g p)
       (client_uid (this_client g)) (client_gid (this_client g)) m False)), inode_next := Suc (inode_next g)\<rparr>)"
  by (simp add: make_inode_def get_time_def alloc_new_ino_def new_iobj_def bindE_def ino_of_def inode_at_def)

lemma touch_dir_eq:
  "touch_dir i g = (Inr (), g\<lparr>time_reads := Suc (time_reads g),
     inodes := (inodes g)(i := map_base (\<lambda>k. k\<lparr>core := (core k)\<lparr>i_mtime := time_src g (time_reads g),
       i_ctime := time_src g (time_reads g)\<rparr>\<rparr>) (inodes g i))\<rparr>)"
  by (cases "inodes g i") (simp_all add: touch_dir_def get_time_def update_core_def update_inode_def bindE_def)

lemma open_handle_eq:
  "fh_list g (addr_src g (addr_reads g)) = None \<Longrightarrow>
   open_handle i g = (Inr (addr_src g (addr_reads g)), g\<lparr>addr_reads := Suc (addr_reads g),
     fh_list := (fh_list g)(addr_src g (addr_reads g) \<mapsto>
       \<lparr>fh_ino = ino_of g i, fh_loc = Some LOCAL, fhno = addr_src g (addr_reads g), fh_i = Some i, fh_remote_i = None\<rparr>)\<rparr>)"
  by (simp add: open_handle_def new_address_def add_file_handler_def bindE_def file_handler_new_def ino_of_def inode_at_def)

lemma quiet_simps [simp]:
  "quiet g (g\<lparr>clock_reads := k\<rparr>)" "quiet g (g\<lparr>time_reads := k\<rparr>)" "quiet g (g\<lparr>addr_reads := k, fh_list := l\<rparr>)"
  "quiet g (g\<lparr>data_pool := d\<rparr>)"
  by (simp_all add: quiet_def ino_of_def inode_at_def)

lemma make_inode_quiet: "make_inode p m g = (r, g') \<Longrightarrow> quiet g g'"
  by (auto simp: make_inode_eq quiet_def ino_of_def inode_at_def)

lemma touch_dir_quiet: "touch_dir i g = (r, g') \<Longrightarrow> quiet g g'"
  by (auto simp: touch_dir_eq quiet_def ino_of_def inode_at_def)

text \<open>An inode of which only times, size or marks have changed.\<close>

definition same_kind :: "inode \<Rightarrow> inode \<Rightarrow> bool" where
  "same_kind i k \<longleftrightarrow> i_ino (core i) = i_ino (core k) \<and> i_mode (core i) = i_mode (core k) \<and>
     link_target_len (core i) = link_target_len (core k) \<and> link_target_name i = link_target_name k"

lemma same_kind_wf: "same_kind i k \<Longrightarrow> wf_inode k \<Longrightarrow> wf_inode i \<and> i_ino (core i) = i_ino (core k)"
  using wf_inode_cong [of i k] by (simp add: same_kind_def)

lemma touch_dir_kind: "touch_dir p g = (r, g') \<Longrightarrow> same_kind (inode_at g' x) (inode_at g x)"
  by (cases "inodes g p") (auto simp: touch_dir_eq same_kind_def inode_at_def)

text \<open>A directory this client leads: its table is served, in step, and its inode is at hand.\<close>

definition leads :: "('s, 'e) fs \<Rightarrow> nat \<Rightarrow> nat \<Rightarrow> (string \<rightharpoonup> uuid) \<Rightarrow> bool" where
  "leads g p t base \<longleftrightarrow> served (ino_of g p) g = Some t \<and> in_step g t base \<and> p < inode_next g \<and>
     ino_of g p = dir_ino (dtables g t)"

text \<open>A number that neither the directory nor its open transaction knows.\<close>

definition fresh_ino :: "('s, 'e) fs \<Rightarrow> nat \<Rightarrow> uuid \<Rightarrow> bool" where
  "fresh_ino g t u \<longleftrightarrow> u \<notin> ran (listing g t) \<and>
     (\<forall>k. f_inodes (open_tx (jrnl g) (dir_ino (dtables g t))) u \<noteq> Some (Some k))"

lemma fresh_ino_quiet: "quiet g g' \<Longrightarrow> coherent g t \<Longrightarrow> fresh_ino g' t u = fresh_ino g t u"
  using quiet_listing [of g g' t] by (simp add: fresh_ino_def quiet_def)

section \<open>Entering and removing a file\<close>

text \<open>
  Entering a file and recording it, with a quiet computation in between, and the same for removing.
\<close>

lemma enter_file:
  assumes s: "in_step g t b" and x: "x < inode_next g" and p: "p < inode_next g" "ino_of g p = dir_ino (dtables g t)"
    and n: "listing g t n = None" and u: "fresh_ino g t (ino_of g x)"
  obtains r g1 where "create_child_inode t n x g = (Inr r, g1)" and "\<exists>ds. g1 = g\<lparr>dtables := ds\<rparr>"
    and "\<forall>t'. t' \<noteq> t \<longrightarrow> dtables g1 t' = dtables g t'"
    and "child_inodes (dtables g1 t) = (child_inodes (dtables g t))(n \<mapsto> x)" and "dir_ino (dtables g1 t) = dir_ino (dtables g t)"
    and "\<And>g2. quiet g1 g2 \<Longrightarrow> \<exists>g3. j_mkreg W p n x g2 = (Inr (), g3) \<and> in_step g3 t b \<and>
      listing g3 t = (listing g t)(n \<mapsto> ino_of g x) \<and> recorded (w_raw W) (dir_ino (dtables g t)) (Mkreg (inode_at g2 p) n (inode_at g2 x)) g2 g3"
proof -
  have coh: "coherent g t" using s by (simp add: in_step_def)
  from create_edited [OF coh x n] obtain r g1 where
    g1: "create_child_inode t n x g = (Inr r, g1)" "edited g t ((listing g t)(n \<mapsto> ino_of g x)) g1"
      "\<exists>ds. g1 = g\<lparr>dtables := ds\<rparr>" "child_inodes (dtables g1 t) = (child_inodes (dtables g t))(n \<mapsto> x)"
    unfolding yields_def by auto
  have rec: "\<exists>g3. j_mkreg W p n x g2 = (Inr (), g3) \<and> in_step g3 t b \<and>
      listing g3 t = (listing g t)(n \<mapsto> ino_of g x) \<and> recorded (w_raw W) (dir_ino (dtables g t)) (Mkreg (inode_at g2 p) n (inode_at g2 x)) g2 g3" if q: "quiet g1 g2" for g2
  proof -
    have e: "edited g t ((listing g t)(n \<mapsto> ino_of g x)) g2" by (rule edited_quiet [OF g1(2) q])
    then have "ino_of g2 x = ino_of g x" "ino_of g2 p = dir_ino (dtables g t)" "listing g2 t = (listing g t)(n \<mapsto> ino_of g x)"
      using x p by (simp_all add: edited_def)
    with record_mkreg [OF s, of n g2 x p W] e n u show ?thesis
      unfolding yields_def fresh_ino_def by auto
  qed
  show thesis by (rule that [OF g1(1,3) _ g1(4) _ rec]) (use g1(2) in \<open>simp_all add: edited_def\<close>)
qed

lemma remove_file:
  assumes s: "in_step g t b" and x: "x < inode_next g" and p: "p < inode_next g" "ino_of g p = dir_ino (dtables g t)"
    and n: "listing g t n = Some (ino_of g x)"
  obtains r g1 where "delete_child_inode t n g = (Inr r, g1)" and "\<exists>ds. g1 = g\<lparr>dtables := ds\<rparr>"
    and "\<forall>t'. t' \<noteq> t \<longrightarrow> dtables g1 t' = dtables g t'"
    and "child_inodes (dtables g1 t) = (child_inodes (dtables g t))(n := None)" and "dir_ino (dtables g1 t) = dir_ino (dtables g t)"
    and "\<And>g2. quiet g1 g2 \<Longrightarrow> \<exists>g3. j_rmreg W p n x g2 = (Inr (), g3) \<and> in_step g3 t b \<and>
      listing g3 t = (listing g t)(n := None) \<and> recorded (w_raw W) (dir_ino (dtables g t)) (Rmreg (inode_at g2 p) n (inode_at g2 x)) g2 g3 \<and> fresh_ino g3 t (ino_of g x) \<and>
      (\<forall>v. fresh_ino g t v \<longrightarrow> fresh_ino g3 t v)"
proof -
  have coh: "coherent g t" and inj: "inj_on (listing g t) (dom (listing g t))" using s by (simp_all add: in_step_def)
  from delete_edited [OF coh n] obtain r g1 where
    g1: "delete_child_inode t n g = (Inr r, g1)" "edited g t ((listing g t)(n := None)) g1"
      "\<exists>ds. g1 = g\<lparr>dtables := ds\<rparr>" "child_inodes (dtables g1 t) = (child_inodes (dtables g t))(n := None)"
    unfolding yields_def by auto
  have rec: "\<exists>g3. j_rmreg W p n x g2 = (Inr (), g3) \<and> in_step g3 t b \<and>
      listing g3 t = (listing g t)(n := None) \<and> recorded (w_raw W) (dir_ino (dtables g t)) (Rmreg (inode_at g2 p) n (inode_at g2 x)) g2 g3 \<and> fresh_ino g3 t (ino_of g x) \<and>
      (\<forall>v. fresh_ino g t v \<longrightarrow> fresh_ino g3 t v)" if q: "quiet g1 g2" for g2
  proof -
    have e: "edited g t ((listing g t)(n := None)) g2" by (rule edited_quiet [OF g1(2) q])
    then have g2: "ino_of g2 x = ino_of g x" "ino_of g2 p = dir_ino (dtables g t)" "listing g2 t = (listing g t)(n := None)"
      "dir_ino (dtables g2 t) = dir_ino (dtables g t)"
      using x p by (simp_all add: edited_def)
    with record_rmreg [OF s, of n g2 p x W] e n obtain g3 where
      g3: "j_rmreg W p n x g2 = (Inr (), g3)" "in_step g3 t b" "listing g3 t = (listing g t)(n := None)"
        "recorded (w_raw W) (dir_ino (dtables g t)) (Rmreg (inode_at g2 p) n (inode_at g2 x)) g2 g3" "f_inodes (open_tx (jrnl g3) (dir_ino (dtables g t))) = (f_inodes (open_tx (jrnl g) (dir_ino (dtables g t))))(ino_of g x \<mapsto> None)"
      unfolding yields_def by auto
    moreover have "ino_of g x \<notin> ran ((listing g t)(n := None))" using ran_leave [OF inj n] by blast
    moreover have "dir_ino (dtables g3 t) = dir_ino (dtables g t)" using recorded_journaled [OF g3(4)] g2(4) by (auto simp: journaled_def)
    moreover have "v \<notin> ran ((listing g t)(n := None))" if "v \<notin> ran (listing g t)" for v
      using that by (auto simp: ran_def split: if_splits)
    ultimately show ?thesis by (auto simp: fresh_ino_def)
  qed
  show thesis by (rule that [OF g1(1,3) _ g1(4) _ rec]) (use g1(2) in \<open>simp_all add: edited_def\<close>)
qed

section \<open>Create\<close>

lemma local_create_ok:
  fixes g :: "('s, 'e) fs"
  defines "u \<equiv> uuid_src g (uuid_reads g)" and "a \<equiv> addr_src g (addr_reads g)" and "x \<equiv> inode_next g"
  assumes lead: "leads g p t b" and n: "listing g t n = None" and u: "fresh_ino g t u" and a: "fh_list g a = None"
  shows "yields (local_create W p n mode) g (\<lambda>a' g'. a' = a \<and> in_step g' t b \<and>
    listing g' t = (listing g t)(n \<mapsto> u) \<and> (\<forall>t'. t' \<noteq> t \<longrightarrow> dtables g' t' = dtables g t') \<and>
    child_inodes (dtables g' t) n = Some x \<and> fh_list g' = (fh_list g)(a \<mapsto>
      \<lparr>fh_ino = u, fh_loc = Some LOCAL, fhno = a, fh_i = Some x, fh_remote_i = None\<rparr>) \<and>
    inodes g' x = Inode (inode_new u (time_src g (time_reads g)) (ino_of g p)
      (client_uid (this_client g)) (client_gid (this_client g)) (mode OR S_IFREG) False) \<and>
    dir_ino (dtables g' t) = dir_ino (dtables g t) \<and>
    (\<exists>i. same_kind i (inode_at g p) \<and>
      logs (w_raw W) (dir_ino (dtables g t)) (Mkreg i n (inode_at g' x)) (jrnl g) (jrnl g')))"
proof -
  have lead': "served (ino_of g p) g = Some t" "in_step g t b" "p < x" "ino_of g p = dir_ino (dtables g t)"
    using lead unfolding leads_def x_def by blast+
  let ?i = "inode_new u (time_src g (time_reads g)) (ino_of g p) (client_uid (this_client g)) (client_gid (this_client g)) (mode OR S_IFREG) False"
  let ?g1 = "g\<lparr>clock_reads := Suc (clock_reads g)\<rparr>"
  let ?g2 = "?g1\<lparr>time_reads := Suc (time_reads g), uuid_reads := Suc (uuid_reads g), inodes := (inodes g)(x := Inode ?i), inode_next := Suc x\<rparr>"
  have "ino_of ?g1 = ino_of g" by (simp add: ino_of_def inode_at_def fun_eq_iff)
  then have m: "make_inode p (mode OR S_IFREG) ?g1 = (Inr x, ?g2)" by (simp add: make_inode_eq u_def x_def)
  have q2: "quiet g ?g2" by (rule quiet_trans [OF _ make_inode_quiet [OF m]]) simp
  have coh: "coherent g t" using lead'(2) by (simp add: in_step_def)
  have s2: "in_step ?g2 t b" by (rule quiet_in_step [OF q2 lead'(2)])
  have l2: "listing ?g2 t = listing g t" by (rule quiet_listing(1) [OF q2 coh])
  have ux: "ino_of ?g2 x = u" by (simp add: ino_of_def inode_at_def inode_new_def new_core_def)
  have p2: "p < inode_next ?g2" "ino_of ?g2 p = dir_ino (dtables ?g2 t)" using lead'(3,4) q2 by (simp_all add: quiet_def x_def)
  have n2: "listing ?g2 t n = None" and f2: "fresh_ino ?g2 t (ino_of ?g2 x)" and x2: "x < inode_next ?g2"
    using n u l2 ux fresh_ino_quiet [OF q2 coh] by simp_all
  obtain r g3 where g3: "create_child_inode t n x ?g2 = (Inr r, g3)" "\<exists>ds. g3 = ?g2\<lparr>dtables := ds\<rparr>"
    "\<forall>t'. t' \<noteq> t \<longrightarrow> dtables g3 t' = dtables ?g2 t'" "child_inodes (dtables g3 t) = (child_inodes (dtables ?g2 t))(n \<mapsto> x)"
    "dir_ino (dtables g3 t) = dir_ino (dtables ?g2 t)"
    and rec: "\<And>g4. quiet g3 g4 \<Longrightarrow> \<exists>g5. j_mkreg W p n x g4 = (Inr (), g5) \<and> in_step g5 t b \<and>
      listing g5 t = (listing ?g2 t)(n \<mapsto> ino_of ?g2 x) \<and> recorded (w_raw W) (dir_ino (dtables ?g2 t)) (Mkreg (inode_at g4 p) n (inode_at g4 x)) g4 g5"
    by (rule enter_file [OF s2 x2 p2 n2 f2, where W = W]) simp
  obtain g4 where g4: "touch_dir p g3 = (Inr (), g4)" by (simp add: touch_dir_eq)
  obtain g5 where g5: "j_mkreg W p n x g4 = (Inr (), g5)" "in_step g5 t b" "listing g5 t = (listing g t)(n \<mapsto> u)"
    "recorded (w_raw W) (dir_ino (dtables ?g2 t)) (Mkreg (inode_at g4 p) n (inode_at g4 x)) g4 g5"
    using rec [OF touch_dir_quiet [OF g4]] l2 ux by auto
  have a5: "addr_src g5 (addr_reads g5) = a" "fh_list g5 = fh_list g" "inodes g5 x = Inode ?i" "dtables g5 = dtables g3"
    using g3(2) g4 recorded_journaled [OF g5(4)] lead'(3) by (auto simp: a_def touch_dir_eq journaled_def)
  have "inode_at g4 p = inode_at g5 p" "inode_at g4 x = inode_at g5 x" "jrnl g4 = jrnl g" "dir_ino (dtables ?g2 t) = dir_ino (dtables g t)"
    using g3(2) g4 recorded_journaled [OF g5(4)] by (auto simp: touch_dir_eq journaled_def inode_at_def)
  then have logs: "logs (w_raw W) (dir_ino (dtables g t)) (Mkreg (inode_at g4 p) n (inode_at g5 x)) (jrnl g) (jrnl g5)"
    using g5(4) by (simp add: recorded_def)
  have kind: "same_kind (inode_at g4 p) (inode_at g p)"
    using touch_dir_kind [OF g4, of p] g3(2) lead'(3) by (auto simp: same_kind_def inode_at_def x_def)
  have ino5: "ino_of g5 x = u" using a5(3) by (simp add: ino_of_def inode_at_def inode_new_def new_core_def)
  let ?g6 = "g5\<lparr>addr_reads := Suc (addr_reads g5), fh_list := (fh_list g5)(a \<mapsto>
       \<lparr>fh_ino = u, fh_loc = Some LOCAL, fhno = a, fh_i = Some x, fh_remote_i = None\<rparr>)\<rparr>"
  have "open_handle x g5 = (Inr a, ?g6)" using open_handle_eq [of g5 x] a a5(1,2) ino5 by simp
  then have "local_create W p n mode g = (Inr a, ?g6)"
    unfolding local_create_def using table_of_served [OF lead'(1)] m g3(1) g4 g5(1) by simp
  moreover have "in_step ?g6 t b" "listing ?g6 t = (listing g t)(n \<mapsto> u)"
    using quiet_in_step [OF _ g5(2)] quiet_listing(1) [of g5 ?g6 t] g5(2,3) by (simp_all add: in_step_def)
  moreover have "inode_at ?g6 x = inode_at g5 x" by (simp add: inode_at_def)
  ultimately show ?thesis using a5 g3(3-5) logs kind by (intro yieldsI [of _ _ a ?g6]) auto
qed

section \<open>Unlink and rename\<close>

text \<open>What an operation on one directory leaves alone.\<close>

definition dir_frame :: "nat \<Rightarrow> ('s, 'e) fs \<Rightarrow> ('s, 'e) fs \<Rightarrow> bool" where
  "dir_frame t g g' \<longleftrightarrow> (\<forall>t'. t' \<noteq> t \<longrightarrow> dtables g' t' = dtables g t') \<and>
     dir_ino (dtables g' t) = dir_ino (dtables g t) \<and> inode_next g \<le> inode_next g' \<and>
     (\<forall>x < inode_next g. ino_of g' x = ino_of g x) \<and> data_pool g' = data_pool g \<and> fh_list g' = fh_list g \<and>
     dentry_tables g' = dentry_tables g \<and> leases g' = leases g \<and> clock_src g' = clock_src g \<and>
     (\<forall>v. v \<noteq> dir_ino (dtables g t) \<longrightarrow> open_tx (jrnl g') v = open_tx (jrnl g) v)"

lemma dir_frame_refl [simp]: "dir_frame t g g"
  by (simp add: dir_frame_def)

lemma dir_frame_trans: "dir_frame t g g1 \<Longrightarrow> dir_frame t g1 g2 \<Longrightarrow> dir_frame t g g2"
  by (auto simp: dir_frame_def)

lemma dir_frameD:
  "dir_frame t g g' \<Longrightarrow> p < inode_next g \<Longrightarrow> ino_of g p = dir_ino (dtables g t) \<Longrightarrow>
    p < inode_next g' \<and> ino_of g' p = dir_ino (dtables g' t)"
  by (auto simp: dir_frame_def)

lemma get_child_local:
  assumes "coherent g t" and "child_inodes (dtables g t) n = Some x"
  obtains h where "get_child_inode W t n u g = (Inr (Some x), g\<lparr>inodes := h\<rparr>)"
    and "quiet g (g\<lparr>inodes := h\<rparr>)"
    and "\<And>y. core (base_inode (h y)) = core (base_inode (inodes g y)) \<and> p_ino (base_inode (h y)) = p_ino (base_inode (inodes g y)) \<and>
      link_target_name (base_inode (h y)) = link_target_name (base_inode (inodes g y))"
proof -
  let ?h = "(inodes g)(x := map_base (\<lambda>i. i\<lparr>loc := LOCAL\<rparr>) (inodes g x))"
  have "get_child_inode W t n u g = (Inr (Some x), g\<lparr>inodes := ?h\<rparr>)"
    using assms by (simp add: get_child_inode_def coherent_def update_inode_def Let_def)
  then show thesis by (rule that) (auto simp: quiet_def ino_of_def inode_at_def)
qed

lemma child_listing: "child_inodes (dtables g t) n = Some x \<Longrightarrow> listing g t n = Some (ino_of g x)"
  by (simp add: listing_def)

lemma coherent_child: "coherent g t \<Longrightarrow> child_inodes (dtables g t) n = Some x \<Longrightarrow> x < inode_next g"
  by (simp add: coherent_def)

lemma remove_now:
  assumes s: "in_step g t b" and p: "p < inode_next g" "ino_of g p = dir_ino (dtables g t)"
    and x: "child_inodes (dtables g t) n = Some x"
  obtains r g1 g2 where "delete_child_inode t n g = (Inr r, g1)" and "j_rmreg W p n x g1 = (Inr (), g2)"
    and "in_step g2 t b" and "listing g2 t = (listing g t)(n := None)" and "dir_frame t g g2"
    and "fresh_ino g2 t (ino_of g x)" and "child_inodes (dtables g2 t) = (child_inodes (dtables g t))(n := None)"
    and "\<forall>v. fresh_ino g t v \<longrightarrow> fresh_ino g2 t v" and "inodes g2 = inodes g"
proof -
  have "x < inode_next g" by (rule coherent_child [OF in_step_coherent [OF s] x])
  then show thesis
  proof (rule remove_file [OF s _ p child_listing [OF x], where W = W])
    fix r g1
    assume g1: "delete_child_inode t n g = (Inr r, g1)" "\<exists>ds. g1 = g\<lparr>dtables := ds\<rparr>"
      "\<forall>t'. t' \<noteq> t \<longrightarrow> dtables g1 t' = dtables g t'"
      "child_inodes (dtables g1 t) = (child_inodes (dtables g t))(n := None)" "dir_ino (dtables g1 t) = dir_ino (dtables g t)"
      and rec: "\<And>g2. quiet g1 g2 \<Longrightarrow> \<exists>g3. j_rmreg W p n x g2 = (Inr (), g3) \<and> in_step g3 t b \<and>
        listing g3 t = (listing g t)(n := None) \<and> recorded (w_raw W) (dir_ino (dtables g t)) (Rmreg (inode_at g2 p) n (inode_at g2 x)) g2 g3 \<and> fresh_ino g3 t (ino_of g x) \<and>
      (\<forall>v. fresh_ino g t v \<longrightarrow> fresh_ino g3 t v)"
    from rec [OF quiet_refl] obtain g2 where g2: "j_rmreg W p n x g1 = (Inr (), g2)" "in_step g2 t b"
      "listing g2 t = (listing g t)(n := None)" "fresh_ino g2 t (ino_of g x)" "\<forall>v. fresh_ino g t v \<longrightarrow> fresh_ino g2 t v" and tx: "journaled_in (dir_ino (dtables g t)) g1 g2" using recorded_journaled by blast
    then obtain j where j: "g2 = g1\<lparr>jrnl := j\<rparr>" "\<forall>v. v \<noteq> dir_ino (dtables g t) \<longrightarrow> open_tx j v = open_tx (jrnl g1) v"
      by (auto simp: journaled_def)
    from g1(2) obtain ds where "g1 = g\<lparr>dtables := ds\<rparr>" by blast
    with g1 j have "dir_frame t g g2" "inodes g2 = inodes g" by (auto simp: dir_frame_def ino_of_def inode_at_def)
    then show thesis using that g1 g2 j by simp
  qed
qed

lemma enter_now:
  assumes s: "in_step g t b" and p: "p < inode_next g" "ino_of g p = dir_ino (dtables g t)"
    and x: "x < inode_next g" and n: "listing g t n = None" and u: "fresh_ino g t (ino_of g x)"
  obtains r g1 g2 where "create_child_inode t n x g = (Inr r, g1)" and "j_mkreg W p n x g1 = (Inr (), g2)"
    and "in_step g2 t b" and "listing g2 t = (listing g t)(n \<mapsto> ino_of g x)" and "dir_frame t g g2"
    and "child_inodes (dtables g2 t) = (child_inodes (dtables g t))(n \<mapsto> x)" and "inodes g2 = inodes g"
proof (rule enter_file [OF s x p n u, where W = W])
  fix r g1
  assume g1: "create_child_inode t n x g = (Inr r, g1)" "\<exists>ds. g1 = g\<lparr>dtables := ds\<rparr>"
    "\<forall>t'. t' \<noteq> t \<longrightarrow> dtables g1 t' = dtables g t'"
    "child_inodes (dtables g1 t) = (child_inodes (dtables g t))(n \<mapsto> x)" "dir_ino (dtables g1 t) = dir_ino (dtables g t)"
    and rec: "\<And>g2. quiet g1 g2 \<Longrightarrow> \<exists>g3. j_mkreg W p n x g2 = (Inr (), g3) \<and> in_step g3 t b \<and>
      listing g3 t = (listing g t)(n \<mapsto> ino_of g x) \<and> recorded (w_raw W) (dir_ino (dtables g t)) (Mkreg (inode_at g2 p) n (inode_at g2 x)) g2 g3"
  from rec [OF quiet_refl] obtain g2 where g2: "j_mkreg W p n x g1 = (Inr (), g2)" "in_step g2 t b"
    "listing g2 t = (listing g t)(n \<mapsto> ino_of g x)" and tx: "journaled_in (dir_ino (dtables g t)) g1 g2" using recorded_journaled by blast
  then obtain j where j: "g2 = g1\<lparr>jrnl := j\<rparr>" "\<forall>v. v \<noteq> dir_ino (dtables g t) \<longrightarrow> open_tx j v = open_tx (jrnl g1) v"
    by (auto simp: journaled_def)
  from g1(2) obtain ds where "g1 = g\<lparr>dtables := ds\<rparr>" by blast
  with g1 j have "dir_frame t g g2" "inodes g2 = inodes g" by (auto simp: dir_frame_def ino_of_def inode_at_def)
  then show thesis using that g1 g2 j by simp
qed

lemma quiet_dir_frame:
  "quiet g g' \<Longrightarrow> data_pool g' = data_pool g \<Longrightarrow> fh_list g' = fh_list g \<Longrightarrow> dentry_tables g' = dentry_tables g \<Longrightarrow>
    leases g' = leases g \<Longrightarrow> clock_src g' = clock_src g \<Longrightarrow> dir_frame t g g'"
  by (simp add: quiet_def dir_frame_def)

lemma touch_dir_frame: "touch_dir i g = (r, g') \<Longrightarrow> dir_frame t g g'"
  by (rule quiet_dir_frame [OF touch_dir_quiet]) (auto simp: touch_dir_eq)

lemma drop_target_ok:
  assumes s: "in_step g t b" and p: "p < inode_next g" "ino_of g p = dir_ino (dtables g t)"
    and nil: "nil_uuid \<notin> ran (listing g t)" and u: "u = (case listing g t n of None \<Rightarrow> nil_uuid | Some v \<Rightarrow> v)"
  obtains g' where "drop_target W p t n u g = (Inr (), g')" and "in_step g' t b"
    and "listing g' t = (listing g t)(n := None)" and "dir_frame t g g'"
    and "child_inodes (dtables g' t) = (child_inodes (dtables g t))(n := None)"
    and "\<forall>v. fresh_ino g t v \<longrightarrow> fresh_ino g' t v" and "\<forall>y. p_ino (inode_at g' y) = p_ino (inode_at g y)"
proof (cases "child_inodes (dtables g t) n")
  case None
  then have "listing g t n = None" by (simp add: listing_def)
  then show thesis using that [of g] s u None by (simp add: drop_target_def fun_upd_idem)
next
  case (Some x)
  have "u \<noteq> nil_uuid" using nil u child_listing [OF Some] by (auto simp: ran_def)
  moreover obtain h where h: "get_child_inode W t n nil_uuid g = (Inr (Some x), g\<lparr>inodes := h\<rparr>)" "quiet g (g\<lparr>inodes := h\<rparr>)"
    "\<And>y. core (base_inode (h y)) = core (base_inode (inodes g y)) \<and> p_ino (base_inode (h y)) = p_ino (base_inode (inodes g y))"
    by (rule get_child_local [OF in_step_coherent [OF s] Some, where W = W and u = nil_uuid]) simp
  let ?g = "g\<lparr>inodes := h\<rparr>"
  have s1: "in_step ?g t b" by (rule quiet_in_step [OF h(2) s])
  have fr: "dir_frame t g ?g" by (rule quiet_dir_frame [OF h(2)]) simp_all
  have l: "listing ?g t = listing g t" by (rule quiet_listing(1) [OF h(2) in_step_coherent [OF s]])
  have p1: "p < inode_next ?g" "ino_of ?g p = dir_ino (dtables ?g t)" using dir_frameD [OF fr p] by simp_all
  obtain r g1 g2 where g2: "delete_child_inode t n ?g = (Inr r, g1)" "j_rmreg W p n x g1 = (Inr (), g2)"
    "in_step g2 t b" "listing g2 t = (listing ?g t)(n := None)" "dir_frame t ?g g2" "fresh_ino g2 t (ino_of ?g x)"
    "child_inodes (dtables g2 t) = (child_inodes (dtables ?g t))(n := None)" "\<forall>v. fresh_ino ?g t v \<longrightarrow> fresh_ino g2 t v"
    "inodes g2 = inodes ?g"
    by (rule remove_now [OF s1 p1, where n = n and x = x and W = W]) (use Some in simp)
  ultimately have "drop_target W p t n u g = (Inr (), g2)" using h(1) by (simp add: drop_target_def deref_def)
  moreover have "fresh_ino g2 t v" if "fresh_ino g t v" for v
    using g2(8) that fresh_ino_quiet [OF h(2) in_step_coherent [OF s]] by simp
  moreover have "p_ino (inode_at g2 y) = p_ino (inode_at g y)" for y using g2(9) h(3) by (simp add: inode_at_def)
  ultimately show thesis using that g2(3,4,7) l dir_frame_trans [OF fr g2(5)] by simp
qed

lemma local_unlink_ok:
  assumes L: "librados_healthy (w_pool W) objs" and lead: "leads g p t b" and x: "child_inodes (dtables g t) n = Some x"
    and one: "i_nlink (core (inode_at g x)) = 1"
    and data: "stores objs (data_pool g) DATA (data_key W g x) c" "length c < 2 ^ 63"
  shows "yields (local_unlink W p n) g (\<lambda>_ g'. in_step g' t b \<and> listing g' t = (listing g t)(n := None) \<and>
    (\<forall>t'. t' \<noteq> t \<longrightarrow> dtables g' t' = dtables g t') \<and>
    \<not> present objs (data_pool g') DATA (data_key W g x) \<and> frame objs DATA (data_key W g x) (data_pool g) (data_pool g') \<and>
    dir_ino (dtables g' t) = dir_ino (dtables g t) \<and>
    (\<exists>i f. same_kind i (inode_at g p) \<and> i_ino (core f) = ino_of g x \<and>
      logs (w_raw W) (dir_ino (dtables g t)) (Rmreg i n f) (jrnl g) (jrnl g')))"
proof -
  have lead': "served (ino_of g p) g = Some t" "in_step g t b" "p < inode_next g" "ino_of g p = dir_ino (dtables g t)"
    using lead unfolding leads_def by blast+
  let ?g1 = "g\<lparr>clock_reads := Suc (clock_reads g)\<rparr>"
  have s1: "in_step ?g1 t b" by (rule quiet_in_step [OF _ lead'(2)]) simp
  obtain h where h: "get_child_inode W t n nil_uuid ?g1 = (Inr (Some x), ?g1\<lparr>inodes := h\<rparr>)" "quiet ?g1 (?g1\<lparr>inodes := h\<rparr>)"
    "\<And>y. core (base_inode (h y)) = core (base_inode (inodes ?g1 y)) \<and> p_ino (base_inode (h y)) = p_ino (base_inode (inodes ?g1 y)) \<and>
      link_target_name (base_inode (h y)) = link_target_name (base_inode (inodes ?g1 y))"
    by (rule get_child_local [OF in_step_coherent [OF s1], where n = n and x = x and W = W and u = nil_uuid]) (use x in simp_all)
  let ?g2 = "?g1\<lparr>inodes := h\<rparr>"
  from librados_healthy.rados_remove_ok [OF L data] obtain dp where
    dp: "rados_remove (w_pool W) DATA (data_key W g x) (data_pool g) = (Inr (), dp)"
      "\<not> present objs dp DATA (data_key W g x)" "frame objs DATA (data_key W g x) (data_pool g) dp" by blast
  let ?g3 = "?g2\<lparr>data_pool := dp\<rparr>"
  have q: "quiet g ?g3" using quiet_trans [OF quiet_trans [OF quiet_simps(1) h(2)] quiet_simps(4)] .
  have s3: "in_step ?g3 t b" by (rule quiet_in_step [OF q lead'(2)])
  have l3: "listing ?g3 t = listing g t" by (rule quiet_listing(1) [OF q in_step_coherent [OF lead'(2)]])
  have p3: "p < inode_next ?g3" "ino_of ?g3 p = dir_ino (dtables ?g3 t)" using lead'(3,4) q by (simp_all add: quiet_def)
  have x3: "child_inodes (dtables ?g3 t) n = Some x" using x by simp
  obtain r g4 where g4: "delete_child_inode t n ?g3 = (Inr r, g4)" "\<exists>ds. g4 = ?g3\<lparr>dtables := ds\<rparr>"
    "\<forall>t'. t' \<noteq> t \<longrightarrow> dtables g4 t' = dtables ?g3 t'" "child_inodes (dtables g4 t) = (child_inodes (dtables ?g3 t))(n := None)"
    "dir_ino (dtables g4 t) = dir_ino (dtables ?g3 t)"
    and rec: "\<And>g5. quiet g4 g5 \<Longrightarrow> \<exists>g6. j_rmreg W p n x g5 = (Inr (), g6) \<and> in_step g6 t b \<and>
      listing g6 t = (listing ?g3 t)(n := None) \<and> recorded (w_raw W) (dir_ino (dtables ?g3 t)) (Rmreg (inode_at g5 p) n (inode_at g5 x)) g5 g6 \<and> fresh_ino g6 t (ino_of ?g3 x) \<and>
      (\<forall>v. fresh_ino ?g3 t v \<longrightarrow> fresh_ino g6 t v)"
    by (rule remove_file [OF s3 coherent_child [OF in_step_coherent [OF s3] x3] p3 child_listing [OF x3], where W = W]) simp
  obtain g5 where g5: "touch_dir p g4 = (Inr (), g5)" by (simp add: touch_dir_eq)
  obtain g6 where g6: "j_rmreg W p n x g5 = (Inr (), g6)" "in_step g6 t b" "listing g6 t = (listing g t)(n := None)"
    "recorded (w_raw W) (dir_ino (dtables ?g3 t)) (Rmreg (inode_at g5 p) n (inode_at g5 x)) g5 g6" using rec [OF touch_dir_quiet [OF g5]] l3 by auto
  have key: "data_key W ?g2 x = data_key W g x" "i_nlink (core (inode_at ?g2 x)) = 1"
    using h(3) one by (simp_all add: data_key_def ino_of_def inode_at_def)
  have "local_unlink W p n g = (Inr (), g6)"
    unfolding local_unlink_def
    using table_of_served [OF lead'(1)] h(1) key dp(1) g4(1) g5 g6(1) by (simp add: deref_def Let_def data_call_def)
  moreover have "data_pool g6 = dp" "dtables g6 = dtables g4" using g4(2) g5 recorded_journaled [OF g6(4)] by (auto simp: touch_dir_eq journaled_def)
  moreover have "logs (w_raw W) (dir_ino (dtables g t)) (Rmreg (inode_at g5 p) n (inode_at g5 x)) (jrnl g) (jrnl g6)"
    using g4(2) g5 g6(4) by (auto simp: touch_dir_eq recorded_def)
  moreover have "same_kind (inode_at g4 y) (inode_at g y)" for y
    using g4(2) h(3) by (auto simp: same_kind_def inode_at_def)
  then have "same_kind (inode_at g5 p) (inode_at g p)" "i_ino (core (inode_at g5 x)) = ino_of g x"
    using touch_dir_kind [OF g5] by (simp_all add: same_kind_def ino_of_def)
  ultimately show ?thesis using g6(2,3) dp(2,3) g4(3,5) by (intro yieldsI [of _ _ "()" g6]) auto
qed

lemma local_rename_same_parent_ok:
  assumes lead: "leads g p t b" and x: "child_inodes (dtables g t) old = Some x"
    and names: "get_filename_from_path old_path = Inr old" "get_filename_from_path new_path = Inr new"
    and np: "paradox_check old_path new_path = Inr False" and ne: "old \<noteq> new" "new \<noteq> ''/''"
    and nil: "nil_uuid \<notin> ran (listing g t)"
  shows "yields (local_rename_same_parent W p old_path new_path 0) g (\<lambda>r g'. r = 0 \<and> in_step g' t b \<and>
    listing g' t = (listing g t)(old := None, new \<mapsto> ino_of g x) \<and>
    child_inodes (dtables g' t) = (child_inodes (dtables g t))(old := None, new \<mapsto> x) \<and> dir_frame t g g')"
proof -
  have lead': "served (ino_of g p) g = Some t" "in_step g t b" "p < inode_next g" "ino_of g p = dir_ino (dtables g t)"
    using lead unfolding leads_def by blast+
  let ?g1 = "g\<lparr>clock_reads := Suc (clock_reads g)\<rparr>"
  have s1: "in_step ?g1 t b" by (rule quiet_in_step [OF _ lead'(2)]) simp
  obtain h where h: "get_child_inode W t old nil_uuid ?g1 = (Inr (Some x), ?g1\<lparr>inodes := h\<rparr>)" "quiet ?g1 (?g1\<lparr>inodes := h\<rparr>)"
    by (rule get_child_local [OF in_step_coherent [OF s1], where n = old and x = x and W = W and u = nil_uuid]) (use x in simp_all)
  let ?g2 = "?g1\<lparr>inodes := h\<rparr>"
  obtain g3 where g3: "touch_dir p ?g2 = (Inr (), g3)" by (simp add: touch_dir_eq)
  have q: "quiet g g3" using quiet_trans [OF quiet_trans [OF quiet_simps(1) h(2)] touch_dir_quiet [OF g3]] .
  have f3: "dir_frame t g g3" by (rule quiet_dir_frame [OF q]) (use g3 in \<open>auto simp: touch_dir_eq\<close>)
  have s2: "in_step ?g2 t b" and s3: "in_step g3 t b"
    using quiet_in_step [OF h(2) s1] quiet_in_step [OF q lead'(2)] by simp_all
  have l2: "listing ?g2 t = listing g t" and l3: "listing g3 t = listing g t"
    using quiet_listing(1) [OF h(2) in_step_coherent [OF s1]] quiet_listing(1) [of g ?g1] quiet_listing(1) [OF q]
      in_step_coherent [OF lead'(2)] by simp_all
  let ?u = "case listing g t new of None \<Rightarrow> nil_uuid | Some v \<Rightarrow> v"
  have chk: "check_child_inode W t new ?g2 = (Inr ?u, ?g2)"
    using dt.check_view [OF in_step_coherent [OF s2] ne(2), of W] l2 by simp
  note p3 = conjunct1 [OF dir_frameD [OF f3 lead'(3,4)]] conjunct2 [OF dir_frameD [OF f3 lead'(3,4)]]
  obtain g4 where g4: "drop_target W p t new ?u g3 = (Inr (), g4)" "in_step g4 t b"
    "listing g4 t = (listing g3 t)(new := None)" "dir_frame t g3 g4"
    "child_inodes (dtables g4 t) = (child_inodes (dtables g3 t))(new := None)"
    by (rule drop_target_ok [OF s3 p3, where n = new and u = ?u and W = W]) (use nil l3 in simp_all)
  note p4 = conjunct1 [OF dir_frameD [OF g4(4) p3]] conjunct2 [OF dir_frameD [OF g4(4) p3]]
  have x4: "child_inodes (dtables g4 t) old = Some x" using g4(5) q x ne(1) by (simp add: quiet_def)
  obtain r5 g5 g6 where g6: "delete_child_inode t old g4 = (Inr r5, g5)" "j_rmreg W p old x g5 = (Inr (), g6)"
    "in_step g6 t b" "listing g6 t = (listing g4 t)(old := None)" "dir_frame t g4 g6" "fresh_ino g6 t (ino_of g4 x)"
    "child_inodes (dtables g6 t) = (child_inodes (dtables g4 t))(old := None)"
    by (rule remove_now [OF g4(2) p4 x4, where W = W])
  note p6 = conjunct1 [OF dir_frameD [OF g6(5) p4]] conjunct2 [OF dir_frameD [OF g6(5) p4]]
  have f6: "dir_frame t g g6" using dir_frame_trans [OF dir_frame_trans [OF f3 g4(4)] g6(5)] .
  have xg: "x < inode_next g" by (rule coherent_child [OF in_step_coherent [OF lead'(2)] x])
  have x6: "x < inode_next g6" "ino_of g6 x = ino_of g x" "ino_of g4 x = ino_of g x"
    using xg f6 dir_frame_trans [OF f3 g4(4)] by (auto simp: dir_frame_def)
  have "listing g6 t new = None" "fresh_ino g6 t (ino_of g6 x)" using g6(4,6) g4(3) x6 by simp_all
  then obtain r7 g7 g8 where g8: "create_child_inode t new x g6 = (Inr r7, g7)" "j_mkreg W p new x g7 = (Inr (), g8)"
    "in_step g8 t b" "listing g8 t = (listing g6 t)(new \<mapsto> ino_of g6 x)" "dir_frame t g6 g8"
    "child_inodes (dtables g8 t) = (child_inodes (dtables g6 t))(new \<mapsto> x)"
    by (rule enter_now [OF g6(3) p6 x6(1), where W = W and n = new])
  have "local_rename_same_parent W p old_path new_path 0 g = (Inr 0, g8)"
    unfolding local_rename_same_parent_def
    using names np table_of_served [OF lead'(1)] h(1) chk g3 g4(1) g6(1,2) g8(1,2) by (simp add: deref_def bindE_def)
  moreover have "listing g8 t = (listing g t)(old := None, new \<mapsto> ino_of g x)"
    "child_inodes (dtables g8 t) = (child_inodes (dtables g t))(old := None, new \<mapsto> x)"
    using g8(4,6) g6(4,7) g4(3,5) l3 x6 q ne(1) by (auto simp: fun_eq_iff quiet_def)
  ultimately show ?thesis using g8(3) dir_frame_trans [OF f6 g8(5)] by (intro yieldsI [of _ _ 0 g8]) simp_all
qed

section \<open>Reading and writing\<close>

text \<open>The size that the inode records is the length of the stored contents.\<close>

definition sized :: "('s \<Rightarrow> string \<rightharpoonup> byte list) \<Rightarrow> ('s, 'e) world \<Rightarrow> ('s, 'e) fs \<Rightarrow> nat \<Rightarrow> byte list \<Rightarrow> bool" where
  "sized objs W g x c \<longleftrightarrow> stores objs (data_pool g) DATA (data_key W g x) c \<and>
     unat (i_size (core (inode_at g x))) = length c"

lemma record_chreg:
  assumes s: "in_step g t b" and p: "p_ino (inode_at g x) = dir_ino (dtables g t)"
  shows "yields (j_chreg W x) g (\<lambda>_ g'. in_step g' t b \<and> listing g' t = listing g t \<and> journaled_in (dir_ino (dtables g t)) g g')"
proof -
  note S = s [unfolded in_step_def]
  let ?d = "dir_ino (dtables g t)"
  let ?tx = "open_tx (jrnl g) ?d"
  have nc: "\<not> committed ?tx" using S by (simp add: open_tx_uncommitted)
  then have e: "tx_exec (w_raw W) (Chreg (inode_at g x)) ?tx =
      (Inr 0, ?tx\<lparr>f_inodes := (f_inodes ?tx)(i_ino (core (inode_at g x)) \<mapsto> Some (inode_copy (w_raw W) (inode_at g x)))\<rparr>)"
    by (simp add: tx_chreg_def)
  let ?tx' = "?tx\<lparr>f_inodes := (f_inodes ?tx)(i_ino (core (inode_at g x)) \<mapsto> Some (inode_copy (w_raw W) (inode_at g x)))\<rparr>"
  have "yields (journal_call (journal_op (w_raw W) ?d (Chreg (inode_at g x)))) g
      (\<lambda>_ g'. in_step g' t b \<and> listing g' t = listing g t \<and> journaled ?d ?tx' g g')"
    by (rule journal_in_step [OF _ _ refl e]) (use S in simp_all)
  then show ?thesis using p by (auto simp: j_chreg_def journal_chreg_def yields_def)
qed

lemma update_core_quiet:
  assumes "\<And>c. i_ino (f c) = i_ino c"
  shows "quiet g (snd (update_core x f g))"
  using assms by (simp add: quiet_def update_core_def update_inode_def ino_of_def inode_at_def)

lemma length_write_spec [simp]: "length (write_spec c off d) = max (length c) (off + length d)"
  by (auto simp: write_spec_def max_def)

text \<open>What growing the size does: the stored length is in the inode and the journal.\<close>

lemma grow_ok:
  assumes s: "in_step g t b" and p: "p_ino (inode_at g x) = dir_ino (dtables g t)"
  shows "yields (readE (\<lambda>h. if i_size (core (inode_at h x)) < n then
      bindE (update_core x (\<lambda>c. c\<lparr>i_size := n\<rparr>)) (\<lambda>_. j_chreg W x) else returnE ())) g
    (\<lambda>_ g'. in_step g' t b \<and> listing g' t = listing g t \<and> data_pool g' = data_pool g \<and> ino_of g' = ino_of g \<and>
      core (inode_at g' x) = (core (inode_at g x))\<lparr>i_size := max (i_size (core (inode_at g x))) n\<rparr> \<and>
      (\<forall>y. y \<noteq> x \<longrightarrow> inodes g' y = inodes g y))"
proof (cases "i_size (core (inode_at g x)) < n")
  case False
  then show ?thesis using s by (auto simp: yields_def max_def)
next
  case True
  let ?f = "\<lambda>c. c\<lparr>i_size := n\<rparr>"
  let ?g = "g\<lparr>inodes := (inodes g)(x := map_base (\<lambda>i. i\<lparr>core := ?f (core i)\<rparr>) (inodes g x))\<rparr>"
  have u: "update_core x ?f g = (Inr (), ?g)" by (simp add: update_core_def update_inode_def)
  have q: "quiet g ?g" using update_core_quiet [of ?f g x] u by simp
  have "in_step ?g t b" by (rule quiet_in_step [OF q s])
  moreover have "p_ino (inode_at ?g x) = dir_ino (dtables ?g t)" using p by (simp add: inode_at_def)
  ultimately obtain g' j where g': "j_chreg W x ?g = (Inr (), g')" "in_step g' t b" "listing g' t = listing ?g t" "g' = ?g\<lparr>jrnl := j\<rparr>"
    using record_chreg [of ?g t b x W] by (auto simp: yields_def dest!: journaledD)
  have "listing ?g t = listing g t" by (rule quiet_listing(1) [OF q in_step_coherent [OF s]])
  then show ?thesis using True u g'
    by (intro yieldsI [of _ _ "()" g']) (auto simp: max_def ino_of_def inode_at_def fun_eq_iff)
qed

lemma local_write_ok:
  fixes offset0 :: "64 word"
  defines "off \<equiv> \<lambda>g x flags. if flags AND O_APPEND \<noteq> 0 then i_size (core (inode_at g x)) else offset0"
  assumes L: "librados_healthy (w_pool W) objs" and s: "in_step g t b" and p: "p_ino (inode_at g x) = dir_ino (dtables g t)"
    and c: "sized objs W g x c" and len: "unat sz \<le> length buffer"
    and fits: "unat (off g x flags) + unat sz \<le> MAX_OFFSET"
  shows "yields (local_write W x buffer sz offset0 flags) g (\<lambda>r g'. r = unat sz \<and> in_step g' t b \<and> listing g' t = listing g t \<and>
    sized objs W g' x (write_spec c (unat (off g x flags)) (take (unat sz) buffer)) \<and> ino_of g' = ino_of g \<and>
    frame objs DATA (data_key W g x) (data_pool g) (data_pool g') \<and> (\<forall>y. y \<noteq> x \<longrightarrow> inodes g' y = inodes g y))"
proof -
  let ?o = "off g x flags"
  let ?c = "write_spec c (unat ?o) (take (unat sz) buffer)"
  note C = c [unfolded sized_def]
  from librados_healthy.rados_write_ok [OF L conjunct1 [OF C] len fits] obtain dp where
    dp: "rados_write (w_pool W) DATA (data_key W g x) buffer (unat sz) (unat ?o) (data_pool g) = (Inr (unat sz), dp)"
      "stores objs dp DATA (data_key W g x) ?c" "frame objs DATA (data_key W g x) (data_pool g) dp" by blast
  let ?g = "g\<lparr>data_pool := dp\<rparr>"
  have s1: "in_step ?g t b" and l1: "listing ?g t = listing g t" and p1: "p_ino (inode_at ?g x) = dir_ino (dtables ?g t)"
    using quiet_in_step [OF _ s, of ?g] quiet_listing(1) [OF _ in_step_coherent [OF s], of ?g] p by (simp_all add: inode_at_def)
  from grow_ok [OF s1 p1, of "?o + sz" W] obtain g' where g': "(readE (\<lambda>h. if i_size (core (inode_at h x)) < ?o + sz then
      bindE (update_core x (\<lambda>c. c\<lparr>i_size := ?o + sz\<rparr>)) (\<lambda>_. j_chreg W x) else returnE ())) ?g = (Inr (), g')"
    "in_step g' t b" "listing g' t = listing g t" "data_pool g' = dp" "ino_of g' = ino_of g"
    "core (inode_at g' x) = (core (inode_at g x))\<lparr>i_size := max (i_size (core (inode_at g x))) (?o + sz)\<rparr>"
    "\<forall>y. y \<noteq> x \<longrightarrow> inodes g' y = inodes g y"
    unfolding yields_def l1 by (auto simp: ino_of_def inode_at_def fun_eq_iff)
  have "local_write W x buffer sz offset0 flags g = (Inr (unat sz), g')"
  proof -
    have "data_call (rados_write (w_pool W) DATA (data_key W g x) buffer (unat sz) (unat ?o)) g = (Inr (unat sz), ?g)"
      using dp(1) by (simp add: data_call_def)
    moreover have "local_write W x buffer sz offset0 flags g =
        bindE (data_call (rados_write (w_pool W) DATA (data_key W g x) buffer (unat sz) (unat ?o))) (\<lambda>written_len.
        bindE (readE (\<lambda>h. if i_size (core (inode_at h x)) < ?o + sz then
          bindE (update_core x (\<lambda>c. c\<lparr>i_size := ?o + sz\<rparr>)) (\<lambda>_. j_chreg W x) else returnE ())) (\<lambda>_. returnE written_len)) g"
      by (simp only: local_write_def readE_apply Let_def off_def)
    ultimately show ?thesis using g'(1) by (simp add: bindE_def)
  qed
  moreover have "unat (?o + sz) = unat ?o + unat sz" using unat_add_lem [of ?o sz] MAX_OFFSET_less [OF fits] by simp
  then have "unat (max (i_size (core (inode_at g x))) (?o + sz)) = length ?c"
    using C len by (simp add: max_def word_le_nat_alt min_def)
  moreover have "data_key W g' x = data_key W g x" using g'(5) by (simp add: data_key_def)
  ultimately show ?thesis using g' dp(2,3) by (intro yieldsI [of _ _ "unat sz" g']) (simp_all add: sized_def)
qed

lemma local_read_ok:
  assumes "librados_healthy (w_pool W) objs" and "sized objs W g x c" and "off + len \<le> length c" and "off + len \<le> MAX_OFFSET"
  shows "local_read W x len off g = (Inr (take len (drop off c)), g)"
  using librados_healthy.rados_read_ok(2) [OF assms(1) _ assms(4,3)] assms(2) by (simp add: local_read_def sized_def)

section \<open>Properties\<close>

text \<open>The example tree with its root directory led by this client.\<close>

lemma leads_tree_fs: "leads tree_fs 0 0 [''f'' \<mapsto> splice_prefix_and_postfix 1 7]"
proof -
  note l = listing_tree_fs
  have j: "jrnl tree_fs = journal_new root_pool" by (simp add: tree_fs_def mem_fs_def)
  have tx: "open_tx (jrnl tree_fs) u = transaction_new u" for u unfolding j by (simp add: open_tx_def journal_new_def jt_init_def)
  have "served get_root_ino tree_fs = Some 0" by (simp add: served_def tree_fs_def mem_fs_def is_valid_def)
  moreover have "dir_ino (dtables tree_fs 0) = get_root_ino" "0 < inode_next tree_fs" by (simp_all add: tree_fs_def)
  moreover have "jtab_ok (jtab (jrnl tree_fs))" unfolding j by (simp add: journal_new_def)
  ultimately show ?thesis using tree_fs_file(3) coherent_tree_fs
    by (simp add: leads_def in_step_def tx l transaction_new_def inj_on_def)
qed

lemma tree_fs_simps:
  "uuid_src tree_fs (uuid_reads tree_fs) = splice_prefix_and_postfix 1 0" "fh_list tree_fs = Map.empty"
  "addr_src tree_fs (addr_reads tree_fs) = 1" "inode_next tree_fs = 2" "data_pool tree_fs = Map.empty"
  "child_inodes (dtables tree_fs 0) = [''f'' \<mapsto> 1]" "inode_at tree_fs 1 = file_inode"
  "dir_ino (dtables tree_fs 0) = get_root_ino"
  by (simp_all add: tree_fs_def mem_fs_def inode_at_def)

text \<open>
  C22: Renaming within one directory: the old name disappears, the new name has the file (whatever it named
  before is replaced), and journal and table stay in step.
\<close>

theorem local_rename_in_step:
  assumes "leads g p t base" and "child_inodes (dtables g t) old = Some x"
    and "get_filename_from_path old_path = Inr old" and "get_filename_from_path new_path = Inr new"
    and "paradox_check old_path new_path = Inr False" and "old \<noteq> new" and "new \<noteq> ''/''"
    and "nil_uuid \<notin> ran (listing g t)"
  shows "yields (local_rename_same_parent W p old_path new_path 0) g (\<lambda>r g'. r = 0 \<and> in_step g' t base \<and>
    listing g' t = (listing g t)(old := None, new \<mapsto> ino_of g x) \<and>
    child_inodes (dtables g' t) = (child_inodes (dtables g t))(old := None, new \<mapsto> x) \<and> dir_frame t g g')"
  by (rule local_rename_same_parent_ok [OF assms])

theorem local_rename_in_step_witness:
  "\<exists>g'. local_rename_same_parent mem_world 0 ''/f'' ''/g'' 0 tree_fs = (Inr 0, g') \<and>
     listing g' 0 = [''g'' \<mapsto> splice_prefix_and_postfix 1 7]"
proof -
  note l = listing_tree_fs
  have "get_filename_from_path ''/f'' = Inr ''f''" "get_filename_from_path ''/g'' = Inr ''g''" by code_simp+
  moreover have "paradox_check ''/f'' ''/g'' = Inr False" by code_simp
  ultimately show ?thesis
    using local_rename_in_step [OF leads_tree_fs, of "''f''" 1 "''/f''" "''/g''" "''g''" mem_world] l splice_not_nil [of 1 7]
    by (auto simp: yields_def tree_fs_simps tree_fs_file(1) [simplified] fun_eq_iff)
qed

text \<open>
  C16: Writing and reading back through the inode layer: the recorded size stays the length of the contents
  (a hole before the offset reads as zeros, an append goes to the end), the directory's journal stays
  in step, other files keep their data, and reading the written range returns the written bytes.  The
  range ends at or below \<open>MAX_OFFSET\<close>, where the \<^verbatim>\<open>off_t\<close> of the data pool reaches.
\<close>

theorem local_write_then_read:
  assumes "librados_healthy (w_pool W) objs" and "in_step g t base" and "p_ino (inode_at g x) = dir_ino (dtables g t)"
    and "sized objs W g x c" and "unat sz \<le> length buffer"
    and "off = (if flags AND O_APPEND \<noteq> 0 then i_size (core (inode_at g x)) else offset0)"
    and "unat off + unat sz \<le> MAX_OFFSET"
  shows "yields (local_write W x buffer sz offset0 flags) g (\<lambda>r g'. r = unat sz \<and> in_step g' t base \<and>
    sized objs W g' x (write_spec c (unat off) (take (unat sz) buffer)) \<and>
    frame objs DATA (data_key W g x) (data_pool g) (data_pool g') \<and>
    local_read W x (unat sz) (unat off) g' = (Inr (take (unat sz) buffer), g'))"
proof -
  have "take (unat sz) (drop (unat off) (write_spec c (unat off) (take (unat sz) buffer))) = take (unat sz) buffer"
    using assms(5) by (simp add: write_spec_def overwrite_def min_def)
  then have "local_read W x (unat sz) (unat off) g' = (Inr (take (unat sz) buffer), g')"
    if "sized objs W g' x (write_spec c (unat off) (take (unat sz) buffer))" for g'
    using local_read_ok [OF assms(1) that, of "unat off" "unat sz"] assms(5,7) by (simp add: min_def)
  then show ?thesis
    using yields_weaken [OF local_write_ok [OF assms(1-5) assms(7) [unfolded assms(6)]]] unfolding assms(6) by simp
qed

theorem local_write_then_read_witness:
  "\<exists>g'. local_write mem_world 1 [7, 8] 2 3 0 tree_fs = (Inr 2, g') \<and> local_read mem_world 1 2 3 g' = (Inr [7, 8], g')"
proof -
  have "p_ino (inode_at tree_fs 1) = dir_ino (dtables tree_fs 0)"
    unfolding tree_fs_simps by (simp add: file_inode_def inode_new_def)
  moreover have "sized (\<lambda>s. s) mem_world tree_fs 1 []"
    unfolding sized_def tree_fs_simps by (simp add: file_inode_def inode_new_def new_core_def)
  moreover have "in_step tree_fs 0 [''f'' \<mapsto> splice_prefix_and_postfix 1 7]" using leads_tree_fs by (simp add: leads_def)
  moreover have "w_pool mem_world = mem_librados" by (simp add: mem_world_def)
  ultimately show ?thesis
    using local_write_then_read [of mem_world "\<lambda>s. s" tree_fs 0 "[''f'' \<mapsto> splice_prefix_and_postfix 1 7]" 1 "[]" 2 "[7, 8]" 3 0 3]
      mem.librados_healthy_axioms by (auto simp: yields_def)
qed

text \<open>
  C39: Opening with \<^verbatim>\<open>O_TRUNC\<close> sets the recorded size to zero but leaves the data pool as it is: the old
  bytes of the file, of any size that an \<^verbatim>\<open>off_t\<close> reaches, stay readable.
\<close>

theorem open_trunc_keeps_data:
  assumes "in_step g t base" and "p_ino (inode_at g x) = dir_ino (dtables g t)" and "fh_list g (addr_src g (addr_reads g)) = None"
    and "flags AND O_TRUNC \<noteq> 0" and "flags AND O_PATH = 0" and "flags AND O_DIRECTORY = 0" and "flags AND O_NOFOLLOW = 0"
    and "librados_healthy (w_pool W) objs" and "sized objs W g x c" and "length c \<le> MAX_OFFSET"
  shows "yields (local_open W x flags fh) g (\<lambda>(r, a) g'. r = 0 \<and> i_size (core (inode_at g' x)) = 0 \<and>
    data_pool g' = data_pool g \<and> local_read W x (length c) 0 g' = (Inr c, g'))"
proof -
  let ?f = "\<lambda>c. c\<lparr>i_size := 0\<rparr>"
  let ?g = "g\<lparr>inodes := (inodes g)(x := map_base (\<lambda>i. i\<lparr>core := ?f (core i)\<rparr>) (inodes g x))\<rparr>"
  have u: "update_core x ?f g = (Inr (), ?g)" by (simp add: update_core_def update_inode_def)
  have s1: "in_step ?g t base" using quiet_in_step [OF _ assms(1), of ?g] update_core_quiet [of ?f g x] u by simp
  have "p_ino (inode_at ?g x) = dir_ino (dtables ?g t)" using assms(2) by (simp add: inode_at_def)
  from record_chreg [OF s1 this, of W] obtain j where j: "j_chreg W x ?g = (Inr (), ?g\<lparr>jrnl := j\<rparr>)"
    by (auto simp: yields_def dest!: journaledD)
  let ?g2 = "?g\<lparr>jrnl := j\<rparr>"
  obtain g3 where g3: "open_handle x ?g2 = (Inr (addr_src g (addr_reads g)), g3)" "data_pool g3 = data_pool g" "inodes g3 = inodes ?g2"
    using open_handle_eq [of ?g2 x] assms(3) by simp
  have "local_open W x flags fh g = (Inr (0, addr_src g (addr_reads g)), g3)"
    unfolding local_open_def using assms(4-7) u j g3(1) by (simp add: bindE_def)
  moreover have key: "data_key W g3 x = data_key W g x" "i_size (core (inode_at g3 x)) = 0"
    using g3(3) by (simp_all add: data_key_def ino_of_def inode_at_def)
  moreover have "local_read W x (length c) 0 g3 = (Inr c, g3)"
    using local_read_ok [OF assms(8,9), of 0 "length c"] assms(10) g3(2) key(1) by (simp add: local_read_def)
  ultimately show ?thesis using g3(2) by (intro yieldsI [of _ _ "(0, addr_src g (addr_reads g))" g3]) simp_all
qed

theorem open_trunc_keeps_data_witness:
  "\<exists>a g'. local_open mem_world 1 O_TRUNC 0 tree_fs = (Inr (0, a), g') \<and> data_pool g' = data_pool tree_fs"
proof -
  have "p_ino (inode_at tree_fs 1) = dir_ino (dtables tree_fs 0)"
    unfolding tree_fs_simps by (simp add: file_inode_def inode_new_def)
  moreover have "sized (\<lambda>s. s) mem_world tree_fs 1 []"
    unfolding sized_def tree_fs_simps by (simp add: file_inode_def inode_new_def new_core_def)
  moreover have "in_step tree_fs 0 [''f'' \<mapsto> splice_prefix_and_postfix 1 7]" using leads_tree_fs by (simp add: leads_def)
  moreover have "w_pool mem_world = mem_librados" by (simp add: mem_world_def)
  moreover have "O_TRUNC AND O_TRUNC \<noteq> 0" "O_TRUNC AND O_PATH = 0" "O_TRUNC AND O_DIRECTORY = 0" "O_TRUNC AND O_NOFOLLOW = 0"
    by (simp_all add: O_TRUNC_def O_PATH_def O_DIRECTORY_def O_NOFOLLOW_def)
  ultimately show ?thesis
    using open_trunc_keeps_data [of tree_fs 0 "[''f'' \<mapsto> splice_prefix_and_postfix 1 7]" 1 O_TRUNC mem_world "\<lambda>s. s" "[]" 0]
      mem.librados_healthy_axioms by (auto simp: yields_def tree_fs_simps)
qed

end
