(* ===== verification/Rpc_Server.thy ===== *)
theory Rpc_Server
  imports Local_Refine
begin

text \<open>
  The procedures that a client serves to the others for the directories it leads
  (\<^verbatim>\<open>client/rpc/rpc_server.cpp\<close>), one computation on the leader's state per procedure.  A response is
  the message the procedure fills in.  An exception that a procedure does not catch ends the call
  without a response; the changes made before it stay.
\<close>

section \<open>Shared pieces\<close>

text \<open>The block every procedure begins with: the table, or the refusal.\<close>

definition with_table ::
  "('s, 'e) world \<Rightarrow> wire_ino \<Rightarrow> (nat option \<Rightarrow> ('s, 'e, respond) fsm) \<Rightarrow> ('s, 'e, respond) fsm" where
  "with_table W w k g =
     (case get_dentry_table W (wire_to_ino w) True g of
        (Inl Not_leader, g') \<Rightarrow> (Inr (answer (- ENOTLEADER)), g')
      | (Inl e, g') \<Rightarrow> (Inl e, g')
      | (Inr p, g') \<Rightarrow> k p g')"

text \<open>
  The directory's own inode or a child.  Its lock is taken, and so the pointer followed, right after it
  is fetched.
\<close>

definition fetch_target :: "('s, 'e) world \<Rightarrow> nat \<Rightarrow> string \<Rightarrow> bool \<Rightarrow> ('s, 'e, nat option) fsm" where
  "fetch_target W t filename target_is_parent =
     (if target_is_parent then get_this_dir_inode W t else get_child_inode W t filename nil_uuid)"

definition target_of :: "('s, 'e) world \<Rightarrow> nat \<Rightarrow> string \<Rightarrow> bool \<Rightarrow> ('s, 'e, nat) fsm" where
  "target_of W t filename target_is_parent = bindE (fetch_target W t filename target_is_parent) deref"

definition parent_of :: "('s, 'e) world \<Rightarrow> nat \<Rightarrow> ('s, 'e, nat) fsm" where
  "parent_of W t = bindE (get_this_dir_inode W t) deref"

text \<open>A new inode in the directory \<open>parent_ino\<close>; the constructor reads the clock first.\<close>

definition server_inode :: "uuid \<Rightarrow> 32 word \<Rightarrow> 32 word \<Rightarrow> 32 word \<Rightarrow> ('s, 'e, nat) fsm" where
  "server_inode parent_ino owner grp mode =
     bindE get_time (\<lambda>ts.
     bindE alloc_new_ino (\<lambda>ino. new_iobj (Inode (inode_new ino ts parent_ino owner grp mode False))))"

definition c_str :: "string \<Rightarrow> string" where
  "c_str s = takeWhile (\<lambda>ch. ch \<noteq> CHR 0x00) s"

text \<open>A permission check whose denial becomes a code.\<close>

definition permission_answer :: "('s, 'e) world \<Rightarrow> nat \<Rightarrow> 32 word \<Rightarrow> ('s, 'e, respond) fsm" where
  "permission_answer W i amask g =
     (case check_permission W i amask g of
        (Inl Permission_denied, g') \<Rightarrow> (Inr (answer (- EACCES)), g')
      | (Inl e, g') \<Rightarrow> (Inl e, g')
      | (Inr _, g') \<Rightarrow> (Inr (answer 0), g'))"

section \<open>Tables, inodes and attributes\<close>

definition rpc_check_child_inode :: "('s, 'e) world \<Rightarrow> wire_ino \<Rightarrow> string \<Rightarrow> ('s, 'e, respond) fsm" where
  "rpc_check_child_inode W w filename =
     with_table W w (\<lambda>p.
       bindE (deref p) (\<lambda>t.
       bindE (check_child_inode W t filename) (\<lambda>check_target_ino.
         returnE ((answer 0)\<lparr>rsp_ino := ino_to_wire check_target_ino\<rparr>))))"

definition rpc_get_mode :: "('s, 'e) world \<Rightarrow> wire_ino \<Rightarrow> string \<Rightarrow> ('s, 'e, respond) fsm" where
  "rpc_get_mode W w filename =
     with_table W w (\<lambda>p.
       bindE (deref p) (\<lambda>t.
       bindE (target_of W t filename False) (\<lambda>i.
       bindE (get_mode W i) (\<lambda>m. returnE ((answer 0)\<lparr>rsp_mode := m\<rparr>)))))"

definition rpc_permission_check ::
  "('s, 'e) world \<Rightarrow> wire_ino \<Rightarrow> string \<Rightarrow> 32 word \<Rightarrow> bool \<Rightarrow> ('s, 'e, respond) fsm" where
  "rpc_permission_check W w filename amask target_is_parent =
     with_table W w (\<lambda>p.
       bindE (deref p) (\<lambda>t.
       bindE (target_of W t filename target_is_parent) (\<lambda>i. permission_answer W i amask)))"

definition stat_respond :: "32 word \<Rightarrow> inode \<Rightarrow> respond" where
  "stat_respond m i =
     (answer 0)\<lparr>rsp_mode := m, rsp_uid := i_uid (core i), rsp_gid := i_gid (core i),
       rsp_ino := ino_to_wire (i_ino (core i)), rsp_nlink := i_nlink (core i), rsp_size := i_size (core i),
       rsp_atime := i_atime (core i), rsp_mtime := i_mtime (core i), rsp_ctime := i_ctime (core i)\<rparr>"

definition rpc_getattr :: "('s, 'e) world \<Rightarrow> wire_ino \<Rightarrow> string \<Rightarrow> bool \<Rightarrow> ('s, 'e, respond) fsm" where
  "rpc_getattr W w filename target_is_parent =
     with_table W w (\<lambda>p.
       bindE (deref p) (\<lambda>t g.
         (case fetch_target W t filename target_is_parent g of
            (Inl No_entry, g1) \<Rightarrow> (Inr (answer (- EACCES)), g1)
          | (Inl e, g1) \<Rightarrow> (Inl e, g1)
          | (Inr q, g1) \<Rightarrow>
              bindE (deref q) (\<lambda>i.
              bindE (get_mode W i) (\<lambda>m. readE (\<lambda>h. returnE (stat_respond m (inode_at h i))))) g1)))"

definition rpc_access ::
  "('s, 'e) world \<Rightarrow> wire_ino \<Rightarrow> string \<Rightarrow> 32 word \<Rightarrow> bool \<Rightarrow> ('s, 'e, respond) fsm" where
  "rpc_access W w filename amask target_is_parent =
     with_table W w (\<lambda>p.
       bindE (deref p) (\<lambda>t.
       bindE (target_of W t filename target_is_parent) (\<lambda>i. permission_answer W i amask)))"

definition rpc_opendir :: "('s, 'e) world \<Rightarrow> wire_ino \<Rightarrow> string \<Rightarrow> bool \<Rightarrow> ('s, 'e, respond) fsm" where
  "rpc_opendir W w filename target_is_parent =
     with_table W w (\<lambda>p.
       bindE (deref p) (\<lambda>t.
       bindE (target_of W t filename target_is_parent) (\<lambda>i.
       bindE (get_mode W i) (\<lambda>m. returnE (answer (if \<not> S_ISDIR m then - ENOTDIR else 0))))))"

text \<open>
  The names are written to the stream one by one, children in the order of their \<^verbatim>\<open>std::map\<close>.  A refusal
  is stored in a message that is never written: the stream is empty.
\<close>

definition rpc_readdir :: "('s, 'e) world \<Rightarrow> wire_ino \<Rightarrow> ('s, 'e, respond) fsm" where
  "rpc_readdir W w g =
     (case get_dentry_table W (wire_to_ino w) True g of
        (Inl Not_leader, g') \<Rightarrow> (Inr default_respond, g')
      | (Inl e, g') \<Rightarrow> (Inl e, g')
      | (Inr p, g') \<Rightarrow>
          bindE (deref p) (\<lambda>t. readE (\<lambda>h. returnE (default_respond\<lparr>rsp_stream :=
            map (\<lambda>n. (n, 0)) (''.'' # ''..'' # map fst (sorted_iter (child_inodes (dtables h t))))\<rparr>))) g')"

section \<open>Directories\<close>

definition rpc_mkdir ::
  "('s, 'e) world \<Rightarrow> wire_ino \<Rightarrow> string \<Rightarrow> 32 word \<Rightarrow> 32 word \<Rightarrow> 32 word \<Rightarrow> ('s, 'e, respond) fsm" where
  "rpc_mkdir W w new_dir_name new_mode uid gid =
     with_table W w (\<lambda>p.
       bindE (deref p) (\<lambda>t.
       bindE (parent_of W t) (\<lambda>parent_i.
       bindE (server_inode (wire_to_ino w) uid gid (new_mode OR S_IFDIR)) (\<lambda>i.
       bindE (create_child_inode t new_dir_name i) (\<lambda>_.
       bindE (update_core i (\<lambda>c. c\<lparr>i_size := DIR_INODE_SIZE\<rparr>)) (\<lambda>_.
       bindE (touch_dir parent_i) (\<lambda>_.
       readE (\<lambda>g.
       bindE (j_mkdir W parent_i new_dir_name (ino_of g i)) (\<lambda>_.
         returnE ((answer 0)\<lparr>rsp_ino := ino_to_wire (ino_of g i)\<rparr>))))))))))"

definition rpc_rmdir_top :: "('s, 'e) world \<Rightarrow> wire_ino \<Rightarrow> wire_ino \<Rightarrow> ('s, 'e, respond) fsm" where
  "rpc_rmdir_top W w target =
     with_table W w (\<lambda>p.
       case p of
         None \<Rightarrow> throwE (Runtime_error ''directory table is corrupted : Can't find leased directory'')
       | Some t \<Rightarrow>
           bindE (dt_get_child_num W t) (\<lambda>n.
             if 0 < n then returnE (answer (- ENOTEMPTY))
             else
               bindE (j_rmself W (wire_to_ino target)) (\<lambda>_.
               bindE (delete_dentry_table (wire_to_ino target)) (\<lambda>_. returnE (answer 0)))))"

definition rpc_rmdir_down :: "('s, 'e) world \<Rightarrow> wire_ino \<Rightarrow> string \<Rightarrow> wire_ino \<Rightarrow> ('s, 'e, respond) fsm" where
  "rpc_rmdir_down W w target_name target =
     with_table W w (\<lambda>p.
       bindE (deref p) (\<lambda>t.
       bindE (parent_of W t) (\<lambda>parent_i.
       bindE (delete_child_inode t target_name) (\<lambda>_.
       bindE (touch_dir parent_i) (\<lambda>_.
       bindE (j_rmdir W parent_i target_name (wire_to_ino target)) (\<lambda>_.
       bindE (delete_dentry_table (wire_to_ino target)) (\<lambda>_. returnE (answer 0))))))))"

section \<open>Links and names\<close>

definition rpc_symlink :: "('s, 'e) world \<Rightarrow> wire_ino \<Rightarrow> string \<Rightarrow> string \<Rightarrow> string \<Rightarrow> ('s, 'e, respond) fsm" where
  "rpc_symlink W w filename src dst =
     with_table W w (\<lambda>p.
       bindE (liftE (\<lambda>_. get_filename_from_path dst)) (\<lambda>symlink_name.
       bindE (deref p) (\<lambda>t.
       bindE (check_child_inode W t symlink_name) (\<lambda>found.
         if \<not> is_nil found then returnE (answer (- EEXIST))
         else
           bindE (parent_of W t) (\<lambda>dst_parent_i.
           bindE get_time (\<lambda>ts.
           bindE alloc_new_ino (\<lambda>ino.
           bindE (readE (\<lambda>g. new_iobj (Inode (inode_new_symlink ino ts (wire_to_ino w)
             (client_uid (this_client g)) (client_gid (this_client g)) (S_IFLNK OR 0x1FF) (c_str src))))) (\<lambda>symlink_i.
           bindE (update_core symlink_i (\<lambda>c. c\<lparr>i_size := of_nat (length src)\<rparr>)) (\<lambda>_.
           bindE (create_child_inode t symlink_name symlink_i) (\<lambda>_.
           bindE get_time (\<lambda>_.
           bindE (j_mkreg W dst_parent_i symlink_name symlink_i) (\<lambda>_. returnE (answer 0)))))))))))))"

text \<open>The name is passed as a C string; the size of the request is not read.\<close>

definition rpc_readlink :: "('s, 'e) world \<Rightarrow> wire_ino \<Rightarrow> string \<Rightarrow> 64 word \<Rightarrow> ('s, 'e, respond) fsm" where
  "rpc_readlink W w filename sz =
     with_table W w (\<lambda>p.
       bindE (deref p) (\<lambda>t.
       bindE (target_of W t filename False) (\<lambda>i.
       bindE (get_mode W i) (\<lambda>m.
         if \<not> S_ISLNK m then returnE (answer (- EINVAL))
         else readE (\<lambda>g.
           case link_target_name (inode_at g i) of
             None \<Rightarrow> throwE Undefined_behaviour
           | Some name \<Rightarrow> returnE ((answer 0)\<lparr>rsp_filename := c_str name\<rparr>))))))"

definition rpc_rename_same_parent ::
  "('s, 'e) world \<Rightarrow> wire_ino \<Rightarrow> string \<Rightarrow> string \<Rightarrow> 32 word \<Rightarrow> ('s, 'e, respond) fsm" where
  "rpc_rename_same_parent W w old_path new_path flags =
     bindE (liftE (\<lambda>_. get_filename_from_path old_path)) (\<lambda>old_name.
     bindE (liftE (\<lambda>_. get_filename_from_path new_path)) (\<lambda>new_name.
     with_table W w (\<lambda>p.
       bindE (deref p) (\<lambda>t.
       bindE (target_of W t old_name False) (\<lambda>target_i.
       bindE (parent_of W t) (\<lambda>parent_i.
       bindE (check_child_inode W t new_name) (\<lambda>check_dst_ino.
         if flags = 0 then
           bindE (drop_target W parent_i t new_name check_dst_ino) (\<lambda>_.
           bindE (delete_child_inode t old_name) (\<lambda>_.
           bindE (j_rmreg W parent_i old_name target_i) (\<lambda>_.
           bindE (create_child_inode t new_name target_i) (\<lambda>_.
           bindE (j_mkreg W parent_i new_name target_i) (\<lambda>_. returnE (answer 0))))))
         else returnE (answer (- ENOSYS)))))))))"

definition rpc_rename_not_same_parent_src ::
  "('s, 'e) world \<Rightarrow> wire_ino \<Rightarrow> string \<Rightarrow> 32 word \<Rightarrow> ('s, 'e, respond) fsm" where
  "rpc_rename_not_same_parent_src W w old_path flags =
     bindE (liftE (\<lambda>_. get_filename_from_path old_path)) (\<lambda>old_name.
     with_table W w (\<lambda>p.
       bindE (deref p) (\<lambda>t.
       bindE (target_of W t old_name False) (\<lambda>target_i.
       bindE (parent_of W t) (\<lambda>src_parent_i.
         if flags = 0 then
           bindE (delete_child_inode t old_name) (\<lambda>_.
           bindE (j_rmreg W src_parent_i old_name target_i) (\<lambda>_.
           readE (\<lambda>g.
             case inode_to_rename_src_response (inode_at g target_i) default_target of
               Inl e \<Rightarrow> throwE e
             | Inr m \<Rightarrow> returnE ((answer 0)\<lparr>rsp_target := m\<rparr>))))
         else returnE (answer (- ENOSYS)))))))"

definition rpc_rename_not_same_parent_dst ::
  "('s, 'e) world \<Rightarrow> wire_ino \<Rightarrow> target_msg \<Rightarrow> wire_ino \<Rightarrow> string \<Rightarrow> 32 word \<Rightarrow> ('s, 'e, respond) fsm" where
  "rpc_rename_not_same_parent_dst W w m check_dst new_path flags =
     bindE (liftE (\<lambda>_. get_filename_from_path new_path)) (\<lambda>new_name.
     with_table W w (\<lambda>p.
       bindE (new_iobj (Inode ((rename_dst_request_to_inode m ((w_raw W)\<lparr>loc := LOCAL, link_target_name := None\<rparr>))
         \<lparr>p_ino := wire_to_ino w\<rparr>))) (\<lambda>target_inode.
       bindE (deref p) (\<lambda>t.
       bindE (parent_of W t) (\<lambda>dst_parent_i.
         if flags = 0 then
           bindE (drop_target W dst_parent_i t new_name (wire_to_ino check_dst)) (\<lambda>_.
           bindE (create_child_inode t new_name target_inode) (\<lambda>_.
           bindE (j_mkreg W dst_parent_i new_name target_inode) (\<lambda>_. returnE (answer 0))))
         else returnE (answer (- ENOSYS)))))))"

section \<open>Files\<close>

definition rpc_open :: "('s, 'e) world \<Rightarrow> wire_ino \<Rightarrow> string \<Rightarrow> 32 word \<Rightarrow> ('s, 'e, respond) fsm" where
  "rpc_open W w filename flags =
     with_table W w (\<lambda>p.
       bindE (deref p) (\<lambda>t.
       bindE (target_of W t filename False) (\<lambda>i.
       bindE (if flags AND O_DIRECTORY \<noteq> 0 then bindE (get_mode W i) (\<lambda>m. returnE (\<not> S_ISDIR m)) else returnE False)
         (\<lambda>notdir. if notdir then returnE (answer (- ENOTDIR))
          else
       bindE (if flags AND O_NOFOLLOW \<noteq> 0 then bindE (get_mode W i) (\<lambda>m. returnE (S_ISLNK m)) else returnE False)
         (\<lambda>link. if link then returnE (answer (- ELOOP))
          else
       bindE (if flags AND O_TRUNC \<noteq> 0 \<and> flags AND O_PATH = 0 then
                bindE (update_core i (\<lambda>c. c\<lparr>i_size := 0\<rparr>)) (\<lambda>_. j_chreg W i)
              else returnE ()) (\<lambda>_. returnE (answer 0)))))))"

definition rpc_create :: "('s, 'e) world \<Rightarrow> wire_ino \<Rightarrow> string \<Rightarrow> 32 word \<Rightarrow> ('s, 'e, respond) fsm" where
  "rpc_create W w new_file_name new_mode =
     with_table W w (\<lambda>p.
       bindE (deref p) (\<lambda>t.
       bindE (parent_of W t) (\<lambda>parent_i.
       bindE (readE (\<lambda>g. server_inode (wire_to_ino w) (client_uid (this_client g)) (client_gid (this_client g))
         (new_mode OR S_IFREG))) (\<lambda>i.
       bindE (create_child_inode t new_file_name i) (\<lambda>_.
       bindE (touch_dir parent_i) (\<lambda>_.
       bindE (j_mkreg W parent_i new_file_name i) (\<lambda>_.
         readE (\<lambda>g. returnE ((answer 0)\<lparr>rsp_ino := ino_to_wire (ino_of g i)\<rparr>)))))))))"

definition rpc_unlink :: "('s, 'e) world \<Rightarrow> wire_ino \<Rightarrow> string \<Rightarrow> ('s, 'e, respond) fsm" where
  "rpc_unlink W w filename =
     with_table W w (\<lambda>p.
       bindE (deref p) (\<lambda>t.
       bindE (parent_of W t) (\<lambda>parent_i.
       bindE (target_of W t filename False) (\<lambda>target_i.
       readE (\<lambda>g.
         let nlink = i_nlink (core (inode_at g target_i)) - 1 in
         if nlink = 0 then
           bindE (data_call (rados_remove (w_pool W) DATA (data_key W g target_i))) (\<lambda>_.
           bindE (delete_child_inode t filename) (\<lambda>_.
           bindE (touch_dir parent_i) (\<lambda>_.
           bindE (j_rmreg W parent_i filename target_i) (\<lambda>_. returnE (answer 0)))))
         else
           bindE (update_core target_i (\<lambda>c. c\<lparr>i_nlink := nlink\<rparr>)) (\<lambda>_.
           bindE (j_chreg W target_i) (\<lambda>_. returnE (answer 0))))))))"

text \<open>The leader only adjusts the size; the caller writes the data at the offset it is told.\<close>

definition rpc_write ::
  "('s, 'e) world \<Rightarrow> wire_ino \<Rightarrow> string \<Rightarrow> 64 word \<Rightarrow> 64 word \<Rightarrow> 32 word \<Rightarrow> ('s, 'e, respond) fsm" where
  "rpc_write W w filename sz offset0 flags =
     with_table W w (\<lambda>p.
       bindE (deref p) (\<lambda>t.
       bindE (target_of W t filename False) (\<lambda>i.
       readE (\<lambda>g.
         let offset = (if flags AND O_APPEND \<noteq> 0 then i_size (core (inode_at g i)) else offset0) in
         bindE (if i_size (core (inode_at g i)) < offset + sz then
                  bindE (update_core i (\<lambda>c. c\<lparr>i_size := offset + sz\<rparr>)) (\<lambda>_. j_chreg W i)
                else returnE ()) (\<lambda>_.
           returnE ((answer 0)\<lparr>rsp_offset := offset, rsp_size := sz\<rparr>))))))"

definition rpc_chmod ::
  "('s, 'e) world \<Rightarrow> wire_ino \<Rightarrow> string \<Rightarrow> 32 word \<Rightarrow> bool \<Rightarrow> ('s, 'e, respond) fsm" where
  "rpc_chmod W w filename mode target_is_parent =
     with_table W w (\<lambda>p.
       bindE (deref p) (\<lambda>t.
       bindE (target_of W t filename target_is_parent) (\<lambda>i.
       bindE (get_mode W i) (\<lambda>m.
       bindE (update_core i (\<lambda>c. c\<lparr>i_mode := mode OR (m AND S_IFMT)\<rparr>)) (\<lambda>_.
       bindE (j_change W i) (\<lambda>_. returnE (answer 0)))))))"

definition rpc_chown ::
  "('s, 'e) world \<Rightarrow> wire_ino \<Rightarrow> string \<Rightarrow> 32 word \<Rightarrow> 32 word \<Rightarrow> bool \<Rightarrow> ('s, 'e, respond) fsm" where
  "rpc_chown W w filename uid gid target_is_parent =
     with_table W w (\<lambda>p.
       bindE (deref p) (\<lambda>t.
       bindE (target_of W t filename target_is_parent) (\<lambda>i.
       bindE (if 0 \<le> sint uid then update_core i (\<lambda>c. c\<lparr>i_uid := uid\<rparr>) else returnE ()) (\<lambda>_.
       bindE (if 0 \<le> sint gid then update_core i (\<lambda>c. c\<lparr>i_gid := gid\<rparr>) else returnE ()) (\<lambda>_.
       bindE (j_change W i) (\<lambda>_. returnE (answer 0)))))))"

definition rpc_utimens ::
  "('s, 'e) world \<Rightarrow> wire_ino \<Rightarrow> string \<Rightarrow> timespec \<Rightarrow> timespec \<Rightarrow> bool \<Rightarrow> ('s, 'e, respond) fsm" where
  "rpc_utimens W w filename a m target_is_parent =
     with_table W w (\<lambda>p.
       bindE (deref p) (\<lambda>t.
       bindE (target_of W t filename target_is_parent) (\<lambda>i.
       bindE (utime_one i (\<lambda>ts c. c\<lparr>i_atime := ts\<rparr>) a) (\<lambda>_.
       bindE (utime_one i (\<lambda>ts c. c\<lparr>i_mtime := ts\<rparr>) m) (\<lambda>_.
       bindE (j_change W i) (\<lambda>_. returnE (answer 0)))))))"

definition rpc_truncate :: "('s, 'e) world \<Rightarrow> wire_ino \<Rightarrow> string \<Rightarrow> 64 word \<Rightarrow> bool \<Rightarrow> ('s, 'e, respond) fsm" where
  "rpc_truncate W w filename offset target_is_parent =
     with_table W w (\<lambda>p.
       bindE (deref p) (\<lambda>t.
       bindE (target_of W t filename target_is_parent) (\<lambda>i.
       bindE (get_mode W i) (\<lambda>m.
         if S_ISDIR m then returnE (answer (- EISDIR))
         else
           bindE (update_core i (\<lambda>c. c\<lparr>i_size := offset\<rparr>)) (\<lambda>_.
           bindE (j_change W i) (\<lambda>_. returnE (answer 0)))))))"

section \<open>The service\<close>

text \<open>The dispatch of a request to its procedure.\<close>

fun rpc_serve :: "('s, 'e) world \<Rightarrow> rpc_request \<Rightarrow> ('s, 'e, respond) fsm" where
  "rpc_serve W (Rpc_check_child_inode w n) = rpc_check_child_inode W w n"
| "rpc_serve W (Rpc_get_mode w n) = rpc_get_mode W w n"
| "rpc_serve W (Rpc_permission_check w n k b) = rpc_permission_check W w n k b"
| "rpc_serve W (Rpc_getattr w n b) = rpc_getattr W w n b"
| "rpc_serve W (Rpc_access w n k b) = rpc_access W w n k b"
| "rpc_serve W (Rpc_opendir w n b) = rpc_opendir W w n b"
| "rpc_serve W (Rpc_readdir w) = rpc_readdir W w"
| "rpc_serve W (Rpc_mkdir w n m u g) = rpc_mkdir W w n m u g"
| "rpc_serve W (Rpc_rmdir_top w t) = rpc_rmdir_top W w t"
| "rpc_serve W (Rpc_rmdir_down w n t) = rpc_rmdir_down W w n t"
| "rpc_serve W (Rpc_symlink w n src dst) = rpc_symlink W w n src dst"
| "rpc_serve W (Rpc_readlink w n sz) = rpc_readlink W w n sz"
| "rpc_serve W (Rpc_rename_same_parent w a b f) = rpc_rename_same_parent W w a b f"
| "rpc_serve W (Rpc_rename_not_same_parent_src w a f) = rpc_rename_not_same_parent_src W w a f"
| "rpc_serve W (Rpc_rename_not_same_parent_dst w m u b f) = rpc_rename_not_same_parent_dst W w m u b f"
| "rpc_serve W (Rpc_open w n f) = rpc_open W w n f"
| "rpc_serve W (Rpc_create w n m) = rpc_create W w n m"
| "rpc_serve W (Rpc_unlink w n) = rpc_unlink W w n"
| "rpc_serve W (Rpc_write w n sz off f) = rpc_write W w n sz off f"
| "rpc_serve W (Rpc_chmod w n m b) = rpc_chmod W w n m b"
| "rpc_serve W (Rpc_chown w n u g b) = rpc_chown W w n u g b"
| "rpc_serve W (Rpc_utimens w n a m b) = rpc_utimens W w n a m b"
| "rpc_serve W (Rpc_truncate w n off b) = rpc_truncate W w n off b"

end
