(* ===== verification/Rpc_Client.thy ===== *)
theory Rpc_Client
  imports Rpc_Server
begin

text \<open>
  The caller's side: \<^verbatim>\<open>client/rpc/rpc_client.cpp\<close> builds the request, interprets the response and does
  what is left to the caller (file handles, new directories, data), \<^verbatim>\<open>client/fs_ops/remote_ops.cpp\<close> picks
  the leader's address.  The stubs that \<^verbatim>\<open>get_rpc_client\<close> keeps per address are the channel \<open>w_rpc\<close>.
  An operation returns its code first, then what it stores through its reference parameters.
\<close>

section \<open>Shared pieces\<close>

definition rpc_call :: "('s, 'e) world \<Rightarrow> string \<Rightarrow> rpc_request \<Rightarrow> ('s, 'e, respond option) fsm" where
  "rpc_call W address q g = (case w_rpc W address q (env g) of (out, e) \<Rightarrow> (Inr out, g\<lparr>env := e\<rparr>))"

definition table_wire :: "remote_inode \<Rightarrow> wire_ino" where
  "table_wire r = ino_to_wire (r_dentry_table_ino r)"

text \<open>The calls that only hand the code on.\<close>

definition common_call :: "('s, 'e) world \<Rightarrow> remote_inode \<Rightarrow> rpc_request \<Rightarrow> ('s, 'e, int) fsm" where
  "common_call W r q =
     bindE (rpc_call W (r_leader_ip r) q) (\<lambda>out.
       returnE (case out of Some o1 \<Rightarrow> rsp_ret o1 | None \<Rightarrow> - ENEEDRECOV))"

text \<open>A handle on a file at another client, registered under its address.\<close>

definition remote_handle :: "uuid \<Rightarrow> nat \<Rightarrow> ('s, 'e, 64 word) fsm" where
  "remote_handle ino x =
     bindE new_address (\<lambda>a.
     bindE (add_file_handler a ((file_handler_new ino)\<lparr>fh_loc := Some REMOTE, fh_remote_i := Some x, fhno := a\<rparr>))
       (\<lambda>_. returnE a))"

section \<open>Attributes\<close>

definition rc_getattr :: "('s, 'e) world \<Rightarrow> remote_inode \<Rightarrow> stat \<Rightarrow> ('s, 'e, int \<times> stat) fsm" where
  "rc_getattr W r s =
     bindE (rpc_call W (r_leader_ip r) (Rpc_getattr (table_wire r) (r_file_name r) (r_target_is_parent r))) (\<lambda>out.
       case out of
         None \<Rightarrow> returnE (- ENEEDRECOV, s)
       | Some o1 \<Rightarrow>
           if rsp_ret o1 = - ENOTLEADER then returnE (- ENOTLEADER, s)
           else if rsp_ret o1 = - EACCES then throwE No_entry
           else returnE (rsp_ret o1,
             s\<lparr>st_mode := rsp_mode o1, st_uid := rsp_uid o1, st_gid := rsp_gid o1, st_ino := snd (rsp_ino o1),
               st_nlink := rsp_nlink o1, st_size := rsp_size o1, st_atim := rsp_atime o1, st_mtim := rsp_mtime o1,
               st_ctim := (st_ctim s)\<lparr>tv_sec := tv_nsec (rsp_ctime o1)\<rparr>\<rparr>))"

definition rc_access :: "('s, 'e) world \<Rightarrow> remote_inode \<Rightarrow> 32 word \<Rightarrow> ('s, 'e, int) fsm" where
  "rc_access W r amask =
     bindE (rpc_call W (r_leader_ip r) (Rpc_access (table_wire r) (r_file_name r) amask (r_target_is_parent r))) (\<lambda>out.
       case out of
         None \<Rightarrow> returnE (- ENEEDRECOV)
       | Some o1 \<Rightarrow> if rsp_ret o1 = - EACCES then throwE Permission_denied else returnE (rsp_ret o1))"

definition rc_chmod :: "('s, 'e) world \<Rightarrow> remote_inode \<Rightarrow> 32 word \<Rightarrow> ('s, 'e, int) fsm" where
  "rc_chmod W r mode = common_call W r (Rpc_chmod (table_wire r) (r_file_name r) mode False)"

definition rc_chown :: "('s, 'e) world \<Rightarrow> remote_inode \<Rightarrow> 32 word \<Rightarrow> 32 word \<Rightarrow> ('s, 'e, int) fsm" where
  "rc_chown W r uid gid =
     common_call W r (Rpc_chown (table_wire r) (r_file_name r) uid gid (r_target_is_parent r))"

definition rc_utimens :: "('s, 'e) world \<Rightarrow> remote_inode \<Rightarrow> timespec \<Rightarrow> timespec \<Rightarrow> ('s, 'e, int) fsm" where
  "rc_utimens W r tv0 tv1 =
     common_call W r (Rpc_utimens (table_wire r) (r_file_name r) tv0 tv1 (r_target_is_parent r))"

section \<open>Directories\<close>

definition rc_opendir :: "('s, 'e) world \<Rightarrow> nat \<Rightarrow> inode \<Rightarrow> remote_inode \<Rightarrow> 64 word \<Rightarrow> ('s, 'e, int \<times> 64 word) fsm" where
  "rc_opendir W x i r fh =
     bindE (rpc_call W (r_leader_ip r) (Rpc_opendir (table_wire r) (r_file_name r) (r_target_is_parent r))) (\<lambda>out.
       case out of
         None \<Rightarrow> returnE (- ENEEDRECOV, fh)
       | Some o1 \<Rightarrow>
           if rsp_ret o1 = 0 then bindE (remote_handle (i_ino (core i)) x) (\<lambda>a. returnE (0, a))
           else returnE (rsp_ret o1, fh))"

text \<open>
  The names are passed on until a message has a code; the result is the code of the last message read,
  the default 0 when none came.  A stream that breaks is a call without an answer; the names that it had
  passed on before are not kept, since the caller ends with the exception for a lost leader.
\<close>

definition rc_readdir :: "('s, 'e) world \<Rightarrow> remote_inode \<Rightarrow> ('s, 'e, int \<times> string list) fsm" where
  "rc_readdir W r =
     bindE (rpc_call W (r_leader_ip r) (Rpc_readdir (table_wire r))) (\<lambda>out.
       case out of
         None \<Rightarrow> returnE (- ENEEDRECOV, [])
       | Some o1 \<Rightarrow>
           returnE (case dropWhile (\<lambda>m. snd m = 0) (rsp_stream o1) of [] \<Rightarrow> 0 | m # _ \<Rightarrow> snd m,
             map fst (takeWhile (\<lambda>m. snd m = 0) (rsp_stream o1))))"

definition rc_mkdir ::
  "('s, 'e) world \<Rightarrow> inode \<Rightarrow> remote_inode \<Rightarrow> string \<Rightarrow> 32 word \<Rightarrow> ('s, 'e, int \<times> (nat \<times> dentry) option) fsm" where
  "rc_mkdir W i r new_child_name mode =
     readE (\<lambda>g0.
     bindE (rpc_call W (r_leader_ip r) (Rpc_mkdir (table_wire r) new_child_name mode
       (client_uid (this_client g0)) (client_gid (this_client g0)))) (\<lambda>out.
       case out of
         None \<Rightarrow> returnE (- ENEEDRECOV, None)
       | Some o1 \<Rightarrow>
           if rsp_ret o1 = 0 then
             bindE get_time (\<lambda>ts.
             bindE (readE (\<lambda>g. new_iobj (Inode (inode_new_dir ts (i_ino (core i)) (client_uid (this_client g))
               (client_gid (this_client g)) (mode OR S_IFDIR) (wire_to_ino (rsp_ino o1)))))) (\<lambda>new_i.
             bindE (update_core new_i (\<lambda>c. c\<lparr>i_size := DIR_INODE_SIZE\<rparr>)) (\<lambda>_.
             bindE (liftE (\<lambda>g. dentry_new (w_pool W) (meta (jrnl g)) (ino_of g new_i) True)) (\<lambda>new_d.
             bindE (j_mkself W new_i) (\<lambda>_. returnE (0, Some (new_i, new_d)))))))
           else returnE (rsp_ret o1, None)))"

definition rc_rmdir_top :: "('s, 'e) world \<Rightarrow> remote_inode \<Rightarrow> uuid \<Rightarrow> ('s, 'e, int) fsm" where
  "rc_rmdir_top W r target_ino = common_call W r (Rpc_rmdir_top (ino_to_wire target_ino) (ino_to_wire target_ino))"

definition rc_rmdir_down :: "('s, 'e) world \<Rightarrow> remote_inode \<Rightarrow> uuid \<Rightarrow> string \<Rightarrow> ('s, 'e, int) fsm" where
  "rc_rmdir_down W r target_ino target_name =
     common_call W r (Rpc_rmdir_down (table_wire r) target_name (ino_to_wire target_ino))"

section \<open>Links and names\<close>

definition rc_symlink :: "('s, 'e) world \<Rightarrow> remote_inode \<Rightarrow> string \<Rightarrow> string \<Rightarrow> ('s, 'e, int) fsm" where
  "rc_symlink W r src dst = common_call W r (Rpc_symlink (table_wire r) (r_file_name r) src dst)"

text \<open>The bytes written to the buffer of \<open>sz\<close> bytes; \<^verbatim>\<open>size - 1\<close> wraps when there is no room.\<close>

definition rc_readlink :: "('s, 'e) world \<Rightarrow> remote_inode \<Rightarrow> 64 word \<Rightarrow> ('s, 'e, int \<times> byte list) fsm" where
  "rc_readlink W r sz =
     bindE (rpc_call W (r_leader_ip r) (Rpc_readlink (table_wire r) (r_file_name r) sz)) (\<lambda>out.
       case out of
         None \<Rightarrow> returnE (- ENEEDRECOV, [])
       | Some o1 \<Rightarrow>
           if rsp_ret o1 = 0 then
             (let n = of_nat (length (rsp_filename o1)) :: 64 word; len = (if n < sz - 1 then n else sz - 1) in
              if unat len < unat sz
              then returnE (0, take (unat len) (map byte_of_char (rsp_filename o1)) @ [0])
              else throwE Undefined_behaviour)
           else returnE (rsp_ret o1, []))"

definition rc_rename_same_parent ::
  "('s, 'e) world \<Rightarrow> remote_inode \<Rightarrow> string \<Rightarrow> string \<Rightarrow> 32 word \<Rightarrow> ('s, 'e, int) fsm" where
  "rc_rename_same_parent W r old_path new_path flags =
     common_call W r (Rpc_rename_same_parent (table_wire r) old_path new_path flags)"

definition rc_rename_not_same_parent_src ::
  "('s, 'e) world \<Rightarrow> remote_inode \<Rightarrow> string \<Rightarrow> 32 word \<Rightarrow> ('s, 'e, int \<times> nat option) fsm" where
  "rc_rename_not_same_parent_src W r old_path flags =
     bindE (rpc_call W (r_leader_ip r) (Rpc_rename_not_same_parent_src (table_wire r) old_path flags)) (\<lambda>out.
       case out of
         None \<Rightarrow> returnE (- ENEEDRECOV, None)
       | Some o1 \<Rightarrow>
           if rsp_ret o1 = - ENOTLEADER then returnE (- ENOTLEADER, None)
           else if rsp_ret o1 = - ENOSYS then
             throwE (Runtime_error ''Flag specific behaviors of rename operation are not implemented'')
           else if rsp_ret o1 = 0 then
             bindE (new_iobj (Inode (rename_src_response_to_inode (rsp_target o1)
               ((w_raw W)\<lparr>loc := NOBODY, link_target_name := None\<rparr>)))) (\<lambda>y. returnE (0, Some y))
           else returnE (rsp_ret o1, None))"

definition rc_rename_not_same_parent_dst ::
  "('s, 'e) world \<Rightarrow> remote_inode \<Rightarrow> nat option \<Rightarrow> uuid \<Rightarrow> string \<Rightarrow> 32 word \<Rightarrow> ('s, 'e, int) fsm" where
  "rc_rename_not_same_parent_dst W r target_inode check_dst_ino new_path flags =
     bindE (deref target_inode) (\<lambda>y.
     readE (\<lambda>g.
       case inode_to_rename_dst_request (inode_at g y) default_target of
         Inl e \<Rightarrow> throwE e
       | Inr m \<Rightarrow>
           common_call W r (Rpc_rename_not_same_parent_dst (table_wire r) m (ino_to_wire check_dst_ino) new_path flags)))"

section \<open>Files\<close>

definition rc_open ::
  "('s, 'e) world \<Rightarrow> nat \<Rightarrow> inode \<Rightarrow> remote_inode \<Rightarrow> 32 word \<Rightarrow> 64 word \<Rightarrow> ('s, 'e, int \<times> 64 word) fsm" where
  "rc_open W x i r flags fh =
     bindE (rpc_call W (r_leader_ip r) (Rpc_open (table_wire r) (r_file_name r) flags)) (\<lambda>out.
       case out of
         None \<Rightarrow> returnE (- ENEEDRECOV, fh)
       | Some o1 \<Rightarrow>
           if rsp_ret o1 = 0 then bindE (remote_handle (i_ino (core i)) x) (\<lambda>a. returnE (0, a))
           else returnE (rsp_ret o1, fh))"

definition rc_create ::
  "('s, 'e) world \<Rightarrow> remote_inode \<Rightarrow> string \<Rightarrow> 32 word \<Rightarrow> 64 word \<Rightarrow> ('s, 'e, int \<times> 64 word) fsm" where
  "rc_create W r new_child_name mode fh =
     bindE (rpc_call W (r_leader_ip r) (Rpc_create (table_wire r) new_child_name mode)) (\<lambda>out.
       case out of
         None \<Rightarrow> returnE (- ENEEDRECOV, fh)
       | Some o1 \<Rightarrow>
           if rsp_ret o1 = 0 then
             bindE (new_iobj (remote_inode_new (w_raw W) (r_leader_ip r) (r_dentry_table_ino r) new_child_name False)) (\<lambda>y.
             bindE (update_core y (\<lambda>c. c\<lparr>i_ino := wire_to_ino (rsp_ino o1)\<rparr>)) (\<lambda>_.
             bindE (remote_handle (wire_to_ino (rsp_ino o1)) y) (\<lambda>a. returnE (0, a))))
           else returnE (rsp_ret o1, fh))"

definition rc_unlink :: "('s, 'e) world \<Rightarrow> remote_inode \<Rightarrow> string \<Rightarrow> ('s, 'e, int) fsm" where
  "rc_unlink W r child_name = common_call W r (Rpc_unlink (table_wire r) child_name)"

text \<open>The leader's offset goes to the data pool as its 64 bits, which \<open>rados_write\<close> reads as a signed \<^verbatim>\<open>off_t\<close>.\<close>

definition rc_write ::
  "('s, 'e) world \<Rightarrow> inode \<Rightarrow> remote_inode \<Rightarrow> byte list \<Rightarrow> 64 word \<Rightarrow> 64 word \<Rightarrow> 32 word \<Rightarrow> ('s, 'e, int) fsm" where
  "rc_write W i r buffer sz offset flags =
     bindE (rpc_call W (r_leader_ip r) (Rpc_write (table_wire r) (r_file_name r) sz offset flags)) (\<lambda>out.
       case out of
         None \<Rightarrow> returnE (- ENEEDRECOV)
       | Some o1 \<Rightarrow>
           if rsp_ret o1 = 0 then
             bindE (data_call (rados_write (w_pool W) DATA (uuid_to_string (w_pool W) (i_ino (core i))) buffer
               (unat (rsp_size o1)) (unat (rsp_offset o1)))) (\<lambda>n. returnE (int n))
           else returnE (rsp_ret o1))"

definition rc_truncate :: "('s, 'e) world \<Rightarrow> inode \<Rightarrow> remote_inode \<Rightarrow> 64 word \<Rightarrow> ('s, 'e, int) fsm" where
  "rc_truncate W i r offset =
     bindE (rpc_call W (r_leader_ip r) (Rpc_truncate (table_wire r) (r_file_name r) offset (r_target_is_parent r))) (\<lambda>out.
       case out of
         None \<Rightarrow> returnE (- ENEEDRECOV)
       | Some o1 \<Rightarrow>
           if rsp_ret o1 = 0 then
             data_call (rados_truncate (w_pool W) DATA (uuid_to_string (w_pool W) (i_ino (core i))) (unat offset))
           else returnE (rsp_ret o1))"

section \<open>Remote operations\<close>

text \<open>
  The cast from an inode to a remote inode yields a null pointer for any other object, which every
  operation rejects.
\<close>

definition as_remote :: "nat \<Rightarrow> (inode \<Rightarrow> remote_inode \<Rightarrow> ('s, 'e, 'a) fsm) \<Rightarrow> ('s, 'e, 'a) fsm" where
  "as_remote x k g =
     (case inodes g x of
        Inode _ \<Rightarrow> (Inl (Runtime_error ''inode casting is failed''), g)
      | Remote i r \<Rightarrow> k i r g)"

definition remote_getattr :: "('s, 'e) world \<Rightarrow> nat \<Rightarrow> stat \<Rightarrow> ('s, 'e, int \<times> stat) fsm" where
  "remote_getattr W x s = as_remote x (\<lambda>i r. rc_getattr W r s)"

definition remote_access :: "('s, 'e) world \<Rightarrow> nat \<Rightarrow> 32 word \<Rightarrow> ('s, 'e, int) fsm" where
  "remote_access W x amask = as_remote x (\<lambda>i r. rc_access W r amask)"

definition remote_opendir :: "('s, 'e) world \<Rightarrow> nat \<Rightarrow> 64 word \<Rightarrow> ('s, 'e, int \<times> 64 word) fsm" where
  "remote_opendir W x fh = as_remote x (\<lambda>i r. rc_opendir W x i r fh)"

definition remote_readdir :: "('s, 'e) world \<Rightarrow> nat \<Rightarrow> ('s, 'e, int \<times> string list) fsm" where
  "remote_readdir W x = as_remote x (\<lambda>i r. rc_readdir W r)"

definition remote_mkdir ::
  "('s, 'e) world \<Rightarrow> nat \<Rightarrow> string \<Rightarrow> 32 word \<Rightarrow> ('s, 'e, int \<times> (nat \<times> dentry) option) fsm" where
  "remote_mkdir W x new_child_name mode = as_remote x (\<lambda>i r. rc_mkdir W i r new_child_name mode)"

definition remote_rmdir_top :: "('s, 'e) world \<Rightarrow> nat \<Rightarrow> uuid \<Rightarrow> ('s, 'e, int) fsm" where
  "remote_rmdir_top W x target_ino = as_remote x (\<lambda>i r. rc_rmdir_top W r target_ino)"

definition remote_rmdir_down :: "('s, 'e) world \<Rightarrow> nat \<Rightarrow> uuid \<Rightarrow> string \<Rightarrow> ('s, 'e, int) fsm" where
  "remote_rmdir_down W x target_ino target_name = as_remote x (\<lambda>i r. rc_rmdir_down W r target_ino target_name)"

definition remote_symlink :: "('s, 'e) world \<Rightarrow> nat \<Rightarrow> string \<Rightarrow> string \<Rightarrow> ('s, 'e, int) fsm" where
  "remote_symlink W x src dst = as_remote x (\<lambda>i r. rc_symlink W r src dst)"

definition remote_readlink :: "('s, 'e) world \<Rightarrow> nat \<Rightarrow> 64 word \<Rightarrow> ('s, 'e, int \<times> byte list) fsm" where
  "remote_readlink W x sz = as_remote x (\<lambda>i r. rc_readlink W r sz)"

definition remote_rename_same_parent ::
  "('s, 'e) world \<Rightarrow> nat \<Rightarrow> string \<Rightarrow> string \<Rightarrow> 32 word \<Rightarrow> ('s, 'e, int) fsm" where
  "remote_rename_same_parent W x old_path new_path flags =
     as_remote x (\<lambda>i r. rc_rename_same_parent W r old_path new_path flags)"

definition remote_rename_not_same_parent_src ::
  "('s, 'e) world \<Rightarrow> nat \<Rightarrow> string \<Rightarrow> 32 word \<Rightarrow> ('s, 'e, int \<times> nat option) fsm" where
  "remote_rename_not_same_parent_src W x old_path flags =
     as_remote x (\<lambda>i r. rc_rename_not_same_parent_src W r old_path flags)"

definition remote_rename_not_same_parent_dst ::
  "('s, 'e) world \<Rightarrow> nat \<Rightarrow> nat option \<Rightarrow> uuid \<Rightarrow> string \<Rightarrow> 32 word \<Rightarrow> ('s, 'e, int) fsm" where
  "remote_rename_not_same_parent_dst W x target_inode check_dst_ino new_path flags =
     as_remote x (\<lambda>i r. rc_rename_not_same_parent_dst W r target_inode check_dst_ino new_path flags)"

definition remote_open :: "('s, 'e) world \<Rightarrow> nat \<Rightarrow> 32 word \<Rightarrow> 64 word \<Rightarrow> ('s, 'e, int \<times> 64 word) fsm" where
  "remote_open W x flags fh = as_remote x (\<lambda>i r. rc_open W x i r flags fh)"

definition remote_create ::
  "('s, 'e) world \<Rightarrow> nat \<Rightarrow> string \<Rightarrow> 32 word \<Rightarrow> 64 word \<Rightarrow> ('s, 'e, int \<times> 64 word) fsm" where
  "remote_create W x new_child_name mode fh = as_remote x (\<lambda>i r. rc_create W r new_child_name mode fh)"

definition remote_unlink :: "('s, 'e) world \<Rightarrow> nat \<Rightarrow> string \<Rightarrow> ('s, 'e, int) fsm" where
  "remote_unlink W x child_name = as_remote x (\<lambda>i r. rc_unlink W r child_name)"

definition remote_write ::
  "('s, 'e) world \<Rightarrow> nat \<Rightarrow> byte list \<Rightarrow> 64 word \<Rightarrow> 64 word \<Rightarrow> 32 word \<Rightarrow> ('s, 'e, int) fsm" where
  "remote_write W x buffer sz offset flags = as_remote x (\<lambda>i r. rc_write W i r buffer sz offset flags)"

definition remote_chmod :: "('s, 'e) world \<Rightarrow> nat \<Rightarrow> 32 word \<Rightarrow> ('s, 'e, int) fsm" where
  "remote_chmod W x mode = as_remote x (\<lambda>i r. rc_chmod W r mode)"

definition remote_chown :: "('s, 'e) world \<Rightarrow> nat \<Rightarrow> 32 word \<Rightarrow> 32 word \<Rightarrow> ('s, 'e, int) fsm" where
  "remote_chown W x uid gid = as_remote x (\<lambda>i r. rc_chown W r uid gid)"

definition remote_utimens :: "('s, 'e) world \<Rightarrow> nat \<Rightarrow> timespec \<Rightarrow> timespec \<Rightarrow> ('s, 'e, int) fsm" where
  "remote_utimens W x tv0 tv1 = as_remote x (\<lambda>i r. rc_utimens W r tv0 tv1)"

definition remote_truncate :: "('s, 'e) world \<Rightarrow> nat \<Rightarrow> 64 word \<Rightarrow> ('s, 'e, int) fsm" where
  "remote_truncate W x offset = as_remote x (\<lambda>i r. rc_truncate W i r offset)"

end
