(* ===== verification/Fuse_Ops.thy ===== *)
theory Fuse_Ops
  imports Rpc_Client
begin

text \<open>
  The file system as FUSE calls it (\<^verbatim>\<open>client/fs_ops/fuse_ops.cpp\<close>): every operation finds the inode or
  the directory, runs the local operation when this client leads it and the remote one otherwise,
  following the lease to a new leader as long as it moves, and turns the exceptions it expects into
  error codes.  A path is a C string.  \<open>fi\<close> is the optional \<^verbatim>\<open>fuse_file_info\<close>.  What an operation stores
  for its caller is the second component of its result.
\<close>

definition O_CLOEXEC :: "32 word" where "O_CLOEXEC = 0x80000"

section \<open>Shared pieces\<close>

text \<open>
  The loop around every remote operation.  \<open>code\<close> is the return code within the result.  A loop that
  never ends has no value.
\<close>

partial_function (option) retry ::
  "('s, 'e) world \<Rightarrow> ('a \<Rightarrow> int) \<Rightarrow> nat \<Rightarrow> ('s, 'e, 'a) fsm \<Rightarrow> ('s, 'e) fs \<Rightarrow> ('a result \<times> ('s, 'e) fs) option" where
  "retry W code x op g =
     (case op g of
        (Inl e, g1) \<Rightarrow> Some (Inl e, g1)
      | (Inr a, g1) \<Rightarrow>
          if code a = - ENOTLEADER then
            (case find_remote_dentry_table_again W x g1 of
               (Inl e, g2) \<Rightarrow> Some (Inl e, g2)
             | (Inr _, g2) \<Rightarrow> retry W code x op g2)
          else if code a = - ENEEDRECOV then
            Some (Inl (Runtime_error ''Need Recovery of remote dentry_table''), g1)
          else Some (Inr a, g1))"

definition retrying :: "('s, 'e) world \<Rightarrow> ('a \<Rightarrow> int) \<Rightarrow> nat \<Rightarrow> ('s, 'e, 'a) fsm \<Rightarrow> ('s, 'e, 'a) fsm" where
  "retrying W code x op g = (case retry W code x op g of None \<Rightarrow> (Inl Diverges, g) | Some r \<Rightarrow> r)"

text \<open>The handlers that end every operation; \<open>f\<close> builds the result from the code.\<close>

definition catch_entry :: "(int \<Rightarrow> 'a) \<Rightarrow> ('s, 'e, 'a) fsm \<Rightarrow> ('s, 'e, 'a) fsm" where
  "catch_entry f m g =
     (case m g of
        (Inl No_entry, g') \<Rightarrow> (Inr (f (- ENOENT)), g')
      | (Inl Permission_denied, g') \<Rightarrow> (Inr (f (- EACCES)), g')
      | r \<Rightarrow> r)"

text \<open>The inode an operation is about: that of the open file, or the one the path names.\<close>

definition open_inode :: "64 word \<Rightarrow> ('s, 'e, nat option) fsm" where
  "open_inode fh = bindE (get_file_handler fh) (\<lambda>h. liftE (\<lambda>_. get_open_inode_info h))"

definition target_inode :: "('s, 'e) world \<Rightarrow> string \<Rightarrow> 64 word option \<Rightarrow> ('s, 'e, nat) fsm" where
  "target_inode W path fi =
     (case fi of
        Some fh \<Rightarrow> bindE (open_inode fh) deref
      | None \<Rightarrow> path_traversal W path)"

text \<open>Dispatch on where an inode, or a directory table, lives.\<close>

definition by_loc :: "nat \<Rightarrow> 'a \<Rightarrow> ('s, 'e, 'a) fsm \<Rightarrow> ('s, 'e, 'a) fsm \<Rightarrow> ('s, 'e, 'a) fsm" where
  "by_loc i otherwise here there =
     readE (\<lambda>g. case loc (inode_at g i) of LOCAL \<Rightarrow> here | REMOTE \<Rightarrow> there | _ \<Rightarrow> returnE otherwise)"

definition by_table :: "nat \<Rightarrow> 'a \<Rightarrow> ('s, 'e, 'a) fsm \<Rightarrow> ('s, 'e, 'a) fsm \<Rightarrow> ('s, 'e, 'a) fsm" where
  "by_table t otherwise here there =
     readE (\<lambda>g. case dt_loc (dtables g t) of LOCAL \<Rightarrow> here | REMOTE \<Rightarrow> there | _ \<Rightarrow> returnE otherwise)"

text \<open>The remote inode that stands for a directory at its leader.\<close>

definition table_inode :: "('s, 'e) world \<Rightarrow> nat \<Rightarrow> string \<Rightarrow> ('s, 'e, nat) fsm" where
  "table_inode W t name =
     readE (\<lambda>g. new_iobj (remote_inode_new (w_raw W) (leader_ip (dtables g t)) (dir_ino (dtables g t)) name False))"

text \<open>The directory that a path lies in: its inode and its table.\<close>

definition parent_dir :: "('s, 'e) world \<Rightarrow> string \<Rightarrow> ('s, 'e, nat \<times> nat) fsm" where
  "parent_dir W path =
     bindE (liftE (\<lambda>_. get_parent_dir_path path)) (\<lambda>parent_name.
     bindE (path_traversal W parent_name) (\<lambda>parent_i.
     bindE (table_of W parent_i) (\<lambda>t. returnE (parent_i, t))))"

text \<open>The conversion of a 64-bit length to \<^verbatim>\<open>int\<close>.\<close>

definition as_int :: "int \<Rightarrow> int" where
  "as_int n = sint (word_of_int n :: 32 word)"

section \<open>Mounting\<close>

text \<open>The argument: the manager's and the client's own address, separated by a comma.\<close>

definition mount_addresses :: "string \<Rightarrow> string \<times> string" where
  "mount_addresses s =
     (takeWhile (\<lambda>c. c \<noteq> CHR '','') s,
      (if CHR '','' \<in> set s then drop (Suc (length (takeWhile (\<lambda>c. c \<noteq> CHR '','') s))) s else s))"

text \<open>The root directory is made when the pool has none; only then is the time read.\<close>

definition mount_root :: "('s, 'e) world \<Rightarrow> 32 word \<Rightarrow> 32 word \<Rightarrow> ('s, 'e, unit) fsm" where
  "mount_root W uid gid g =
     (let s = meta (jrnl g);
          reads = (if rados_exist (w_pool W) s INODE (uuid_to_string (w_pool W) get_root_ino) = Inr False
                   then Suc (time_reads g) else time_reads g)
      in case init_root (w_pool W) (w_ords W) (time_src g (time_reads g)) uid gid s of
           (r, s') \<Rightarrow> (r, g\<lparr>jrnl := (jrnl g)\<lparr>meta := s'\<rparr>, time_reads := reads\<rparr>))"

text \<open>
  \<^verbatim>\<open>init\<close>: the client gets its number from the manager (\<open>mount\<close>; \<open>raw\<close> is the uninitialised object), the
  root is made, and the index, which loads the root directory, the open files and the journal are new.
  The pools and the sources are those of the given state.
\<close>

definition fuse_init ::
  "('s, 'e) world \<Rightarrow> ('e \<Rightarrow> 64 word option \<times> 'e) \<Rightarrow> nmfs_client \<Rightarrow> 32 word \<Rightarrow> 32 word \<Rightarrow> ('s, 'e, unit) fsm" where
  "fuse_init W mount raw uid gid =
     bindE (\<lambda>g. (Inr (), g\<lparr>leases := Map.empty\<rparr>)) (\<lambda>_.
     bindE (remote_call (client_new mount raw)) (\<lambda>c.
     bindE (\<lambda>g. (Inr (), g\<lparr>this_client := c\<lparr>client_uid := uid, client_gid := gid\<rparr>\<rparr>)) (\<lambda>_.
     bindE (mount_root W uid gid) (\<lambda>_.
     bindE (\<lambda>g. (Inr (), g\<lparr>dentry_tables := Map.empty\<rparr>)) (\<lambda>_.
     bindE (directory_table_new W) (\<lambda>_ g.
       (Inr (), g\<lparr>fh_list := Map.empty, jrnl := journal_new (meta (jrnl g))\<rparr>)))))))"

section \<open>Attributes and links\<close>

definition fuse_getattr :: "('s, 'e) world \<Rightarrow> string \<Rightarrow> stat \<Rightarrow> 64 word option \<Rightarrow> ('s, 'e, int \<times> stat) fsm" where
  "fuse_getattr W path st fi =
     catch_entry (\<lambda>r. (r, st)) (bindE (target_inode W path fi) (\<lambda>i.
       by_loc i (0, st) (bindE (local_getattr i st) (\<lambda>s. returnE (0, s)))
         (retrying W fst i (remote_getattr W i st))))"

definition fuse_access :: "('s, 'e) world \<Rightarrow> string \<Rightarrow> 32 word \<Rightarrow> ('s, 'e, int) fsm" where
  "fuse_access W path amask =
     catch_entry id (bindE (path_traversal W path) (\<lambda>i.
       by_loc i 0 (bindE (local_access W i amask) (\<lambda>_. returnE 0)) (retrying W id i (remote_access W i amask))))"

definition fuse_symlink :: "('s, 'e) world \<Rightarrow> string \<Rightarrow> string \<Rightarrow> ('s, 'e, int) fsm" where
  "fuse_symlink W src dst =
     catch_entry id (bindE (liftE (\<lambda>_. get_parent_dir_path dst)) (\<lambda>dst_parent_name.
       bindE (path_traversal W dst_parent_name) (\<lambda>dst_parent_i.
       bindE (table_of W dst_parent_i) (\<lambda>t.
         by_table t 0 (local_symlink W dst_parent_i src dst)
           (bindE (table_inode W t dst_parent_name) (\<lambda>remote_i.
             retrying W id remote_i (remote_symlink W remote_i src dst)))))))"

definition fuse_readlink :: "('s, 'e) world \<Rightarrow> string \<Rightarrow> 64 word \<Rightarrow> ('s, 'e, int \<times> byte list) fsm" where
  "fuse_readlink W path sz =
     catch_entry (\<lambda>r. (r, [])) (bindE (path_traversal W path) (\<lambda>i.
       by_loc i (0, []) (local_readlink W i sz) (retrying W fst i (remote_readlink W i sz))))"

section \<open>Directories\<close>

definition fuse_opendir :: "('s, 'e) world \<Rightarrow> string \<Rightarrow> 64 word \<Rightarrow> ('s, 'e, int \<times> 64 word) fsm" where
  "fuse_opendir W path fh =
     catch_entry (\<lambda>r. (r, fh)) (bindE (path_traversal W path) (\<lambda>i.
       by_loc i (0, fh) (local_opendir W i fh) (retrying W fst i (remote_opendir W i fh))))"

text \<open>Without a handle there is nothing to release: the null pointer is followed after the traversal.\<close>

definition fuse_releasedir :: "('s, 'e) world \<Rightarrow> string \<Rightarrow> 64 word option \<Rightarrow> ('s, 'e, int) fsm" where
  "fuse_releasedir W path fi =
     (case fi of
        Some fh \<Rightarrow> bindE (open_inode fh) (\<lambda>_. delete_file_handler fh)
      | None \<Rightarrow> bindE (path_traversal W path) (\<lambda>_. throwE Undefined_behaviour))"

text \<open>The names given to the filler.  An attempt that a leader refuses passes on no names.\<close>

definition fuse_readdir :: "('s, 'e) world \<Rightarrow> string \<Rightarrow> 64 word option \<Rightarrow> ('s, 'e, int \<times> string list) fsm" where
  "fuse_readdir W path fi =
     bindE (target_inode W path fi) (\<lambda>i.
     bindE (table_of W i) (\<lambda>t.
       by_table t (0, []) (bindE (local_readdir W i) (\<lambda>ns. returnE (0, ns)))
         (bindE (liftE (\<lambda>_. get_filename_from_path path)) (\<lambda>name.
          bindE (table_inode W t name) (\<lambda>remote_i.
            retrying W fst remote_i (remote_readdir W remote_i))))))"

definition fuse_mkdir :: "('s, 'e) world \<Rightarrow> string \<Rightarrow> 32 word \<Rightarrow> ('s, 'e, int) fsm" where
  "fuse_mkdir W path mode =
     catch_entry id (bindE (liftE (\<lambda>_. get_filename_from_path path)) (\<lambda>target_name.
       bindE (parent_dir W path) (\<lambda>(parent_i, t).
         by_table t 0
           (bindE (local_mkdir W parent_i target_name mode) (\<lambda>(r, new_i, new_d).
            bindE (lease_dentry_table_mkdir W new_i new_d) (\<lambda>_. returnE 0)))
           (bindE (table_inode W t target_name) (\<lambda>remote_i.
            bindE (retrying W fst remote_i (remote_mkdir W remote_i target_name mode)) (\<lambda>(r, new).
              case new of
                None \<Rightarrow> throwE Undefined_behaviour
              | Some (new_i, new_d) \<Rightarrow> bindE (lease_dentry_table_mkdir W new_i new_d) (\<lambda>_. returnE 0)))))))"

text \<open>The two halves of \<^verbatim>\<open>rmdir\<close>: the directory's own table first, then its entry in the parent.\<close>

definition rmdir_top :: "('s, 'e) world \<Rightarrow> nat \<Rightarrow> nat \<Rightarrow> uuid \<Rightarrow> string \<Rightarrow> ('s, 'e, int) fsm" where
  "rmdir_top W target_t target_i target_ino target_name =
     by_table target_t 0 (local_rmdir_top W target_i target_ino)
       (bindE (table_inode W target_t target_name) (\<lambda>target_remote_i.
         retrying W id target_remote_i (remote_rmdir_top W target_remote_i target_ino)))"

definition rmdir_down :: "('s, 'e) world \<Rightarrow> nat \<Rightarrow> nat \<Rightarrow> uuid \<Rightarrow> string \<Rightarrow> ('s, 'e, int) fsm" where
  "rmdir_down W t parent_i target_ino target_name =
     by_table t 0 (bindE (local_rmdir_down W parent_i target_ino target_name) (\<lambda>_. returnE 0))
       (bindE (table_inode W t target_name) (\<lambda>parent_remote_i.
         retrying W id parent_remote_i (remote_rmdir_down W parent_remote_i target_ino target_name)))"

definition led :: "meta_location \<Rightarrow> bool" where
  "led l \<longleftrightarrow> l = LOCAL \<or> l = REMOTE"

definition fuse_rmdir :: "('s, 'e) world \<Rightarrow> string \<Rightarrow> ('s, 'e, int) fsm" where
  "fuse_rmdir W path =
     catch_entry id (bindE (liftE (\<lambda>_. get_filename_from_path path)) (\<lambda>target_name.
       bindE (parent_dir W path) (\<lambda>(parent_i, t).
       bindE (check_child_inode W t target_name) (\<lambda>target_ino.
       bindE (bindE (get_child_inode W t target_name nil_uuid) deref) (\<lambda>target_i.
       bindE (get_mode W target_i) (\<lambda>m.
         if \<not> S_ISDIR m then returnE (- ENOTDIR)
         else
           bindE (bindE (get_dentry_table W target_ino False) deref) (\<lambda>target_t.
           readE (\<lambda>g.
             if led (dt_loc (dtables g t)) \<and> led (dt_loc (dtables g target_t)) then
               bindE (rmdir_top W target_t target_i target_ino target_name) (\<lambda>r.
                 if r = 0 then rmdir_down W t parent_i target_ino target_name else returnE r)
             else returnE 0))))))))"

section \<open>Rename\<close>

definition rename_within :: "('s, 'e) world \<Rightarrow> string \<Rightarrow> string \<Rightarrow> string \<Rightarrow> 32 word \<Rightarrow> ('s, 'e, int) fsm" where
  "rename_within W parent_path old_path new_path flags =
     bindE (path_traversal W parent_path) (\<lambda>parent_i.
     bindE (table_of W parent_i) (\<lambda>t.
       by_table t 0 (local_rename_same_parent W parent_i old_path new_path flags)
         (bindE (table_inode W t new_path) (\<lambda>remote_i.
           retrying W id remote_i (remote_rename_same_parent W remote_i old_path new_path flags)))))"

definition rename_take ::
  "('s, 'e) world \<Rightarrow> nat \<Rightarrow> nat \<Rightarrow> string \<Rightarrow> 32 word \<Rightarrow> ('s, 'e, nat option) fsm" where
  "rename_take W t src_parent_i old_path flags =
     by_table t None
       (bindE (local_rename_not_same_parent_src W src_parent_i old_path flags) (\<lambda>y. returnE (Some y)))
       (bindE (table_inode W t old_path) (\<lambda>src_remote_i.
        bindE (retrying W fst src_remote_i (remote_rename_not_same_parent_src W src_remote_i old_path flags))
          (\<lambda>(r, y). returnE y)))"

definition rename_put ::
  "('s, 'e) world \<Rightarrow> nat \<Rightarrow> nat \<Rightarrow> nat option \<Rightarrow> uuid \<Rightarrow> string \<Rightarrow> 32 word \<Rightarrow> ('s, 'e, int) fsm" where
  "rename_put W t dst_parent_i target check_dst_ino new_path flags =
     by_table t 0
       (bindE (deref target) (\<lambda>y. local_rename_not_same_parent_dst W dst_parent_i y check_dst_ino new_path flags))
       (bindE (table_inode W t new_path) (\<lambda>dst_remote_i.
         retrying W id dst_remote_i
           (remote_rename_not_same_parent_dst W dst_remote_i target check_dst_ino new_path flags)))"

definition rename_across ::
  "('s, 'e) world \<Rightarrow> string \<Rightarrow> string \<Rightarrow> string \<Rightarrow> string \<Rightarrow> 32 word \<Rightarrow> ('s, 'e, int) fsm" where
  "rename_across W src_parent_path dst_parent_path old_path new_path flags =
     bindE (path_traversal W src_parent_path) (\<lambda>src_parent_i.
     bindE (table_of W src_parent_i) (\<lambda>src_t.
     bindE (path_traversal W dst_parent_path) (\<lambda>dst_parent_i.
     bindE (table_of W dst_parent_i) (\<lambda>dst_t.
     bindE (liftE (\<lambda>_. get_filename_from_path new_path)) (\<lambda>new_name.
     bindE (check_child_inode W dst_t new_name) (\<lambda>check_dst_ino.
     readE (\<lambda>g.
       if led (dt_loc (dtables g src_t)) \<and> led (dt_loc (dtables g dst_t)) then
         bindE (rename_take W src_t src_parent_i old_path flags) (\<lambda>target.
           rename_put W dst_t dst_parent_i target check_dst_ino new_path flags)
       else returnE 0)))))))"

definition is_runtime_error :: "exn \<Rightarrow> bool" where
  "is_runtime_error e =
     (case e of No_such_object _ \<Rightarrow> True | Runtime_error _ \<Rightarrow> True | Not_leader \<Rightarrow> True
      | No_entry \<Rightarrow> True | Permission_denied \<Rightarrow> True | _ \<Rightarrow> False)"

definition catch_runtime :: "('s, 'e, int) fsm \<Rightarrow> ('s, 'e, int) fsm" where
  "catch_runtime m g =
     (case m g of (Inl e, g') \<Rightarrow> if is_runtime_error e then (Inr (- ENOSYS), g') else (Inl e, g') | r \<Rightarrow> r)"

definition fuse_rename :: "('s, 'e) world \<Rightarrow> string \<Rightarrow> string \<Rightarrow> 32 word \<Rightarrow> ('s, 'e, int) fsm" where
  "fuse_rename W old_path new_path flags =
     (if old_path = new_path then returnE (- EEXIST)
      else catch_runtime (catch_entry id (
        bindE (liftE (\<lambda>_. get_parent_dir_path old_path)) (\<lambda>src_parent_path.
        bindE (liftE (\<lambda>_. get_parent_dir_path new_path)) (\<lambda>dst_parent_path.
          if src_parent_path = dst_parent_path then rename_within W src_parent_path old_path new_path flags
          else rename_across W src_parent_path dst_parent_path old_path new_path flags)))))"

section \<open>Files\<close>

definition fuse_open :: "('s, 'e) world \<Rightarrow> string \<Rightarrow> 32 word \<Rightarrow> 64 word \<Rightarrow> ('s, 'e, int \<times> 64 word) fsm" where
  "fuse_open W path flags fh =
     (if flags AND O_CLOEXEC \<noteq> 0 then throwE (Runtime_error ''O_CLOEXEC is ON'')
      else if flags AND O_PATH \<noteq> 0 then throwE (Runtime_error ''O_PATH is ON'')
      else catch_entry (\<lambda>r. (r, fh)) (bindE (path_traversal W path) (\<lambda>i.
        by_loc i (0, fh) (local_open W i flags fh) (retrying W fst i (remote_open W i flags fh)))))"

definition fuse_release :: "('s, 'e) world \<Rightarrow> string \<Rightarrow> 64 word option \<Rightarrow> ('s, 'e, int) fsm" where
  "fuse_release W path fi =
     (case fi of
        Some fh \<Rightarrow> bindE (open_inode fh) (\<lambda>_. delete_file_handler fh)
      | None \<Rightarrow> bindE (path_traversal W path) (\<lambda>_. throwE Undefined_behaviour))"

definition fuse_create :: "('s, 'e) world \<Rightarrow> string \<Rightarrow> 32 word \<Rightarrow> 64 word \<Rightarrow> ('s, 'e, int \<times> 64 word) fsm" where
  "fuse_create W path mode fh =
     (if S_ISDIR mode then returnE (- EISDIR, fh)
      else catch_entry (\<lambda>r. (r, fh)) (bindE (liftE (\<lambda>_. get_filename_from_path path)) (\<lambda>target_name.
        bindE (parent_dir W path) (\<lambda>(parent_i, t).
          by_table t (0, fh) (bindE (local_create W parent_i target_name mode) (\<lambda>a. returnE (0, a)))
            (bindE (table_inode W t target_name) (\<lambda>remote_i.
              retrying W fst remote_i (remote_create W remote_i target_name mode fh)))))))"

definition fuse_unlink :: "('s, 'e) world \<Rightarrow> string \<Rightarrow> ('s, 'e, int) fsm" where
  "fuse_unlink W path =
     catch_entry id (bindE (liftE (\<lambda>_. get_filename_from_path path)) (\<lambda>target_name.
       bindE (parent_dir W path) (\<lambda>(parent_i, t).
         by_table t 0 (bindE (local_unlink W parent_i target_name) (\<lambda>_. returnE 0))
           (bindE (table_inode W t target_name) (\<lambda>remote_i.
             retrying W id remote_i (remote_unlink W remote_i target_name))))))"

text \<open>The data pool is read directly, whoever leads the file.  The end of the data is not an error.\<close>

definition fuse_read :: "('s, 'e) world \<Rightarrow> string \<Rightarrow> nat \<Rightarrow> nat \<Rightarrow> 64 word option \<Rightarrow> ('s, 'e, int \<times> byte list) fsm" where
  "fuse_read W path len offset fi g =
     (case catch_entry (\<lambda>r. (r, [])) (bindE (target_inode W path fi) (\<lambda>i.
             bindE (local_read W i len offset) (\<lambda>bs. returnE (as_int (int (length bs)), bs)))) g of
        (Inl (No_such_object bs), g') \<Rightarrow> (Inr (as_int (int (length bs)), bs), g')
      | r \<Rightarrow> r)"

text \<open>\<open>fi\<close> is the handle and its flags; both branches read the flags.\<close>

definition fuse_write ::
  "('s, 'e) world \<Rightarrow> string \<Rightarrow> byte list \<Rightarrow> 64 word \<Rightarrow> 64 word \<Rightarrow> (64 word \<times> 32 word) option \<Rightarrow> ('s, 'e, int) fsm" where
  "fuse_write W path buffer sz offset fi =
     catch_entry id (bindE (target_inode W path (map_option fst fi)) (\<lambda>i.
     bindE (by_loc i 0
        (case fi of None \<Rightarrow> throwE Undefined_behaviour
         | Some (fh, flags) \<Rightarrow> bindE (local_write W i buffer sz offset flags) (\<lambda>n. returnE (int n)))
        (case fi of None \<Rightarrow> throwE Undefined_behaviour
         | Some (fh, flags) \<Rightarrow> retrying W id i (remote_write W i buffer sz offset flags)))
       (\<lambda>written_len. returnE (as_int written_len))))"

definition fuse_chmod :: "('s, 'e) world \<Rightarrow> string \<Rightarrow> 32 word \<Rightarrow> 64 word option \<Rightarrow> ('s, 'e, int) fsm" where
  "fuse_chmod W path mode fi =
     catch_entry id (bindE (target_inode W path fi) (\<lambda>i.
       by_loc i 0 (bindE (local_chmod W i mode) (\<lambda>_. returnE 0)) (retrying W id i (remote_chmod W i mode))))"

text \<open>The result of the remote call is dropped here and in \<^verbatim>\<open>utimens\<close>.\<close>

definition fuse_chown :: "('s, 'e) world \<Rightarrow> string \<Rightarrow> 32 word \<Rightarrow> 32 word \<Rightarrow> 64 word option \<Rightarrow> ('s, 'e, int) fsm" where
  "fuse_chown W path uid gid fi =
     catch_entry id (bindE (target_inode W path fi) (\<lambda>i.
       bindE (by_loc i 0 (bindE (local_chown W i uid gid) (\<lambda>_. returnE 0)) (retrying W id i (remote_chown W i uid gid)))
         (\<lambda>_. returnE 0)))"

definition fuse_utimens :: "('s, 'e) world \<Rightarrow> string \<Rightarrow> timespec \<Rightarrow> timespec \<Rightarrow> 64 word option \<Rightarrow> ('s, 'e, int) fsm" where
  "fuse_utimens W path tv0 tv1 fi =
     catch_entry id (bindE (target_inode W path fi) (\<lambda>i.
       bindE (by_loc i 0 (bindE (local_utimens W i tv0 tv1) (\<lambda>_. returnE 0)) (retrying W id i (remote_utimens W i tv0 tv1)))
         (\<lambda>_. returnE 0)))"

definition fuse_truncate :: "('s, 'e) world \<Rightarrow> string \<Rightarrow> 64 word \<Rightarrow> 64 word option \<Rightarrow> ('s, 'e, int) fsm" where
  "fuse_truncate W path offset fi =
     catch_entry id (bindE (target_inode W path fi) (\<lambda>i.
       by_loc i 0 (local_truncate W i offset) (retrying W id i (remote_truncate W i offset))))"

end
