(* ===== verification/Rpc_Refine.thy ===== *)
theory Rpc_Refine
  imports Fuse_Ops
begin

text \<open>
  What the remote procedures show their callers: a client that lost the lease refuses, a leader does
  what its own local operation does, and a caller that follows the lease gets the result of the client
  that leads the directory.
\<close>

section \<open>Refusal\<close>

text \<open>The directory a request is about, and whether the paths in it can be split.\<close>

fun request_dir :: "rpc_request \<Rightarrow> uuid" where
  "request_dir (Rpc_check_child_inode w n) = wire_to_ino w"
| "request_dir (Rpc_get_mode w n) = wire_to_ino w"
| "request_dir (Rpc_permission_check w n k b) = wire_to_ino w"
| "request_dir (Rpc_getattr w n b) = wire_to_ino w"
| "request_dir (Rpc_access w n k b) = wire_to_ino w"
| "request_dir (Rpc_opendir w n b) = wire_to_ino w"
| "request_dir (Rpc_readdir w) = wire_to_ino w"
| "request_dir (Rpc_mkdir w n m u g) = wire_to_ino w"
| "request_dir (Rpc_rmdir_top w t) = wire_to_ino w"
| "request_dir (Rpc_rmdir_down w n t) = wire_to_ino w"
| "request_dir (Rpc_symlink w n src dst) = wire_to_ino w"
| "request_dir (Rpc_readlink w n sz) = wire_to_ino w"
| "request_dir (Rpc_rename_same_parent w a b f) = wire_to_ino w"
| "request_dir (Rpc_rename_not_same_parent_src w a f) = wire_to_ino w"
| "request_dir (Rpc_rename_not_same_parent_dst w m u b f) = wire_to_ino w"
| "request_dir (Rpc_open w n f) = wire_to_ino w"
| "request_dir (Rpc_create w n m) = wire_to_ino w"
| "request_dir (Rpc_unlink w n) = wire_to_ino w"
| "request_dir (Rpc_write w n sz off f) = wire_to_ino w"
| "request_dir (Rpc_chmod w n m b) = wire_to_ino w"
| "request_dir (Rpc_chown w n u g b) = wire_to_ino w"
| "request_dir (Rpc_utimens w n a m b) = wire_to_ino w"
| "request_dir (Rpc_truncate w n off b) = wire_to_ino w"

fun paths_split :: "rpc_request \<Rightarrow> bool" where
  "paths_split (Rpc_rename_same_parent w a b f) \<longleftrightarrow>
     (\<exists>m n. get_filename_from_path a = Inr m \<and> get_filename_from_path b = Inr n)"
| "paths_split (Rpc_rename_not_same_parent_src w a f) \<longleftrightarrow> (\<exists>m. get_filename_from_path a = Inr m)"
| "paths_split (Rpc_rename_not_same_parent_dst w m u b f) \<longleftrightarrow> (\<exists>n. get_filename_from_path b = Inr n)"
| "paths_split _ \<longleftrightarrow> True"

lemma with_table_refused:
  "served (wire_to_ino w) g = None \<Longrightarrow> with_table W w k g = (Inr (answer (- ENOTLEADER)), dropped (wire_to_ino w) g)"
  by (simp add: with_table_def get_dentry_table_miss)

lemma with_table_served:
  "served (wire_to_ino w) g = Some t \<Longrightarrow> with_table W w k g = k (Some t) (g\<lparr>clock_reads := Suc (clock_reads g)\<rparr>)"
  by (simp add: with_table_def get_dentry_table_hit)

lemmas rpc_defs =
  rpc_check_child_inode_def rpc_get_mode_def rpc_permission_check_def rpc_getattr_def rpc_access_def rpc_opendir_def
  rpc_readdir_def rpc_mkdir_def rpc_rmdir_top_def rpc_rmdir_down_def rpc_symlink_def rpc_readlink_def
  rpc_rename_same_parent_def rpc_rename_not_same_parent_src_def rpc_rename_not_same_parent_dst_def rpc_open_def
  rpc_create_def rpc_unlink_def rpc_write_def rpc_chmod_def rpc_chown_def rpc_utimens_def rpc_truncate_def

lemma rpc_serve_refused:
  assumes "served (request_dir q) g = None" and "paths_split q"
  shows "rpc_serve W q g =
    (Inr (if \<exists>w. q = Rpc_readdir w then default_respond else answer (- ENOTLEADER)), dropped (request_dir q) g)"
  using assms by (cases q) (auto simp: rpc_defs with_table_refused get_dentry_table_miss)

section \<open>A leader does what its local operation does\<close>

text \<open>The table \<open>t\<close> of directory \<open>w\<close> is served, and \<open>p\<close> is the directory's inode.\<close>

definition leader_of :: "('s, 'e) fs \<Rightarrow> wire_ino \<Rightarrow> nat \<Rightarrow> nat \<Rightarrow> bool" where
  "leader_of g w t p \<longleftrightarrow> served (wire_to_ino w) g = Some t \<and> dt_loc (dtables g t) = LOCAL \<and>
     this_dir_inode (dtables g t) = Some p \<and> ino_of g p = wire_to_ino w"

lemma deref_Some [simp]: "deref (Some x) = returnE x"
  by (simp add: deref_def)

lemma bindE_returnE [simp]: "bindE (returnE x) f = f x"
  by (rule ext) simp

lemma bindE_if: "bindE (if c then m else m') f = (if c then bindE m f else bindE m' f)"
  by simp

lemma bindE_readE: "bindE (readE f) k = readE (\<lambda>g. bindE (f g) k)"
  by (rule ext) (simp add: bindE_def)

lemma parent_of_local:
  "dt_loc (dtables g t) = LOCAL \<Longrightarrow> this_dir_inode (dtables g t) = Some p \<Longrightarrow> parent_of W t g = (Inr p, g)"
  by (simp add: parent_of_def get_this_dir_inode_def)

lemma leader_ofD:
  assumes "leader_of g w t p"
  shows "served (wire_to_ino w) g = Some t" and "parent_of W t (g\<lparr>clock_reads := k\<rparr>) = (Inr p, g\<lparr>clock_reads := k\<rparr>)"
    and "table_of W p g = (Inr t, g\<lparr>clock_reads := Suc (clock_reads g)\<rparr>)" and "ino_of g p = wire_to_ino w"
  using assms by (simp_all add: leader_of_def parent_of_local table_of_served)

lemma returnE_Pair: "returnE x = Pair (Inr x)"
  by (rule ext) simp

lemma bindE_Pair: "bindE (Pair (Inr x)) f = f x"
  by (rule ext) (simp add: bindE_def)

lemmas as_local_simps = bindE_Pair bindE_assoc bindE_readE bindE_if Let_def returnE_Pair

lemma unlink_as_local:
  assumes "leader_of g w t p"
  shows "rpc_unlink W w n g = bindE (local_unlink W p n) (\<lambda>_. returnE (answer 0)) g"
  unfolding rpc_unlink_def local_unlink_def with_table_served [OF leader_ofD(1) [OF assms]] target_of_def fetch_target_def
  using leader_ofD(2,3) [OF assms] by (simp add: as_local_simps cong: if_cong)

lemma rmdir_top_as_local:
  assumes "leader_of g w t p"
  shows "rpc_rmdir_top W w w g = bindE (local_rmdir_top W i (wire_to_ino w)) (\<lambda>r. returnE (answer r)) g"
  unfolding rpc_rmdir_top_def local_rmdir_top_def with_table_served [OF leader_ofD(1) [OF assms]]
  using get_dentry_table_hit [OF leader_ofD(1) [OF assms]] by (simp add: as_local_simps cong: if_cong)

lemma rmdir_down_as_local:
  assumes "leader_of g w t p"
  shows "rpc_rmdir_down W w n u g = bindE (local_rmdir_down W p (wire_to_ino u) n) (\<lambda>r. returnE (answer r)) g"
  unfolding rpc_rmdir_down_def local_rmdir_down_def with_table_served [OF leader_ofD(1) [OF assms]]
  using get_dentry_table_hit [OF leader_ofD(1) [OF assms]] leader_ofD(2,4) [OF assms]
  by (simp add: as_local_simps)

lemma change_as_local:
  assumes "leader_of g w t p"
  defines "g1 \<equiv> g\<lparr>clock_reads := Suc (clock_reads g)\<rparr>"
  shows "rpc_chmod W w n mode b g = bindE (target_of W t n b) (\<lambda>i. bindE (local_chmod W i mode) (\<lambda>_. returnE (answer 0))) g1"
    and "rpc_chown W w n u v b g = bindE (target_of W t n b) (\<lambda>i. bindE (local_chown W i u v) (\<lambda>_. returnE (answer 0))) g1"
    and "rpc_utimens W w n tv0 tv1 b g =
      bindE (target_of W t n b) (\<lambda>i. bindE (local_utimens W i tv0 tv1) (\<lambda>_. returnE (answer 0))) g1"
  unfolding rpc_chmod_def rpc_chown_def rpc_utimens_def local_chmod_def local_chown_def local_utimens_def g1_def
    with_table_served [OF leader_ofD(1) [OF assms(1)]] by (simp_all add: as_local_simps cong: if_cong)

lemma symlink_as_local:
  assumes "leader_of g w t p" and "c_str src = src"
  shows "rpc_symlink W w f src dst g = bindE (local_symlink W p src dst) (\<lambda>r. returnE (answer r)) g"
proof -
  let ?g = "g\<lparr>clock_reads := Suc (clock_reads g)\<rparr>"
  have loc: "dt_loc (dtables ?g t) = LOCAL" using assms(1) by (simp add: leader_of_def)
  show ?thesis
  proof (cases "get_filename_from_path dst")
    case (Inl e)
    then show ?thesis using leader_ofD(3) [OF assms(1)]
      by (simp add: rpc_symlink_def local_symlink_def with_table_served [OF leader_ofD(1) [OF assms(1)]] bindE_def)
  next
    case (Inr n)
    have "snd (check_child_inode W t n ?g) = ?g" using loc by (simp add: check_child_inode_def Let_def split: option.split)
    then obtain r where r: "check_child_inode W t n ?g = (r, ?g)" by (metis prod.collapse)
    have i: "ino_of (?g\<lparr>time_reads := k, uuid_reads := l\<rparr>) p = wire_to_ino w" for k l
      using leader_ofD(4) [OF assms(1)] by (simp add: ino_of_def inode_at_def)
    show ?thesis
      using Inr r leader_ofD(2,3) [OF assms(1)] i assms(2)
      by (cases r) (simp_all add: rpc_symlink_def local_symlink_def with_table_served [OF leader_ofD(1) [OF assms(1)]]
          as_local_simps get_time_def alloc_new_ino_def ino_of_def inode_at_def cong: if_cong)
  qed
qed

section \<open>Following the lease\<close>

text \<open>One refusal after which the caller found a leader again.\<close>

definition redirect ::
  "('s, 'e) world \<Rightarrow> ('a \<Rightarrow> int) \<Rightarrow> nat \<Rightarrow> ('s, 'e, 'a) fsm \<Rightarrow> ('s, 'e) fs \<Rightarrow> ('s, 'e) fs option" where
  "redirect W code x op g =
     (case op g of
        (Inl e, g1) \<Rightarrow> None
      | (Inr a, g1) \<Rightarrow>
          if code a = - ENOTLEADER then
            (case find_remote_dentry_table_again W x g1 of (Inl e, g2) \<Rightarrow> None | (Inr _, g2) \<Rightarrow> Some g2)
          else None)"

lemma retry_redirect: "redirect W code x op g = Some g' \<Longrightarrow> retry W code x op g = retry W code x op g'"
  by (subst retry.simps) (auto simp: redirect_def split: prod.splits sum.splits if_splits)

lemma retry_answer:
  "op g = (Inr a, g') \<Longrightarrow> code a \<noteq> - ENOTLEADER \<Longrightarrow> code a \<noteq> - ENEEDRECOV \<Longrightarrow> retry W code x op g = Some (Inr a, g')"
  by (subst retry.simps) simp

lemmas retry_induct = retry.raw_induct [where xa = "((((W, code), x), op), g)" for W code x op g, unfolded prod.case]

section \<open>A caller and a leader\<close>

text \<open>The laws of the update of \<open>env\<close>, for an environment that is a state itself.\<close>

lemma env_update [simp]:
  "data_pool (g\<lparr>env := e\<rparr>) = data_pool g" "inodes (g\<lparr>env := e\<rparr>) = inodes g" "dtables (g\<lparr>env := e\<rparr>) = dtables g"
  "jrnl (g\<lparr>env := e\<rparr>) = jrnl g" "env (g\<lparr>env := e\<rparr>) = e" "env (g\<lparr>data_pool := d\<rparr>) = env g"
  "data_pool (g\<lparr>data_pool := d\<rparr>) = d"
  by simp_all

text \<open>
  The channel from the client \<open>W\<close> to the client \<open>W'\<close>, whose state is the caller's environment: the
  service answers, and an exception it does not catch is a failed call.
\<close>

definition leader_channel :: "('s, ('r, 'f) fs) world \<Rightarrow> ('r, 'f) world \<Rightarrow> string \<Rightarrow> bool" where
  "leader_channel W W' a \<longleftrightarrow>
     (\<forall>q e. w_rpc W a q e = (case rpc_serve W' q e of (Inr out, e') \<Rightarrow> (Some out, e') | (Inl _, e') \<Rightarrow> (None, e')))"

lemma channel_answer:
  assumes "leader_channel W W' a" and "rpc_serve W' q (env g) = (Inr out, e)"
  shows "rpc_call W a q g = (Inr (Some out), g\<lparr>env := e\<rparr>)"
  using assms by (simp add: leader_channel_def rpc_call_def)

lemma channel_failure:
  assumes "leader_channel W W' a" and "rpc_serve W' q (env g) = (Inl x, e)"
  shows "rpc_call W a q g = (Inr None, g\<lparr>env := e\<rparr>)"
  using assms by (simp add: leader_channel_def rpc_call_def)

lemma retrying_answer:
  assumes "op g = (Inr a, g')" and "code a \<noteq> - ENOTLEADER" and "code a \<noteq> - ENEEDRECOV"
  shows "retrying W code x op g = (Inr a, g')"
  using retry_answer [where op = op and code = code and g = g and a = a and g' = g' and W = W and x = x] assms by (simp add: retrying_def)

lemma retrying_failure:
  assumes "op g = (Inr a, g')" and "code a = - ENEEDRECOV"
  shows "retrying W code x op g = (Inl (Runtime_error ''Need Recovery of remote dentry_table''), g')"
proof -
  have "retry W code x op g = Some (Inl (Runtime_error ''Need Recovery of remote dentry_table''), g')"
    using assms by (subst retry.simps) (simp add: ENOTLEADER_def ENEEDRECOV_def)
  then show ?thesis by (simp add: retrying_def)
qed

lemma leads_leader_of:
  assumes "leads e p t base" and "this_dir_inode (dtables e t) = Some p"
  shows "leader_of e (ino_to_wire (ino_of e p)) t p"
proof -
  have "dt_loc (dtables e t) = LOCAL" using assms(1) by (simp add: leads_def in_step_def coherent_def)
  moreover have "served (ino_of e p) e = Some t" using assms(1) unfolding leads_def by blast
  ultimately show ?thesis using assms(2) by (simp add: leader_of_def)
qed

lemma remote_unlink_ok:
  assumes ch: "leader_channel W W' (r_leader_ip r)" and x: "inodes g x = Remote i r"
    and l: "leader_of (env g) (ino_to_wire (r_dentry_table_ino r)) t p" and u: "local_unlink W' p n (env g) = (Inr (), e)"
  shows "remote_unlink W x n g = (Inr 0, g\<lparr>env := e\<rparr>)"
proof -
  have "rpc_unlink W' (ino_to_wire (r_dentry_table_ino r)) n (env g) = (Inr (answer 0), e)"
    using unlink_as_local [OF l, of W' n] u by simp
  then show ?thesis
    using channel_answer [OF ch, of "Rpc_unlink (ino_to_wire (r_dentry_table_ino r)) n" g] x
    by (simp add: remote_unlink_def as_remote_def rc_unlink_def common_call_def table_wire_def)
qed

text \<open>What \<^verbatim>\<open>rpc_write\<close> does at the leader.\<close>

lemma rpc_write_ok:
  assumes s: "in_step e t base" "served (wire_to_ino w) e = Some t" and y: "child_inodes (dtables e t) n = Some y"
    and p: "p_ino (inode_at e y) = dir_ino (dtables e t)"
    and off: "off = (if flags AND O_APPEND \<noteq> 0 then i_size (core (inode_at e y)) else offset0)"
  shows "yields (rpc_write W w n sz offset0 flags) e (\<lambda>out e'. out = (answer 0)\<lparr>rsp_offset := off, rsp_size := sz\<rparr> \<and>
    in_step e' t base \<and> listing e' t = listing e t \<and>
    i_size (core (inode_at e' y)) = max (i_size (core (inode_at e y))) (off + sz))"
proof -
  let ?e1 = "e\<lparr>clock_reads := Suc (clock_reads e)\<rparr>"
  let ?e2 = "?e1\<lparr>inodes := (inodes e)(y := map_base (\<lambda>i. i\<lparr>loc := LOCAL\<rparr>) (inodes e y))\<rparr>"
  have q: "quiet e ?e2" by (simp add: quiet_def ino_of_def inode_at_def)
  have loc: "dt_loc (dtables ?e1 t) = LOCAL" using s(1) by (simp add: in_step_def coherent_def)
  have tgt: "target_of W t n False ?e1 = (Inr y, ?e2)"
    using loc y by (simp add: target_of_def fetch_target_def get_child_inode_def update_inode_def bindE_def Let_def)
  have at: "core (inode_at ?e2 y) = core (inode_at e y)" "p_ino (inode_at ?e2 y) = dir_ino (dtables ?e2 t)"
    using p by (simp_all add: inode_at_def)
  from grow_ok [OF quiet_in_step [OF q s(1)] at(2), of "off + sz" W] obtain e' where
    e': "(if i_size (core (inode_at ?e2 y)) < off + sz then
        bindE (update_core y (\<lambda>c. c\<lparr>i_size := off + sz\<rparr>)) (\<lambda>_. j_chreg W y) else returnE ()) ?e2 = (Inr (), e')"
      "in_step e' t base" "listing e' t = listing ?e2 t"
      "core (inode_at e' y) = (core (inode_at ?e2 y))\<lparr>i_size := max (i_size (core (inode_at ?e2 y))) (off + sz)\<rparr>"
    unfolding yields_def readE_apply by auto
  let ?m = "if i_size (core (inode_at e y)) < off + sz then
        bindE (update_core y (\<lambda>c. c\<lparr>i_size := off + sz\<rparr>)) (\<lambda>_. j_chreg W y) else returnE ()"
  have "rpc_write W w n sz offset0 flags e = (Inr ((answer 0)\<lparr>rsp_offset := off, rsp_size := sz\<rparr>), e')"
    unfolding rpc_write_def with_table_served [OF s(2)] deref_Some bindE_returnE bindE_Inr [of "target_of W t n False", OF tgt]
      readE_apply Let_def at(1) off [symmetric] by (simp add: bindE_Inr [where m = ?m, OF e'(1) [unfolded at(1)]])
  then show ?thesis
    by (rule yieldsI) (use e'(2-4) quiet_listing(1) [OF q in_step_coherent [OF s(1)]] at(1) in simp)
qed

lemma remote_write_ok:
  assumes L: "librados_healthy (w_pool W) objs" and ch: "leader_channel W W' (r_leader_ip r)" and x: "inodes g x = Remote i r"
    and e: "in_step (env g) t base" "served (r_dentry_table_ino r) (env g) = Some t"
    and y: "child_inodes (dtables (env g) t) (r_file_name r) = Some y" "p_ino (inode_at (env g) y) = dir_ino (dtables (env g) t)"
    and key: "key = uuid_to_string (w_pool W) (i_ino (core i))" and c: "stores objs (data_pool g) DATA key c"
    and off: "off = (if flags AND O_APPEND \<noteq> 0 then i_size (core (inode_at (env g) y)) else offset0)"
    and len: "unat sz \<le> length buffer" and fits: "unat off + unat sz \<le> MAX_OFFSET"
  shows "yields (remote_write W x buffer sz offset0 flags) g (\<lambda>n g'. n = int (unat sz) \<and>
    stores objs (data_pool g') DATA key (write_spec c (unat off) (take (unat sz) buffer)) \<and>
    frame objs DATA key (data_pool g) (data_pool g') \<and> in_step (env g') t base \<and> listing (env g') t = listing (env g) t \<and>
    i_size (core (inode_at (env g') y)) = max (i_size (core (inode_at (env g) y))) (off + sz))"
proof -
  let ?w = "ino_to_wire (r_dentry_table_ino r)"
  let ?out = "(answer 0)\<lparr>rsp_offset := off, rsp_size := sz\<rparr>"
  have "served (wire_to_ino ?w) (env g) = Some t" using e(2) by simp
  from rpc_write_ok [OF e(1) this y off, of W' sz] obtain e' where
    e': "rpc_write W' ?w (r_file_name r) sz offset0 flags (env g) = (Inr ?out, e')" "in_step e' t base"
      "listing e' t = listing (env g) t" "i_size (core (inode_at e' y)) = max (i_size (core (inode_at (env g) y))) (off + sz)"
    by (auto simp: yields_def)
  from librados_healthy.rados_write_ok [OF L c len fits] obtain dp where
    dp: "rados_write (w_pool W) DATA key buffer (unat sz) (unat off) (data_pool g) = (Inr (unat sz), dp)"
      "stores objs dp DATA key (write_spec c (unat off) (take (unat sz) buffer))" "frame objs DATA key (data_pool g) dp" by blast
  have "rpc_call W (r_leader_ip r) (Rpc_write ?w (r_file_name r) sz offset0 flags) g = (Inr (Some ?out), g\<lparr>env := e'\<rparr>)"
    by (rule channel_answer [OF ch]) (simp add: e'(1))
  moreover have dc: "data_call (rados_write (w_pool W) DATA (uuid_to_string (w_pool W) (i_ino (core i))) buffer (unat sz) (unat off))
      (g\<lparr>env := e'\<rparr>) = (Inr (unat sz), g\<lparr>env := e', data_pool := dp\<rparr>)"
    using dp(1) by (simp add: data_call_def key)
  ultimately have "remote_write W x buffer sz offset0 flags g = (Inr (int (unat sz)), g\<lparr>env := e', data_pool := dp\<rparr>)"
    using x dc by (simp add: remote_write_def as_remote_def rc_write_def table_wire_def answer_def)
  then show ?thesis by (rule yieldsI) (use dp(2,3) e'(2-4) in simp)
qed

text \<open>A caller whose environment is the example leader, with one remote inode.\<close>

definition caller_world :: "(pool, (pool, lease_table) fs) world" where
  "caller_world =
     \<lparr>w_pool = mem_librados, w_ords = mem_ords, w_self = ''b'', w_raw = null_inode, w_manager = (\<lambda>_ e. (None, e)),
      w_rpc = (\<lambda>_ q e. case rpc_serve mem_world q e of (Inr out, e') \<Rightarrow> (Some out, e') | (Inl _, e') \<Rightarrow> (None, e'))\<rparr>"

definition caller_with :: "'e \<Rightarrow> inode \<Rightarrow> remote_inode \<Rightarrow> (pool, 'e) fs" where
  "caller_with e i r =
     \<lparr>inodes = (\<lambda>_. Remote i r), inode_next = 1, dtables = (\<lambda>_. empty_table nil_uuid UNKNOWN), dtable_next = 0,
      dentry_tables = Map.empty, leases = Map.empty, jrnl = journal_new Map.empty, data_pool = Map.empty,
      fh_list = Map.empty, this_client = \<lparr>client_id = 2, client_uid = 0, client_gid = 0\<rparr>, env = e,
      clock_src = (\<lambda>_. 1), clock_reads = 0, time_src = (\<lambda>_. zero_time), time_reads = 0,
      uuid_src = (\<lambda>n. splice_prefix_and_postfix 2 (of_nat n)), uuid_reads = 0, addr_src = of_nat, addr_reads = 1\<rparr>"

definition caller_fs :: "inode \<Rightarrow> remote_inode \<Rightarrow> (pool, (pool, lease_table) fs) fs" where
  "caller_fs = caller_with tree_fs"

definition root_remote :: "string \<Rightarrow> bool \<Rightarrow> remote_inode" where
  "root_remote n b = \<lparr>r_leader_ip = ''a'', r_dentry_table_ino = get_root_ino, r_target_is_parent = b, r_file_name = n\<rparr>"

lemma caller_channel: "leader_channel caller_world mem_world a"
  by (simp add: leader_channel_def caller_world_def)

lemma caller_simps:
  "inodes (caller_fs i r) x = Remote i r" "env (caller_fs i r) = tree_fs" "data_pool (caller_fs i r) = Map.empty"
  "w_pool caller_world = mem_librados" "w_pool mem_world = mem_librados"
  by (simp_all add: caller_fs_def caller_with_def caller_world_def mem_world_def)

lemma tree_fs_led:
  "this_dir_inode (dtables tree_fs 0) = Some 0" "served get_root_ino tree_fs = Some 0" "dt_loc (dtables tree_fs 0) = LOCAL"
  "listing tree_fs 0 = [''f'' \<mapsto> splice_prefix_and_postfix 1 7]" "in_step tree_fs 0 [''f'' \<mapsto> splice_prefix_and_postfix 1 7]"
proof -
  show "listing tree_fs 0 = [''f'' \<mapsto> splice_prefix_and_postfix 1 7]"
    using tree_fs_simps(6) tree_fs_file(1) by (auto simp: listing_def fun_eq_iff)
  show "served get_root_ino tree_fs = Some 0" using leads_tree_fs by (simp add: leads_def tree_fs_file(3))
  show "in_step tree_fs 0 [''f'' \<mapsto> splice_prefix_and_postfix 1 7]" using leads_tree_fs by (simp add: leads_def)
qed (simp_all add: tree_fs_def)

lemma file_inode_simps: "i_nlink (core file_inode) = 1" "i_size (core file_inode) = 0" "p_ino file_inode = get_root_ino"
  by (simp_all add: file_inode_def inode_new_def new_core_def)

section \<open>A change of leader\<close>

text \<open>
  The parties of a change of leader: the client \<open>Wa\<close> at address \<open>a\<close>, the client \<open>Wb\<close> at address \<open>b\<close> and the
  manager, whose three states are the caller's environment.
\<close>

definition serve_answer :: "('r, 'f) world \<Rightarrow> rpc_request \<Rightarrow> ('r, 'f) fs \<Rightarrow> respond option \<times> ('r, 'f) fs" where
  "serve_answer W' q e = (case rpc_serve W' q e of (Inr out, e') \<Rightarrow> (Some out, e') | (Inl _, e') \<Rightarrow> (None, e'))"

definition parties ::
  "('s, ('r, 'f) fs \<times> ('r, 'f) fs \<times> lease_table) world \<Rightarrow> ('r, 'f) world \<Rightarrow> string \<Rightarrow> ('r, 'f) world \<Rightarrow> string \<Rightarrow>
     (uuid \<Rightarrow> string) \<Rightarrow> int \<Rightarrow> int \<Rightarrow> bool" where
  "parties W Wa a Wb b ts now1 now2 \<longleftrightarrow>
     (\<forall>q p ea eb m. w_rpc W a q (ea, eb, m) = map_prod id (\<lambda>e. (e, eb, m)) (serve_answer Wa q ea) \<and>
        w_rpc W b q (ea, eb, m) = map_prod id (\<lambda>e. (ea, e, m)) (serve_answer Wb q eb) \<and>
        w_manager W p (ea, eb, m) = map_prod Some (\<lambda>m. (ea, eb, m)) (lease_impl_acquire ts now1 now2 p m))"

lemma served_env [simp]: "served d (g\<lparr>env := e\<rparr>) = served d g"
  by (simp add: served_def split: option.split)

lemma leases_env [simp]: "leases (g\<lparr>env := e\<rparr>) = leases g" "dtable_next (g\<lparr>env := e\<rparr>) = dtable_next g" "dentry_tables (g\<lparr>env := e\<rparr>) = dentry_tables g"
  by simp_all

lemma lease_dentry_table_remote_eq:
  assumes "lc_acquire W ino [] g = (Inr (-1, a), g1)" and "dentry_tables g ino = None"
  shows "lease_dentry_table W ino g = (Inr (Some (dtable_next g)),
    g1\<lparr>dtables := (dtables g)(dtable_next g := (empty_table ino REMOTE)\<lparr>leader_ip := a\<rparr>), dtable_next := Suc (dtable_next g),
       dentry_tables := (dentry_tables g)(ino \<mapsto> dtable_next g)\<rparr>)"
proof -
  from lc_acquire_frame [OF assms(1)] obtain l e k where
    g1: "g1 = g\<lparr>clock_reads := k, leases := l, env := e\<rparr>" by blast
  show ?thesis using assms
    by (simp add: lease_dentry_table_def set_leader_ip_def update_dtable_def add_dentry_table_def
        dentry_table_new_def new_dtable_def g1)
qed

text \<open>A manager that knows another holder refuses and names it.\<close>

lemma acquire_refused:
  assumes P: "parties W Wa a Wb b ts now1 now2" and e: "env g = (ea, eb, m)" and d: "m (ts d) = Some \<lparr>due = D, addr = b\<rparr>" "now1 < D"
    "b \<noteq> w_self W" and not_mine: "\<forall>e. leases g d = Some e \<longrightarrow> \<not> leader e"
  obtains l where "lc_acquire W d [] g = (Inr (-1, b), g\<lparr>clock_reads := Suc (clock_reads g), leases := l, env := (ea, eb, m)\<rparr>)"
proof -
  have "\<not> is_mine t d (leases g)" for t using not_mine by (auto simp: is_mine_def split: option.split)
  moreover have "w_manager W (make_request (w_self W) d) (ea, eb, m) =
      (Some \<lparr>ret = -1, resp_due = D, resp_remote_addr = b\<rparr>, (ea, eb, m))"
    using P d by (simp add: parties_def lease_impl_acquire_def lease_table_acquire_def acquire_find_def acquire_found_def cas_def
        make_request_def lease_reply_def Let_def fun_upd_idem)
  ultimately show thesis using e
    by (intro that [of "lease_update d D False (leases g)"])
      (simp add: lc_acquire_def bindE_def read_clock_def lease_client_acquire_def handle_response_def)
qed

lemma again_remote:
  assumes P: "parties W Wa a Wb b ts now1 now2" and e: "env g = (ea, eb, m)" and x: "inodes g x = Remote i r"
    and d: "d = r_dentry_table_ino r" "served d g = None" "m (ts d) = Some \<lparr>due = D, addr = b\<rparr>" "now1 < D" "b \<noteq> w_self W"
    and not_mine: "\<forall>e. leases g d = Some e \<longrightarrow> \<not> leader e"
  obtains g' where "find_remote_dentry_table_again W x g = (Inr (), g')" and "env g' = (ea, eb, m)"
    and "inodes g' = (inodes g)(x := Remote i (r\<lparr>r_leader_ip := b\<rparr>))" and "dentry_tables g' = (dentry_tables g)(d \<mapsto> dtable_next g)"
    and "dtables g' = (dtables g)(dtable_next g := (empty_table d REMOTE)\<lparr>leader_ip := b\<rparr>)"
    and "jrnl g' = jrnl g" and "data_pool g' = data_pool g"
proof -
  have "env (dropped d g) = (ea, eb, m)" "\<forall>e. leases (dropped d g) d = Some e \<longrightarrow> \<not> leader e"
    using e not_mine by (simp_all add: dropped_def split: option.split)
  from acquire_refused [OF P this(1) d(3-5) this(2)] obtain l where
    l: "lc_acquire W d [] (dropped d g) = (Inr (-1, b), (dropped d g)\<lparr>clock_reads := Suc (clock_reads (dropped d g)), leases := l, env := (ea, eb, m)\<rparr>)"
    by blast
  have "dentry_tables (dropped d g) d = None" by simp
  let ?g1 = "(dropped d g)\<lparr>clock_reads := Suc (clock_reads (dropped d g)), leases := l, env := (ea, eb, m),
    dtables := (dtables g)(dtable_next g := (empty_table d REMOTE)\<lparr>leader_ip := b\<rparr>), dtable_next := Suc (dtable_next g),
    dentry_tables := (dentry_tables g)(d \<mapsto> dtable_next g)\<rparr>"
  have "get_dentry_table W d False g = (Inr (Some (dtable_next g)), ?g1)"
    using lease_dentry_table_remote_eq [OF l \<open>dentry_tables (dropped d g) d = None\<close>] by (simp add: get_dentry_table_miss [OF d(2)])
  then have f: "find_remote_dentry_table_again W x g = (Inr (), ?g1\<lparr>inodes := (inodes g)(x := Remote i (r\<lparr>r_leader_ip := b\<rparr>))\<rparr>)"
    using x d(1) [symmetric] by (simp add: find_remote_dentry_table_again_def bindE_def)
  have j: "jrnl (dropped d g) = jrnl g" "data_pool (dropped d g) = data_pool g"
    by (simp_all add: dropped_def split: option.split)
  show thesis by (rule that [OF f]) (simp_all add: j)
qed

definition moved_world :: "(pool, (pool, lease_table) fs \<times> (pool, lease_table) fs \<times> lease_table) world" where
  "moved_world =
     \<lparr>w_pool = mem_librados, w_ords = mem_ords, w_self = ''c'', w_raw = null_inode,
      w_manager = (\<lambda>q (ea, eb, m). map_prod Some (\<lambda>m. (ea, eb, m)) (lease_impl_acquire (uuid_to_string mem_librados) 1 1 q m)),
      w_rpc = (\<lambda>a q (ea, eb, m). if a = ''a'' then map_prod id (\<lambda>e. (e, eb, m)) (serve_answer mem_world q ea)
        else map_prod id (\<lambda>e. (ea, e, m)) (serve_answer mem_world q eb))\<rparr>"

section \<open>Properties\<close>

text \<open>
  C14: A client whose lease on a directory ran out, or that never held it, changes nothing for a request about
  it: no inode, directory table, journal entry or data; the stale table is dropped.  Every procedure except
  \<^verbatim>\<open>rpc_readdir\<close> refuses with \<^verbatim>\<open>ENOTLEADER\<close>, where the paths in a request to rename can be split;
  \<^verbatim>\<open>rpc_readdir\<close> ends its stream without a message, which its caller takes for success.
\<close>

theorem rpc_refuses_without_lease:
  assumes "served (request_dir q) g = None" and "paths_split q"
  shows "\<exists>g'. rpc_serve W q g = (Inr (if \<exists>w. q = Rpc_readdir w then default_respond else answer (- ENOTLEADER)), g') \<and>
    dentry_tables g' = (dentry_tables g)(request_dir q := None) \<and> dtables g' = dtables g \<and> inodes g' = inodes g \<and>
    jrnl g' = jrnl g \<and> data_pool g' = data_pool g"
  unfolding rpc_serve_refused [OF assms] by (auto simp: dropped_def fun_upd_idem split: option.split)

theorem rpc_refuses_without_lease_witness:
  "\<exists>g'. rpc_serve mem_world (Rpc_unlink (1, 9) ''f'') tree_fs = (Inr (answer (- ENOTLEADER)), g') \<and> dtables g' = dtables tree_fs"
proof -
  have "served (request_dir (Rpc_unlink (1, 9) ''f'')) tree_fs = None"
    using splice_not_root [of 1 9] by (simp add: served_def tree_fs_def mem_fs_def wire_to_ino_def)
  from rpc_refuses_without_lease [OF this, of mem_world] show ?thesis by auto
qed

text \<open>
  C9: Seven procedures, for a directory that the serving client leads, compute exactly what its own local
  operation computes from the same state, the same new state and the same outcome, exceptions included:
  \<^verbatim>\<open>rpc_unlink\<close>, \<^verbatim>\<open>rpc_rmdir_top\<close>, \<^verbatim>\<open>rpc_rmdir_down\<close>, \<^verbatim>\<open>rpc_symlink\<close> (for a target without NUL bytes),
  and \<^verbatim>\<open>rpc_chmod\<close>, \<^verbatim>\<open>rpc_chown\<close> and \<^verbatim>\<open>rpc_utimens\<close>, which are the local change of the inode that the
  request names.  Nothing is claimed of the other procedures, some of which differ from the local ones.
\<close>

theorem rpc_serves_as_local:
  assumes "leader_of g w t p"
  shows "rpc_unlink W w n g = bindE (local_unlink W p n) (\<lambda>_. returnE (answer 0)) g \<and>
    rpc_rmdir_top W w w g = bindE (local_rmdir_top W i (wire_to_ino w)) (\<lambda>r. returnE (answer r)) g \<and>
    rpc_rmdir_down W w n u g = bindE (local_rmdir_down W p (wire_to_ino u) n) (\<lambda>r. returnE (answer r)) g \<and>
    (c_str src = src \<longrightarrow> rpc_symlink W w f src dst g = bindE (local_symlink W p src dst) (\<lambda>r. returnE (answer r)) g) \<and>
    (let change = \<lambda>op. bindE (target_of W t n b) (\<lambda>x. bindE (op x) (\<lambda>_. returnE (answer 0))) (g\<lparr>clock_reads := Suc (clock_reads g)\<rparr>)
     in rpc_chmod W w n mode b g = change (\<lambda>x. local_chmod W x mode) \<and>
        rpc_chown W w n owner grp b g = change (\<lambda>x. local_chown W x owner grp) \<and>
        rpc_utimens W w n tv0 tv1 b g = change (\<lambda>x. local_utimens W x tv0 tv1))"
  using unlink_as_local [OF assms] rmdir_top_as_local [OF assms] rmdir_down_as_local [OF assms]
    symlink_as_local [OF assms] change_as_local [OF assms] by (simp add: Let_def)

theorem rpc_serves_as_local_witness:
  "\<exists>g'. rpc_unlink mem_world (ino_to_wire get_root_ino) ''f'' tree_fs = (Inr (answer 0), g') \<and> listing g' 0 = Map.empty"
proof -
  have "this_dir_inode (dtables tree_fs 0) = Some 0" by (simp add: tree_fs_def)
  from leads_leader_of [OF leads_tree_fs this] have "leader_of tree_fs (ino_to_wire get_root_ino) 0 0"
    by (simp add: tree_fs_file(3))
  from rpc_serves_as_local [OF this, of mem_world "''f''"]
  have "rpc_unlink mem_world (ino_to_wire get_root_ino) ''f'' tree_fs = bindE (local_unlink mem_world 0 ''f'') (\<lambda>_. returnE (answer 0)) tree_fs"
    by blast
  moreover have "i_nlink (core (inode_at tree_fs 1)) = 1"
    unfolding tree_fs_simps by (simp add: file_inode_def inode_new_def new_core_def)
  moreover have "w_pool mem_world = mem_librados" by (simp add: mem_world_def)
  moreover have "listing tree_fs 0 = [''f'' \<mapsto> splice_prefix_and_postfix 1 7]"
    using tree_fs_simps(6) tree_fs_file(1) by (auto simp: listing_def fun_eq_iff)
  ultimately show ?thesis
    using local_unlink_ok [OF _ leads_tree_fs, of mem_world "\<lambda>s. s" "''f''" 1 "[]"] mem.librados_healthy_axioms
    by (auto simp: yields_def tree_fs_simps)
qed

text \<open>
  C23: The caller finds the next leader: when the client it knows as the leader has lost the lease and the
  manager has granted it to another one, the refused removal is tried again at the new leader's address and
  done there.  The call returns 0, the file leaves the new leader's directory, whose journal and table stay in
  step, the old leader drops its stale table, and the caller remembers the new address in its inode and in
  its index.
\<close>

theorem unlink_finds_new_leader:
  assumes "parties W Wa a Wb b ts now1 now2" and "env g = (ea, eb, m)" and "inodes g x = Remote i r"
    and "r_leader_ip r = a" and "d = r_dentry_table_ino r" and "served d ea = None"
    and "served d g = None" and "\<forall>e. leases g d = Some e \<longrightarrow> \<not> leader e"
    and "m (ts d) = Some \<lparr>due = D, addr = b\<rparr>" and "now1 < D" and "b \<noteq> w_self W"
    and "librados_healthy (w_pool Wb) objs" and "leads eb p t base" and "this_dir_inode (dtables eb t) = Some p" and "d = ino_of eb p"
    and "child_inodes (dtables eb t) n = Some y" and "i_nlink (core (inode_at eb y)) = 1"
    and "stores objs (data_pool eb) DATA (data_key Wb eb y) c" and "length c < 2 ^ 63"
  shows "yields (retrying W id x (remote_unlink W x n)) g (\<lambda>r' g'. r' = 0 \<and>
    (\<exists>e. env g' = (dropped d ea, e, m) \<and> in_step e t base \<and> listing e t = (listing eb t)(n := None) \<and>
       \<not> present objs (data_pool e) DATA (data_key Wb eb y)) \<and>
    inodes g' = (inodes g)(x := Remote i (r\<lparr>r_leader_ip := b\<rparr>)) \<and>
    dentry_tables g' = (dentry_tables g)(d \<mapsto> dtable_next g) \<and>
    dtables g' = (dtables g)(dtable_next g := (empty_table d REMOTE)\<lparr>leader_ip := b\<rparr>) \<and>
    jrnl g' = jrnl g \<and> data_pool g' = data_pool g)"
proof -
  let ?q = "Rpc_unlink (ino_to_wire d) n"
  let ?g = "g\<lparr>env := (dropped d ea, eb, m)\<rparr>"
  have call: "remote_unlink W x n h = (Inr (rsp_ret out), h\<lparr>env := e\<rparr>)"
    if "w_rpc W (r_leader_ip k) ?q (env h) = (Some out, e)" "inodes h x = Remote i k" "r_dentry_table_ino k = d" for k out h e
    using that by (simp add: remote_unlink_def as_remote_def rc_unlink_def common_call_def table_wire_def rpc_call_def)
  have "rpc_serve Wa ?q ea = (Inr (answer (- ENOTLEADER)), dropped d ea)"
    using rpc_serve_refused [of ?q ea Wa] assms(6) by simp
  then have "w_rpc W a ?q (env g) = (Some (answer (- ENOTLEADER)), (dropped d ea, eb, m))"
    using assms(1,2) by (simp add: parties_def serve_answer_def)
  then have 1: "remote_unlink W x n g = (Inr (- ENOTLEADER), ?g)"
    using call [where k = r and h = g] assms(3,4) assms(5) [symmetric] by (simp add: answer_def)
  have "served d ?g = None" using assms(7) by simp
  moreover have "env ?g = (dropped d ea, eb, m)" "inodes ?g x = Remote i r" "\<forall>e. leases ?g d = Some e \<longrightarrow> \<not> leader e"
    using assms(3,8) by simp_all
  ultimately obtain g2 where
    g2: "find_remote_dentry_table_again W x ?g = (Inr (), g2)" "env g2 = (dropped d ea, eb, m)"
    "inodes g2 = (inodes g)(x := Remote i (r\<lparr>r_leader_ip := b\<rparr>))" "dentry_tables g2 = (dentry_tables g)(d \<mapsto> dtable_next g)"
    "dtables g2 = (dtables g)(dtable_next g := (empty_table d REMOTE)\<lparr>leader_ip := b\<rparr>)" "jrnl g2 = jrnl g" "data_pool g2 = data_pool g"
    using again_remote [of W Wa a Wb b ts now1 now2 ?g "dropped d ea" eb m x i r d D] assms(1,5,9-11) by auto
  from local_unlink_ok [OF assms(12,13,16-19)] obtain e where
    e: "local_unlink Wb p n eb = (Inr (), e)" "in_step e t base" "listing e t = (listing eb t)(n := None)"
      "\<not> present objs (data_pool e) DATA (data_key Wb eb y)" by (auto simp: yields_def)
  have "leader_of eb (ino_to_wire d) t p" using leads_leader_of [OF assms(13,14)] assms(15) by simp
  from unlink_as_local [OF this, of Wb n] have "rpc_serve Wb ?q eb = (Inr (answer 0), e)" using e(1) by simp
  then have "w_rpc W b ?q (env g2) = (Some (answer 0), (dropped d ea, e, m))"
    using assms(1) g2(2) by (simp add: parties_def serve_answer_def)
  then have 2: "remote_unlink W x n g2 = (Inr 0, g2\<lparr>env := (dropped d ea, e, m)\<rparr>)"
    using call [where k = "r\<lparr>r_leader_ip := b\<rparr>" and h = g2] assms(5) [symmetric] g2(3) by (simp add: answer_def)
  have "redirect W id x (remote_unlink W x n) g = Some g2" using 1 g2(1) by (simp add: redirect_def)
  then have "retry W id x (remote_unlink W x n) g = retry W id x (remote_unlink W x n) g2" by (rule retry_redirect)
  moreover have "retry W id x (remote_unlink W x n) g2 = Some (Inr 0, g2\<lparr>env := (dropped d ea, e, m)\<rparr>)"
    using 2 by (intro retry_answer) (simp_all add: ENOTLEADER_def ENEEDRECOV_def)
  ultimately have "retrying W id x (remote_unlink W x n) g = (Inr 0, g2\<lparr>env := (dropped d ea, e, m)\<rparr>)"
    by (simp add: retrying_def)
  then show ?thesis by (rule yieldsI) (use e(2-4) g2(3-7) in simp)
qed

theorem unlink_finds_new_leader_witness:
  "let g = caller_with (mem_fs root_pool Map.empty, tree_fs, [uuid_to_string mem_librados get_root_ino \<mapsto> \<lparr>due = 9, addr = ''b''\<rparr>])
       null_inode (root_remote ''f'' False)
   in yields (retrying moved_world id 0 (remote_unlink moved_world 0 ''f'')) g (\<lambda>r g'. r = 0 \<and>
     listing (fst (snd (env g'))) 0 = Map.empty \<and> inodes g' 0 = Remote null_inode ((root_remote ''f'' False)\<lparr>r_leader_ip := ''b''\<rparr>))"
proof -
  let ?m = "[uuid_to_string mem_librados get_root_ino \<mapsto> \<lparr>due = 9, addr = ''b''\<rparr>]"
  let ?g = "caller_with (mem_fs root_pool Map.empty, tree_fs, ?m) null_inode (root_remote ''f'' False)"
  have P: "parties moved_world mem_world ''a'' mem_world ''b'' (uuid_to_string mem_librados) 1 1"
    by (simp add: parties_def moved_world_def)
  have H: "served get_root_ino (mem_fs root_pool Map.empty) = None" "served get_root_ino ?g = None" "w_self moved_world = ''c''"
    "leases ?g = Map.empty" "env ?g = (mem_fs root_pool Map.empty, tree_fs, ?m)" "inodes ?g 0 = Remote null_inode (root_remote ''f'' False)"
    "inodes ?g = (\<lambda>_. Remote null_inode (root_remote ''f'' False))"
    by (simp_all add: served_def mem_fs_def caller_with_def moved_world_def)
  from unlink_finds_new_leader [OF P H(5,6), of get_root_ino 9 "\<lambda>s. s" 0 0 "[''f'' \<mapsto> splice_prefix_and_postfix 1 7]" "''f''" 1 "[]"]
  show ?thesis
    using leads_tree_fs mem.librados_healthy_axioms H
    by (auto simp: yields_def caller_simps tree_fs_led root_remote_def tree_fs_file(3) tree_fs_simps tree_fs_simps(7) [simplified] file_inode_simps)
qed

text \<open>
  C21: Removing a file through another client: the caller's remote operation returns 0 and changes nothing
  at the caller; at the leader the entry leaves the directory, journal and table stay in step, and the
  file's data objects are gone.
\<close>

theorem remote_unlink_at_leader:
  assumes "leader_channel W W' (r_leader_ip r)" and "inodes g x = Remote i r"
    and "librados_healthy (w_pool W') objs" and "leads (env g) p t base"
    and "this_dir_inode (dtables (env g) t) = Some p" and "r_dentry_table_ino r = ino_of (env g) p"
    and "child_inodes (dtables (env g) t) n = Some y" and "i_nlink (core (inode_at (env g) y)) = 1"
    and "stores objs (data_pool (env g)) DATA (data_key W' (env g) y) c" and "length c < 2 ^ 63"
  shows "\<exists>e. retrying W id x (remote_unlink W x n) g = (Inr 0, g\<lparr>env := e\<rparr>) \<and> in_step e t base \<and>
    listing e t = (listing (env g) t)(n := None) \<and> \<not> present objs (data_pool e) DATA (data_key W' (env g) y)"
proof -
  from local_unlink_ok [OF assms(3,4,7-10)] obtain e where
    e: "local_unlink W' p n (env g) = (Inr (), e)" "in_step e t base" "listing e t = (listing (env g) t)(n := None)"
      "\<not> present objs (data_pool e) DATA (data_key W' (env g) y)" by (auto simp: yields_def)
  have "leader_of (env g) (ino_to_wire (r_dentry_table_ino r)) t p"
    using leads_leader_of [OF assms(4,5)] assms(6) by simp
  from remote_unlink_ok [OF assms(1,2) this e(1)] have "retrying W id x (remote_unlink W x n) g = (Inr 0, g\<lparr>env := e\<rparr>)"
    by (rule retrying_answer) (simp_all add: ENOTLEADER_def ENEEDRECOV_def)
  then show ?thesis using e(2-4) by blast
qed

theorem remote_unlink_at_leader_witness:
  "\<exists>e. retrying caller_world id 0 (remote_unlink caller_world 0 ''f'') (caller_fs null_inode (root_remote ''f'' False)) =
     (Inr 0, (caller_fs null_inode (root_remote ''f'' False))\<lparr>env := e\<rparr>) \<and> listing e 0 = Map.empty"
  using remote_unlink_at_leader [OF caller_channel caller_simps(1),
      of "\<lambda>s. s" null_inode "root_remote ''f'' False" 0 0 "[''f'' \<mapsto> splice_prefix_and_postfix 1 7]" "''f''" 1 "[]" 0]
    leads_tree_fs mem.librados_healthy_axioms
  by (auto simp: caller_simps tree_fs_led root_remote_def tree_fs_file(3) tree_fs_simps tree_fs_simps(7) [simplified] file_inode_simps)

text \<open>
  C15: Writing through another client: the leader reserves the range and records the size, the caller writes
  the data at the offset the leader chose (the end of the file for an append), and the size that the
  leader records is again the length of the stored contents.  The range ends at or below \<open>MAX_OFFSET\<close>,
  where the \<^verbatim>\<open>off_t\<close> of the data pool reaches.
\<close>

theorem remote_write_agrees:
  assumes "librados_healthy (w_pool W) objs" and "leader_channel W W' (r_leader_ip r)" and "inodes g x = Remote i r"
    and "in_step (env g) t base" and "served (r_dentry_table_ino r) (env g) = Some t"
    and "child_inodes (dtables (env g) t) (r_file_name r) = Some y" and "p_ino (inode_at (env g) y) = dir_ino (dtables (env g) t)"
    and "key = uuid_to_string (w_pool W) (i_ino (core i))" and "stores objs (data_pool g) DATA key c"
    and "unat (i_size (core (inode_at (env g) y))) = length c"
    and "off = (if flags AND O_APPEND \<noteq> 0 then i_size (core (inode_at (env g) y)) else offset0)"
    and "unat sz \<le> length buffer" and "unat off + unat sz \<le> MAX_OFFSET"
  shows "yields (retrying W id x (remote_write W x buffer sz offset0 flags)) g (\<lambda>n g'. n = int (unat sz) \<and>
    stores objs (data_pool g') DATA key (write_spec c (unat off) (take (unat sz) buffer)) \<and>
    frame objs DATA key (data_pool g) (data_pool g') \<and> in_step (env g') t base \<and>
    unat (i_size (core (inode_at (env g') y))) = length (write_spec c (unat off) (take (unat sz) buffer)))"
proof -
  from remote_write_ok [OF assms(1-9,11-13)] obtain n g' where g': "remote_write W x buffer sz offset0 flags g = (Inr n, g')"
    "n = int (unat sz)" "stores objs (data_pool g') DATA key (write_spec c (unat off) (take (unat sz) buffer))"
    "frame objs DATA key (data_pool g) (data_pool g')" "in_step (env g') t base"
    "i_size (core (inode_at (env g') y)) = max (i_size (core (inode_at (env g) y))) (off + sz)" unfolding yields_def by blast
  have "0 \<le> n" using g'(2) by simp
  with g'(1) have "retrying W id x (remote_write W x buffer sz offset0 flags) g = (Inr n, g')"
    by (intro retrying_answer) (simp_all add: ENOTLEADER_def ENEEDRECOV_def)
  moreover have "unat (off + sz) = unat off + unat sz" using unat_add_lem [of off sz] MAX_OFFSET_less [OF assms(13)] by simp
  then have "unat (max (i_size (core (inode_at (env g) y))) (off + sz)) = length (write_spec c (unat off) (take (unat sz) buffer))"
    using assms(10,12) by (simp add: max_def word_le_nat_alt min_def)
  ultimately show ?thesis by (intro yieldsI [of _ _ n g']) (use g'(2-6) in simp_all)
qed

theorem remote_write_agrees_witness:
  "\<exists>g'. retrying caller_world id 0 (remote_write caller_world 0 [7, 8] 2 3 0) (caller_fs file_inode (root_remote ''f'' False)) =
     (Inr 2, g') \<and> unat (i_size (core (inode_at (env g') 1))) = 5"
proof -
  let ?r = "root_remote ''f'' False"
  have "librados_healthy (w_pool caller_world) (\<lambda>s. s)" using mem.librados_healthy_axioms by (simp add: caller_simps)
  from remote_write_agrees [OF this caller_channel caller_simps(1), of file_inode ?r 0 "[''f'' \<mapsto> splice_prefix_and_postfix 1 7]" 1
      "uuid_to_string (w_pool caller_world) (i_ino (core file_inode))" "[]" 3 0 3 2 "[7, 8]" 0]
  show ?thesis
    by (auto simp: caller_simps tree_fs_led root_remote_def tree_fs_simps tree_fs_simps(7) [simplified] file_inode_simps yields_def)
qed

text \<open>
  C40: Changing the mode of a directory that another client leads does not work: the request does not carry
  the mark that the directory itself is meant, so the leader looks for a child with an empty name, the
  call fails, and the caller ends with the exception for a lost leader.  The leader's directory, inodes
  and journal are as before.
\<close>

theorem remote_chmod_directory_fails:
  assumes "leader_channel W W' (r_leader_ip r)" and "inodes g x = Remote i r" and "r_target_is_parent r"
    and "served (r_dentry_table_ino r) (env g) = Some t" and "dt_loc (dtables (env g) t) = LOCAL"
    and "child_inodes (dtables (env g) t) (r_file_name r) = None"
  shows "retrying W id x (remote_chmod W x mode) g =
    (Inl (Runtime_error ''Need Recovery of remote dentry_table''), g\<lparr>env := (env g)\<lparr>clock_reads := Suc (clock_reads (env g))\<rparr>\<rparr>)"
proof -
  let ?w = "ino_to_wire (r_dentry_table_ino r)"
  let ?e = "(env g)\<lparr>clock_reads := Suc (clock_reads (env g))\<rparr>"
  have "served (wire_to_ino ?w) (env g) = Some t" using assms(4) by simp
  then have "rpc_chmod W' ?w (r_file_name r) mode False (env g) = (Inl No_entry, ?e)"
    using assms(5,6) by (simp add: rpc_chmod_def with_table_served target_of_def fetch_target_def get_child_inode_def Let_def)
  then have "rpc_call W (r_leader_ip r) (Rpc_chmod ?w (r_file_name r) mode False) g = (Inr None, g\<lparr>env := ?e\<rparr>)"
    by (intro channel_failure [OF assms(1)]) simp
  then have "remote_chmod W x mode g = (Inr (- ENEEDRECOV), g\<lparr>env := ?e\<rparr>)"
    using assms(2) by (simp add: remote_chmod_def as_remote_def rc_chmod_def common_call_def table_wire_def)
  then show ?thesis by (rule retrying_failure) simp
qed

theorem remote_chmod_directory_fails_witness:
  "fst (retrying caller_world id 0 (remote_chmod caller_world 0 0x1ED) (caller_fs null_inode (root_remote [] True))) =
     Inl (Runtime_error ''Need Recovery of remote dentry_table'')"
  using remote_chmod_directory_fails [where r = "root_remote [] True" and t = 0, OF caller_channel caller_simps(1), of null_inode 0 "0x1ED"]
  by (simp add: caller_simps tree_fs_led root_remote_def tree_fs_simps)

text \<open>
  Listing a directory at a client that has lost its lease succeeds with no names at all, not even the
  two dots: the refusal is never sent, so the caller neither looks for the new leader nor fails.
\<close>

theorem remote_readdir_lost_lease:
  assumes "leader_channel W W' (r_leader_ip r)" and "inodes g x = Remote i r"
    and "served (r_dentry_table_ino r) (env g) = None"
  shows "retrying W fst x (remote_readdir W x) g = (Inr (0, []), g\<lparr>env := dropped (r_dentry_table_ino r) (env g)\<rparr>)"
proof -
  let ?w = "ino_to_wire (r_dentry_table_ino r)"
  have "rpc_serve W' (Rpc_readdir ?w) (env g) = (Inr default_respond, dropped (r_dentry_table_ino r) (env g))"
    using rpc_serve_refused [of "Rpc_readdir ?w" "env g" W'] assms(3) by simp
  from channel_answer [OF assms(1) this]
  have "remote_readdir W x g = (Inr (0, []), g\<lparr>env := dropped (r_dentry_table_ino r) (env g)\<rparr>)"
    using assms(2) by (simp add: remote_readdir_def as_remote_def rc_readdir_def table_wire_def default_respond_def)
  then show ?thesis by (rule retrying_answer) (simp_all add: ENOTLEADER_def ENEEDRECOV_def)
qed

theorem remote_readdir_lost_lease_witness:
  "fst (retrying caller_world fst 0 (remote_readdir caller_world 0)
     (caller_fs null_inode ((root_remote [] True)\<lparr>r_dentry_table_ino := splice_prefix_and_postfix 1 9\<rparr>))) = Inr (0, [])"
proof -
  let ?r = "(root_remote [] True)\<lparr>r_dentry_table_ino := splice_prefix_and_postfix 1 9\<rparr>"
  have "served (splice_prefix_and_postfix 1 9) tree_fs = None"
    using splice_not_root [of 1 9] by (simp add: served_def tree_fs_def mem_fs_def)
  then show ?thesis
    using remote_readdir_lost_lease [where r = ?r, OF caller_channel caller_simps(1), of null_inode 0] by (simp add: caller_simps)
qed

end
