(* ===== verification/Fuse_Refine.thy ===== *)
theory Fuse_Refine
  imports Rpc_Refine
begin

text \<open>
  The file system as its users see it, on a client that leads the directories of the path: paths that
  do not resolve are reported as such by every operation and change nothing, and creating and removing
  files by path edits exactly the directory the path lies in.
\<close>

section \<open>Paths\<close>

lemma catch_entry_path:
  assumes "path_traversal W path g = (Inl e, g')" and "e = No_entry \<and> c = - ENOENT \<or> e = Permission_denied \<and> c = - EACCES"
  shows "catch_entry f (bindE (path_traversal W path) k) g = (Inr (f c), g')"
  using assms by (auto simp: catch_entry_def)

text \<open>Resolving a path is quiet, and keeps what it means to lead a directory.\<close>

lemma same_tree_quiet: "same_tree g g' \<Longrightarrow> quiet g g'"
  by (elim same_treeE) (auto simp: quiet_def ino_of_def inode_at_def)

lemma same_tree_leads:
  assumes "same_tree g g'" and "local_tree g" and "dentry_tables g (ino_of g p) = Some t" and "in_step g t base"
    and "p < inode_next g" and "ino_of g p = dir_ino (dtables g t)"
  shows "leads g' p t base"
proof -
  note q = same_tree_quiet [OF assms(1)]
  have "served (ino_of g p) g' = Some t" by (rule served_same_tree [OF assms(2,1,3)])
  moreover have "ino_of g' p = ino_of g p" "p < inode_next g'" "dtables g' = dtables g"
    using q assms(5) by (auto simp: quiet_def)
  ultimately show ?thesis using quiet_in_step [OF q assms(4)] assms(6) by (simp add: leads_def)
qed

text \<open>The directory of a path: \<open>parent_dir\<close> finds its inode and table and changes nothing else.\<close>

definition lies_in :: "('s, 'e) fs \<Rightarrow> string \<Rightarrow> nat \<Rightarrow> nat \<Rightarrow> bool" where
  "lies_in g path p t \<longleftrightarrow> local_tree g \<and>
     (\<exists>t0 x0 parent. dentry_tables g get_root_ino = Some t0 \<and> this_dir_inode (dtables g t0) = Some x0 \<and>
        get_parent_dir_path path = Inr parent \<and> length parent < 2 ^ 31 \<and>
        resolve g (split_path (drop 1 parent)) t0 x0 = Inr p) \<and>
     dentry_tables g (ino_of g p) = Some t \<and> p < inode_next g \<and> ino_of g p = dir_ino (dtables g t)"

lemma parent_dir_ok:
  assumes "lies_in g path p t"
  obtains g' where "parent_dir W path g = (Inr (p, t), g')" and "same_tree g g'"
proof -
  note P = assms [unfolded lies_in_def]
  from P obtain t0 x0 parent where r: "dentry_tables g get_root_ino = Some t0" "this_dir_inode (dtables g t0) = Some x0"
    "get_parent_dir_path path = Inr parent" "length parent < 2 ^ 31" "resolve g (split_path (drop 1 parent)) t0 x0 = Inr p" by blast
  from path_traversal_local [OF _ r(1,4,2), of W] P r(5) obtain g1 where
    g1: "path_traversal W parent g = (Inr p, g1)" "same_tree g g1" by auto
  have "ino_of g1 p = ino_of g p" using same_tree_quiet [OF g1(2)] P by (simp add: quiet_def)
  moreover have "served (ino_of g p) g1 = Some t" using served_same_tree [OF _ g1(2)] P by blast
  ultimately have "table_of W p g1 = (Inr t, g1\<lparr>clock_reads := Suc (clock_reads g1)\<rparr>)" by (intro table_of_served) simp
  then have "parent_dir W path g = (Inr (p, t), g1\<lparr>clock_reads := Suc (clock_reads g1)\<rparr>)"
    using r(3) g1(1) by (simp add: parent_dir_def)
  then show thesis by (rule that [OF _ same_tree_clock [OF g1(2)]])
qed

lemma lies_in_leads:
  assumes "lies_in g path p t" and "in_step g t base" and "same_tree g g'"
  shows "leads g' p t base" and "dt_loc (dtables g' t) = LOCAL"
proof -
  show l: "leads g' p t base" using assms unfolding lies_in_def by (intro same_tree_leads [OF assms(3)]) auto
  then show "dt_loc (dtables g' t) = LOCAL" by (simp add: leads_def in_step_def coherent_def)
qed

lemma same_tree_rest:
  "same_tree g g' \<Longrightarrow> uuid_src g' (uuid_reads g') = uuid_src g (uuid_reads g) \<and> addr_src g' (addr_reads g') = addr_src g (addr_reads g) \<and>
    fh_list g' = fh_list g \<and> data_pool g' = data_pool g \<and> inode_next g' = inode_next g \<and> dtables g' = dtables g \<and>
    time_src g' (time_reads g') = time_src g (time_reads g) \<and> this_client g' = this_client g \<and>
    core (inode_at g' y) = core (inode_at g y)"
  by (elim same_treeE) (simp add: inode_at_def)

lemma same_tree_kind: "same_tree g g' \<Longrightarrow> same_kind (inode_at g' y) (inode_at g y) \<and> jrnl g' = jrnl g"
  by (elim same_treeE) (simp add: inode_at_def same_kind_def)

lemma same_kind_trans: "same_kind i j \<Longrightarrow> same_kind j k \<Longrightarrow> same_kind i k"
  by (simp add: same_kind_def)

text \<open>Files of the example tree's root directory.\<close>

lemma lies_in_tree_fs:
  assumes "get_parent_dir_path path = Inr ''/''"
  shows "lies_in tree_fs path 0 0"
proof -
  have "dentry_tables tree_fs get_root_ino = Some 0" "this_dir_inode (dtables tree_fs 0) = Some 0" "0 < inode_next tree_fs"
    by (simp_all add: tree_fs_def)
  then show ?thesis using assms local_tree_fs tree_fs_simps(8) by (simp add: lies_in_def tree_fs_file(3))
qed

section \<open>Creating and removing a file by path\<close>

lemma fuse_create_leader:
  assumes "lies_in g path p t" and "in_step g t base" and "get_filename_from_path path = Inr n" and "\<not> S_ISDIR mode"
    and "listing g t n = None" and "fresh_ino g t (uuid_src g (uuid_reads g))" and "fh_list g (addr_src g (addr_reads g)) = None"
  shows "yields (fuse_create W path mode fh) g (\<lambda>(r, a) g'. r = 0 \<and> a = addr_src g (addr_reads g) \<and> in_step g' t base \<and>
    listing g' t = (listing g t)(n \<mapsto> uuid_src g (uuid_reads g)) \<and> (\<forall>t'. t' \<noteq> t \<longrightarrow> dtables g' t' = dtables g t') \<and>
    child_inodes (dtables g' t) n = Some (inode_next g) \<and>
    fh_list g' = (fh_list g)(a \<mapsto> \<lparr>fh_ino = uuid_src g (uuid_reads g), fh_loc = Some LOCAL, fhno = a,
      fh_i = Some (inode_next g), fh_remote_i = None\<rparr>) \<and>
    inodes g' (inode_next g) = Inode (inode_new (uuid_src g (uuid_reads g)) (time_src g (time_reads g)) (ino_of g p)
      (client_uid (this_client g)) (client_gid (this_client g)) (mode OR S_IFREG) False) \<and>
    dir_ino (dtables g' t) = dir_ino (dtables g t) \<and>
    (\<exists>i. same_kind i (inode_at g p) \<and>
      logs (w_raw W) (dir_ino (dtables g t)) (Mkreg i n (inode_at g' (inode_next g))) (jrnl g) (jrnl g')))"
proof -
  obtain g1 where g1: "parent_dir W path g = (Inr (p, t), g1)" "same_tree g g1" by (rule parent_dir_ok [OF assms(1)])
  note L = lies_in_leads [OF assms(1,2) g1(2)] and R = same_tree_rest [OF g1(2)]
  have coh: "coherent g t" by (rule in_step_coherent [OF assms(2)])
  note q = same_tree_quiet [OF g1(2)] and l = quiet_listing(1) [OF same_tree_quiet [OF g1(2)] coh]
  have "ino_of g1 p = ino_of g p" using q assms(1) by (simp add: quiet_def lies_in_def)
  moreover have "listing g1 t n = None" "fresh_ino g1 t (uuid_src g1 (uuid_reads g1))" "fh_list g1 (addr_src g1 (addr_reads g1)) = None"
    using l assms(5-7) R fresh_ino_quiet [OF q coh] by simp_all
  from local_create_ok [OF L(1) this, of W mode] obtain g2 where
    run: "local_create W p n mode g1 = (Inr (addr_src g1 (addr_reads g1)), g2)" and g2: "in_step g2 t base"
    "listing g2 t = (listing g1 t)(n \<mapsto> uuid_src g1 (uuid_reads g1))" "\<forall>t'. t' \<noteq> t \<longrightarrow> dtables g2 t' = dtables g1 t'"
    "child_inodes (dtables g2 t) n = Some (inode_next g1)" "fh_list g2 = (fh_list g1)(addr_src g1 (addr_reads g1) \<mapsto>
      \<lparr>fh_ino = uuid_src g1 (uuid_reads g1), fh_loc = Some LOCAL, fhno = addr_src g1 (addr_reads g1), fh_i = Some (inode_next g1), fh_remote_i = None\<rparr>)"
    "inodes g2 (inode_next g1) = Inode (inode_new (uuid_src g1 (uuid_reads g1)) (time_src g1 (time_reads g1)) (ino_of g1 p)
      (client_uid (this_client g1)) (client_gid (this_client g1)) (mode OR S_IFREG) False)"
    "dir_ino (dtables g2 t) = dir_ino (dtables g1 t)" "\<exists>i. same_kind i (inode_at g1 p) \<and>
      logs (w_raw W) (dir_ino (dtables g1 t)) (Mkreg i n (inode_at g2 (inode_next g1))) (jrnl g1) (jrnl g2)"
    unfolding yields_def by blast
  moreover have "\<exists>i. same_kind i (inode_at g p) \<and>
      logs (w_raw W) (dir_ino (dtables g t)) (Mkreg i n (inode_at g2 (inode_next g))) (jrnl g) (jrnl g2)"
    using g2(8) R same_tree_kind [OF g1(2)] same_kind_trans by metis
  moreover have "fuse_create W path mode fh g = (Inr (0, addr_src g (addr_reads g)), g2)"
    using assms(3,4) g1(1) L(2) R run by (simp add: fuse_create_def catch_entry_def by_table_def)
  ultimately show ?thesis using g2 l R by (intro yieldsI [of _ _ "(0, addr_src g (addr_reads g))" g2]) simp_all
qed

lemma fuse_unlink_leader:
  assumes "lies_in g path p t" and "in_step g t base" and "get_filename_from_path path = Inr n"
    and "child_inodes (dtables g t) n = Some x" and "i_nlink (core (inode_at g x)) = 1"
    and "librados_healthy (w_pool W) objs" and "stores objs (data_pool g) DATA (data_key W g x) c" and "length c < 2 ^ 63"
  shows "yields (fuse_unlink W path) g (\<lambda>r g'. r = 0 \<and> in_step g' t base \<and> listing g' t = (listing g t)(n := None) \<and>
    (\<forall>t'. t' \<noteq> t \<longrightarrow> dtables g' t' = dtables g t') \<and> \<not> present objs (data_pool g') DATA (data_key W g x) \<and>
    frame objs DATA (data_key W g x) (data_pool g) (data_pool g') \<and>
    dir_ino (dtables g' t) = dir_ino (dtables g t) \<and>
    (\<exists>i f. same_kind i (inode_at g p) \<and> i_ino (core f) = ino_of g x \<and>
      logs (w_raw W) (dir_ino (dtables g t)) (Rmreg i n f) (jrnl g) (jrnl g')))"
proof -
  obtain g1 where g1: "parent_dir W path g = (Inr (p, t), g1)" "same_tree g g1" by (rule parent_dir_ok [OF assms(1)])
  note L = lies_in_leads [OF assms(1,2) g1(2)] and R = same_tree_rest [OF g1(2)]
  note l = quiet_listing(1) [OF same_tree_quiet [OF g1(2)] in_step_coherent [OF assms(2)]]
  have key: "data_key W g1 x = data_key W g x" using R [of x] by (simp add: data_key_def ino_of_def)
  have "child_inodes (dtables g1 t) n = Some x" "i_nlink (core (inode_at g1 x)) = 1"
    "stores objs (data_pool g1) DATA (data_key W g1 x) c" using assms(4,5,7) R [of x] key by simp_all
  from local_unlink_ok [OF assms(6) L(1) this assms(8)] obtain g2 where
    u: "local_unlink W p n g1 = (Inr (), g2)" and g2: "in_step g2 t base" "listing g2 t = (listing g t)(n := None)"
    "\<forall>t'. t' \<noteq> t \<longrightarrow> dtables g2 t' = dtables g t'" "\<not> present objs (data_pool g2) DATA (data_key W g x)"
    "frame objs DATA (data_key W g x) (data_pool g) (data_pool g2)"
    "dir_ino (dtables g2 t) = dir_ino (dtables g1 t)" "\<exists>i f. same_kind i (inode_at g1 p) \<and> i_ino (core f) = ino_of g1 x \<and>
      logs (w_raw W) (dir_ino (dtables g1 t)) (Rmreg i n f) (jrnl g1) (jrnl g2)"
    unfolding yields_def l key using R by auto
  have "\<exists>i f. same_kind i (inode_at g p) \<and> i_ino (core f) = ino_of g x \<and>
      logs (w_raw W) (dir_ino (dtables g t)) (Rmreg i n f) (jrnl g) (jrnl g2)"
    using g2(7) R [of x] same_tree_kind [OF g1(2)] same_kind_trans unfolding ino_of_def by metis
  moreover have "fuse_unlink W path g = (Inr 0, g2)"
    using assms(3) g1(1) L(2) u by (simp add: fuse_unlink_def catch_entry_def by_table_def)
  ultimately show ?thesis using g2 R by (intro yieldsI [of _ _ 0 g2]) simp_all
qed

section \<open>Properties\<close>

text \<open>What a path that does not resolve does to the operations below it, and to those that catch nothing.\<close>

lemma unresolved_below:
  assumes tr: "path_traversal W path g = (Inl e, g')" and ec: "e = No_entry \<and> c = - ENOENT \<or> e = Permission_denied \<and> c = - EACCES"
    and pa: "get_parent_dir_path child = Inr path" and n: "get_filename_from_path child = Inr n"
  shows "\<not> S_ISDIR mode \<Longrightarrow> fuse_create W child mode fh g = (Inr (c, fh), g')"
    and "fuse_unlink W child g = (Inr c, g')" and "fuse_mkdir W child mode g = (Inr c, g')" and "fuse_rmdir W child g = (Inr c, g')"
    and "fuse_symlink W src child g = (Inr c, g')"
    and "child \<noteq> target \<Longrightarrow> get_parent_dir_path target = Inr dst \<Longrightarrow> fuse_rename W child target flags g = (Inr c, g')"
proof -
  have at: "catch_entry f m g = (Inr (f c), g')" if "m g = (Inl e, g')" for f and m :: "('a, 'b, 'c) fsm"
    using that ec by (auto simp: catch_entry_def)
  have p: "parent_dir W child g = (Inl e, g')" using tr pa by (simp add: parent_dir_def)
  show "\<not> S_ISDIR mode \<Longrightarrow> fuse_create W child mode fh g = (Inr (c, fh), g')" "fuse_unlink W child g = (Inr c, g')"
    "fuse_mkdir W child mode g = (Inr c, g')" "fuse_rmdir W child g = (Inr c, g')"
    using p n by (simp_all add: fuse_create_def fuse_unlink_def fuse_mkdir_def fuse_rmdir_def at)
  show "fuse_symlink W src child g = (Inr c, g')"
    unfolding fuse_symlink_def using tr pa by (simp add: at)
  show "fuse_rename W child target flags g = (Inr c, g')" if r: "child \<noteq> target" "get_parent_dir_path target = Inr dst"
  proof -
    have "rename_within W path child target flags g = (Inl e, g')" "rename_across W path dst child target flags g = (Inl e, g')"
      using tr by (simp_all add: rename_within_def rename_across_def)
    then have "catch_entry id (bindE (liftE (\<lambda>_. get_parent_dir_path child)) (\<lambda>src_parent_path.
        bindE (liftE (\<lambda>_. get_parent_dir_path target)) (\<lambda>dst_parent_path.
          if src_parent_path = dst_parent_path then rename_within W src_parent_path child target flags
          else rename_across W src_parent_path dst_parent_path child target flags))) g = (Inr (id c), g')"
      using pa r(2) by (intro at) (cases "path = dst"; simp)
    then show ?thesis using r(1) by (simp add: fuse_rename_def catch_runtime_def)
  qed
qed

lemma unresolved_escapes:
  assumes "path_traversal W path g = (Inl e, g')"
  shows "fuse_readdir W path None g = (Inl e, g')" and "fuse_releasedir W path None g = (Inl e, g')"
    and "fuse_release W path None g = (Inl e, g')"
  using assms by (simp_all add: fuse_readdir_def fuse_releasedir_def fuse_release_def target_inode_def)

text \<open>
  C38: A path that does not resolve, because a component does not exist or a directory may not be searched, makes
  \<^verbatim>\<open>getattr\<close>, \<^verbatim>\<open>access\<close>, \<^verbatim>\<open>readlink\<close>, \<^verbatim>\<open>opendir\<close>, \<^verbatim>\<open>open\<close>, \<^verbatim>\<open>read\<close>, \<^verbatim>\<open>write\<close>, \<^verbatim>\<open>chmod\<close>, \<^verbatim>\<open>chown\<close>,
  \<^verbatim>\<open>utimens\<close> and \<^verbatim>\<open>truncate\<close> of it, and \<^verbatim>\<open>create\<close>, \<^verbatim>\<open>unlink\<close>, \<^verbatim>\<open>mkdir\<close>, \<^verbatim>\<open>rmdir\<close>, \<^verbatim>\<open>symlink\<close> and \<^verbatim>\<open>rename\<close> of a
  name below it, return \<^verbatim>\<open>-ENOENT\<close> or \<^verbatim>\<open>-EACCES\<close>; \<^verbatim>\<open>readdir\<close>, \<^verbatim>\<open>releasedir\<close> and \<^verbatim>\<open>release\<close>, which have no handler, let
  the exception escape.  Nothing is stored for the caller, and tables, journal, data and open files stay as they are.
\<close>

theorem fuse_unresolved_path:
  assumes "local_tree g" and "dentry_tables g get_root_ino = Some t" and "length path < 2 ^ 31"
    and "this_dir_inode (dtables g t) = Some x" and "resolve g (split_path (drop 1 path)) t x = Inl e"
    and "e = No_entry \<and> c = - ENOENT \<or> e = Permission_denied \<and> c = - EACCES"
    and "flags AND O_CLOEXEC = 0" and "flags AND O_PATH = 0"
  shows "\<exists>g'. same_tree g g' \<and> fuse_getattr W path st None g = (Inr (c, st), g') \<and> fuse_access W path amask g = (Inr c, g') \<and>
    fuse_readlink W path sz g = (Inr (c, []), g') \<and> fuse_opendir W path fh g = (Inr (c, fh), g') \<and>
    fuse_open W path flags fh g = (Inr (c, fh), g') \<and> fuse_read W path len off None g = (Inr (c, []), g') \<and>
    fuse_write W path buffer sz offset None g = (Inr c, g') \<and> fuse_chmod W path mode None g = (Inr c, g') \<and>
    fuse_chown W path uid gid None g = (Inr c, g') \<and> fuse_utimens W path tv0 tv1 None g = (Inr c, g') \<and>
    fuse_truncate W path offset None g = (Inr c, g') \<and> fuse_readdir W path None g = (Inl e, g') \<and>
    fuse_releasedir W path None g = (Inl e, g') \<and> fuse_release W path None g = (Inl e, g') \<and>
    (get_parent_dir_path child = Inr path \<and> get_filename_from_path child = Inr n \<longrightarrow>
       (\<not> S_ISDIR mode \<longrightarrow> fuse_create W child mode fh g = (Inr (c, fh), g')) \<and> fuse_unlink W child g = (Inr c, g') \<and>
       fuse_mkdir W child mode g = (Inr c, g') \<and> fuse_rmdir W child g = (Inr c, g') \<and> fuse_symlink W src child g = (Inr c, g') \<and>
       (child \<noteq> target \<and> get_parent_dir_path target = Inr dst \<longrightarrow> fuse_rename W child target flags g = (Inr c, g')))"
proof -
  obtain g' where g': "path_traversal W path g = (Inl e, g')" "same_tree g g'"
    using path_traversal_local [OF assms(1-4), of W] assms(5) by auto
  note c = catch_entry_path [OF g'(1) assms(6)]
  note here = fuse_getattr_def fuse_access_def fuse_readlink_def fuse_opendir_def fuse_open_def
    fuse_read_def fuse_write_def fuse_chmod_def fuse_chown_def fuse_utimens_def fuse_truncate_def target_inode_def c
  note below = unresolved_below [OF g'(1) assms(6), of child n]
  show ?thesis using g'(2) assms(7,8) below unresolved_escapes [OF g'(1)]
    by (intro exI [of _ g']) (simp add: here)
qed

theorem fuse_unresolved_path_witness:
  "\<exists>g'. fuse_access mem_world ''/g'' 0 tree_fs = (Inr (- ENOENT), g') \<and> fuse_unlink mem_world ''/g/h'' tree_fs = (Inr (- ENOENT), g') \<and>
     fuse_readdir mem_world ''/g'' None tree_fs = (Inl No_entry, g') \<and> dtables g' = dtables tree_fs"
proof -
  have t: "dentry_tables tree_fs get_root_ino = Some 0" "this_dir_inode (dtables tree_fs 0) = Some 0"
    "child_inodes (dtables tree_fs 0) = [''f'' \<mapsto> 1]" by (simp_all add: tree_fs_def)
  have p: "get_parent_dir_path ''/g/h'' = Inr ''/g''" "get_filename_from_path ''/g/h'' = Inr ''h''" by code_simp+
  have r: "resolve tree_fs (split_path (drop 1 ''/g'')) 0 0 = Inl No_entry" using t(3) by (simp add: path_delimiter_def)
  have h: "length ''/g'' < 2 ^ 31" "(0 :: 32 word) AND O_CLOEXEC = 0" "(0 :: 32 word) AND O_PATH = 0"
    "No_entry = No_entry \<and> - ENOENT = - ENOENT \<or> No_entry = Permission_denied \<and> - ENOENT = - EACCES" by simp_all
  obtain g' where "same_tree tree_fs g'" "fuse_access mem_world ''/g'' 0 tree_fs = (Inr (- ENOENT), g')"
    "fuse_unlink mem_world ''/g/h'' tree_fs = (Inr (- ENOENT), g')" "fuse_readdir mem_world ''/g'' None tree_fs = (Inl No_entry, g')"
    using fuse_unresolved_path [OF local_tree_fs t(1) h(1) t(2) r h(4,2,3), where amask = 0 and W = mem_world and child = "''/g/h''"
        and n = "''h''"] p by blast
  then show ?thesis using same_tree_rest by fastforce
qed

text \<open>
  C3: Creating a file by path: when the path's directory is led by this client and has no such name, the
  call returns 0 and a handle open on the new file; the directory gets exactly this entry, table and
  journal stay in step, other directories are untouched, and the new inode is a regular file of the
  calling user with that directory as its parent.
\<close>

theorem fuse_create_by_path:
  assumes "lies_in g path p t" and "in_step g t base" and "get_filename_from_path path = Inr n" and "\<not> S_ISDIR mode"
    and "listing g t n = None" and "fresh_ino g t (uuid_src g (uuid_reads g))" and "fh_list g (addr_src g (addr_reads g)) = None"
  shows "yields (fuse_create W path mode fh) g (\<lambda>(r, a) g'. r = 0 \<and> a = addr_src g (addr_reads g) \<and> in_step g' t base \<and>
    listing g' t = (listing g t)(n \<mapsto> uuid_src g (uuid_reads g)) \<and> (\<forall>t'. t' \<noteq> t \<longrightarrow> dtables g' t' = dtables g t') \<and>
    child_inodes (dtables g' t) n = Some (inode_next g) \<and>
    fh_list g' = (fh_list g)(a \<mapsto> \<lparr>fh_ino = uuid_src g (uuid_reads g), fh_loc = Some LOCAL, fhno = a,
      fh_i = Some (inode_next g), fh_remote_i = None\<rparr>) \<and>
    inodes g' (inode_next g) = Inode (inode_new (uuid_src g (uuid_reads g)) (time_src g (time_reads g)) (ino_of g p)
      (client_uid (this_client g)) (client_gid (this_client g)) (mode OR S_IFREG) False))"
  by (rule yields_weaken [OF fuse_create_leader [OF assms]]) auto

theorem fuse_create_by_path_witness:
  "\<exists>g'. fuse_create mem_world ''/g'' 0x1A4 0 tree_fs = (Inr (0, 1), g') \<and>
     listing g' 0 = [''f'' \<mapsto> splice_prefix_and_postfix 1 7, ''g'' \<mapsto> splice_prefix_and_postfix 1 0]"
proof -
  have p: "get_parent_dir_path ''/g'' = Inr ''/''" "get_filename_from_path ''/g'' = Inr ''g''" by code_simp+
  have "fresh_ino tree_fs 0 (uuid_src tree_fs (uuid_reads tree_fs))"
    unfolding fresh_ino_def tree_fs_led tree_fs_simps
    by (simp add: splice_inj open_tx_def tree_fs_def mem_fs_def journal_new_def jt_init_def transaction_new_def)
  moreover have "\<not> S_ISDIR 0x1A4" by (simp add: S_ISDIR_def mode_bits)
  ultimately show ?thesis
    using fuse_create_by_path [OF lies_in_tree_fs [OF p(1)] tree_fs_led(5) p(2), of "0x1A4" mem_world 0]
    by (auto simp: yields_def tree_fs_simps tree_fs_led)
qed

text \<open>
  C12: Removing a file by path: the call returns 0, the entry leaves the directory and nothing else does,
  table and journal stay in step, and no object of the file's data is left.
\<close>

theorem fuse_unlink_by_path:
  assumes "lies_in g path p t" and "in_step g t base" and "get_filename_from_path path = Inr n"
    and "child_inodes (dtables g t) n = Some x" and "i_nlink (core (inode_at g x)) = 1"
    and "librados_healthy (w_pool W) objs" and "stores objs (data_pool g) DATA (data_key W g x) c" and "length c < 2 ^ 63"
  shows "yields (fuse_unlink W path) g (\<lambda>r g'. r = 0 \<and> in_step g' t base \<and> listing g' t = (listing g t)(n := None) \<and>
    (\<forall>t'. t' \<noteq> t \<longrightarrow> dtables g' t' = dtables g t') \<and> \<not> present objs (data_pool g') DATA (data_key W g x) \<and>
    frame objs DATA (data_key W g x) (data_pool g) (data_pool g'))"
  by (rule yields_weaken [OF fuse_unlink_leader [OF assms]]) auto

theorem fuse_unlink_by_path_witness:
  "\<exists>g'. fuse_unlink mem_world ''/f'' tree_fs = (Inr 0, g') \<and> listing g' 0 = Map.empty"
proof -
  have p: "get_parent_dir_path ''/f'' = Inr ''/''" "get_filename_from_path ''/f'' = Inr ''f''" by code_simp+
  have "librados_healthy (w_pool mem_world) (\<lambda>s. s)" using mem.librados_healthy_axioms by (simp add: mem_world_def)
  from fuse_unlink_by_path [OF lies_in_tree_fs [OF p(1)] tree_fs_led(5) p(2) _ _ this, of 1 "[]"]
  show ?thesis by (auto simp: yields_def tree_fs_simps tree_fs_simps(7) [simplified] tree_fs_led file_inode_simps)
qed

end
