(* ===== verification/Local_Dirs.thy ===== *)
theory Local_Dirs
  imports Fuse_Refine
begin

text \<open>
  Making and removing directories by path, on a client that leads the directories concerned: the
  handlers \<^verbatim>\<open>local_mkdir\<close>, \<^verbatim>\<open>lease_dentry_table_mkdir\<close>, \<^verbatim>\<open>local_rmdir_top\<close> and
  \<^verbatim>\<open>local_rmdir_down\<close>, and the calls composed of them.
\<close>

section \<open>The journal of one directory among others\<close>

lemma in_step_same:
  assumes s: "in_step g t b" and "dtables g' t = dtables g t" and j: "jtab_ok (jtab (jrnl g'))"
    "open_tx (jrnl g') (dir_ino (dtables g t)) = open_tx (jrnl g) (dir_ino (dtables g t))"
    and n: "inode_next g \<le> inode_next g'" "\<forall>x < inode_next g. ino_of g' x = ino_of g x"
  shows "in_step g' t b" and "listing g' t = listing g t"
proof -
  have coh: "coherent g t" by (rule in_step_coherent [OF s])
  then have "map_option (ino_of g') (child_inodes (dtables g t) m) = map_option (ino_of g) (child_inodes (dtables g t) m)" for m
    using n(2) by (cases "child_inodes (dtables g t) m") (auto simp: coherent_def)
  then show l: "listing g' t = listing g t" using assms(2) by (simp add: listing_def)
  have "coherent g' t" using coh l n assms(2) unfolding coherent_def by (metis order_less_le_trans)
  then show "in_step g' t b" using s l j assms(2) by (simp add: in_step_def)
qed

lemma journal_call_open:
  assumes "jtab_ok (jtab (jrnl g))" and "tx_exec raw op (open_tx (jrnl g) d) = (Inr 0, tx')"
  shows "\<exists>j. journal_call (journal_op raw d op) g = (Inr (), g\<lparr>jrnl := j\<rparr>) \<and> jtab_ok (jtab j) \<and> open_tx j d = tx' \<and>
    (\<forall>u. u \<noteq> d \<longrightarrow> open_tx j u = open_tx (jrnl g) u) \<and> meta j = meta (jrnl g)"
  using journal_op_open [OF assms] by (auto simp: journal_call_def)

text \<open>Recording in the journal of another directory.\<close>

lemma journal_other:
  assumes "in_step g t b" and "d \<noteq> dir_ino (dtables g t)" and "tx_exec raw op (open_tx (jrnl g) d) = (Inr 0, tx')"
  obtains j where "journal_call (journal_op raw d op) g = (Inr (), g\<lparr>jrnl := j\<rparr>)" and "in_step (g\<lparr>jrnl := j\<rparr>) t b"
    and "listing (g\<lparr>jrnl := j\<rparr>) t = listing g t" and "open_tx j d = tx'"
proof -
  have "jtab_ok (jtab (jrnl g))" using assms(1) by (simp add: in_step_def)
  from journal_call_open [OF this assms(3)] obtain j where
    j: "journal_call (journal_op raw d op) g = (Inr (), g\<lparr>jrnl := j\<rparr>)" "jtab_ok (jtab j)" "open_tx j d = tx'"
      "\<forall>u. u \<noteq> d \<longrightarrow> open_tx j u = open_tx (jrnl g) u" by blast
  have "ino_of (g\<lparr>jrnl := j\<rparr>) = ino_of g" by (simp add: ino_of_def inode_at_def fun_eq_iff)
  with in_step_same [OF assms(1), of "g\<lparr>jrnl := j\<rparr>"] j assms(2) show thesis by (intro that [OF j(1)]) auto
qed

text \<open>Recording a new and a removed subdirectory.\<close>

lemma record_mkdir:
  assumes s: "in_step g t b" and e: "edited g t ((listing g t)(n \<mapsto> u)) g1"
    and p: "ino_of g1 p = dir_ino (dtables g t)" and n: "listing g t n = None" and u: "u \<notin> ran (listing g t)"
    and f: "f_inodes (open_tx (jrnl g) (dir_ino (dtables g t))) u \<noteq> Some None"
  shows "yields (j_mkdir W p n u) g1 (\<lambda>_ g2. in_step g2 t b \<and> listing g2 t = listing g1 t \<and>
    journaled_in (dir_ino (dtables g t)) g1 g2)"
proof -
  let ?d = "dir_ino (dtables g t)" and ?op = "Mkdir (inode_at g1 p) n u"
  let ?tx = "open_tx (jrnl g) ?d"
  note S = s [unfolded in_step_def] and E = e [unfolded edited_def]
  have "\<not> committed ?tx" using S by (simp add: open_tx_uncommitted)
  from tx_mkdir_ok [OF this in_step_marks(1) [OF s n]] obtain tx' where
    x: "tx_exec (w_raw W) ?op ?tx = (Inr 0, tx')" "f_inodes tx' = f_inodes ?tx" by blast
  have exec: "tx_exec (w_raw W) ?op (open_tx (jrnl g1) ?d) = (Inr 0, tx')" using x(1) E by simp
  have "yields (journal_call (journal_op (w_raw W) ?d ?op)) g1
      (\<lambda>_ g'. in_step g' t b \<and> listing g' t = listing g1 t \<and> journaled ?d tx' g1 g')"
  proof (rule journal_in_step [OF _ _ _ exec])
    show "\<forall>v \<in> ran (listing g1 t). f_inodes tx' v \<noteq> Some None"
    proof
      fix v
      assume "v \<in> ran (listing g1 t)"
      then have "v = u \<or> v \<in> ran (listing g t)" using E ran_enter [of v "listing g t"] by simp
      then show "f_inodes tx' v \<noteq> Some None" using S f by (auto simp: x(2))
    qed
    show "inj_on (listing g1 t) (dom (listing g1 t))" using inj_on_enter [OF _ u, of n] S E by simp
  qed (use S E in simp_all)
  then show ?thesis using p by (auto simp: yields_def j_mkdir_def journal_mkdir_def ino_of_def)
qed


lemma record_rmdir:
  assumes s: "in_step g t b" and e: "edited g t ((listing g t)(n := None)) g1"
    and p: "ino_of g1 p = dir_ino (dtables g t)" and n: "listing g t n = Some u"
  shows "yields (j_rmdir W p n u) g1 (\<lambda>_ g2. in_step g2 t b \<and> listing g2 t = listing g1 t \<and>
    journaled_in (dir_ino (dtables g t)) g1 g2)"
proof -
  let ?d = "dir_ino (dtables g t)" and ?op = "Rmdir (inode_at g1 p) n u"
  let ?tx = "open_tx (jrnl g) ?d"
  note S = s [unfolded in_step_def] and E = e [unfolded edited_def]
  have "\<not> committed ?tx" using S by (simp add: open_tx_uncommitted)
  from tx_rmdir_ok [OF this in_step_marks(2) [OF s n]] obtain tx' where
    x: "tx_exec (w_raw W) ?op ?tx = (Inr 0, tx')" "f_inodes tx' = f_inodes ?tx" by blast
  have exec: "tx_exec (w_raw W) ?op (open_tx (jrnl g1) ?d) = (Inr 0, tx')" using x(1) E by simp
  have "yields (journal_call (journal_op (w_raw W) ?d ?op)) g1
      (\<lambda>_ g'. in_step g' t b \<and> listing g' t = listing g1 t \<and> journaled ?d tx' g1 g')"
  proof (rule journal_in_step [OF _ _ _ exec])
    show "\<forall>v \<in> ran (listing g1 t). f_inodes tx' v \<noteq> Some None"
      using S E x(2) by (auto simp: ran_def split: if_splits)
    show "inj_on (listing g1 t) (dom (listing g1 t))" using inj_on_leave [of "listing g t" n] S E by simp
  qed (use S E in simp_all)
  then show ?thesis using p by (auto simp: yields_def j_rmdir_def journal_rmdir_def ino_of_def)
qed


section \<open>Making a directory\<close>

text \<open>A number nobody uses yet.\<close>

definition unused_ino :: "('s, 'e) fs \<Rightarrow> nat \<Rightarrow> uuid \<Rightarrow> bool" where
  "unused_ino g t u \<longleftrightarrow> u \<notin> ran (listing g t) \<and> f_inodes (open_tx (jrnl g) (dir_ino (dtables g t))) u = None \<and>
     u \<noteq> dir_ino (dtables g t) \<and> open_tx (jrnl g) u = transaction_new u \<and> dentry_tables g u = None"

text \<open>The inode of a directory that \<^verbatim>\<open>mkdir\<close> makes.\<close>

definition dir_inode :: "('s, 'e) fs \<Rightarrow> nat \<Rightarrow> 32 word \<Rightarrow> inode" where
  "dir_inode g p mode =
     (let i = inode_new (uuid_src g (uuid_reads g)) (time_src g (time_reads g)) (ino_of g p)
        (client_uid (this_client g)) (client_gid (this_client g)) (mode OR S_IFDIR) False
      in i\<lparr>core := (core i)\<lparr>i_size := DIR_INODE_SIZE\<rparr>\<rparr>)"

lemma local_mkdir_ok:
  fixes g :: "('s, 'e) fs"
  defines "u \<equiv> uuid_src g (uuid_reads g)" and "x \<equiv> inode_next g"
  assumes lead: "leads g p t b" and n: "listing g t n = None" and u: "unused_ino g t u"
  shows "yields (local_mkdir W p n mode) g (\<lambda>(r, x', d) g'. r = 0 \<and> x' = x \<and> d = \<lparr>this_ino = u, child_list = Map.empty\<rparr> \<and>
    in_step g' t b \<and> listing g' t = (listing g t)(n \<mapsto> u) \<and> (\<forall>t'. t' \<noteq> t \<longrightarrow> dtables g' t' = dtables g t') \<and>
    child_inodes (dtables g' t) n = Some x \<and> inodes g' x = Inode (dir_inode g p mode) \<and> x < inode_next g' \<and>
    open_tx (jrnl g') u = (transaction_new u)\<lparr>s_inode := Some (inode_copy (w_raw W) (dir_inode g p mode)), status := S_CREATED\<rparr> \<and>
    dentry_tables g' = dentry_tables g \<and> dtable_next g' = dtable_next g \<and> leases g' = leases g \<and> env g' = env g)"
proof -
  have lead': "served (ino_of g p) g = Some t" "in_step g t b" "p < x" "ino_of g p = dir_ino (dtables g t)"
    using lead unfolding leads_def x_def by blast+
  note U = u [unfolded unused_ino_def]
  let ?i = "inode_new u (time_src g (time_reads g)) (ino_of g p) (client_uid (this_client g)) (client_gid (this_client g)) (mode OR S_IFDIR) False"
  let ?g1 = "g\<lparr>clock_reads := Suc (clock_reads g)\<rparr>"
  let ?g2 = "?g1\<lparr>time_reads := Suc (time_reads g), uuid_reads := Suc (uuid_reads g), inodes := (inodes g)(x := Inode ?i), inode_next := Suc x\<rparr>"
  have "ino_of ?g1 = ino_of g" by (simp add: ino_of_def inode_at_def fun_eq_iff)
  then have m: "make_inode p (mode OR S_IFDIR) ?g1 = (Inr x, ?g2)" by (simp add: make_inode_eq u_def x_def)
  have q2: "quiet g ?g2" by (rule quiet_trans [OF _ make_inode_quiet [OF m]]) simp
  have coh: "coherent g t" using lead'(2) by (simp add: in_step_def)
  have s2: "in_step ?g2 t b" by (rule quiet_in_step [OF q2 lead'(2)])
  have l2: "listing ?g2 t = listing g t" by (rule quiet_listing(1) [OF q2 coh])
  have ux: "ino_of ?g2 x = u" by (simp add: ino_of_def inode_at_def inode_new_def new_core_def)
  from create_edited [OF in_step_coherent [OF s2], of x n] n l2 ux obtain r g3 ds where
    g3: "create_child_inode t n x ?g2 = (Inr r, g3)" "edited ?g2 t ((listing ?g2 t)(n \<mapsto> u)) g3" "g3 = ?g2\<lparr>dtables := ds\<rparr>"
      "child_inodes (dtables g3 t) = (child_inodes (dtables ?g2 t))(n \<mapsto> x)" by (auto simp: yields_def)
  obtain g4 where g4: "touch_dir p g3 = (Inr (), g4)" by (simp add: touch_dir_eq)
  have e4: "edited ?g2 t ((listing ?g2 t)(n \<mapsto> u)) g4" by (rule edited_quiet [OF g3(2) touch_dir_quiet [OF g4]])
  have "ino_of ?g2 p = ino_of g p" using q2 lead'(3) by (simp add: quiet_def x_def)
  then have x4: "ino_of g4 x = u" "ino_of g4 p = dir_ino (dtables ?g2 t)"
    using e4 ux lead'(3,4) by (simp_all add: edited_def)
  obtain g5 j where g5: "j_mkdir W p n u g4 = (Inr (), g5)" "in_step g5 t b" "listing g5 t = (listing g t)(n \<mapsto> u)"
    "g5 = g4\<lparr>jrnl := j\<rparr>" "\<forall>v. v \<noteq> dir_ino (dtables g t) \<longrightarrow> open_tx j v = open_tx (jrnl g) v"
    using record_mkdir [OF s2 e4 x4(2), of W] n l2 U e4 unfolding yields_def journaled_def by (auto simp: edited_def)
  let ?f = "\<lambda>c. c\<lparr>i_size := DIR_INODE_SIZE\<rparr>"
  let ?g6 = "g5\<lparr>inodes := (inodes g5)(x := Inode (dir_inode g p mode))\<rparr>"
  have ix: "inodes g5 x = Inode ?i" using g5(4) g4 g3(3) lead'(3) by (auto simp: touch_dir_eq)
  then have g6: "update_core x ?f g5 = (Inr (), ?g6)"
    by (simp add: update_core_def update_inode_def dir_inode_def Let_def u_def)
  have s6: "in_step ?g6 t b" "listing ?g6 t = (listing g t)(n \<mapsto> u)"
    using quiet_in_step [OF _ g5(2), of ?g6] quiet_listing(1) [OF _ in_step_coherent [OF g5(2)], of ?g6] update_core_quiet [of ?f g5 x] g6 g5(3)
    by simp_all
  have ino6: "i_ino (core (dir_inode g p mode)) = u" "inode_at ?g6 x = dir_inode g p mode"
    by (simp_all add: inode_at_def dir_inode_def inode_new_def new_core_def Let_def u_def)
  let ?tx = "(transaction_new u)\<lparr>s_inode := Some (inode_copy (w_raw W) (dir_inode g p mode)), status := S_CREATED\<rparr>"
  have "tx_exec (w_raw W) (Mkself (dir_inode g p mode)) (open_tx (jrnl ?g6) u) = (Inr 0, ?tx)"
    using g5(4,5) U by (simp add: tx_mkself_def)
  moreover have "u \<noteq> dir_ino (dtables ?g6 t)" using U g5(4) e4 by (auto simp: edited_def)
  ultimately obtain j' where j': "journal_call (journal_op (w_raw W) u (Mkself (dir_inode g p mode))) ?g6 = (Inr (), ?g6\<lparr>jrnl := j'\<rparr>)"
    "in_step (?g6\<lparr>jrnl := j'\<rparr>) t b" "listing (?g6\<lparr>jrnl := j'\<rparr>) t = listing ?g6 t" "open_tx j' u = ?tx"
    using journal_other [OF s6(1)] by metis
  then have g7: "j_mkself W x ?g6 = (Inr (), ?g6\<lparr>jrnl := j'\<rparr>)" by (simp add: j_mkself_def journal_mkself_def ino6)
  have "local_mkdir W p n mode g = (Inr (0, x, \<lparr>this_ino = u, child_list = Map.empty\<rparr>), ?g6\<lparr>jrnl := j'\<rparr>)"
    unfolding local_mkdir_def
    using table_of_served [OF lead'(1)] m g3(1) g4 x4(1) g5(1) g6 g7 ino6 by (simp add: dentry_new_def ino_of_def)
  then show ?thesis
    using j'(2-4) s6(2) g5(4) g4 g3 lead'(3)
    by (intro yieldsI [of _ _ "(0, x, \<lparr>this_ino = u, child_list = Map.empty\<rparr>)" "?g6\<lparr>jrnl := j'\<rparr>"]) (auto simp: touch_dir_eq edited_def)
qed


text \<open>The manager grants this client the lease of a directory, whatever its clock shows.\<close>

definition grants :: "('s, 'e) world \<Rightarrow> ('s, 'e) fs \<Rightarrow> uuid \<Rightarrow> bool" where
  "grants W g u \<longleftrightarrow> (\<forall>h. leases h = leases g \<and> env h = env g \<longrightarrow> (\<exists>a h'. lc_acquire W u [] h = (Inr (0, a), h')))"

lemma lease_dentry_table_mkdir_ok:
  assumes "grants W g u" and u: "ino_of g x = u" "x < inode_next g" and none: "dentry_tables g u = None"
    and tx: "jtab_ok (jtab (jrnl g))" "dentries (open_tx (jrnl g) u) = Map.empty"
  shows "yields (lease_dentry_table_mkdir W x \<lparr>this_ino = u, child_list = Map.empty\<rparr>) g (\<lambda>q g'. q = Some (dtable_next g) \<and>
    in_step g' (dtable_next g) Map.empty \<and> listing g' (dtable_next g) = Map.empty \<and> dir_ino (dtables g' (dtable_next g)) = u \<and>
    dentry_tables g' = (dentry_tables g)(u \<mapsto> dtable_next g) \<and> jrnl g' = jrnl g \<and>
    (\<forall>t. t \<noteq> dtable_next g \<longrightarrow> dtables g' t = dtables g t) \<and> inode_next g' = inode_next g \<and> ino_of g' = ino_of g \<and>
    (\<forall>y. core (inode_at g' y) = core (inode_at g y)))"
proof -
  from assms(1) obtain a g1 where acq: "lc_acquire W u [] g = (Inr (0, a), g1)" by (auto simp: grants_def)
  from lc_acquire_frame [OF acq] obtain l e k where g1: "g1 = g\<lparr>clock_reads := k, leases := l, env := e\<rparr>" by blast
  let ?t = "dtable_next g" and ?h = "(inodes g)(x := map_base (\<lambda>i. i\<lparr>loc := LOCAL\<rparr>) (inodes g x))"
  let ?dt = "(empty_table u LOCAL)\<lparr>this_dir_inode := Some x, dt_dentries := Some \<lparr>this_ino = u, child_list = Map.empty\<rparr>, leader_ip := a\<rparr>"
  let ?g = "g1\<lparr>inodes := ?h, dtables := (dtables g)(?t := ?dt), dtable_next := Suc ?t, dentry_tables := (dentry_tables g)(u \<mapsto> ?t)\<rparr>"
  have ino1: "ino_of g1 x = u" using u by (simp add: g1 ino_of_def inode_at_def)
  have run: "lease_dentry_table_mkdir W x \<lparr>this_ino = u, child_list = Map.empty\<rparr> g = (Inr (Some ?t), ?g)"
    using acq ino1 none u
    by (simp add: lease_dentry_table_mkdir_def dentry_table_new_dir_def set_leader_ip_def add_dentry_table_def heap_ops g1)
  have c: "core (inode_at ?g y) = core (inode_at g y)" for y by (simp add: inode_at_def g1)
  have i: "ino_of ?g = ino_of g" by (simp add: ino_of_def inode_at_def g1 fun_eq_iff)
  have l: "listing ?g ?t = Map.empty" by (simp add: listing_def empty_table_def fun_eq_iff)
  have "coherent ?g ?t" using u i l by (simp add: coherent_def empty_table_def g1)
  then have s: "in_step ?g ?t Map.empty" using tx l by (simp add: in_step_def g1 empty_table_def)
  have "dir_ino (dtables ?g ?t) = u" "dentry_tables ?g = (dentry_tables g)(u \<mapsto> ?t)" "jrnl ?g = jrnl g"
    "\<forall>t. t \<noteq> ?t \<longrightarrow> dtables ?g t = dtables g t" "inode_next ?g = inode_next g" by (simp_all add: g1 empty_table_def)
  with run s l i c show ?thesis unfolding yields_def by blast
qed

text \<open>
  C8: Making a directory by path, on a client that leads the path's directory and is granted the lease of
  the new one: the call returns 0; the parent gets exactly this entry and stays in step with its journal;
  the new directory is served from a new table, in step and empty; its own journal holds its inode, marked
  as created; no other table changes.
\<close>

theorem fuse_mkdir_by_path:
  assumes "lies_in g path p t" and "in_step g t base" and "get_filename_from_path path = Inr n" and "listing g t n = None"
    and "u = uuid_src g (uuid_reads g)" and "unused_ino g t u" and "grants W g u" and "t < dtable_next g"
  shows "yields (fuse_mkdir W path mode) g (\<lambda>r g'. r = 0 \<and> in_step g' t base \<and> listing g' t = (listing g t)(n \<mapsto> u) \<and>
    dentry_tables g' = (dentry_tables g)(u \<mapsto> dtable_next g) \<and> dir_ino (dtables g' (dtable_next g)) = u \<and>
    in_step g' (dtable_next g) Map.empty \<and> listing g' (dtable_next g) = Map.empty \<and>
    open_tx (jrnl g') u = (transaction_new u)\<lparr>s_inode := Some (inode_copy (w_raw W) (dir_inode g p mode)), status := S_CREATED\<rparr> \<and>
    (\<forall>t'. t' \<noteq> t \<and> t' \<noteq> dtable_next g \<longrightarrow> dtables g' t' = dtables g t'))"
proof -
  obtain g1 where g1: "parent_dir W path g = (Inr (p, t), g1)" "same_tree g g1" by (rule parent_dir_ok [OF assms(1)])
  note L = lies_in_leads [OF assms(1,2) g1(2)] and R = same_tree_rest [OF g1(2)]
  have coh: "coherent g t" by (rule in_step_coherent [OF assms(2)])
  note q = same_tree_quiet [OF g1(2)] and l = quiet_listing(1) [OF same_tree_quiet [OF g1(2)] coh]
  have idx: "dentry_tables g1 = dentry_tables g" "dtable_next g1 = dtable_next g" "leases g1 = leases g" "env g1 = env g" "jrnl g1 = jrnl g"
    using g1(2) by (auto elim!: same_treeE)
  have "ino_of g1 p = ino_of g p" using q assms(1) by (simp add: quiet_def lies_in_def)
  then have di: "dir_inode g1 p mode = dir_inode g p mode" using R by (simp add: dir_inode_def)
  have "listing g1 t n = None" "unused_ino g1 t (uuid_src g1 (uuid_reads g1))"
    using assms(4-6) l R idx by (simp_all add: unused_ino_def)
  from local_mkdir_ok [OF L(1) this, of W mode] R di l idx obtain g2 where
    m: "local_mkdir W p n mode g1 = (Inr (0, inode_next g, \<lparr>this_ino = u, child_list = Map.empty\<rparr>), g2)"
    and g2: "in_step g2 t base" "listing g2 t = (listing g t)(n \<mapsto> u)" "\<forall>t'. t' \<noteq> t \<longrightarrow> dtables g2 t' = dtables g t'"
      "inodes g2 (inode_next g) = Inode (dir_inode g p mode)" "inode_next g < inode_next g2"
      "open_tx (jrnl g2) u = (transaction_new u)\<lparr>s_inode := Some (inode_copy (w_raw W) (dir_inode g p mode)), status := S_CREATED\<rparr>"
      "dentry_tables g2 = dentry_tables g" "dtable_next g2 = dtable_next g" "leases g2 = leases g" "env g2 = env g"
    unfolding yields_def assms(5) by (auto split: prod.splits)
  have "ino_of g2 (inode_next g) = u"
    using g2(4) assms(5) by (simp add: ino_of_def inode_at_def dir_inode_def inode_new_def new_core_def Let_def)
  moreover have "grants W g2 u" using assms(7) g2(9,10) by (simp add: grants_def)
  moreover have "dentry_tables g2 u = None" using assms(6) g2(7) by (simp add: unused_ino_def)
  moreover have "jtab_ok (jtab (jrnl g2))" "dentries (open_tx (jrnl g2) u) = Map.empty"
    using g2(1,6) by (simp_all add: in_step_def transaction_new_def)
  ultimately obtain g3 where
    t: "lease_dentry_table_mkdir W (inode_next g) \<lparr>this_ino = u, child_list = Map.empty\<rparr> g2 = (Inr (Some (dtable_next g)), g3)"
    and g3: "in_step g3 (dtable_next g) Map.empty" "listing g3 (dtable_next g) = Map.empty" "dir_ino (dtables g3 (dtable_next g)) = u"
      "dentry_tables g3 = (dentry_tables g)(u \<mapsto> dtable_next g)" "jrnl g3 = jrnl g2"
      "\<forall>t. t \<noteq> dtable_next g \<longrightarrow> dtables g3 t = dtables g2 t" "inode_next g3 = inode_next g2" "ino_of g3 = ino_of g2"
    using lease_dentry_table_mkdir_ok [of W g2 u "inode_next g"] g2(5,7,8) by (auto simp: yields_def)
  have "in_step g3 t base" "listing g3 t = (listing g t)(n \<mapsto> u)"
    using in_step_same [OF g2(1), of g3] g3 g2(1,2) assms(8) by (simp_all add: in_step_def)
  moreover have "fuse_mkdir W path mode g = (Inr 0, g3)"
    using assms(3) g1(1) L(2) m t by (simp add: fuse_mkdir_def catch_entry_def by_table_def)
  ultimately show ?thesis using g2(3,6) g3 by (intro yieldsI [of _ _ 0 g3]) simp_all
qed


lemma tree_fs_grants:
  assumes "u \<noteq> get_root_ino"
  shows "grants mem_world tree_fs u"
proof -
  have "leases tree_fs u = None" "env tree_fs = Map.empty" using assms by (simp_all add: tree_fs_def mem_fs_def)
  then show ?thesis
    by (auto simp: grants_def lc_acquire_def bindE_def read_clock_def mem_world_def lease_client_acquire_def
        is_mine_def lease_impl_acquire_def lease_table_acquire_def acquire_find_def acquire_insert_def Let_def
        lease_reply_def handle_response_def)
qed

lemma tree_fs_unused:
  assumes "u \<noteq> splice_prefix_and_postfix 1 7" and "u \<noteq> get_root_ino"
  shows "unused_ino tree_fs 0 u"
  using assms listing_tree_fs
  by (simp add: unused_ino_def tree_fs_simps) (simp add: open_tx_def tree_fs_def mem_fs_def journal_new_def jt_init_def transaction_new_def)

theorem fuse_mkdir_by_path_witness:
  "\<exists>g'. fuse_mkdir mem_world ''/d'' 0x1ED tree_fs = (Inr 0, g') \<and>
     listing g' 0 = [''f'' \<mapsto> splice_prefix_and_postfix 1 7, ''d'' \<mapsto> splice_prefix_and_postfix 1 0] \<and>
     listing g' 1 = Map.empty"
proof -
  have p: "get_parent_dir_path ''/d'' = Inr ''/''" "get_filename_from_path ''/d'' = Inr ''d''" by code_simp+
  have u: "splice_prefix_and_postfix 1 0 \<noteq> splice_prefix_and_postfix 1 7" "splice_prefix_and_postfix 1 0 \<noteq> get_root_ino"
    by (simp_all add: splice_inj splice_not_root)
  have "uuid_src tree_fs (uuid_reads tree_fs) = splice_prefix_and_postfix 1 0" "dtable_next tree_fs = 1"
    by (simp_all add: tree_fs_simps) (simp add: tree_fs_def)
  then show ?thesis
    using fuse_mkdir_by_path [OF lies_in_tree_fs [OF p(1)] tree_fs_led(5) p(2) _ _ tree_fs_unused [OF u] tree_fs_grants [OF u(2)], of "0x1ED"]
    by (auto simp: yields_def listing_tree_fs)
qed


section \<open>Removing a directory\<close>

lemma child_num_zero:
  assumes "iteration (ord_children (w_ords W))" and "coherent g t" and "finite (dom (listing g t))"
  shows "\<exists>k. dt_get_child_num W t g = (Inr k, g) \<and> (k = 0 \<longleftrightarrow> listing g t = Map.empty)"
proof -
  obtain d where d: "dt_dentries (dtables g t) = Some d" "child_list d = listing g t" using assms(2) by (auto simp: coherent_def)
  have "map_of (ord_children (w_ords W) (listing g t)) = listing g t" using assms(1,3) by (simp add: iteration_def)
  then have "ord_children (w_ords W) (listing g t) = [] \<longleftrightarrow> listing g t = Map.empty"
    by (metis map_of.simps(1) map_of_eq_empty_iff)
  then show ?thesis using d by (simp add: dt_get_child_num_def get_child_num_def)
qed

lemma local_rmdir_top_ok:
  assumes it: "iteration (ord_children (w_ords W))" and v: "served u g = Some t2" and c: "coherent g t2" "finite (dom (listing g t2))"
    and ok: "jtab_ok (jtab (jrnl g))"
  shows "listing g t2 \<noteq> Map.empty \<Longrightarrow> local_rmdir_top W x u g = (Inr (- ENOTEMPTY), g\<lparr>clock_reads := Suc (clock_reads g)\<rparr>)"
    and "listing g t2 = Map.empty \<Longrightarrow> \<exists>j. local_rmdir_top W x u g =
      (Inr 0, g\<lparr>clock_reads := Suc (clock_reads g), jrnl := j, dentry_tables := (dentry_tables g)(u := None)\<rparr>) \<and>
      jtab_ok (jtab j) \<and> open_tx j u = (open_tx (jrnl g) u)\<lparr>status := S_DELETED\<rparr> \<and>
      (\<forall>w. w \<noteq> u \<longrightarrow> open_tx j w = open_tx (jrnl g) w)"
proof -
  let ?g = "g\<lparr>clock_reads := Suc (clock_reads g)\<rparr>"
  have same: "coherent ?g t2" "listing ?g t2 = listing g t2" using quiet_listing [OF quiet_simps(1) c(1)] by simp_all
  obtain k where k: "dt_get_child_num W t2 ?g = (Inr k, ?g)" "k = 0 \<longleftrightarrow> listing g t2 = Map.empty"
    using child_num_zero [OF it same(1)] c(2) unfolding same(2) by blast
  have t: "get_dentry_table W u False g = (Inr (Some t2), ?g)" by (rule get_dentry_table_hit [OF v])
  show "local_rmdir_top W x u g = (Inr (- ENOTEMPTY), ?g)" if "listing g t2 \<noteq> Map.empty"
    using t k that by (simp add: local_rmdir_top_def)
  have e: "tx_exec (w_raw W) (Rmself u) (open_tx (jrnl ?g) u) = (Inr 0, (open_tx (jrnl g) u)\<lparr>status := S_DELETED\<rparr>)"
    using open_tx_uncommitted [OF ok] by (simp add: tx_rmself_def)
  from journal_call_open [OF _ this] ok obtain j where
    j: "journal_call (journal_op (w_raw W) u (Rmself u)) ?g = (Inr (), ?g\<lparr>jrnl := j\<rparr>)" "jtab_ok (jtab j)"
      "open_tx j u = (open_tx (jrnl g) u)\<lparr>status := S_DELETED\<rparr>" "\<forall>w. w \<noteq> u \<longrightarrow> open_tx j w = open_tx (jrnl g) w" by auto
  have "\<exists>t. dentry_tables g u = Some t" using v by (auto simp: served_def split: option.splits)
  with j t k show "\<exists>j. local_rmdir_top W x u g =
      (Inr 0, g\<lparr>clock_reads := Suc (clock_reads g), jrnl := j, dentry_tables := (dentry_tables g)(u := None)\<rparr>) \<and>
      jtab_ok (jtab j) \<and> open_tx j u = (open_tx (jrnl g) u)\<lparr>status := S_DELETED\<rparr> \<and>
      (\<forall>w. w \<noteq> u \<longrightarrow> open_tx j w = open_tx (jrnl g) w)" if "listing g t2 = Map.empty"
    using that by (intro exI [of _ j]) (auto simp: local_rmdir_top_def j_rmself_def journal_rmself_def delete_dentry_table_def)
qed

lemma local_rmdir_down_ok:
  assumes lead: "leads g p t b" and n: "listing g t n = Some u"
  shows "yields (local_rmdir_down W p u n) g (\<lambda>r g'. r = 0 \<and> in_step g' t b \<and> listing g' t = (listing g t)(n := None) \<and>
    (\<forall>t'. t' \<noteq> t \<longrightarrow> dtables g' t' = dtables g t') \<and> dentry_tables g' = (dentry_tables g)(u := None) \<and>
    (\<forall>v. v \<noteq> dir_ino (dtables g t) \<longrightarrow> open_tx (jrnl g') v = open_tx (jrnl g) v))"
proof -
  have lead': "served (ino_of g p) g = Some t" "in_step g t b" "p < inode_next g" "ino_of g p = dir_ino (dtables g t)"
    using lead unfolding leads_def by blast+
  let ?g1 = "g\<lparr>clock_reads := Suc (clock_reads g)\<rparr>"
  have q: "quiet g ?g1" by simp
  have s1: "in_step ?g1 t b" by (rule quiet_in_step [OF q lead'(2)])
  have l1: "listing ?g1 t = listing g t" by (rule quiet_listing(1) [OF q in_step_coherent [OF lead'(2)]])
  from delete_edited [OF in_step_coherent [OF s1], of n u] n l1 obtain r g2 ds where
    g2: "delete_child_inode t n ?g1 = (Inr r, g2)" "edited ?g1 t ((listing ?g1 t)(n := None)) g2" "g2 = ?g1\<lparr>dtables := ds\<rparr>"
    by (auto simp: yields_def)
  obtain g3 where g3: "touch_dir p g2 = (Inr (), g3)" by (simp add: touch_dir_eq)
  have e3: "edited ?g1 t ((listing ?g1 t)(n := None)) g3" by (rule edited_quiet [OF g2(2) touch_dir_quiet [OF g3]])
  have "ino_of g3 p = ino_of ?g1 p" using e3 lead'(3) by (simp add: edited_def)
  also have "\<dots> = dir_ino (dtables ?g1 t)" using lead'(4) by (simp add: ino_of_def inode_at_def)
  finally obtain g4 j where g4: "j_rmdir W p n u g3 = (Inr (), g4)" "in_step g4 t b" "listing g4 t = (listing g t)(n := None)"
    "g4 = g3\<lparr>jrnl := j\<rparr>" "\<forall>v. v \<noteq> dir_ino (dtables g t) \<longrightarrow> open_tx j v = open_tx (jrnl g) v"
    using record_rmdir [OF s1 e3, of p u W] n l1 e3 unfolding yields_def journaled_def by (auto simp: edited_def)
  let ?g5 = "g4\<lparr>dentry_tables := (dentry_tables g4)(u := None)\<rparr>"
  have d: "delete_dentry_table u g4 = (Inr (case dentry_tables g4 u of None \<Rightarrow> -1 | Some _ \<Rightarrow> 0), ?g5)"
    by (auto simp: delete_dentry_table_def fun_upd_idem split: option.split)
  have "get_dentry_table W (ino_of g p) False g = (Inr (Some t), ?g1)" by (rule get_dentry_table_hit [OF lead'(1)])
  then have "local_rmdir_down W p u n g = (Inr 0, ?g5)"
    unfolding local_rmdir_down_def using g2(1) g3 g4(1) d by simp
  moreover have "in_step ?g5 t b" "listing ?g5 t = (listing g t)(n := None)"
    using in_step_same [OF g4(2), of ?g5] g4(2,3) by (simp_all add: in_step_def)
  ultimately show ?thesis using g4(4,5) g3 g2(2,3) 
    by (intro yieldsI [of _ _ 0 ?g5]) (auto simp: touch_dir_eq edited_def)
qed


lemma same_tree_mono: "same_tree g g1 \<Longrightarrow> quiet g g1 \<and> jrnl g1 = jrnl g \<and> listing g1 t = listing g t"
  using same_tree_quiet [of g g1] same_tree_simps(1,6) [of g g1] by (auto simp: listing_def elim!: same_treeE)

text \<open>Up to the two halves of the removal, the path has been resolved and nothing else has changed.\<close>

lemma fuse_rmdir_run:
  assumes lies: "lies_in g path p t" and step: "in_step g t base" and n: "get_filename_from_path path = Inr n" "n \<noteq> ''/''"
    and x: "child_inodes (dtables g t) n = Some x" "S_ISDIR (i_mode (core (inode_at g x)))"
    and idx: "dentry_tables g (ino_of g x) = Some t2"
  obtains g3 where "same_tree g g3" and "dt_loc (dtables g3 t) = LOCAL"
    and "fuse_rmdir W path g = catch_entry id (bindE (local_rmdir_top W x (ino_of g x)) (\<lambda>r.
      if r = 0 then rmdir_down W t p (ino_of g x) n else returnE r)) g3"
proof -
  let ?u = "ino_of g x"
  have tree: "local_tree g" and P: "dentry_tables g (ino_of g p) = Some t" using lies unfolding lies_in_def by blast+
  obtain g1 where g1: "parent_dir W path g = (Inr (p, t), g1)" "same_tree g g1" by (rule parent_dir_ok [OF lies])
  have c1: "coherent g1 t" and l1: "listing g1 t = listing g t"
    using quiet_listing [OF same_tree_quiet [OF g1(2)] in_step_coherent [OF step]] by simp_all
  have "listing g t n = Some ?u" using x(1) by (simp add: listing_def)
  then have chk: "check_child_inode W t n g1 = (Inr ?u, g1)" using dt.check_view [OF c1 n(2), of W] l1 by simp
  let ?g2 = "g1\<lparr>inodes := (inodes g1)(x := map_base (\<lambda>i. i\<lparr>loc := LOCAL\<rparr>) (inodes g1 x))\<rparr>"
  have same2: "same_tree g ?g2" by (rule same_tree_loc [OF g1(2)])
  have get: "get_child_inode W t n nil_uuid g1 = (Inr (Some x), ?g2)"
    using c1 x(1) same_tree_simps(1) [OF g1(2)] by (simp add: get_child_inode_def coherent_def update_inode_def Let_def)
  obtain i where i: "inodes ?g2 x = Inode i"
    using same_tree_simps(8) [OF same2, of x] local_treeD(4) [OF tree P x(1)] by blast
  have mode: "get_mode W x ?g2 = (Inr (i_mode (core i)), ?g2)" "S_ISDIR (i_mode (core i))"
    using i x(2) same_tree_simps(7) [OF same2, of x] by (simp_all add: get_mode_def inode_at_def)
  let ?g3 = "?g2\<lparr>clock_reads := Suc (clock_reads ?g2)\<rparr>"
  have same3: "same_tree g ?g3" by (rule same_tree_clock [OF same2])
  have t2: "get_dentry_table W ?u False ?g2 = (Inr (Some t2), ?g3)"
    by (rule get_dentry_table_hit [OF served_same_tree [OF tree same2 idx]])
  have loc: "dt_loc (dtables ?g3 t) = LOCAL" "dt_loc (dtables ?g3 t2) = LOCAL"
    using local_treeD(1) [OF tree P] local_treeD(1) [OF tree idx] same_tree_simps(1) [OF same3] by (simp_all add: coherent_def)
  show thesis
    by (rule that [OF same3 loc(1)])
      (use n(1) g1(1) chk get mode t2 loc in \<open>simp add: fuse_rmdir_def catch_entry_def deref_def led_def rmdir_top_def by_table_def bindE_def\<close>)
qed

text \<open>Removing the empty directory, in the state the path was resolved in.\<close>

lemma rmdir_empty_ok:
  assumes lead: "leads g p t base" and n: "listing g t n = Some u" and u: "u \<noteq> ino_of g p"
    and it: "iteration (ord_children (w_ords W))" and v: "served u g = Some t2" and c: "coherent g t2" "listing g t2 = Map.empty"
    and later: "served (ino_of g p) (g\<lparr>clock_reads := Suc (clock_reads g)\<rparr>) = Some t"
  shows "yields (bindE (local_rmdir_top W x u) (\<lambda>r. if r = 0 then rmdir_down W t p u n else returnE r)) g (\<lambda>r g'.
    r = 0 \<and> in_step g' t base \<and> listing g' t = (listing g t)(n := None) \<and> dentry_tables g' = (dentry_tables g)(u := None) \<and>
    open_tx (jrnl g') u = (open_tx (jrnl g) u)\<lparr>status := S_DELETED\<rparr> \<and> (\<forall>t'. t' \<noteq> t \<longrightarrow> dtables g' t' = dtables g t'))"
proof -
  have L: "served (ino_of g p) g = Some t" "in_step g t base" "p < inode_next g" "ino_of g p = dir_ino (dtables g t)"
    using lead unfolding leads_def by blast+
  have ok: "jtab_ok (jtab (jrnl g))" and loc: "dt_loc (dtables g t) = LOCAL"
    using L(2) in_step_coherent [OF L(2)] by (simp_all add: in_step_def coherent_def)
  let ?g4 = "\<lambda>j. g\<lparr>clock_reads := Suc (clock_reads g), jrnl := j, dentry_tables := (dentry_tables g)(u := None)\<rparr>"
  obtain j where j: "local_rmdir_top W x u g = (Inr 0, ?g4 j)" "jtab_ok (jtab j)"
    "open_tx j u = (open_tx (jrnl g) u)\<lparr>status := S_DELETED\<rparr>" "\<forall>w. w \<noteq> u \<longrightarrow> open_tx j w = open_tx (jrnl g) w"
    using local_rmdir_top_ok(2) [OF it v c(1) _ ok] c(2) by auto
  have ino4: "ino_of (?g4 j) = ino_of g" by (simp add: ino_of_def inode_at_def fun_eq_iff)
  have s4: "in_step (?g4 j) t base" "listing (?g4 j) t = listing g t"
    using in_step_same [OF L(2), of "?g4 j"] j(2,4) u L(4) ino4 by simp_all
  have "served (ino_of (?g4 j) p) (?g4 j) = Some t"
    using later u ino4 by (auto simp: served_def split: option.splits if_splits)
  then have "leads (?g4 j) p t base" using s4(1) lead L(4) ino4 by (simp add: leads_def)
  moreover have "listing (?g4 j) t n = Some u" using s4(2) n by simp
  ultimately obtain g5 where g5: "local_rmdir_down W p u n (?g4 j) = (Inr 0, g5)" "in_step g5 t base"
    "listing g5 t = (listing (?g4 j) t)(n := None)" "\<forall>t'. t' \<noteq> t \<longrightarrow> dtables g5 t' = dtables (?g4 j) t'"
    "dentry_tables g5 = (dentry_tables (?g4 j))(u := None)"
    "\<forall>v. v \<noteq> dir_ino (dtables (?g4 j) t) \<longrightarrow> open_tx (jrnl g5) v = open_tx (jrnl (?g4 j)) v"
    using local_rmdir_down_ok [of "?g4 j" p t base n u W] by (auto simp: yields_def)
  have "open_tx (jrnl g5) u = (open_tx (jrnl g) u)\<lparr>status := S_DELETED\<rparr>" using g5(6) j(3) u L(4) by simp
  then show ?thesis using j(1) g5 loc s4(2)
    by (intro yieldsI [of _ _ 0 g5]) (simp_all add: rmdir_down_def by_table_def)
qed

text \<open>
  C10: Removing a directory by path, on a client that leads it and its parent: with entries left the call
  returns ENOTEMPTY and changes nothing but location marks and the clock; an empty one leaves its parent,
  which stays in step with its journal, is no longer served, and its own journal marks it deleted.
\<close>

theorem fuse_rmdir_by_path:
  assumes "lies_in g path p t" and "in_step g t base" and "get_filename_from_path path = Inr n" and "n \<noteq> ''/''"
    and "child_inodes (dtables g t) n = Some x" and "S_ISDIR (i_mode (core (inode_at g x)))" and "u = ino_of g x"
    and "dentry_tables g u = Some t2" and "u \<noteq> ino_of g p" and "finite (dom (listing g t2))"
    and "iteration (ord_children (w_ords W))"
  shows "yields (fuse_rmdir W path) g (\<lambda>r g'.
    if listing g t2 = Map.empty then
      r = 0 \<and> in_step g' t base \<and> listing g' t = (listing g t)(n := None) \<and> dentry_tables g' = (dentry_tables g)(u := None) \<and>
      open_tx (jrnl g') u = (open_tx (jrnl g) u)\<lparr>status := S_DELETED\<rparr> \<and> (\<forall>t'. t' \<noteq> t \<longrightarrow> dtables g' t' = dtables g t')
    else r = - ENOTEMPTY \<and> same_tree g g')"
proof -
  have tree: "local_tree g" and P: "dentry_tables g (ino_of g p) = Some t" "p < inode_next g" "ino_of g p = dir_ino (dtables g t)"
    using assms(1) unfolding lies_in_def by blast+
  obtain g3 where same3: "same_tree g g3" and loc: "dt_loc (dtables g3 t) = LOCAL"
    and run: "fuse_rmdir W path g = catch_entry id (bindE (local_rmdir_top W x u) (\<lambda>r.
      if r = 0 then rmdir_down W t p u n else returnE r)) g3"
    using fuse_rmdir_run [OF assms(1-6) assms(8) [unfolded assms(7)]] unfolding assms(7) by blast
  note M = same_tree_mono [OF same3] and S = same_tree_simps [OF same3]
  have v3: "served u g3 = Some t2" by (rule served_same_tree [OF tree same3 assms(8)])
  have c3: "coherent g3 t2" "finite (dom (listing g3 t2))" "listing g3 t2 = listing g t2"
    using quiet_listing [OF conjunct1 [OF M] local_treeD(1) [OF tree assms(8)]] assms(10) by simp_all
  have s3: "in_step g3 t base" by (rule quiet_in_step [OF conjunct1 [OF M] assms(2)])
  show ?thesis
  proof (cases "listing g t2 = Map.empty")
    case False
    have "jtab_ok (jtab (jrnl g3))" using s3 by (simp add: in_step_def)
    then have "local_rmdir_top W x u g3 = (Inr (- ENOTEMPTY), g3\<lparr>clock_reads := Suc (clock_reads g3)\<rparr>)"
      using local_rmdir_top_ok(1) [OF assms(11) v3 c3(1,2)] c3(3) False by simp
    then have "fuse_rmdir W path g = (Inr (- ENOTEMPTY), g3\<lparr>clock_reads := Suc (clock_reads g3)\<rparr>)"
      unfolding run by (simp add: catch_entry_def ENOTEMPTY_def)
    then show ?thesis using False same_tree_clock [OF same3] by (simp add: yields_def)
  next
    case True
    have "leads g3 p t base" by (rule lies_in_leads(1) [OF assms(1,2) same3])
    moreover have "listing g3 t n = Some u" "u \<noteq> ino_of g3 p" using M assms(5,7,9) S(6) by (simp_all add: listing_def)
    moreover have "served (ino_of g3 p) (g3\<lparr>clock_reads := Suc (clock_reads g3)\<rparr>) = Some t"
      using served_same_tree [OF tree same_tree_clock [OF same3] P(1)] S(6) by simp
    ultimately obtain g5 where "bindE (local_rmdir_top W x u) (\<lambda>r. if r = 0 then rmdir_down W t p u n else returnE r) g3 = (Inr 0, g5)"
      "in_step g5 t base" "listing g5 t = (listing g3 t)(n := None)" "dentry_tables g5 = (dentry_tables g3)(u := None)"
      "open_tx (jrnl g5) u = (open_tx (jrnl g3) u)\<lparr>status := S_DELETED\<rparr>" "\<forall>t'. t' \<noteq> t \<longrightarrow> dtables g5 t' = dtables g3 t'"
      using rmdir_empty_ok [OF _ _ _ assms(11) v3 c3(1), of p t base n x] c3(3) True unfolding yields_def by auto
    moreover from this(1) have "fuse_rmdir W path g = (Inr 0, g5)" unfolding run by (simp add: catch_entry_def)
    ultimately show ?thesis using True M S(1,2) by (intro yieldsI [of _ _ 0 g5]) simp_all
  qed
qed


text \<open>An example tree: the root with an empty directory \<^verbatim>\<open>d\<close> and a file \<^verbatim>\<open>f\<close>.\<close>

abbreviation d_ino :: uuid where "d_ino \<equiv> splice_prefix_and_postfix 1 9"
abbreviation f_ino :: uuid where "f_ino \<equiv> splice_prefix_and_postfix 1 8"

definition dir_fs :: "(pool, lease_table) fs" where
  "dir_fs = (mem_fs root_pool Map.empty)
     \<lparr>inodes := (\<lambda>_. Inode null_inode)(0 := Inode (root_inode zero_time 0 0),
        1 := Inode (inode_new d_ino zero_time get_root_ino 0 0 (S_IFDIR OR 0x1ED) False),
        2 := Inode (inode_new f_ino zero_time get_root_ino 0 0 (S_IFREG OR 0x1A4) False)), inode_next := 3,
      dtables := (\<lambda>_. empty_table nil_uuid UNKNOWN)(0 :=
        \<lparr>dir_ino = get_root_ino, this_dir_inode = Some 0,
         dt_dentries = Some \<lparr>this_ino = get_root_ino, child_list = [''d'' \<mapsto> d_ino, ''f'' \<mapsto> f_ino]\<rparr>,
         child_inodes = [''d'' \<mapsto> 1, ''f'' \<mapsto> 2], dt_loc = LOCAL, leader_ip = []\<rparr>,
        1 := \<lparr>dir_ino = d_ino, this_dir_inode = Some 1, dt_dentries = Some \<lparr>this_ino = d_ino, child_list = Map.empty\<rparr>,
         child_inodes = Map.empty, dt_loc = LOCAL, leader_ip = []\<rparr>), dtable_next := 2,
      dentry_tables := [get_root_ino \<mapsto> 0, d_ino \<mapsto> 1],
      leases := [get_root_ino \<mapsto> \<lparr>c_due = 100, leader = True\<rparr>, d_ino \<mapsto> \<lparr>c_due = 100, leader = True\<rparr>]\<rparr>"

lemma dir_fs_simps:
  "ino_of dir_fs 0 = get_root_ino" "ino_of dir_fs 1 = d_ino" "ino_of dir_fs 2 = f_ino"
  "S_ISDIR (i_mode (core (inode_at dir_fs 1)))" "\<not> S_ISDIR (i_mode (core (inode_at dir_fs 2)))" "child_inodes (dtables dir_fs 0) = [''d'' \<mapsto> 1, ''f'' \<mapsto> 2]"
  "child_inodes (dtables dir_fs 1) = Map.empty" "this_dir_inode (dtables dir_fs 0) = Some 0"
  "dentry_tables dir_fs = [get_root_ino \<mapsto> 0, d_ino \<mapsto> 1]"
  "dir_ino (dtables dir_fs 0) = get_root_ino" "dir_ino (dtables dir_fs 1) = d_ino" "inode_next dir_fs = 3"
  by (simp_all add: dir_fs_def ino_of_def inode_at_def inode_new_def new_core_def S_ISDIR_def mode_bits)

lemma dir_fs_inos: "d_ino \<noteq> get_root_ino" "f_ino \<noteq> get_root_ino" "f_ino \<noteq> d_ino" "d_ino \<noteq> nil_uuid" "f_ino \<noteq> nil_uuid"
  using splice_not_nil [of 1 9] splice_not_nil [of 1 8] by (simp_all add: splice_not_root splice_inj is_nil_def)

lemma dir_fs_listing: "listing dir_fs 0 = [''d'' \<mapsto> d_ino, ''f'' \<mapsto> f_ino]" "listing dir_fs 1 = Map.empty"
  using dir_fs_simps(2,3)
  by (auto simp: listing_def dir_fs_simps(6) dir_fs_simps(7) [simplified] fun_eq_iff)

lemma dir_fs_coherent: "coherent dir_fs 0" "coherent dir_fs 1"
  using dir_fs_listing dir_fs_simps(1,2) by (simp_all add: coherent_def dir_fs_simps(12)) (simp_all add: dir_fs_def)

lemma dir_fs_local_tree: "local_tree dir_fs"
proof -
  have v: "is_valid (clock_src dir_fs k) get_root_ino (leases dir_fs)" "is_valid (clock_src dir_fs k) d_ino (leases dir_fs)" for k
    using dir_fs_inos(1) by (simp_all add: dir_fs_def mem_fs_def is_valid_def)
  have i: "\<exists>i. inodes dir_fs 0 = Inode i" "\<exists>i. inodes dir_fs 1 = Inode i" "\<exists>i. inodes dir_fs 2 = Inode i"
    "this_dir_inode (dtables dir_fs 1) = Some 1" by (simp_all add: dir_fs_def)
  have "\<not> is_nil d_ino" "\<not> is_nil f_ino" by (simp_all add: splice_not_nil)
  then show ?thesis using v i dir_fs_coherent dir_fs_simps
    by (auto simp: local_tree_def split: if_splits)
qed

lemma dir_fs_open_tx: "open_tx (jrnl dir_fs) v = transaction_new v" "jtab_ok (jtab (jrnl dir_fs))"
  by (simp_all add: dir_fs_def mem_fs_def) (simp_all add: open_tx_def journal_new_def jt_init_def jtab_ok_def)

lemma dir_fs_in_step: "in_step dir_fs 0 [''d'' \<mapsto> d_ino, ''f'' \<mapsto> f_ino]" "in_step dir_fs 1 Map.empty"
  using dir_fs_coherent dir_fs_listing dir_fs_open_tx dir_fs_inos by (simp_all add: in_step_def transaction_new_def inj_on_def)

lemma dir_fs_fresh: "u \<notin> ran (listing dir_fs t) \<Longrightarrow> fresh_ino dir_fs t u"
  by (simp add: fresh_ino_def dir_fs_open_tx transaction_new_def)

lemma lies_in_dir_fs:
  "get_parent_dir_path path = Inr ''/'' \<Longrightarrow> lies_in dir_fs path 0 0"
  using dir_fs_local_tree dir_fs_simps not_sym [OF dir_fs_inos(1)] by (simp add: lies_in_def)

theorem fuse_rmdir_by_path_witness:
  "\<exists>g'. fuse_rmdir mem_world ''/d'' dir_fs = (Inr 0, g') \<and> listing g' 0 = [''f'' \<mapsto> f_ino] \<and>
     dentry_tables g' = [get_root_ino \<mapsto> 0]"
proof -
  have p: "get_parent_dir_path ''/d'' = Inr ''/''" "get_filename_from_path ''/d'' = Inr ''d''" by code_simp+
  have "dentry_tables dir_fs (ino_of dir_fs 1) = Some 1" "ino_of dir_fs 1 \<noteq> ino_of dir_fs 0"
    "child_inodes (dtables dir_fs 0) ''d'' = Some 1" "finite (dom (listing dir_fs 1))"
    using dir_fs_simps(1,2,6,9) dir_fs_inos dir_fs_listing(2) by simp_all
  then obtain g' where "fuse_rmdir mem_world ''/d'' dir_fs = (Inr 0, g')"
    "listing g' 0 = (listing dir_fs 0)(''d'' := None)" "dentry_tables g' = (dentry_tables dir_fs)(ino_of dir_fs 1 := None)"
    using fuse_rmdir_by_path [OF lies_in_dir_fs [OF p(1)] dir_fs_in_step(1) p(2) _ _ dir_fs_simps(4) refl _ _ _ mem_world_iteration, of 1] dir_fs_listing(2)
    by (auto simp: yields_def)
  then show ?thesis using dir_fs_simps(2,9) dir_fs_inos dir_fs_listing(1) by (auto simp: fun_upd_idem fun_upd_twist)
qed

end
