(* ===== verification/Local_Links.thy ===== *)
theory Local_Links
  imports Local_Dirs
begin

text \<open>
  Symbolic links, and moving a file from one directory to another, on a client that leads the
  directories concerned.
\<close>

section \<open>Symbolic links\<close>

definition link_inode :: "('s, 'e) fs \<Rightarrow> nat \<Rightarrow> string \<Rightarrow> inode" where
  "link_inode g p src =
     (let i = inode_new_symlink (uuid_src g (uuid_reads g)) (time_src g (time_reads g)) (ino_of g p)
        (client_uid (this_client g)) (client_gid (this_client g)) (S_IFLNK OR 0x1FF) src
      in i\<lparr>core := (core i)\<lparr>i_size := of_nat (length src)\<rparr>\<rparr>)"

lemma local_symlink_exists:
  assumes lead: "leads g p t b" and n: "get_filename_from_path dst = Inr n" "n \<noteq> ''/''" "listing g t n = Some v" "v \<noteq> nil_uuid"
  shows "local_symlink W p src dst g = (Inr (- EEXIST), g\<lparr>clock_reads := Suc (clock_reads g)\<rparr>)"
proof -
  have lead': "served (ino_of g p) g = Some t" "in_step g t b" using lead unfolding leads_def by blast+
  let ?g1 = "g\<lparr>clock_reads := Suc (clock_reads g)\<rparr>"
  have c: "coherent ?g1 t" "listing ?g1 t = listing g t" using quiet_listing [OF quiet_simps(1) in_step_coherent [OF lead'(2)]] by simp_all
  have "check_child_inode W t n ?g1 = (Inr v, ?g1)" using dt.check_view [OF c(1) n(2), of W] c(2) n(3) by simp
  then show ?thesis using n table_of_served [OF lead'(1), of W] by (simp add: local_symlink_def is_nil_def)
qed

lemma local_symlink_ok:
  fixes g :: "('s, 'e) fs"
  defines "u \<equiv> uuid_src g (uuid_reads g)" and "x \<equiv> inode_next g"
  assumes lead: "leads g p t b" and n: "get_filename_from_path dst = Inr n" "n \<noteq> ''/''" "listing g t n = None" and u: "fresh_ino g t u"
  shows "yields (local_symlink W p src dst) g (\<lambda>r g'. r = 0 \<and> in_step g' t b \<and> listing g' t = (listing g t)(n \<mapsto> u) \<and>
    (\<forall>t'. t' \<noteq> t \<longrightarrow> dtables g' t' = dtables g t') \<and> child_inodes (dtables g' t) = (child_inodes (dtables g t))(n \<mapsto> x) \<and>
    inodes g' x = Inode (link_inode g p src) \<and> data_pool g' = data_pool g)"
proof -
  have lead': "served (ino_of g p) g = Some t" "in_step g t b" "p < x" "ino_of g p = dir_ino (dtables g t)"
    using lead unfolding leads_def x_def by blast+
  let ?g1 = "g\<lparr>clock_reads := Suc (clock_reads g)\<rparr>"
  have coh: "coherent g t" by (rule in_step_coherent [OF lead'(2)])
  have c1: "coherent ?g1 t" "listing ?g1 t = listing g t" using quiet_listing [OF quiet_simps(1) coh] by simp_all
  have chk: "check_child_inode W t n ?g1 = (Inr nil_uuid, ?g1)" using dt.check_view [OF c1(1) n(2), of W] c1(2) n(3) by simp
  let ?g2 = "?g1\<lparr>time_reads := Suc (time_reads g), uuid_reads := Suc (uuid_reads g),
    inode_next := Suc x, inodes := (inodes g)(x := Inode (link_inode g p src))\<rparr>"
  have q2: "quiet g ?g2" by (simp add: quiet_def ino_of_def inode_at_def x_def)
  have s2: "in_step ?g2 t b" by (rule quiet_in_step [OF q2 lead'(2)])
  have l2: "listing ?g2 t = listing g t" by (rule quiet_listing(1) [OF q2 coh])
  have ux: "ino_of ?g2 x = u"
    by (simp add: ino_of_def inode_at_def link_inode_def inode_new_symlink_def new_core_def Let_def u_def)
  have p2: "p < inode_next ?g2" "ino_of ?g2 p = dir_ino (dtables ?g2 t)" using lead'(3,4) q2 by (simp_all add: quiet_def x_def)
  have n2: "listing ?g2 t n = None" and f2: "fresh_ino ?g2 t (ino_of ?g2 x)" and x2: "x < inode_next ?g2"
    using n(3) u l2 ux fresh_ino_quiet [OF q2 coh] by simp_all
  obtain r g3 where g3: "create_child_inode t n x ?g2 = (Inr r, g3)" "\<exists>ds. g3 = ?g2\<lparr>dtables := ds\<rparr>"
    "\<forall>t'. t' \<noteq> t \<longrightarrow> dtables g3 t' = dtables ?g2 t'" "child_inodes (dtables g3 t) = (child_inodes (dtables ?g2 t))(n \<mapsto> x)"
    "dir_ino (dtables g3 t) = dir_ino (dtables ?g2 t)"
    and rec: "\<And>g4. quiet g3 g4 \<Longrightarrow> \<exists>g5. j_mkreg W p n x g4 = (Inr (), g5) \<and> in_step g5 t b \<and>
      listing g5 t = (listing ?g2 t)(n \<mapsto> ino_of ?g2 x) \<and> recorded (w_raw W) (dir_ino (dtables ?g2 t)) (Mkreg (inode_at g4 p) n (inode_at g4 x)) g4 g5"
    by (rule enter_file [OF s2 x2 p2 n2 f2, where W = W]) simp
  let ?g4 = "g3\<lparr>time_reads := Suc (time_reads g3)\<rparr>"
  obtain g5 where g5: "j_mkreg W p n x ?g4 = (Inr (), g5)" "in_step g5 t b" "listing g5 t = (listing g t)(n \<mapsto> u)"
    "\<exists>j. g5 = ?g4\<lparr>jrnl := j\<rparr>" using rec [of ?g4] l2 ux by (auto dest!: recorded_journaled journaledD)
  have "local_symlink W p src dst g = (Inr 0, g5)"
    unfolding local_symlink_def using table_of_served [OF lead'(1)] n(1) chk g3(1) g5(1) lead'(3)
    by (simp add: is_nil_def get_time_def alloc_new_ino_def new_iobj_def update_core_def update_inode_def
        ino_of_def inode_at_def link_inode_def Let_def x_def)
  moreover have "dtables g5 = dtables g3" "inodes g5 x = Inode (link_inode g p src)" "data_pool g5 = data_pool g"
    using g3(2) g5(4) by auto
  ultimately show ?thesis using g3(3,4) g5(2,3) by (intro yieldsI [of _ _ 0 g5]) simp_all
qed

text \<open>Reading the target of the link just made.\<close>

lemma link_inode_readlink:
  assumes "inodes g' x = Inode (link_inode g p src)" and "length src < 2 ^ 32" and "length src < unat sz"
  shows "local_readlink W x sz g' = (Inr (0, map byte_of_char src @ [0]), g')"
proof -
  have m: "S_ISLNK (i_mode (core (link_inode g p src)))"
    by (simp add: link_inode_def inode_new_symlink_def new_core_def Let_def S_ISLNK_def mode_bits)
  let ?n = "ucast (of_nat (length src) :: 32 word) :: 64 word"
  have n: "unat ?n = length src" using assms(2) by (simp add: unsigned_ucast_eq unat_of_nat take_bit_nat_eq_self)
  have s: "unat (sz - 1) = unat sz - 1" using assms(3) by (intro unat_minus_one) auto
  have "\<not> ?n < sz - 1 \<Longrightarrow> unat (sz - 1) = length src"
    using n s assms(3) by (simp add: word_less_nat_alt)
  then show ?thesis
    using assms m n by (simp add: local_readlink_def get_mode_def inode_at_def link_inode_def inode_new_symlink_def Let_def)
qed


section \<open>Moving a file to another directory\<close>

text \<open>
  The two halves of \<^verbatim>\<open>rename\<close> between directories that this client leads: the file leaves the first
  directory and enters the second, replacing what the name meant there.
\<close>

lemma local_move_out:
  assumes lead: "leads g p t b" and x: "child_inodes (dtables g t) old = Some x"
    and n: "get_filename_from_path old_path = Inr old"
  obtains g' where "local_rename_not_same_parent_src W p old_path 0 g = (Inr x, g')" and "in_step g' t b"
    and "listing g' t = (listing g t)(old := None)" and "dir_frame t g g'"
    and "child_inodes (dtables g' t) = (child_inodes (dtables g t))(old := None)"
    and "fresh_ino g' t (ino_of g x)"
proof -
  have lead': "served (ino_of g p) g = Some t" "in_step g t b" "p < inode_next g" "ino_of g p = dir_ino (dtables g t)"
    using lead unfolding leads_def by blast+
  let ?g1 = "g\<lparr>clock_reads := Suc (clock_reads g)\<rparr>"
  have s1: "in_step ?g1 t b" by (rule quiet_in_step [OF _ lead'(2)]) simp
  obtain h where h: "get_child_inode W t old nil_uuid ?g1 = (Inr (Some x), ?g1\<lparr>inodes := h\<rparr>)" "quiet ?g1 (?g1\<lparr>inodes := h\<rparr>)"
    by (rule get_child_local [OF in_step_coherent [OF s1], where n = old and x = x and W = W and u = nil_uuid]) (use x in simp_all)
  let ?g2 = "?g1\<lparr>inodes := h\<rparr>"
  have q: "quiet g ?g2" by (rule quiet_trans [OF quiet_simps(1) h(2)])
  have f2: "dir_frame t g ?g2" by (rule quiet_dir_frame [OF q]) simp_all
  have s2: "in_step ?g2 t b" by (rule quiet_in_step [OF q lead'(2)])
  have l2: "listing ?g2 t = listing g t" by (rule quiet_listing(1) [OF q in_step_coherent [OF lead'(2)]])
  note p2 = conjunct1 [OF dir_frameD [OF f2 lead'(3,4)]] conjunct2 [OF dir_frameD [OF f2 lead'(3,4)]]
  obtain r3 g3 g4 where g4: "delete_child_inode t old ?g2 = (Inr r3, g3)" "j_rmreg W p old x g3 = (Inr (), g4)"
    "in_step g4 t b" "listing g4 t = (listing ?g2 t)(old := None)" "dir_frame t ?g2 g4" "fresh_ino g4 t (ino_of ?g2 x)"
    "child_inodes (dtables g4 t) = (child_inodes (dtables ?g2 t))(old := None)"
    by (rule remove_now [OF s2 p2, where n = old and x = x and W = W]) (use x in simp)
  have "local_rename_not_same_parent_src W p old_path 0 g = (Inr x, g4)"
    unfolding local_rename_not_same_parent_src_def
    using n table_of_served [OF lead'(1)] h(1) g4(1,2) by (simp add: deref_def bindE_def)
  moreover have "ino_of ?g2 x = ino_of g x"
    using q coherent_child [OF in_step_coherent [OF lead'(2)] x] by (simp add: quiet_def)
  ultimately show thesis using that g4(3,4,6,7) l2 dir_frame_trans [OF f2 g4(5)] by simp
qed

lemma local_move_in:
  assumes lead: "leads g p t b" and n: "get_filename_from_path new_path = Inr new"
    and nil: "nil_uuid \<notin> ran (listing g t)" and u: "u = (case listing g t new of None \<Rightarrow> nil_uuid | Some v \<Rightarrow> v)"
    and x: "x < inode_next g" "fresh_ino g t (ino_of g x)"
  obtains g' where "local_rename_not_same_parent_dst W p x u new_path 0 g = (Inr 0, g')" and "in_step g' t b"
    and "listing g' t = (listing g t)(new \<mapsto> ino_of g x)" and "dir_frame t g g'"
    and "child_inodes (dtables g' t) = (child_inodes (dtables g t))(new \<mapsto> x)" and "p_ino (inode_at g' x) = ino_of g p"
proof -
  have lead': "served (ino_of g p) g = Some t" "in_step g t b" "p < inode_next g" "ino_of g p = dir_ino (dtables g t)"
    using lead unfolding leads_def by blast+
  let ?g1 = "g\<lparr>clock_reads := Suc (clock_reads g)\<rparr>"
  let ?g2 = "?g1\<lparr>inodes := (inodes g)(x := map_base (\<lambda>i. i\<lparr>loc := LOCAL\<rparr>) (inodes g x))\<rparr>"
  let ?g3 = "?g2\<lparr>inodes := (inodes ?g2)(x := map_base (\<lambda>i. i\<lparr>p_ino := ino_of g p\<rparr>) (inodes ?g2 x))\<rparr>"
  have q: "quiet g ?g3" by (simp add: quiet_def ino_of_def inode_at_def)
  have f3: "dir_frame t g ?g3" by (rule quiet_dir_frame [OF q]) simp_all
  have s3: "in_step ?g3 t b" by (rule quiet_in_step [OF q lead'(2)])
  have l3: "listing ?g3 t = listing g t" by (rule quiet_listing(1) [OF q in_step_coherent [OF lead'(2)]])
  note p3 = conjunct1 [OF dir_frameD [OF f3 lead'(3,4)]] conjunct2 [OF dir_frameD [OF f3 lead'(3,4)]]
  obtain g4 where g4: "drop_target W p t new u ?g3 = (Inr (), g4)" "in_step g4 t b"
    "listing g4 t = (listing ?g3 t)(new := None)" "dir_frame t ?g3 g4"
    "child_inodes (dtables g4 t) = (child_inodes (dtables ?g3 t))(new := None)"
    "\<forall>v. fresh_ino ?g3 t v \<longrightarrow> fresh_ino g4 t v" "\<forall>y. p_ino (inode_at g4 y) = p_ino (inode_at ?g3 y)"
    by (rule drop_target_ok [OF s3 p3, where n = new and u = u and W = W]) (use nil u l3 in simp_all)
  note p4 = conjunct1 [OF dir_frameD [OF g4(4) p3]] conjunct2 [OF dir_frameD [OF g4(4) p3]]
  have f4: "dir_frame t g g4" by (rule dir_frame_trans [OF f3 g4(4)])
  have x4: "x < inode_next g4" "ino_of g4 x = ino_of g x" using f4 x(1) by (auto simp: dir_frame_def)
  have "listing g4 t new = None" "fresh_ino g4 t (ino_of g4 x)"
    using g4(3,6) x4 x(2) fresh_ino_quiet [OF q in_step_coherent [OF lead'(2)]] by simp_all
  then obtain r5 g5 g6 where g6: "create_child_inode t new x g4 = (Inr r5, g5)" "j_mkreg W p new x g5 = (Inr (), g6)"
    "in_step g6 t b" "listing g6 t = (listing g4 t)(new \<mapsto> ino_of g4 x)" "dir_frame t g4 g6"
    "child_inodes (dtables g6 t) = (child_inodes (dtables g4 t))(new \<mapsto> x)" "inodes g6 = inodes g4"
    by (rule enter_now [OF g4(2) p4 x4(1), where W = W and n = new])
  have run: "local_rename_not_same_parent_dst W p x u new_path 0 g = (Inr 0, g6)"
    unfolding local_rename_not_same_parent_dst_def
    using n table_of_served [OF lead'(1)] g4(1) g6(1,2)
    by (cases "p = x") (simp_all add: update_inode_def bindE_def ino_of_def inode_at_def)
  moreover have "p_ino (inode_at g6 x) = ino_of g p" using g6(7) g4(7) by (simp add: inode_at_def)
  moreover have "dir_frame t g g6" by (rule dir_frame_trans [OF f4 g6(5)])
  moreover have "listing g6 t = (listing g t)(new \<mapsto> ino_of g x)" "child_inodes (dtables g6 t) = (child_inodes (dtables g t))(new \<mapsto> x)"
    using g6(4,6) g4(3,5) l3 x4(2) by simp_all
  ultimately show thesis using that g6(3) by blast
qed


lemma dir_frame_other:
  assumes f: "dir_frame t g g'" and "t' \<noteq> t" and "dir_ino (dtables g t') \<noteq> dir_ino (dtables g t)"
    and s: "in_step g t' b" and ok: "in_step g' t b'"
  shows "in_step g' t' b" and "listing g' t' = listing g t'" and "dtables g' t' = dtables g t'"
    and "fresh_ino g t' v \<Longrightarrow> fresh_ino g' t' v"
proof -
  have d: "dtables g' t' = dtables g t'" using f assms(2) by (simp add: dir_frame_def)
  have j: "jtab_ok (jtab (jrnl g'))" using ok by (simp add: in_step_def)
  have o: "open_tx (jrnl g') (dir_ino (dtables g t')) = open_tx (jrnl g) (dir_ino (dtables g t'))"
    using f assms(3) by (simp add: dir_frame_def)
  have n: "inode_next g \<le> inode_next g'" "\<forall>x < inode_next g. ino_of g' x = ino_of g x" using f by (simp_all add: dir_frame_def)
  show "in_step g' t' b" and l: "listing g' t' = listing g t'" by (rule in_step_same [OF s d j o n])+
  show "dtables g' t' = dtables g t'" by (rule d)
  show "fresh_ino g t' v \<Longrightarrow> fresh_ino g' t' v" using l d o by (simp add: fresh_ino_def)
qed

text \<open>The whole move.\<close>

lemma local_move_ok:
  assumes src: "leads g p t b" and dst: "leads g p' t' b'" and valid: "\<forall>k. is_valid (clock_src g k) (ino_of g p') (leases g)"
    and ne: "t' \<noteq> t" "ino_of g p' \<noteq> ino_of g p"
    and x: "child_inodes (dtables g t) old = Some x"
    and names: "get_filename_from_path old_path = Inr old" "get_filename_from_path new_path = Inr new"
    and nil: "nil_uuid \<notin> ran (listing g t')" and u: "u = (case listing g t' new of None \<Rightarrow> nil_uuid | Some v \<Rightarrow> v)"
    and fresh: "fresh_ino g t' (ino_of g x)"
  obtains g1 g2 where "local_rename_not_same_parent_src W p old_path 0 g = (Inr x, g1)"
    and "local_rename_not_same_parent_dst W p' x u new_path 0 g1 = (Inr 0, g2)" and "dtables g1 t' = dtables g t'"
    and "in_step g2 t b" and "in_step g2 t' b'" and "listing g2 t = (listing g t)(old := None)"
    and "listing g2 t' = (listing g t')(new \<mapsto> ino_of g x)" and "child_inodes (dtables g2 t') new = Some x"
    and "p_ino (inode_at g2 x) = ino_of g p'" and "data_pool g2 = data_pool g"
    and "\<forall>s. s \<noteq> t \<and> s \<noteq> t' \<longrightarrow> dtables g2 s = dtables g s"
proof -
  note S = src [unfolded leads_def] and D = dst [unfolded leads_def]
  obtain g1 where g1: "local_rename_not_same_parent_src W p old_path 0 g = (Inr x, g1)" "in_step g1 t b"
    "listing g1 t = (listing g t)(old := None)" "dir_frame t g g1"
    by (rule local_move_out [OF src x names(1), where W = W])
  have dne: "dir_ino (dtables g t') \<noteq> dir_ino (dtables g t)" using ne(2) S D by simp
  note O = dir_frame_other [OF g1(4) ne(1) dne conjunct1 [OF conjunct2 [OF D]] g1(2)]
  have xg: "x < inode_next g" by (rule coherent_child [OF in_step_coherent [OF conjunct1 [OF conjunct2 [OF S]]] x])
  have fr: "inode_next g \<le> inode_next g1" "\<forall>y < inode_next g. ino_of g1 y = ino_of g y" "dentry_tables g1 = dentry_tables g"
    "leases g1 = leases g" "clock_src g1 = clock_src g" using g1(4) by (simp_all add: dir_frame_def)
  have "dentry_tables g (ino_of g p') = Some t'" using D by (auto simp: served_def split: option.splits if_splits)
  then have "leads g1 p' t' b'" using O(1,3) D fr valid by (simp add: leads_def served_def)
  moreover have "x < inode_next g1" "fresh_ino g1 t' (ino_of g1 x)" "ino_of g1 x = ino_of g x" "ino_of g1 p' = ino_of g p'"
    using fr xg O(4) fresh D by simp_all
  ultimately obtain g2 where g2: "local_rename_not_same_parent_dst W p' x u new_path 0 g1 = (Inr 0, g2)" "in_step g2 t' b'"
    "listing g2 t' = (listing g1 t')(new \<mapsto> ino_of g x)" "dir_frame t' g1 g2"
    "child_inodes (dtables g2 t') = (child_inodes (dtables g1 t'))(new \<mapsto> x)" "p_ino (inode_at g2 x) = ino_of g p'"
    using local_move_in [of g1 p' t' b' new_path new u x W] names(2) nil u O(2) by metis
  have "dir_ino (dtables g1 t) \<noteq> dir_ino (dtables g1 t')" using g1(4) O(3) dne by (simp add: dir_frame_def)
  note O2 = dir_frame_other [OF g2(4) not_sym [OF ne(1)] this g1(2) g2(2)]
  have "\<forall>s. s \<noteq> t \<and> s \<noteq> t' \<longrightarrow> dtables g2 s = dtables g s" "data_pool g2 = data_pool g"
    using g1(4) g2(4) by (simp_all add: dir_frame_def)
  with that [OF g1(1) g2(1) O(3)] O2(1,2) O(2) g1(3) g2(2,3,5,6) show thesis by simp
qed


section \<open>By path\<close>

text \<open>Resolving a path leaves a tree in which every path still resolves as before.\<close>

lemma same_tree_local_tree:
  assumes "same_tree g g'" and "local_tree g"
  shows "local_tree g'"
proof -
  note s = same_tree_simps [OF assms(1)]
  have "coherent g' t = coherent g t" for t by (simp add: coherent_def listing_def s)
  moreover have "(\<exists>x i. q = Some x \<and> inodes g' x = Inode i) = (\<exists>x i. q = Some x \<and> inodes g x = Inode i)" for q
    using s(8) by blast
  ultimately show ?thesis using assms(2) unfolding local_tree_def s by simp
qed

lemma same_tree_resolve:
  assumes "same_tree g g'"
  shows "resolve g' ns t x = resolve g ns t x"
proof (induction ns arbitrary: t x)
  case (Cons n ns)
  note s = same_tree_simps [OF assms]
  have "permission_check u v m (inode_at g' y) = permission_check u v m (inode_at g y)" for u v m y
    by (rule permission_check_core [OF s(7)])
  then show ?case by (simp add: s Cons.IH split: option.split sum.split)
qed simp

lemma same_tree_lies_in:
  assumes "same_tree g g'" and "lies_in g path p t"
  shows "lies_in g' path p t"
  using assms(2) same_tree_local_tree [OF assms(1)]
  unfolding lies_in_def same_tree_resolve [OF assms(1)] same_tree_simps(1-6,9) [OF assms(1)] by blast

lemma same_tree_trans:
  assumes "same_tree g g1" and "same_tree g1 g2"
  shows "same_tree g g2"
proof -
  from assms obtain h k f h' k' f' where *: "g1 = g\<lparr>inodes := h, clock_reads := k\<rparr>" "g2 = g1\<lparr>inodes := h', clock_reads := k'\<rparr>"
    "\<And>x. h x = map_base (\<lambda>i. i\<lparr>loc := f x\<rparr>) (inodes g x)" "\<And>x. h' x = map_base (\<lambda>i. i\<lparr>loc := f' x\<rparr>) (inodes g1 x)"
    by (elim same_treeE) metis
  have "h' x = map_base (\<lambda>i. i\<lparr>loc := f' x\<rparr>) (inodes g x)" for x using * by (cases "inodes g x") simp_all
  moreover have "g2 = g\<lparr>inodes := h', clock_reads := k'\<rparr>" using *(1,2) by simp
  ultimately show ?thesis unfolding same_tree_def by blast
qed

text \<open>The inode and the table of the directory of a path, step by step as \<^verbatim>\<open>symlink\<close> and \<^verbatim>\<open>rename\<close> do it.\<close>

lemma parent_then_table:
  assumes "lies_in g path p t" and "get_parent_dir_path path = Inr parent"
  obtains g1 g2 where "path_traversal W parent g = (Inr p, g1)" and "table_of W p g1 = (Inr t, g2)" and "same_tree g g2"
proof -
  obtain g' where g': "parent_dir W path g = (Inr (p, t), g')" "same_tree g g'" by (rule parent_dir_ok [OF assms(1)])
  obtain r g1 where r: "path_traversal W parent g = (r, g1)" by fastforce
  then show thesis
  proof (cases r)
    case (Inr q)
    then show thesis using that [of g1 g'] g' r assms(2)
      by (auto simp: parent_dir_def bindE_def split: prod.splits sum.splits)
  qed (use g'(1) assms(2) in \<open>simp add: parent_dir_def bindE_def\<close>)
qed

text \<open>
  C19: Making a symbolic link by path and reading it back: the call returns 0, the directory gets exactly this
  entry and stays in step with its journal, and reading the new link into any buffer longer than its
  target gives the target and a closing zero.
\<close>

theorem fuse_symlink_by_path:
  assumes "lies_in g path p t" and "in_step g t base" and "get_filename_from_path path = Inr n" and "n \<noteq> ''/''"
    and "listing g t n = None" and "fresh_ino g t (uuid_src g (uuid_reads g))" and "length target < 2 ^ 32" and "length target < unat sz"
  shows "yields (fuse_symlink W target path) g (\<lambda>r g'. r = 0 \<and> in_step g' t base \<and>
    listing g' t = (listing g t)(n \<mapsto> uuid_src g (uuid_reads g)) \<and> (\<forall>t'. t' \<noteq> t \<longrightarrow> dtables g' t' = dtables g t') \<and>
    child_inodes (dtables g' t) n = Some (inode_next g) \<and>
    local_readlink W (inode_next g) sz g' = (Inr (0, map byte_of_char target @ [0]), g'))"
proof -
  obtain parent where parent: "get_parent_dir_path path = Inr parent" using assms(1) by (auto simp: lies_in_def)
  obtain g1 g2 where g2: "path_traversal W parent g = (Inr p, g1)" "table_of W p g1 = (Inr t, g2)" "same_tree g g2"
    by (rule parent_then_table [OF assms(1) parent, where W = W])
  note L = lies_in_leads [OF assms(1,2) g2(3)] and R = same_tree_rest [OF g2(3)]
  note q = same_tree_quiet [OF g2(3)] and coh = in_step_coherent [OF assms(2)]
  note l = quiet_listing(1) [OF q coh]
  have "listing g2 t n = None" "fresh_ino g2 t (uuid_src g2 (uuid_reads g2))"
    using l assms(5,6) R fresh_ino_quiet [OF q coh] by simp_all
  from local_symlink_ok [OF L(1) assms(3,4) this, of W target] obtain g3 where
    s: "local_symlink W p target path g2 = (Inr 0, g3)" and g3: "in_step g3 t base"
    "listing g3 t = (listing g t)(n \<mapsto> uuid_src g (uuid_reads g))" "\<forall>t'. t' \<noteq> t \<longrightarrow> dtables g3 t' = dtables g t'"
    "child_inodes (dtables g3 t) n = Some (inode_next g)" "inodes g3 (inode_next g) = Inode (link_inode g2 p target)"
    unfolding yields_def using R l by auto
  have "fuse_symlink W target path g = (Inr 0, g3)"
    using parent g2(1,2) L(2) s by (simp add: fuse_symlink_def catch_entry_def by_table_def)
  then show ?thesis using g3(1-4) link_inode_readlink [OF g3(5) assms(7,8), of W] by (intro yieldsI [of _ _ 0 g3]) simp_all
qed


lemma fresh_ino_same_tree: "same_tree g g' \<Longrightarrow> in_step g t b \<Longrightarrow> fresh_ino g' t v = fresh_ino g t v"
  using fresh_ino_quiet [OF same_tree_quiet in_step_coherent] .

text \<open>
  C5: Moving a file to another directory by path, on a client that leads both: the call returns 0; the old
  name leaves the first directory, the new name in the second means the file's inode, whatever it meant
  before; the file's parent is the second directory; both tables stay in step with their journals; no
  other table and no file data changes.
\<close>

theorem fuse_rename_across_by_path:
  assumes old: "lies_in g old_path p t" "get_parent_dir_path old_path = Inr po" "get_filename_from_path old_path = Inr old"
    and new: "lies_in g new_path p' t'" "get_parent_dir_path new_path = Inr pn" "get_filename_from_path new_path = Inr new" "new \<noteq> ''/''"
    and step: "in_step g t b" "in_step g t' b'" and ne: "po \<noteq> pn" "ino_of g p' \<noteq> ino_of g p"
    and x: "child_inodes (dtables g t) old = Some x" and nil: "nil_uuid \<notin> ran (listing g t')"
    and fresh: "fresh_ino g t' (ino_of g x)"
  shows "yields (fuse_rename W old_path new_path 0) g (\<lambda>r g'. r = 0 \<and> in_step g' t b \<and> in_step g' t' b' \<and>
    listing g' t = (listing g t)(old := None) \<and> listing g' t' = (listing g t')(new \<mapsto> ino_of g x) \<and>
    child_inodes (dtables g' t') new = Some x \<and> p_ino (inode_at g' x) = ino_of g p' \<and> data_pool g' = data_pool g \<and>
    (\<forall>s. s \<noteq> t \<and> s \<noteq> t' \<longrightarrow> dtables g' s = dtables g s))"
proof -
  obtain g1 g2 where g2: "path_traversal W po g = (Inr p, g1)" "table_of W p g1 = (Inr t, g2)" "same_tree g g2"
    by (rule parent_then_table [OF old(1,2), where W = W])
  obtain g3 g4 where g4: "path_traversal W pn g2 = (Inr p', g3)" "table_of W p' g3 = (Inr t', g4)" "same_tree g2 g4"
    by (rule parent_then_table [OF same_tree_lies_in [OF g2(3) new(1)] new(2), where W = W])
  have same: "same_tree g g4" by (rule same_tree_trans [OF g2(3) g4(3)])
  note L = lies_in_leads [OF old(1) step(1) same] lies_in_leads [OF new(1) step(2) same]
  note S = same_tree_simps [OF same] and R = same_tree_rest [OF same] and M = same_tree_mono [OF same]
  have l: "listing g4 t = listing g t" "listing g4 t' = listing g t'" using M by blast+
  let ?u = "case listing g4 t' new of None \<Rightarrow> nil_uuid | Some v \<Rightarrow> v"
  have chk: "check_child_inode W t' new g4 = (Inr ?u, g4)"
    using dt.check_view [OF _ new(4), of g4 t' W] L(3) by (simp add: leads_def in_step_def)
  have "t' \<noteq> t" using old(1) new(1) ne(2) unfolding lies_in_def by metis
  moreover have "\<forall>k. is_valid (clock_src g4 k) (ino_of g4 p') (leases g4)"
    using new(1) local_treeD(2) unfolding lies_in_def S by blast
  ultimately obtain gm g5 where
    mv: "local_rename_not_same_parent_src W p old_path 0 g4 = (Inr x, gm)"
      "local_rename_not_same_parent_dst W p' x ?u new_path 0 gm = (Inr 0, g5)" "dtables gm t' = dtables g4 t'"
    and g5: "in_step g5 t b" "in_step g5 t' b'" "listing g5 t = (listing g t)(old := None)"
    "listing g5 t' = (listing g t')(new \<mapsto> ino_of g x)" "child_inodes (dtables g5 t') new = Some x"
    "p_ino (inode_at g5 x) = ino_of g p'" "data_pool g5 = data_pool g" "\<forall>s. s \<noteq> t \<and> s \<noteq> t' \<longrightarrow> dtables g5 s = dtables g s"
    using local_move_ok [OF L(1,3) _ _ _ _ old(3) new(3) _ refl, of x W] x nil fresh ne(2) l
      fresh_ino_same_tree [OF same step(2)] unfolding S l by (auto simp: R)
  have "old_path \<noteq> new_path" using old(2) new(2) ne(1) by auto
  then have "fuse_rename W old_path new_path 0 g = (Inr 0, g5)"
    using old(2) new(2,3) ne(1) g2(1,2) g4(1,2) chk L(2,4) mv
    by (simp add: fuse_rename_def rename_across_def rename_take_def rename_put_def by_table_def led_def
        catch_runtime_def catch_entry_def deref_def)
  then show ?thesis using g5 by (intro yieldsI [of _ _ 0 g5]) simp_all
qed


theorem fuse_symlink_by_path_witness:
  "\<exists>g'. fuse_symlink mem_world ''/d'' ''/l'' dir_fs = (Inr 0, g') \<and> local_readlink mem_world 3 16 g' = (Inr (0, [47, 100, 0]), g')"
proof -
  have p: "get_parent_dir_path ''/l'' = Inr ''/''" "get_filename_from_path ''/l'' = Inr ''l''" by code_simp+
  have "uuid_src dir_fs (uuid_reads dir_fs) = splice_prefix_and_postfix 1 0" by (simp add: dir_fs_def mem_fs_def)
  then have "fresh_ino dir_fs 0 (uuid_src dir_fs (uuid_reads dir_fs))"
    by (intro dir_fs_fresh) (simp add: dir_fs_listing splice_inj)
  from fuse_symlink_by_path [OF lies_in_dir_fs [OF p(1)] dir_fs_in_step(1) p(2) _ _ this, of "''/d''" 16 mem_world]
  show ?thesis by (auto simp: yields_def dir_fs_listing dir_fs_simps(12) byte_of_char_def)
qed

theorem fuse_rename_across_by_path_witness:
  "\<exists>g'. fuse_rename mem_world ''/f'' ''/d/e'' 0 dir_fs = (Inr 0, g') \<and> listing g' 0 = [''d'' \<mapsto> d_ino] \<and> listing g' 1 = [''e'' \<mapsto> f_ino]"
proof -
  have p: "get_parent_dir_path ''/f'' = Inr ''/''" "get_filename_from_path ''/f'' = Inr ''f''"
    "get_parent_dir_path ''/d/e'' = Inr ''/d''" "get_filename_from_path ''/d/e'' = Inr ''e''" by code_simp+
  have c: "split_path ''d'' = [''d'']" by code_simp
  have "permission_check (client_uid (this_client dir_fs)) (client_gid (this_client dir_fs)) X_OK (inode_at dir_fs 1) = Inr ()"
    by (simp add: permission_check_def dir_fs_def mem_fs_def inode_at_def inode_new_def new_core_def mode_bits Let_def X_OK_def R_OK_def W_OK_def)
  moreover have "this_dir_inode (dtables dir_fs 1) = Some 1" by (simp add: dir_fs_def)
  ultimately have "resolve dir_fs [''d''] 0 0 = Inr 1" using dir_fs_simps dir_fs_inos by simp
  then have "lies_in dir_fs ''/d/e'' 1 1"
    using c p(3) dir_fs_local_tree dir_fs_simps dir_fs_inos(1) not_sym [OF dir_fs_inos(1)] by (simp add: lies_in_def)
  from fuse_rename_across_by_path [OF lies_in_dir_fs [OF p(1)] p(1,2) this p(3,4) _ dir_fs_in_step, of 2 mem_world]
  obtain g' where "fuse_rename mem_world ''/f'' ''/d/e'' 0 dir_fs = (Inr 0, g')"
    "listing g' 0 = (listing dir_fs 0)(''f'' := None)" "listing g' 1 = [''e'' \<mapsto> ino_of dir_fs 2]"
    using dir_fs_inos dir_fs_simps dir_fs_listing dir_fs_fresh [of f_ino 1] by (auto simp: yields_def)
  then show ?thesis using dir_fs_listing(1) dir_fs_simps(3) by (auto simp: fun_upd_idem fun_upd_twist)
qed

end
