(* ===== verification/Heap_Types.thy ===== *)
theory Heap_Types
  imports Local_Links
begin

text \<open>
  The typing of a client's heap: every number that stands for a pointer, in a table, in the index or in an
  open file, names an object that was allocated, of the class the code casts it to, and a table in the index
  is complete.  The judgement \<open>safe\<close> has a rule per combinator and per operation.
\<close>

section \<open>Well-typed heaps\<close>

primrec is_remote :: "iobj \<Rightarrow> bool" where
  "is_remote (Inode i) = False"
| "is_remote (Remote i r) = True"

lemma is_remote_map_base [simp]: "is_remote (map_base f ob) = is_remote ob"
  by (cases ob) simp_all

text \<open>An object that says it is remote is a \<^verbatim>\<open>remote_inode\<close>.\<close>

definition wf_obj :: "iobj \<Rightarrow> bool" where
  "wf_obj ob \<longleftrightarrow> (loc (base_inode ob) = REMOTE \<longrightarrow> is_remote ob)"

definition alive :: "('s, 'e) fs \<Rightarrow> nat option \<Rightarrow> bool" where
  "alive g p \<longleftrightarrow> (\<forall>x. p = Some x \<longrightarrow> x < inode_next g)"

definition wf_table :: "('s, 'e) fs \<Rightarrow> dentry_table \<Rightarrow> bool" where
  "wf_table g dt \<longleftrightarrow> (\<forall>n. alive g (child_inodes dt n)) \<and> alive g (this_dir_inode dt) \<and>
     (dt_loc dt = LOCAL \<or> dt_loc dt = REMOTE)"

text \<open>A table that may be used: a local one has the directory's inode and its entries.\<close>

definition ready :: "('s, 'e) fs \<Rightarrow> nat \<Rightarrow> bool" where
  "ready g t \<longleftrightarrow> t < dtable_next g \<and>
     (dt_loc (dtables g t) = LOCAL \<longrightarrow> this_dir_inode (dtables g t) \<noteq> None \<and> dt_dentries (dtables g t) \<noteq> None)"

definition wf_handle :: "('s, 'e) fs \<Rightarrow> 64 word \<Rightarrow> file_handler \<Rightarrow> bool" where
  "wf_handle g a h \<longleftrightarrow> fhno h = a \<and>
     (fh_loc h = Some LOCAL \<and> (\<exists>x. fh_i h = Some x \<and> x < inode_next g) \<or>
      fh_loc h = Some REMOTE \<and> (\<exists>x. fh_remote_i h = Some x \<and> x < inode_next g \<and> is_remote (inodes g x)))"

definition wf_heap :: "('s, 'e) fs \<Rightarrow> bool" where
  "wf_heap g \<longleftrightarrow> (\<forall>x < inode_next g. wf_obj (inodes g x)) \<and> (\<forall>t < dtable_next g. wf_table g (dtables g t)) \<and>
     (\<forall>u t. dentry_tables g u = Some t \<longrightarrow> ready g t \<and> dir_ino (dtables g t) = u) \<and>
     (\<forall>a h. fh_list g a = Some h \<longrightarrow> wf_handle g a h)"

text \<open>What an operation leaves: objects keep their class, tables their directory and location, complete
  tables stay complete.\<close>

definition table_le :: "dentry_table \<Rightarrow> dentry_table \<Rightarrow> bool" where
  "table_le dt dt' \<longleftrightarrow> dir_ino dt' = dir_ino dt \<and> dt_loc dt' = dt_loc dt \<and>
     (this_dir_inode dt \<noteq> None \<longrightarrow> this_dir_inode dt' \<noteq> None) \<and> (dt_dentries dt \<noteq> None \<longrightarrow> dt_dentries dt' \<noteq> None)"

definition heap_le :: "('s, 'e) fs \<Rightarrow> ('s, 'e) fs \<Rightarrow> bool" where
  "heap_le g g' \<longleftrightarrow> inode_next g \<le> inode_next g' \<and> dtable_next g \<le> dtable_next g' \<and>
     (\<forall>x < inode_next g. is_remote (inodes g' x) = is_remote (inodes g x)) \<and>
     (\<forall>t < dtable_next g. table_le (dtables g t) (dtables g' t))"

lemma table_le_refl [simp]: "table_le dt dt"
  by (simp add: table_le_def)

lemma heap_le_refl [simp]: "heap_le g g"
  by (simp add: heap_le_def)

lemma heap_le_trans: "heap_le g g1 \<Longrightarrow> heap_le g1 g2 \<Longrightarrow> heap_le g g2"
  by (auto simp: heap_le_def table_le_def)

named_theorems lifts "what was known of an older heap holds of a newer one"

lemma lifts_less [lifts]: "heap_le g g' \<Longrightarrow> x < inode_next g \<Longrightarrow> x < inode_next g'"
  by (simp add: heap_le_def)

lemma lifts_alive [lifts]: "heap_le g g' \<Longrightarrow> alive g p \<Longrightarrow> alive g' p"
  by (auto simp: heap_le_def alive_def split: option.splits)

lemma lifts_dtable [lifts]: "heap_le g g' \<Longrightarrow> t < dtable_next g \<Longrightarrow> t < dtable_next g'"
  by (simp add: heap_le_def)

lemma lifts_ready [lifts]: "heap_le g g' \<Longrightarrow> ready g t \<Longrightarrow> ready g' t"
  by (auto simp: heap_le_def ready_def table_le_def)

lemma lifts_is_remote: "heap_le g g' \<Longrightarrow> x < inode_next g \<Longrightarrow> is_remote (inodes g' x) = is_remote (inodes g x)"
  by (simp add: heap_le_def)

lemma lifts_wf_table: "heap_le g g' \<Longrightarrow> wf_table g dt \<Longrightarrow> wf_table g' dt"
  using lifts_alive [of g g'] by (auto simp: wf_table_def)

lemma lifts_wf_handle: "heap_le g g' \<Longrightarrow> wf_handle g a h \<Longrightarrow> wf_handle g' a h"
  using lifts_less [of g g'] lifts_is_remote [of g g'] by (auto simp: wf_handle_def)

lemma alive_simps [simp]: "alive g None" "alive g (Some x) \<longleftrightarrow> x < inode_next g"
  by (simp_all add: alive_def)

section \<open>The judgement\<close>

text \<open>\<open>safe g (m g) Q\<close>: run on a well-typed heap, \<open>m\<close> leaves one, and a result that satisfies \<open>Q\<close>.\<close>

definition safe :: "('s, 'e) fs \<Rightarrow> 'a result \<times> ('s, 'e) fs \<Rightarrow> ('a \<Rightarrow> ('s, 'e) fs \<Rightarrow> bool) \<Rightarrow> bool" where
  "safe g o1 Q \<longleftrightarrow> (wf_heap g \<longrightarrow>
     (case o1 of (r, g') \<Rightarrow> wf_heap g' \<and> heap_le g g' \<and> (case r of Inl e \<Rightarrow> True | Inr x \<Rightarrow> Q x g')))"

named_theorems safes "rules of the typing judgement"

lemma safeD:
  assumes "safe g (r, g') Q" and "wf_heap g"
  shows "wf_heap g'" and "heap_le g g'" and "r = Inr x \<Longrightarrow> Q x g'"
  using assms by (auto simp: safe_def)

lemma safe_post:
  "safe g o1 R \<Longrightarrow> (\<And>x g'. heap_le g g' \<Longrightarrow> wf_heap g' \<Longrightarrow> R x g' \<Longrightarrow> Q x g') \<Longrightarrow> safe g o1 Q"
  by (auto simp: safe_def split: prod.splits sum.splits)

lemma safe_triv: "safe g o1 R \<Longrightarrow> safe g o1 (\<lambda>_ _. True)"
  by (erule safe_post) simp

lemma safe_wf: "(wf_heap g \<Longrightarrow> safe g o1 Q) \<Longrightarrow> safe g o1 Q"
  by (simp add: safe_def)

lemma safe_bind [safes]:
  assumes "safe g (m g) (\<lambda>x g'. safe g' (f x g') Q)"
  shows "safe g (bindE m f g) Q"
  unfolding safe_def
proof
  assume wf: "wf_heap g"
  obtain r g' where m: "m g = (r, g')" by fastforce
  note 1 = safeD [OF assms [unfolded m] wf]
  show "case bindE m f g of (r, g') \<Rightarrow> wf_heap g' \<and> heap_le g g' \<and> (case r of Inl e \<Rightarrow> True | Inr x \<Rightarrow> Q x g')"
  proof (cases r)
    case (Inr x)
    obtain r2 g2 where 2: "f x g' = (r2, g2)" by fastforce
    note 3 = safeD [OF 1(3) [OF Inr, unfolded 2] 1(1)]
    have "heap_le g g2" by (rule heap_le_trans [OF 1(2) 3(2)])
    then show ?thesis using 3(1,3) m Inr 2 by (cases r2) simp_all
  qed (use 1 m in simp)
qed

text \<open>A handler that looks at the outcome of the first part.\<close>

lemma safe_seq:
  assumes "safe g o1 R"
    and "\<And>r g'. o1 = (r, g') \<Longrightarrow> heap_le g g' \<Longrightarrow> wf_heap g' \<Longrightarrow> (\<And>x. r = Inr x \<Longrightarrow> R x g') \<Longrightarrow> safe g' o2 Q"
  shows "safe g o2 Q"
proof (rule safe_wf)
  assume wf: "wf_heap g"
  obtain r g' where m: "o1 = (r, g')" by fastforce
  note 1 = safeD [OF assms(1) [unfolded m] wf]
  have "safe g' o2 Q" by (rule assms(2) [OF m 1(2,1)]) (rule 1(3))
  then show ?thesis using 1(1,2) heap_le_trans [of g g'] by (auto simp: safe_def split: sum.splits)
qed

lemma safe_result [safes]:
  "safe g (Inl e, g) Q" "safe g (throwE e g) Q"
  "(wf_heap g \<Longrightarrow> Q x g) \<Longrightarrow> safe g (Inr x, g) Q" "(wf_heap g \<Longrightarrow> Q x g) \<Longrightarrow> safe g (returnE x g) Q"
  by (simp_all add: safe_def)

lemma safe_lift [THEN safe_post, safes]: "safe g (liftE r g) (\<lambda>x _. r g = Inr x)"
  by (simp add: safe_def split: sum.split)

lemma safe_read [safes]: "(wf_heap g \<Longrightarrow> safe g (f g g) Q) \<Longrightarrow> safe g (readE f g) Q"
  by (simp add: safe_def readE_def)

lemma safe_if [safes]:
  "(b \<Longrightarrow> safe g r Q) \<Longrightarrow> (\<not> b \<Longrightarrow> safe g r' Q) \<Longrightarrow> safe g (if b then r else r') Q"
  "(b \<Longrightarrow> safe g (m g) Q) \<Longrightarrow> (\<not> b \<Longrightarrow> safe g (n g) Q) \<Longrightarrow> safe g ((if b then m else n) g) Q"
  by simp_all

lemma safe_option [safes]:
  "(p = None \<Longrightarrow> safe g r Q) \<Longrightarrow> (\<And>x. p = Some x \<Longrightarrow> safe g (h x) Q) \<Longrightarrow>
    safe g (case p of None \<Rightarrow> r | Some x \<Rightarrow> h x) Q"
  "(p = None \<Longrightarrow> safe g (m g) Q) \<Longrightarrow> (\<And>x. p = Some x \<Longrightarrow> safe g (f x g) Q) \<Longrightarrow>
    safe g ((case p of None \<Rightarrow> m | Some x \<Rightarrow> f x) g) Q"
  by (cases p; simp)+

lemma safe_sum [safes]:
  "(\<And>e. p = Inl e \<Longrightarrow> safe g (h e) Q) \<Longrightarrow> (\<And>x. p = Inr x \<Longrightarrow> safe g (h' x) Q) \<Longrightarrow>
    safe g (case p of Inl e \<Rightarrow> h e | Inr x \<Rightarrow> h' x) Q"
  "(\<And>e. p = Inl e \<Longrightarrow> safe g (f e g) Q) \<Longrightarrow> (\<And>x. p = Inr x \<Longrightarrow> safe g (f' x g) Q) \<Longrightarrow>
    safe g ((case p of Inl e \<Rightarrow> f e | Inr x \<Rightarrow> f' x) g) Q"
  by (cases p; simp)+

lemma safe_prod [safes]:
  "(\<And>x y. p = (x, y) \<Longrightarrow> safe g (f x y g) Q) \<Longrightarrow> safe g ((case p of (x, y) \<Rightarrow> f x y) g) Q"
  by (cases p) simp

lemma safe_iobj [safes]:
  "(\<And>i. ob = Inode i \<Longrightarrow> safe g (h i) Q) \<Longrightarrow> (\<And>i r. ob = Remote i r \<Longrightarrow> safe g (h' i r) Q) \<Longrightarrow>
    safe g (case ob of Inode i \<Rightarrow> h i | Remote i r \<Rightarrow> h' i r) Q"
  by (cases ob) simp_all

lemma safe_loc [safes]:
  "(l = LOCAL \<Longrightarrow> safe g (a g) Q) \<Longrightarrow> (l = REMOTE \<Longrightarrow> safe g (b g) Q) \<Longrightarrow> safe g (c g) Q \<Longrightarrow>
    safe g ((case l of LOCAL \<Rightarrow> a | REMOTE \<Rightarrow> b | _ \<Rightarrow> c) g) Q"
  by (cases l) simp_all

lemma safe_fold [THEN safe_post, safes]:
  assumes "\<And>x h. heap_le g h \<Longrightarrow> safe h (f x h) (\<lambda>_ _. True)"
  shows "safe g (foldE f xs g) (\<lambda>_ _. True)"
proof -
  have "heap_le g h \<Longrightarrow> safe h (foldE f xs h) (\<lambda>_ _. True)" for h
  proof (induction xs arbitrary: h)
    case (Cons x xs)
    have "safe h (f x h) (\<lambda>_ g'. safe g' (foldE f xs g') (\<lambda>_ _. True))"
      by (rule safe_post [OF assms [OF Cons.prems]]) (rule Cons.IH, rule heap_le_trans [OF Cons.prems])
    then show ?case by (simp add: safe_bind)
  qed (simp add: safe_result)
  then show ?thesis by simp
qed

section \<open>Operations outside the heap\<close>

definition heap_same :: "('s, 'e) fs \<Rightarrow> ('s, 'e) fs \<Rightarrow> bool" where
  "heap_same g g' \<longleftrightarrow> inodes g' = inodes g \<and> inode_next g' = inode_next g \<and> dtables g' = dtables g \<and>
     dtable_next g' = dtable_next g \<and> dentry_tables g' = dentry_tables g \<and> fh_list g' = fh_list g"

lemma heap_same_wf: "heap_same g g' \<Longrightarrow> wf_heap g' = wf_heap g"
  unfolding heap_same_def wf_heap_def wf_table_def wf_handle_def alive_def ready_def by (elim conjE) (simp only:)

lemma heap_same_safe: "(\<And>r g'. m g = (r, g') \<Longrightarrow> heap_same g g') \<Longrightarrow> safe g (m g) (\<lambda>_ g'. heap_same g g')"
  using heap_same_wf [of g "snd (m g)"] unfolding safe_def
  by (cases "m g") (simp add: heap_same_def heap_le_def split: sum.split)

lemma safe_sources [THEN safe_post, safes]:
  "safe g (read_clock g) (\<lambda>_ _. True)" "safe g (get_time g) (\<lambda>_ _. True)" "safe g (alloc_new_ino g) (\<lambda>_ _. True)"
  "safe g (new_address g) (\<lambda>_ _. True)"
  by (rule heap_same_safe [THEN safe_triv]; auto simp: heap_same_def source_defs)+

lemma safe_lc_acquire [THEN safe_post, safes]: "safe g (lc_acquire W ino a g) (\<lambda>_ g'. inodes g' = inodes g)"
  by (rule safe_post [OF heap_same_safe])
    (auto simp: heap_same_def lc_acquire_def bindE_def read_clock_def split: prod.splits)

lemma safe_calls [THEN safe_post, safes]:
  "safe g (remote_call f g) (\<lambda>_ _. True)" "safe g (journal_call h g) (\<lambda>_ _. True)" "safe g (data_call k g) (\<lambda>_ _. True)"
  "safe g (lc_is_valid ino g) (\<lambda>_ _. True)" "safe g (rpc_call W ad q g) (\<lambda>_ _. True)"
  by (rule heap_same_safe [THEN safe_triv];
    auto simp: heap_same_def remote_call_def journal_call_def data_call_def lc_is_valid_def rpc_call_def
      bindE_def read_clock_def split: prod.splits option.splits)+

section \<open>Objects and tables\<close>

lemma wf_heap_step:
  assumes "wf_heap g" and "heap_le g g'" and "\<And>x. x < inode_next g' \<Longrightarrow> wf_obj (inodes g' x)"
    and "\<And>t. t < dtable_next g' \<Longrightarrow> wf_table g' (dtables g' t)"
    and "dentry_tables g' = dentry_tables g" and "fh_list g' = fh_list g"
  shows "wf_heap g'"
proof -
  have "ready g' t \<and> dir_ino (dtables g' t) = u" if "dentry_tables g' u = Some t" for u t
    using that assms(1,2,5) lifts_ready [OF assms(2), of t] by (auto simp: wf_heap_def heap_le_def table_le_def ready_def)
  moreover have "wf_handle g' a h" if "fh_list g' a = Some h" for a h
    using that assms(1,6) lifts_wf_handle [OF assms(2)] by (simp add: wf_heap_def)
  ultimately show ?thesis using assms(3,4) by (simp add: wf_heap_def)
qed

lemma safe_new_iobj [THEN safe_post, safes]:
  assumes "wf_obj ob"
  shows "safe g (new_iobj ob g) (\<lambda>x g'. x < inode_next g' \<and> is_remote (inodes g' x) = is_remote ob)"
proof -
  let ?g = "g\<lparr>inodes := (inodes g)(inode_next g := ob), inode_next := Suc (inode_next g)\<rparr>"
  have le: "heap_le g ?g" by (simp add: heap_le_def)
  have "wf_heap ?g" if "wf_heap g"
    by (rule wf_heap_step [OF that le])
      (use that assms lifts_wf_table [OF le] in \<open>auto simp: wf_heap_def less_Suc_eq\<close>)
  then show ?thesis using le by (simp add: safe_def new_iobj_def)
qed

lemma safe_update_inode:
  assumes "\<And>i. loc (f i) = REMOTE \<Longrightarrow> loc i = REMOTE"
  shows "safe g (update_inode x f g) (\<lambda>_ _. True)"
proof -
  let ?g = "g\<lparr>inodes := (inodes g)(x := map_base f (inodes g x))\<rparr>"
  have le: "heap_le g ?g" by (simp add: heap_le_def)
  have "wf_heap ?g" if "wf_heap g"
    by (rule wf_heap_step [OF that le])
      (use that assms lifts_wf_table [OF le] in \<open>auto simp: wf_heap_def wf_obj_def\<close>)
  then show ?thesis using le by (simp add: safe_def update_inode_def)
qed

lemma safe_updates [THEN safe_post, safes]:
  "safe g (update_core x f g) (\<lambda>_ _. True)" "safe g (update_inode x (\<lambda>i. i\<lparr>p_ino := u\<rparr>) g) (\<lambda>_ _. True)"
  "safe g (update_inode x (\<lambda>i. i\<lparr>loc := LOCAL\<rparr>) g) (\<lambda>_ _. True)"
  unfolding update_core_def by (rule safe_update_inode; simp)+

text \<open>A remote object may be marked as remote.\<close>

lemma safe_mark_remote [THEN safe_post, safes]:
  assumes "is_remote (inodes g x)"
  shows "safe g (update_inode x (\<lambda>i. i\<lparr>loc := REMOTE\<rparr>) g) (\<lambda>_ _. True)"
proof -
  let ?g = "g\<lparr>inodes := (inodes g)(x := map_base (\<lambda>i. i\<lparr>loc := REMOTE\<rparr>) (inodes g x))\<rparr>"
  have le: "heap_le g ?g" by (simp add: heap_le_def)
  have "wf_heap ?g" if "wf_heap g"
    by (rule wf_heap_step [OF that le])
      (use that assms lifts_wf_table [OF le] in \<open>auto simp: wf_heap_def wf_obj_def\<close>)
  then show ?thesis using le by (simp add: safe_def update_inode_def)
qed

lemma safe_new_dtable [THEN safe_post, safes]:
  assumes "wf_table g dt"
  shows "safe g (new_dtable dt g) (\<lambda>t g'. t < dtable_next g' \<and> table_le dt (dtables g' t))"
proof -
  let ?g = "g\<lparr>dtables := (dtables g)(dtable_next g := dt), dtable_next := Suc (dtable_next g)\<rparr>"
  have le: "heap_le g ?g" by (simp add: heap_le_def)
  have "wf_heap ?g" if "wf_heap g"
    by (rule wf_heap_step [OF that le])
      (use that assms lifts_wf_table [OF le] in \<open>auto simp: wf_heap_def less_Suc_eq\<close>)
  then show ?thesis using le by (simp add: safe_def new_dtable_def)
qed

lemma safe_update_dtable [THEN safe_post, safes]:
  assumes "table_le (dtables g t) (f (dtables g t))"
    and "t < dtable_next g \<Longrightarrow> wf_table g (dtables g t) \<Longrightarrow> wf_table g (f (dtables g t))"
  shows "safe g (update_dtable t f g) (\<lambda>_ g'. dtables g' t = f (dtables g t))"
proof -
  let ?g = "g\<lparr>dtables := (dtables g)(t := f (dtables g t))\<rparr>"
  have le: "heap_le g ?g" using assms(1) by (simp add: heap_le_def)
  have "wf_heap ?g" if "wf_heap g"
    by (rule wf_heap_step [OF that le])
      (use that assms(2) lifts_wf_table [OF le] in \<open>auto simp: wf_heap_def\<close>)
  then show ?thesis using le by (simp add: safe_def update_dtable_def)
qed


text \<open>The index and the open files.\<close>

lemma wf_heap_index:
  assumes "wf_heap g" and "\<And>u t. D u = Some t \<Longrightarrow> ready g t \<and> dir_ino (dtables g t) = u"
  shows "wf_heap (g\<lparr>dentry_tables := D\<rparr>)"
  using assms unfolding wf_heap_def wf_table_def wf_handle_def alive_def ready_def by simp

lemma safe_add_dentry_table [THEN safe_post, safes]:
  assumes "ready g t" and "dir_ino (dtables g t) = ino"
  shows "safe g (add_dentry_table ino t g) (\<lambda>_ _. True)"
proof -
  have "wf_heap (g\<lparr>dentry_tables := (dentry_tables g)(ino \<mapsto> t)\<rparr>)" if "wf_heap g"
    by (rule wf_heap_index [OF that]) (use that assms in \<open>auto simp: wf_heap_def split: if_splits\<close>)
  then show ?thesis by (auto simp: safe_def add_dentry_table_def heap_le_def split: option.split)
qed

lemma safe_delete_dentry_table [THEN safe_post, safes]: "safe g (delete_dentry_table ino g) (\<lambda>_ _. True)"
proof -
  have "wf_heap (g\<lparr>dentry_tables := (dentry_tables g)(ino := None)\<rparr>)" if "wf_heap g"
    by (rule wf_heap_index [OF that]) (use that in \<open>auto simp: wf_heap_def split: if_splits\<close>)
  then show ?thesis by (auto simp: safe_def delete_dentry_table_def heap_le_def split: option.split)
qed

section \<open>Directory tables\<close>

lemma wf_heapD:
  assumes "wf_heap g"
  shows "x < inode_next g \<Longrightarrow> wf_obj (inodes g x)" and "t < dtable_next g \<Longrightarrow> wf_table g (dtables g t)"
    and "dentry_tables g u = Some t \<Longrightarrow> ready g t \<and> dir_ino (dtables g t) = u" and "fh_list g a = Some h \<Longrightarrow> wf_handle g a h"
  using assms by (simp_all add: wf_heap_def)

lemma wf_obj_simps [simp]:
  "wf_obj (Remote i r)" "wf_obj (Inode i) \<longleftrightarrow> loc i \<noteq> REMOTE"
  by (simp_all add: wf_obj_def)

lemma wf_empty_table [simp]:
  "wf_table g (empty_table ino l) \<longleftrightarrow> l = LOCAL \<or> l = REMOTE"
  "wf_table g ((empty_table ino l)\<lparr>this_dir_inode := p\<rparr>) \<longleftrightarrow> alive g p \<and> (l = LOCAL \<or> l = REMOTE)"
  "wf_table g ((empty_table ino l)\<lparr>this_dir_inode := p, dt_dentries := q\<rparr>) \<longleftrightarrow> alive g p \<and> (l = LOCAL \<or> l = REMOTE)"
  by (auto simp: wf_table_def empty_table_def)

lemma table_le_empty [simp]:
  "table_le (empty_table ino l) dt \<longleftrightarrow> dir_ino dt = ino \<and> dt_loc dt = l"
  "table_le ((empty_table ino l)\<lparr>this_dir_inode := p\<rparr>) dt \<longleftrightarrow> dir_ino dt = ino \<and> dt_loc dt = l \<and> (p \<noteq> None \<longrightarrow> this_dir_inode dt \<noteq> None)"
  "table_le ((empty_table ino l)\<lparr>this_dir_inode := p, dt_dentries := q\<rparr>) dt \<longleftrightarrow> dir_ino dt = ino \<and> dt_loc dt = l \<and>
    (p \<noteq> None \<longrightarrow> this_dir_inode dt \<noteq> None) \<and> (q \<noteq> None \<longrightarrow> dt_dentries dt \<noteq> None)"
  by (auto simp: table_le_def empty_table_def)

text \<open>A table of a directory whose inode, if it is local, is there; a complete one.\<close>

definition begun :: "uuid \<Rightarrow> meta_location \<Rightarrow> ('s, 'e) fs \<Rightarrow> nat \<Rightarrow> bool" where
  "begun ino l g t \<longleftrightarrow> t < dtable_next g \<and> dir_ino (dtables g t) = ino \<and> dt_loc (dtables g t) = l \<and>
     (l = LOCAL \<longrightarrow> this_dir_inode (dtables g t) \<noteq> None)"

definition complete :: "uuid \<Rightarrow> ('s, 'e) fs \<Rightarrow> nat \<Rightarrow> bool" where
  "complete ino g t \<longleftrightarrow> ready g t \<and> dir_ino (dtables g t) = ino"

lemma lifts_begun [lifts]: "heap_le g g' \<Longrightarrow> begun ino l g t \<Longrightarrow> begun ino l g' t"
  by (auto simp: begun_def heap_le_def table_le_def)

lemma lifts_complete [lifts]: "heap_le g g' \<Longrightarrow> complete ino g t \<Longrightarrow> complete ino g' t"
  using lifts_ready [of g g' t] by (auto simp: complete_def ready_def heap_le_def table_le_def)

lemma safe_dentry_table_new [THEN safe_post, safes]:
  assumes "l = LOCAL \<or> l = REMOTE"
  shows "safe g (dentry_table_new W ino l g) (\<lambda>t g'. begun ino l g' t)"
  using assms unfolding dentry_table_new_def by (intro safes) (auto simp: begun_def)

lemma safe_dentry_table_new_dir [THEN safe_post, safes]:
  assumes "x < inode_next g"
  shows "safe g (dentry_table_new_dir u x d LOCAL g) (\<lambda>t g'. complete (ino_of g x) g' t)"
  unfolding dentry_table_new_dir_def by (intro safes) (use assms in \<open>auto intro: lifts simp: complete_def ready_def\<close>)

lemma safe_set_leader_ip [THEN safe_post, safes]: "safe g (set_leader_ip t ip g) (\<lambda>_ _. True)"
  unfolding set_leader_ip_def by (intro safes) (auto simp: table_le_def wf_table_def)

lemma safe_child_inode [THEN safe_post, safes]:
  "x < inode_next g \<Longrightarrow> safe g (create_child_inode t n x g) (\<lambda>_ _. True)"
  "x < inode_next g \<Longrightarrow> safe g (add_child_inode t n x g) (\<lambda>_ _. True)"
  "safe g (delete_child_inode t n g) (\<lambda>_ _. True)"
  unfolding create_child_inode_def add_child_inode_def delete_child_inode_def
  by (intro safes; auto simp: table_le_def wf_table_def alive_def)+

lemma safe_pull_child [THEN safe_post, safes]: "safe g (pull_child W t p g) (\<lambda>_ _. True)"
  unfolding pull_child_def by (intro safes) auto

lemma safe_pull_child_metadata [THEN safe_post, safes]:
  assumes "begun ino LOCAL g t"
  shows "safe g (pull_child_metadata W t g) (\<lambda>_ g'. complete ino g' t)"
  unfolding pull_child_metadata_def
proof (intro safes)
  fix x g1 g2
  assume "heap_le g g1" and "heap_le g1 g2" and "dtables g1 t = (dtables g t)\<lparr>dt_dentries := Some x\<rparr>"
  then show "complete ino g2 t"
    using assms by (auto simp: complete_def begun_def heap_le_def table_le_def ready_def)
qed (simp_all add: table_le_def wf_table_def)


lemma is_remote_new [simp]: "is_remote (remote_inode_new raw ip u n b)" "wf_obj (remote_inode_new raw ip u n b)"
  by (simp_all add: remote_inode_new_def)

lemma is_remote_after: "heap_le g g' \<Longrightarrow> x < inode_next g \<Longrightarrow> is_remote (inodes g x) \<Longrightarrow> is_remote (inodes g' x)"
  by (simp add: lifts_is_remote)

lemma safe_get_child_inode [THEN safe_post, safes]:
  assumes "t < dtable_next g"
  shows "safe g (get_child_inode W t n u g) (\<lambda>p g'. alive g' p)"
proof -
  have *: "alive g' (child_inodes (dtables g t) n)" if "wf_heap g" "heap_le g g'" for g'
    using wf_heapD(2) [OF that(1) assms] lifts_alive [OF that(2)] by (simp add: wf_table_def)
  show ?thesis unfolding get_child_inode_def Let_def
    by (rule safe_wf, intro safes) (use * in \<open>auto intro: lifts is_remote_after\<close>)
qed

lemma safe_check_child_inode [THEN safe_post, safes]: "safe g (check_child_inode W t n g) (\<lambda>_ _. True)"
  unfolding check_child_inode_def Let_def by (intro safes) auto

lemma safe_get_this_dir_inode [THEN safe_post, safes]:
  assumes "t < dtable_next g"
  shows "safe g (get_this_dir_inode W t g) (\<lambda>p g'. alive g' p)"
proof -
  have "alive g (this_dir_inode (dtables g t))" if "wf_heap g"
    using wf_heapD(2) [OF that assms] by (simp add: wf_table_def)
  then show ?thesis unfolding get_this_dir_inode_def Let_def
    by (intro safes) (auto intro: lifts is_remote_after)
qed

lemma safe_table_reads [THEN safe_post, safes]:
  "safe g (dt_fill_filler W t g) (\<lambda>_ _. True)" "safe g (dt_get_child_num W t g) (\<lambda>_ _. True)"
  unfolding dt_fill_filler_def dt_get_child_num_def by (intro safes; simp)+

lemma safe_virtual [THEN safe_post, safes]:
  "safe g (get_mode W x g) (\<lambda>_ _. True)" "safe g (check_permission W x k g) (\<lambda>_ _. True)"
  unfolding get_mode_def check_permission_def by (intro safes; simp add: safe_def split: sum.split)+

section \<open>The index and paths\<close>

lemma safe_deref [THEN safe_post, safes]: "safe g (deref p g) (\<lambda>x _. p = Some x)"
  unfolding deref_def by (intro safes) auto

text \<open>The result of a search for a table: null, or a table that may be used.\<close>

definition found :: "uuid \<Rightarrow> ('s, 'e) fs \<Rightarrow> nat option \<Rightarrow> bool" where
  "found ino g p \<longleftrightarrow> (\<forall>t. p = Some t \<longrightarrow> complete ino g t)"

lemma found_simps [simp]: "found ino g None" "found ino g (Some t) \<longleftrightarrow> complete ino g t"
  by (simp_all add: found_def)

lemma completeD:
  "complete ino g t \<Longrightarrow> ready g t" "complete ino g t \<Longrightarrow> dir_ino (dtables g t) = ino" "complete ino g t \<Longrightarrow> t < dtable_next g"
  by (simp_all add: complete_def ready_def)

lemma begun_remote: "begun ino REMOTE g t \<Longrightarrow> complete ino g t"
  by (simp add: begun_def complete_def ready_def)

lemma safe_lease_dentry_table [THEN safe_post, safes]:
  "safe g (lease_dentry_table W ino g) (\<lambda>p g'. found ino g' p)"
  unfolding lease_dentry_table_def
  by (intro safes) (auto intro: lifts completeD begun_remote)

lemma safe_lease_dentry_table_mkdir [THEN safe_post, safes]:
  assumes "x < inode_next g"
  shows "safe g (lease_dentry_table_mkdir W x d g) (\<lambda>_ _. True)"
  unfolding lease_dentry_table_mkdir_def Let_def
  by (intro safes) (use assms in \<open>auto intro: lifts completeD simp: ino_of_def inode_at_def\<close>)


lemma safe_get_dentry_table [THEN safe_post, safes]:
  "safe g (get_dentry_table W ino remote g) (\<lambda>p g'. found ino g' p)"
proof -
  have *: "complete ino g' t" if "wf_heap g" "heap_le g g'" "dentry_tables g ino = Some t" for g' t
    using wf_heapD(3) [OF that(1,3)] lifts_complete [OF that(2)] by (simp add: complete_def)
  show ?thesis unfolding get_dentry_table_def
    by (rule safe_wf, intro safes) (use * in auto)
qed

lemma safe_again [THEN safe_post, safes]: "safe g (find_remote_dentry_table_again W x g) (\<lambda>_ _. True)"
proof -
  have *: "safe h (Inr (), h\<lparr>inodes := (inodes h)(x := Remote i r)\<rparr>) (\<lambda>_ _. True)" if "inodes h x = Remote i r'" for h i r r'
  proof -
    let ?h = "h\<lparr>inodes := (inodes h)(x := Remote i r)\<rparr>"
    have le: "heap_le h ?h" using that by (simp add: heap_le_def)
    have "wf_heap ?h" if "wf_heap h"
      by (rule wf_heap_step [OF that le]) (use that lifts_wf_table [OF le] in \<open>auto simp: wf_heap_def\<close>)
    then show ?thesis using le by (simp add: safe_def)
  qed
  show ?thesis unfolding find_remote_dentry_table_again_def by (intro safes *)
qed

text \<open>Path resolution: the pair of the current table and inode stays valid.\<close>

lemma safe_traverse_step [THEN safe_post, safes]:
  assumes "t < dtable_next g"
  shows "safe g (traverse_step W n t g) (\<lambda>(t', x) g'. t' < dtable_next g' \<and> x < inode_next g')"
  unfolding traverse_step_def
  by (intro safes) (use assms in \<open>auto 12 2 intro: lifts completeD\<close>)

lemma safe_traverse [THEN safe_post, safes]:
  assumes "t < dtable_next g" and "x < inode_next g"
  shows "safe g (traverse W path n e t x g) (\<lambda>y g'. y < inode_next g')"
  using assms
proof (induction "nat (n - e)" arbitrary: e t x g rule: less_induct)
  case less
  show ?case
  proof (cases "set_name_bound e path n")
    case None
    then show ?thesis using less.prems by (subst traverse.simps) (simp add: safe_def)
  next
    case (Some b)
    obtain s e' where b: "b = (s, e')" by fastforce
    then have IH: "safe h (traverse W path n e' t' x' h) (\<lambda>y g'. y < inode_next g')"
      if "t' < dtable_next h" "x' < inode_next h" for t' x' h
      using less.hyps [of e'] that set_name_bound_progress [of e path n s e'] Some by simp
    have "traverse W path n e t x g =
        bindE (traverse_step W (substr path s e') t) (\<lambda>p. traverse W path n e' (fst p) (snd p)) g"
      using Some b by (subst traverse.simps) (simp add: bindE_def case_prod_unfold split: sum.split)
    also have "safe g \<dots> (\<lambda>y g'. y < inode_next g')"
      by (intro safes) (use less.prems IH in \<open>auto split: prod.splits\<close>)
    finally show ?thesis .
  qed
qed

lemma safe_path_traversal [THEN safe_post, safes]:
  "safe g (path_traversal W path g) (\<lambda>x g'. x < inode_next g')"
  unfolding path_traversal_def by (intro safes) (auto 12 2 intro: lifts completeD)

section \<open>Open files\<close>

lemma wf_heap_files:
  assumes "wf_heap g" and "\<And>a h. H a = Some h \<Longrightarrow> wf_handle g a h"
  shows "wf_heap (g\<lparr>fh_list := H\<rparr>)"
  using assms unfolding wf_heap_def wf_table_def wf_handle_def alive_def ready_def by simp

lemma safe_add_file_handler [THEN safe_post, safes]:
  assumes "wf_handle g a h"
  shows "safe g (add_file_handler a h g) (\<lambda>_ _. True)"
proof -
  have "wf_heap (g\<lparr>fh_list := (fh_list g)(a \<mapsto> h)\<rparr>)" if "wf_heap g"
    by (rule wf_heap_files [OF that]) (use that assms in \<open>auto simp: wf_heap_def split: if_splits\<close>)
  then show ?thesis by (auto simp: safe_def add_file_handler_def heap_le_def split: option.split)
qed

lemma safe_delete_file_handler [THEN safe_post, safes]: "safe g (delete_file_handler a g) (\<lambda>_ _. True)"
proof -
  have "wf_heap (g\<lparr>fh_list := (fh_list g)(a := None)\<rparr>)" if "wf_heap g"
    by (rule wf_heap_files [OF that]) (use that in \<open>auto simp: wf_heap_def split: if_splits\<close>)
  then show ?thesis by (auto simp: safe_def delete_file_handler_def heap_le_def split: option.split)
qed

lemma safe_open_inode [THEN safe_post, safes]:
  "safe g (open_inode fh g) (\<lambda>p g'. \<exists>x. p = Some x \<and> x < inode_next g')"
proof -
  have *: "get_open_inode_info h = Inr p \<Longrightarrow> \<exists>x. p = Some x \<and> x < inode_next g'" if "wf_heap g" "fh_list g fh = Some h" "heap_le g g'" for h g' p
    using wf_heapD(4) [OF that(1,2)] lifts_less [OF that(3)] by (auto simp: wf_handle_def get_open_inode_info_def)
  show ?thesis unfolding open_inode_def
    by (rule safe_wf, intro safes) (use * in \<open>auto simp: safe_def get_file_handler_def split: option.split sum.split\<close>)
qed

lemma safe_target_inode [THEN safe_post, safes]:
  "safe g (target_inode W path fi g) (\<lambda>x g'. x < inode_next g')"
  unfolding target_inode_def by (intro safes) (auto intro: lifts)

lemma safe_table_of [THEN safe_post, safes]: "safe g (table_of W i g) (\<lambda>t g'. ready g' t \<and> t < dtable_next g')"
  unfolding table_of_def by (intro safes) (auto intro: lifts completeD)


section \<open>Operations of the leader\<close>

lemma new_inode_loc [simp]:
  "loc (inode_new u ts p owner grp m b) = LOCAL" "loc (inode_new_dir ts p owner grp m u) = LOCAL"
  "loc (inode_new_symlink u ts p owner grp m src) = LOCAL"
  by (simp_all add: inode_new_def inode_new_dir_def inode_new_symlink_def)

lemma safe_make_inode [THEN safe_post, safes]:
  "safe g (make_inode p m g) (\<lambda>x g'. x < inode_next g')" "safe g (server_inode u owner grp m g) (\<lambda>x g'. x < inode_next g')"
  unfolding make_inode_def server_inode_def by (intro safes; simp)+

lemma safe_touch_dir [THEN safe_post, safes]: "safe g (touch_dir i g) (\<lambda>_ _. True)"
  unfolding touch_dir_def by (intro safes) simp

lemma safe_journal_calls [THEN safe_post, safes]:
  "safe g (j_mkself W i g) (\<lambda>_ _. True)" "safe g (j_chself W i g) (\<lambda>_ _. True)" "safe g (j_rmself W u g) (\<lambda>_ _. True)"
  "safe g (j_mkdir W i n u g) (\<lambda>_ _. True)" "safe g (j_rmdir W i n u g) (\<lambda>_ _. True)" "safe g (j_mkreg W i n f g) (\<lambda>_ _. True)"
  "safe g (j_rmreg W i n f g) (\<lambda>_ _. True)" "safe g (j_chreg W f g) (\<lambda>_ _. True)"
  unfolding j_mkself_def j_chself_def j_rmself_def j_mkdir_def j_rmdir_def j_mkreg_def j_rmreg_def j_chreg_def
  by (intro safes; simp)+

lemma safe_j_change [THEN safe_post, safes]: "safe g (j_change W i g) (\<lambda>_ _. True)"
  unfolding j_change_def by (intro safes) simp_all

lemma safe_open_handle [THEN safe_post, safes]: "i < inode_next g \<Longrightarrow> safe g (open_handle i g) (\<lambda>_ _. True)"
  unfolding open_handle_def by (intro safes) (auto simp: wf_handle_def intro: lifts)

lemma safe_utime_one [THEN safe_post, safes]: "safe g (utime_one i put tv g) (\<lambda>_ _. True)"
  unfolding utime_one_def by (intro safes) simp_all

lemma safe_drop_target [THEN safe_post, safes]:
  "t < dtable_next g \<Longrightarrow> safe g (drop_target W p t n u g) (\<lambda>_ _. True)"
  unfolding drop_target_def by (intro safes) simp_all

lemma safe_local_reads [THEN safe_post, safes]:
  "safe g (local_getattr i st g) (\<lambda>_ _. True)" "safe g (local_access W i k g) (\<lambda>_ _. True)"
  "safe g (local_releasedir i fh g) (\<lambda>_ _. True)" "safe g (local_readdir W i g) (\<lambda>_ _. True)"
  "safe g (local_readlink W i sz g) (\<lambda>_ _. True)" "safe g (local_release i fh g) (\<lambda>_ _. True)"
  "safe g (local_read W i len off g) (\<lambda>_ _. True)"
  unfolding local_getattr_def local_access_def local_releasedir_def local_readdir_def local_readlink_def
    local_release_def local_read_def Let_def
  by (intro safes; simp)+

lemma safe_local_attributes [THEN safe_post, safes]:
  "safe g (local_chmod W i m g) (\<lambda>_ _. True)" "safe g (local_chown W i ow gr g) (\<lambda>_ _. True)"
  "safe g (local_utimens W i tv0 tv1 g) (\<lambda>_ _. True)" "safe g (local_truncate W i off g) (\<lambda>_ _. True)"
  "safe g (local_write W i buf sz off' fl g) (\<lambda>_ _. True)"
  unfolding local_chmod_def local_chown_def local_utimens_def local_truncate_def local_write_def Let_def
  by (intro safes; simp)+

lemma safe_local_opens [THEN safe_post, safes]:
  assumes "i < inode_next g"
  shows "safe g (local_opendir W i fh g) (\<lambda>_ _. True)" "safe g (local_open W i fl fh g) (\<lambda>_ _. True)"
  unfolding local_opendir_def local_open_def by (intro safes; use assms in \<open>auto 12 2 intro: lifts\<close>)+

lemma safe_local_entries [THEN safe_post, safes]:
  "safe g (local_mkdir W p n m g) (\<lambda>(r, x, d) g'. x < inode_next g')" "safe g (local_create W p n m g) (\<lambda>_ _. True)"
  "safe g (local_symlink W p src dst g) (\<lambda>_ _. True)" "safe g (local_unlink W p n g) (\<lambda>_ _. True)"
  "safe g (local_rmdir_top W i u g) (\<lambda>_ _. True)" "safe g (local_rmdir_down W p u n g) (\<lambda>_ _. True)"
  unfolding local_mkdir_def local_create_def local_symlink_def local_unlink_def local_rmdir_top_def local_rmdir_down_def Let_def
  by (intro safes; auto 12 2 intro: lifts)+

lemma safe_local_renames [THEN safe_post, safes]:
  "safe g (local_rename_same_parent W p a b fl g) (\<lambda>_ _. True)"
  "safe g (local_rename_not_same_parent_src W p a fl g) (\<lambda>x g'. x < inode_next g')"
  "y < inode_next g \<Longrightarrow> safe g (local_rename_not_same_parent_dst W p y u b fl g) (\<lambda>_ _. True)"
  unfolding local_rename_same_parent_def local_rename_not_same_parent_src_def local_rename_not_same_parent_dst_def
  by (intro safes; auto 12 2 intro: lifts)+


end
