(* ===== verification/Client_Types.thy ===== *)
theory Client_Types
  imports Heap_Types Local_Links
begin

text \<open>
  Every operation that FUSE calls and every procedure that other clients call keeps the heap well typed.
\<close>

section \<open>Serving other clients\<close>

lemma safe_with_table [safes]:
  assumes "\<And>p g'. heap_le g g' \<Longrightarrow> wf_heap g' \<Longrightarrow> found (wire_to_ino w) g' p \<Longrightarrow> safe g' (k p g') (\<lambda>_ _. True)"
  shows "safe g (with_table W w k g) (\<lambda>_ _. True)"
proof (rule safe_seq [where R = "\<lambda>p g'. found (wire_to_ino w) g' p"])
  show "safe g (get_dentry_table W (wire_to_ino w) True g) (\<lambda>p g'. found (wire_to_ino w) g' p)" by (intro safes)
next
  fix r g'
  assume r: "get_dentry_table W (wire_to_ino w) True g = (r, g')" and g': "heap_le g g'" "wf_heap g'"
    "\<And>x. r = Inr x \<Longrightarrow> found (wire_to_ino w) g' x"
  show "safe g' (with_table W w k g) (\<lambda>_ _. True)"
  proof (cases r)
    case (Inl e)
    then show ?thesis using r by (cases e) (simp_all add: with_table_def safes)
  qed (use r g' assms in \<open>simp add: with_table_def\<close>)
qed

lemma safe_rpc_targets [THEN safe_post, safes]:
  "t < dtable_next g \<Longrightarrow> safe g (fetch_target W t n b g) (\<lambda>p g'. alive g' p)"
  "t < dtable_next g \<Longrightarrow> safe g (target_of W t n b g) (\<lambda>x g'. x < inode_next g')"
  "t < dtable_next g \<Longrightarrow> safe g (parent_of W t g) (\<lambda>x g'. x < inode_next g')"
  unfolding fetch_target_def target_of_def parent_of_def by (intro safes; auto intro: lifts)+

lemma safe_permission_answer [THEN safe_post, safes]: "safe g (permission_answer W i k g) (\<lambda>_ _. True)"
proof (rule safe_seq [where R = "\<lambda>_ _. True"])
  show "safe g (check_permission W i k g) (\<lambda>_ _. True)" by (intro safes) simp
next
  fix r g'
  assume "check_permission W i k g = (r, g')"
  then show "safe g' (permission_answer W i k g) (\<lambda>_ _. True)"
    by (auto simp: permission_answer_def split: sum.split exn.split intro!: safes)
qed

lemma safe_rpc_attributes:
  "safe g (rpc_check_child_inode W w n g) (\<lambda>_ _. True)" "safe g (rpc_get_mode W w n g) (\<lambda>_ _. True)"
  "safe g (rpc_permission_check W w n k b g) (\<lambda>_ _. True)" "safe g (rpc_access W w n k b g) (\<lambda>_ _. True)"
  "safe g (rpc_opendir W w n b g) (\<lambda>_ _. True)" "safe g (rpc_open W w n fl g) (\<lambda>_ _. True)"
  "safe g (rpc_readlink W w n sz g) (\<lambda>_ _. True)" "safe g (rpc_write W w n sz off fl g) (\<lambda>_ _. True)"
  "safe g (rpc_chmod W w n m b g) (\<lambda>_ _. True)" "safe g (rpc_chown W w n ow gr b g) (\<lambda>_ _. True)"
  "safe g (rpc_utimens W w n tv0 tv1 b g) (\<lambda>_ _. True)" "safe g (rpc_truncate W w n off b g) (\<lambda>_ _. True)"
  unfolding rpc_check_child_inode_def rpc_get_mode_def rpc_permission_check_def rpc_access_def rpc_opendir_def rpc_open_def
    rpc_readlink_def rpc_write_def rpc_chmod_def rpc_chown_def rpc_utimens_def rpc_truncate_def Let_def
  by (intro safes; auto 12 2 intro: lifts completeD)+

lemma safe_rpc_entries:
  "safe g (rpc_mkdir W w n m ow gr g) (\<lambda>_ _. True)" "safe g (rpc_rmdir_top W w u g) (\<lambda>_ _. True)"
  "safe g (rpc_rmdir_down W w n u g) (\<lambda>_ _. True)" "safe g (rpc_symlink W w n src dst g) (\<lambda>_ _. True)"
  "safe g (rpc_create W w n m g) (\<lambda>_ _. True)" "safe g (rpc_unlink W w n g) (\<lambda>_ _. True)"
  unfolding rpc_mkdir_def rpc_rmdir_top_def rpc_rmdir_down_def rpc_symlink_def rpc_create_def rpc_unlink_def Let_def
  by (intro safes; auto 12 2 intro: lifts completeD)+

lemma rename_loc [simp]:
  "loc (rename_src_response_to_inode m i) = loc i" "loc (rename_dst_request_to_inode m i) = loc i"
  by (simp_all add: rename_src_response_to_inode_def rename_dst_request_to_inode_def)

lemma safe_rpc_renames:
  "safe g (rpc_rename_same_parent W w a b fl g) (\<lambda>_ _. True)"
  "safe g (rpc_rename_not_same_parent_src W w a fl g) (\<lambda>_ _. True)"
  "safe g (rpc_rename_not_same_parent_dst W w m u b fl g) (\<lambda>_ _. True)"
  unfolding rpc_rename_same_parent_def rpc_rename_not_same_parent_src_def rpc_rename_not_same_parent_dst_def
  by (intro safes; auto 12 2 intro: lifts completeD)+

lemma safe_rpc_getattr: "safe g (rpc_getattr W w n b g) (\<lambda>_ _. True)"
proof -
  have *: "safe h (case fetch_target W t n b h of (Inl No_entry, g1) \<Rightarrow> (Inr (answer (- EACCES)), g1) | (Inl e, g1) \<Rightarrow> (Inl e, g1)
      | (Inr q, g1) \<Rightarrow> bindE (deref q) (\<lambda>i. bindE (get_mode W i) (\<lambda>m. readE (\<lambda>h. returnE (stat_respond m (inode_at h i))))) g1) (\<lambda>_ _. True)"
    if t: "t < dtable_next h" for h t
  proof (rule safe_seq [where R = "\<lambda>_ _. True"])
    show "safe h (fetch_target W t n b h) (\<lambda>_ _. True)" by (intro safes) (use t in simp_all)
  next
    fix r h'
    assume "fetch_target W t n b h = (r, h')"
    then show "safe h' (case fetch_target W t n b h of (Inl No_entry, g1) \<Rightarrow> (Inr (answer (- EACCES)), g1) | (Inl e, g1) \<Rightarrow> (Inl e, g1)
      | (Inr q, g1) \<Rightarrow> bindE (deref q) (\<lambda>i. bindE (get_mode W i) (\<lambda>m. readE (\<lambda>h. returnE (stat_respond m (inode_at h i))))) g1) (\<lambda>_ _. True)"
      by (auto split: sum.split exn.split intro!: safes)
  qed
  show ?thesis unfolding rpc_getattr_def by (intro safes *) (auto intro: lifts completeD)
qed

lemma safe_rpc_readdir: "safe g (rpc_readdir W w g) (\<lambda>_ _. True)"
proof (rule safe_seq [where R = "\<lambda>_ _. True"])
  show "safe g (get_dentry_table W (wire_to_ino w) True g) (\<lambda>_ _. True)" by (intro safes) simp
next
  fix r g'
  assume "get_dentry_table W (wire_to_ino w) True g = (r, g')"
  then show "safe g' (rpc_readdir W w g) (\<lambda>_ _. True)"
    by (auto simp: rpc_readdir_def split: sum.split exn.split intro!: safes)
qed

lemma safe_rpc_serve: "safe g (rpc_serve W q g) (\<lambda>_ _. True)"
  by (cases q) (simp_all add: safe_rpc_attributes safe_rpc_entries safe_rpc_renames safe_rpc_getattr safe_rpc_readdir)


section \<open>Calling other clients\<close>

lemma safe_as_remote [safes]:
  "(\<And>i r. inodes g x = Remote i r \<Longrightarrow> safe g (k i r g) Q) \<Longrightarrow> safe g (as_remote x k g) Q"
  unfolding as_remote_def by (intro safes) simp

lemma safe_common_call [THEN safe_post, safes]: "safe g (common_call W r q g) (\<lambda>_ _. True)"
  unfolding common_call_def by (intro safes) simp

lemma safe_remote_handle [THEN safe_post, safes]:
  "x < inode_next g \<Longrightarrow> is_remote (inodes g x) \<Longrightarrow> safe g (remote_handle u x g) (\<lambda>_ _. True)"
  unfolding remote_handle_def by (intro safes) (auto simp: wf_handle_def intro: lifts is_remote_after)

lemma safe_remote_codes [THEN safe_post, safes]:
  "safe g (remote_getattr W x s g) (\<lambda>_ _. True)" "safe g (remote_access W x k g) (\<lambda>_ _. True)"
  "safe g (remote_readdir W x g) (\<lambda>_ _. True)" "safe g (remote_rmdir_top W x u g) (\<lambda>_ _. True)"
  "safe g (remote_rmdir_down W x u n g) (\<lambda>_ _. True)" "safe g (remote_symlink W x a b g) (\<lambda>_ _. True)"
  "safe g (remote_readlink W x sz g) (\<lambda>_ _. True)" "safe g (remote_rename_same_parent W x a b fl g) (\<lambda>_ _. True)"
  "safe g (remote_rename_not_same_parent_dst W x p u b fl g) (\<lambda>_ _. True)" "safe g (remote_unlink W x n g) (\<lambda>_ _. True)"
  "safe g (remote_write W x buf sz off fl g) (\<lambda>_ _. True)" "safe g (remote_chmod W x m g) (\<lambda>_ _. True)"
  "safe g (remote_chown W x ow gr g) (\<lambda>_ _. True)" "safe g (remote_utimens W x tv0 tv1 g) (\<lambda>_ _. True)"
  "safe g (remote_truncate W x off g) (\<lambda>_ _. True)"
  unfolding remote_getattr_def remote_access_def remote_readdir_def remote_rmdir_top_def remote_rmdir_down_def
    remote_symlink_def remote_readlink_def remote_rename_same_parent_def remote_rename_not_same_parent_dst_def
    remote_unlink_def remote_write_def remote_chmod_def remote_chown_def remote_utimens_def remote_truncate_def
    rc_getattr_def rc_access_def rc_readdir_def rc_rmdir_top_def rc_rmdir_down_def rc_symlink_def rc_readlink_def
    rc_rename_same_parent_def rc_rename_not_same_parent_dst_def rc_unlink_def rc_write_def rc_chmod_def rc_chown_def
    rc_utimens_def rc_truncate_def Let_def
  by (intro safes; simp)+

lemma safe_remote_objects [THEN safe_post, safes]:
  "x < inode_next g \<Longrightarrow> safe g (remote_opendir W x fh g) (\<lambda>_ _. True)"
  "x < inode_next g \<Longrightarrow> safe g (remote_open W x fl fh g) (\<lambda>_ _. True)"
  "safe g (remote_create W x n m fh g) (\<lambda>_ _. True)"
  "safe g (remote_mkdir W x n m g) (\<lambda>(r, p) g'. \<forall>y d. p = Some (y, d) \<longrightarrow> y < inode_next g')"
  "safe g (remote_rename_not_same_parent_src W x a fl g) (\<lambda>(r, p) g'. alive g' p)"
  unfolding remote_opendir_def remote_open_def remote_create_def remote_mkdir_def remote_rename_not_same_parent_src_def
    rc_opendir_def rc_open_def rc_create_def rc_mkdir_def rc_rename_not_same_parent_src_def
  by (intro safes; auto 12 2 intro: lifts is_remote_after)+

section \<open>The operations FUSE calls\<close>

lemma safe_retry:
  assumes "retry W code x op g = Some y" and "\<And>h. heap_le g h \<Longrightarrow> safe h (op h) R"
  shows "safe g y R"
proof -
  have "(\<forall>h. heap_le g h \<longrightarrow> safe h (op h) R) \<longrightarrow> safe g y R"
  proof (rule retry_induct [where P = "\<lambda>W code x op g y. (\<forall>h. heap_le g h \<longrightarrow> safe h (op h) R) \<longrightarrow> safe g y R", OF _ assms(1)],
      intro impI, rule safe_wf)
    fix rec W code x op g y
    assume IH: "\<And>W code x op g y. rec W code x op g = Some y \<Longrightarrow> (\<forall>h. heap_le g h \<longrightarrow> safe h (op h) R) \<longrightarrow> safe g y R"
      and y: "(case op g of (Inl e, g1) \<Rightarrow> Some (Inl e, g1)
        | (Inr a, g1) \<Rightarrow> if code a = - ENOTLEADER
            then (case find_remote_dentry_table_again W x g1 of (Inl e, g2) \<Rightarrow> Some (Inl e, g2)
              | (Inr _, g2) \<Rightarrow> rec W code x op g2)
            else if code a = - ENEEDRECOV then Some (Inl (Runtime_error ''Need Recovery of remote dentry_table''), g1)
            else Some (Inr a, g1)) = Some y"
      and op: "\<forall>h. heap_le g h \<longrightarrow> safe h (op h) R" and wf: "wf_heap g"
    have 1: "safe g (op g) R" using op by simp
    obtain r g1 where r: "op g = (r, g1)" by fastforce
    note D = safeD [OF 1 [unfolded r] wf]
    show "safe g y R"
    proof (cases r)
      case (Inl e)
      then show ?thesis using y r D by (auto simp: safe_def)
    next
      case (Inr a)
      obtain r2 g2 where r2: "find_remote_dentry_table_again W x g1 = (r2, g2)" by fastforce
      have "safe g1 (find_remote_dentry_table_again W x g1) (\<lambda>_ _. True)" by (intro safes) simp
      note E = safeD [OF this [unfolded r2] D(1)]
      have le: "heap_le g g2" by (rule heap_le_trans [OF D(2) E(2)])
      have "safe g2 y R" if "rec W code x op g2 = Some y"
        using IH [OF that] op heap_le_trans [OF le] by blast
      then show ?thesis using y r Inr r2 D E le heap_le_trans [OF le]
        by (auto simp: safe_def split: if_splits sum.splits)
    qed
  qed
  then show ?thesis using assms(2) by blast
qed

lemma safe_retrying [safes]:
  assumes "\<And>h. heap_le g h \<Longrightarrow> safe h (op h) R"
  shows "safe g (retrying W code x op g) R"
  using safe_retry [of W code x op g] assms
  by (auto simp: retrying_def safe_result split: option.split)

lemma safe_catch [safes]:
  "safe g (m g) (\<lambda>_ _. True) \<Longrightarrow> safe g (catch_entry f m g) (\<lambda>_ _. True)"
  "safe g (n g) (\<lambda>_ _. True) \<Longrightarrow> safe g (catch_runtime n g) (\<lambda>_ _. True)"
  by (auto simp: catch_entry_def catch_runtime_def safe_def split: prod.splits sum.splits exn.splits)

lemma safe_by_loc [safes]:
  "(loc (inode_at g i) = LOCAL \<Longrightarrow> safe g (a g) Q) \<Longrightarrow> (loc (inode_at g i) = REMOTE \<Longrightarrow> safe g (b g) Q) \<Longrightarrow> Q x g \<Longrightarrow>
    safe g (by_loc i x a b g) Q"
  "(dt_loc (dtables g t) = LOCAL \<Longrightarrow> safe g (a g) Q) \<Longrightarrow> (dt_loc (dtables g t) = REMOTE \<Longrightarrow> safe g (b g) Q) \<Longrightarrow> Q x g \<Longrightarrow>
    safe g (by_table t x a b g) Q"
  unfolding by_loc_def by_table_def by (intro safes; simp)+

lemma safe_table_inode [THEN safe_post, safes]:
  "safe g (table_inode W t n g) (\<lambda>x g'. x < inode_next g' \<and> is_remote (inodes g' x))"
  unfolding table_inode_def by (intro safes) simp_all

lemma safe_parent_dir [THEN safe_post, safes]:
  "safe g (parent_dir W path g) (\<lambda>(x, t) g'. x < inode_next g' \<and> t < dtable_next g')"
  unfolding parent_dir_def by (intro safes) (auto intro: lifts)


text \<open>The table of operations that \<^verbatim>\<open>get_fuse_ops\<close> hands to FUSE, without mounting and unmounting.\<close>

datatype fuse_call =
    Fuse_getattr string stat "64 word option" | Fuse_access string "32 word"
  | Fuse_symlink string string | Fuse_readlink string "64 word"
  | Fuse_opendir string "64 word" | Fuse_releasedir string "64 word option"
  | Fuse_readdir string "64 word option" | Fuse_mkdir string "32 word" | Fuse_rmdir string
  | Fuse_rename string string "32 word"
  | Fuse_open string "32 word" "64 word" | Fuse_release string "64 word option"
  | Fuse_create string "32 word" "64 word" | Fuse_unlink string
  | Fuse_read string nat nat "64 word option"
  | Fuse_write string "byte list" "64 word" "64 word" "(64 word \<times> 32 word) option"
  | Fuse_chmod string "32 word" "64 word option" | Fuse_chown string "32 word" "32 word" "64 word option"
  | Fuse_utimens string timespec timespec "64 word option" | Fuse_truncate string "64 word" "64 word option"

text \<open>A code, and what is stored for the caller.\<close>

datatype fuse_reply =
    Code int | Stat int stat | Handle int "64 word" | Bytes int "byte list" | Names int "string list"

definition reply :: "('a \<Rightarrow> fuse_reply) \<Rightarrow> ('s, 'e, 'a) fsm \<Rightarrow> ('s, 'e, fuse_reply) fsm" where
  "reply f m = bindE m (\<lambda>a. returnE (f a))"

fun get_fuse_ops :: "('s, 'e) world \<Rightarrow> fuse_call \<Rightarrow> ('s, 'e, fuse_reply) fsm" where
  "get_fuse_ops W (Fuse_getattr path st fi) = reply (\<lambda>(r, s). Stat r s) (fuse_getattr W path st fi)"
| "get_fuse_ops W (Fuse_access path amask) = reply Code (fuse_access W path amask)"
| "get_fuse_ops W (Fuse_symlink src dst) = reply Code (fuse_symlink W src dst)"
| "get_fuse_ops W (Fuse_readlink path sz) = reply (\<lambda>(r, bs). Bytes r bs) (fuse_readlink W path sz)"
| "get_fuse_ops W (Fuse_opendir path fh) = reply (\<lambda>(r, a). Handle r a) (fuse_opendir W path fh)"
| "get_fuse_ops W (Fuse_releasedir path fi) = reply Code (fuse_releasedir W path fi)"
| "get_fuse_ops W (Fuse_readdir path fi) = reply (\<lambda>(r, ns). Names r ns) (fuse_readdir W path fi)"
| "get_fuse_ops W (Fuse_mkdir path mode) = reply Code (fuse_mkdir W path mode)"
| "get_fuse_ops W (Fuse_rmdir path) = reply Code (fuse_rmdir W path)"
| "get_fuse_ops W (Fuse_rename old_path new_path flags) = reply Code (fuse_rename W old_path new_path flags)"
| "get_fuse_ops W (Fuse_open path flags fh) = reply (\<lambda>(r, a). Handle r a) (fuse_open W path flags fh)"
| "get_fuse_ops W (Fuse_release path fi) = reply Code (fuse_release W path fi)"
| "get_fuse_ops W (Fuse_create path mode fh) = reply (\<lambda>(r, a). Handle r a) (fuse_create W path mode fh)"
| "get_fuse_ops W (Fuse_unlink path) = reply Code (fuse_unlink W path)"
| "get_fuse_ops W (Fuse_read path len offset fi) = reply (\<lambda>(r, bs). Bytes r bs) (fuse_read W path len offset fi)"
| "get_fuse_ops W (Fuse_write path buffer sz offset fi) = reply Code (fuse_write W path buffer sz offset fi)"
| "get_fuse_ops W (Fuse_chmod path mode fi) = reply Code (fuse_chmod W path mode fi)"
| "get_fuse_ops W (Fuse_chown path uid gid fi) = reply Code (fuse_chown W path uid gid fi)"
| "get_fuse_ops W (Fuse_utimens path tv0 tv1 fi) = reply Code (fuse_utimens W path tv0 tv1 fi)"
| "get_fuse_ops W (Fuse_truncate path offset fi) = reply Code (fuse_truncate W path offset fi)"

lemma safe_reply: "safe g (m g) (\<lambda>_ _. True) \<Longrightarrow> safe g (reply f m g) (\<lambda>_ _. True)"
  unfolding reply_def by (intro safes) (erule safe_post, simp add: safes)

lemma safe_fuse_inodes:
  "safe g (fuse_getattr W path st fi g) (\<lambda>_ _. True)" "safe g (fuse_access W path k g) (\<lambda>_ _. True)"
  "safe g (fuse_readlink W path sz g) (\<lambda>_ _. True)" "safe g (fuse_opendir W path fh g) (\<lambda>_ _. True)"
  "safe g (fuse_releasedir W path fi g) (\<lambda>_ _. True)" "safe g (fuse_release W path fi g) (\<lambda>_ _. True)"
  "safe g (fuse_open W path fl fh g) (\<lambda>_ _. True)" "safe g (fuse_write W path buf sz off fw g) (\<lambda>_ _. True)"
  "safe g (fuse_chmod W path m fi g) (\<lambda>_ _. True)" "safe g (fuse_chown W path ow gr fi g) (\<lambda>_ _. True)"
  "safe g (fuse_utimens W path tv0 tv1 fi g) (\<lambda>_ _. True)" "safe g (fuse_truncate W path sz fi g) (\<lambda>_ _. True)"
  unfolding fuse_getattr_def fuse_access_def fuse_readlink_def fuse_opendir_def fuse_releasedir_def fuse_release_def
    fuse_open_def fuse_write_def fuse_chmod_def fuse_chown_def fuse_utimens_def fuse_truncate_def
  by (intro safes; auto 12 2 intro: lifts)+


lemma safe_fuse_entries:
  "safe g (fuse_symlink W src dst g) (\<lambda>_ _. True)" "safe g (fuse_readdir W path fi g) (\<lambda>_ _. True)"
  "safe g (fuse_mkdir W path m g) (\<lambda>_ _. True)" "safe g (fuse_create W path m fh g) (\<lambda>_ _. True)"
  "safe g (fuse_unlink W path g) (\<lambda>_ _. True)"
  unfolding fuse_symlink_def fuse_readdir_def fuse_mkdir_def fuse_create_def fuse_unlink_def
  by (intro safes; auto 12 2 intro: lifts)+

lemma safe_rmdir_parts [THEN safe_post, safes]:
  "safe g (rmdir_top W t i u n g) (\<lambda>_ _. True)" "safe g (rmdir_down W t p u n g) (\<lambda>_ _. True)"
  unfolding rmdir_top_def rmdir_down_def by (intro safes; simp)+

lemma safe_fuse_rmdir: "safe g (fuse_rmdir W path g) (\<lambda>_ _. True)"
  unfolding fuse_rmdir_def by (intro safes) (auto 12 2 intro: lifts completeD)

lemma safe_rename_parts [THEN safe_post, safes]:
  "safe g (rename_within W pp a b fl g) (\<lambda>_ _. True)"
  "safe g (rename_take W t p a fl g) (\<lambda>q g'. alive g' q)"
  "alive g q \<Longrightarrow> safe g (rename_put W t p q u b fl g) (\<lambda>_ _. True)"
  "safe g (rename_across W pp pp' a b fl g) (\<lambda>_ _. True)"
  unfolding rename_within_def rename_take_def rename_put_def rename_across_def
  by (intro safes; auto 12 2 intro: lifts)+

lemma safe_fuse_rename: "safe g (fuse_rename W a b fl g) (\<lambda>_ _. True)"
  unfolding fuse_rename_def by (intro safes) simp_all

lemma safe_fuse_read: "safe g (fuse_read W path len off fi g) (\<lambda>_ _. True)"
proof -
  let ?m = "catch_entry (\<lambda>r. (r, [])) (bindE (target_inode W path fi) (\<lambda>i.
             bindE (local_read W i len off) (\<lambda>bs. returnE (as_int (int (length bs)), bs))))"
  show ?thesis
  proof (rule safe_seq [where R = "\<lambda>_ _. True"])
    show "safe g (?m g) (\<lambda>_ _. True)" by (intro safes) simp
  next
    fix r g'
    assume "?m g = (r, g')"
    then show "safe g' (fuse_read W path len off fi g) (\<lambda>_ _. True)"
      by (auto simp: fuse_read_def split: sum.split exn.split intro!: safes)
  qed
qed

lemma safe_get_fuse_ops: "safe g (get_fuse_ops W q g) (\<lambda>_ _. True)"
  by (cases q) (simp_all add: safe_reply safe_fuse_inodes safe_fuse_entries safe_fuse_rmdir safe_fuse_rename safe_fuse_read)

section \<open>Mounting\<close>

text \<open>Before \<^verbatim>\<open>init\<close> nothing is allocated.\<close>

definition unmounted :: "('s, 'e) fs \<Rightarrow> bool" where
  "unmounted g \<longleftrightarrow> inode_next g = 0 \<and> dtable_next g = 0 \<and> fh_list g = Map.empty \<and> dentry_tables g = Map.empty"

text \<open>
  A pool that can be mounted, and its root directory: the stored one, or an empty one when the pool holds no
  root yet.
\<close>

definition mountable :: "('s, 'e) world \<Rightarrow> ('s \<Rightarrow> string \<Rightarrow> byte list option) \<Rightarrow> 's \<Rightarrow> dentry \<Rightarrow> bool" where
  "mountable W objs s d \<longleftrightarrow>
     (let k = uuid_to_string (w_pool W) get_root_ino in
      if present objs s INODE k then stored_directory W s get_root_ino d
      else stores objs s INODE k [] \<and> (\<exists>old. stores objs s DENTRY k old) \<and>
        d = \<lparr>this_ino = get_root_ino, child_list = Map.empty\<rparr>)"

context tx_io
begin

lemma root_exist: "rados_exist L s cat key = Inr (present objs s cat key)"
  by (rule rados_exist_ok)

lemmas children_iteration = iteration_axioms

end

lemma mount_root_ok:
  assumes io: "tx_io (w_pool W) objs (w_ords W)" and root: "mountable W objs (meta (jrnl g)) d"
  obtains s k where "mount_root W uid gid g = (Inr (), g\<lparr>jrnl := (jrnl g)\<lparr>meta := s\<rparr>, time_reads := k\<rparr>)"
    and "stored_directory W s get_root_ino d"
proof (cases "present objs (meta (jrnl g)) INODE (uuid_to_string (w_pool W) get_root_ino)")
  case True
  then have "init_root (w_pool W) (w_ords W) (time_src g (time_reads g)) uid gid (meta (jrnl g)) = (Inr (), meta (jrnl g))"
    using tx_io.root_exist [OF io] by (simp add: init_root_def)
  then show ?thesis
    using that [where s = "meta (jrnl g)" and k = "time_reads g"] True root tx_io.root_exist [OF io] by (simp add: mount_root_def mountable_def Let_def)
next
  case False
  then obtain old where st: "stores objs (meta (jrnl g)) INODE (uuid_to_string (w_pool W) get_root_ino) []"
    "stores objs (meta (jrnl g)) DENTRY (uuid_to_string (w_pool W) get_root_ino) old"
    and d: "d = \<lparr>this_ino = get_root_ino, child_list = Map.empty\<rparr>" using root by (auto simp: mountable_def Let_def)
  from tx_io.init_root_ok [OF io False st, of "time_src g (time_reads g)" uid gid "w_raw W"] obtain s where
    s: "init_root (w_pool W) (w_ords W) (time_src g (time_reads g)) uid gid (meta (jrnl g)) = (Inr (), s)"
    "inode_pull (w_pool W) s (w_raw W) get_root_ino =
      Inr ((w_raw W)\<lparr>core := core (root_inode (time_src g (time_reads g)) uid gid), link_target_name := None\<rparr>)"
    "dentry_new (w_pool W) s get_root_ino False = Inr d" using d by blast
  then have "stored_directory W s get_root_ino d" by (simp add: stored_directory_def stored_child_def d)
  then show ?thesis using that s(1) by (simp add: mount_root_def Let_def)
qed

lemma fuse_init_ok:
  assumes "tx_io (w_pool W) objs (w_ords W)" and "unmounted g" and "mount (env g) = (Some i, e)"
    and "grants W (g\<lparr>leases := Map.empty, env := e\<rparr>) get_root_ino" and "mountable W objs (meta (jrnl g)) d"
  shows "yields (fuse_init W mount raw uid gid) g (\<lambda>_ g'. client_id (this_client g') = i \<and> client_uid (this_client g') = uid \<and>
    client_gid (this_client g') = gid \<and> fh_list g' = Map.empty \<and> (\<forall>u. open_tx (jrnl g') u = transaction_new u) \<and>
    dentry_tables g' = [get_root_ino \<mapsto> 0] \<and> coherent g' 0 \<and> dir_ino (dtables g' 0) = get_root_ino \<and> listing g' 0 = child_list d)"
proof -
  have zero: "dtable_next g = 0" using assms(2) by (simp add: unmounted_def)
  let ?c = "raw\<lparr>client_id := i, client_uid := uid, client_gid := gid\<rparr>"
  let ?g1 = "g\<lparr>leases := Map.empty, env := e, this_client := ?c\<rparr>"
  have "mountable W objs (meta (jrnl ?g1)) d" using assms(5) by simp
  then obtain s k where r: "mount_root W uid gid ?g1 = (Inr (), ?g1\<lparr>jrnl := (jrnl ?g1)\<lparr>meta := s\<rparr>, time_reads := k\<rparr>)"
    "stored_directory W s get_root_ino d" by (rule mount_root_ok [OF assms(1)])
  let ?g2 = "?g1\<lparr>jrnl := (jrnl ?g1)\<lparr>meta := s\<rparr>, time_reads := k, dentry_tables := Map.empty\<rparr>"
  have "leases ?g2 = leases (g\<lparr>leases := Map.empty, env := e\<rparr>) \<and> env ?g2 = env (g\<lparr>leases := Map.empty, env := e\<rparr>)" by simp
  then have "\<exists>a h. lc_acquire W get_root_ino [] ?g2 = (Inr (0, a), h)" using assms(4) unfolding grants_def by blast
  then obtain a h where acq: "lc_acquire W get_root_ino [] ?g2 = (Inr (0, a), h)" by (elim exE)
  have it: "iteration (ord_children (w_ords W))" using tx_io.children_iteration [OF assms(1)] .
  have st: "dentry_tables ?g2 get_root_ino = None" "stored_directory W (meta (jrnl ?g2)) get_root_ino d" using r(2) by simp_all
  from lease_dentry_table_local [OF acq st(1) it st(2)] obtain g3 where
    g3: "lease_dentry_table W get_root_ino ?g2 = (Inr (Some (dtable_next ?g2)), g3)" "coherent g3 (dtable_next ?g2)"
    "listing g3 (dtable_next ?g2) = child_list d" "dir_ino (dtables g3 (dtable_next ?g2)) = get_root_ino"
    "dentry_tables g3 = [get_root_ino \<mapsto> dtable_next ?g2]"
    "this_client g3 = ?c" by auto
  let ?g4 = "g3\<lparr>fh_list := Map.empty, jrnl := journal_new (meta (jrnl g3))\<rparr>"
  have "get_dentry_table W get_root_ino False ?g2 = lease_dentry_table W get_root_ino ?g2" by (simp add: get_dentry_table_def)
  then have "fuse_init W mount raw uid gid g = (Inr (), ?g4)"
    using r(1) g3(1) assms(3)
    by (simp add: fuse_init_def directory_table_new_def remote_call_def client_new_def session_client_mount_def)
  moreover have "ino_of ?g4 = ino_of g3" by (simp add: ino_of_def inode_at_def fun_eq_iff)
  then have "coherent ?g4 0" "listing ?g4 0 = child_list d" using g3(2,3) zero by (simp_all add: coherent_def listing_def)
  moreover have "open_tx (jrnl ?g4) u = transaction_new u" for u by (simp add: open_tx_def journal_new_def jt_init_def)
  ultimately show ?thesis using g3(4-6) zero by (intro yieldsI [of _ _ "()" ?g4]) simp_all
qed

text \<open>
  C20: Mounting serves the root directory: on a pool without one, \<^verbatim>\<open>init\<close> stores an empty root first; then the index
  holds exactly the table of the root, with exactly the stored entries, no file is open, the journal holds
  nothing, and the client has the number the manager gave it.
\<close>

theorem fuse_init_serves_root:
  assumes "tx_io (w_pool W) objs (w_ords W)" and "unmounted g" and "mount (env g) = (Some i, e)"
    and "grants W (g\<lparr>leases := Map.empty, env := e\<rparr>) get_root_ino" and "mountable W objs (meta (jrnl g)) d"
  shows "yields (fuse_init W mount raw uid gid) g (\<lambda>_ g'. client_id (this_client g') = i \<and> client_uid (this_client g') = uid \<and>
    client_gid (this_client g') = gid \<and> fh_list g' = Map.empty \<and> (\<forall>u. open_tx (jrnl g') u = transaction_new u) \<and>
    dentry_tables g' = [get_root_ino \<mapsto> 0] \<and> coherent g' 0 \<and> dir_ino (dtables g' 0) = get_root_ino \<and> listing g' 0 = child_list d)"
  by (rule fuse_init_ok [where mount = mount]) (rule assms)+

lemma mem_fs_empty:
  "unmounted (mem_fs Map.empty Map.empty)" "mountable mem_world (\<lambda>s. s) (meta (jrnl (mem_fs Map.empty Map.empty)))
    \<lparr>this_ino = get_root_ino, child_list = Map.empty\<rparr>"
  "grants mem_world ((mem_fs Map.empty Map.empty)\<lparr>leases := Map.empty, env := Map.empty\<rparr>) get_root_ino"
  "tx_io (w_pool mem_world) (\<lambda>s. s) (w_ords mem_world)"
proof -
  show "unmounted (mem_fs Map.empty Map.empty)" by (simp add: unmounted_def mem_fs_def)
  show "tx_io (w_pool mem_world) (\<lambda>s. s) (w_ords mem_world)" using mem_tx.tx_io_axioms by (simp add: mem_world_def)
  show "grants mem_world ((mem_fs Map.empty Map.empty)\<lparr>leases := Map.empty, env := Map.empty\<rparr>) get_root_ino"
    by (auto simp: grants_def lc_acquire_def bindE_def read_clock_def mem_world_def lease_client_acquire_def
        is_mine_def lease_impl_acquire_def lease_table_acquire_def acquire_find_def acquire_insert_def Let_def
        lease_reply_def handle_response_def)
  show "mountable mem_world (\<lambda>s. s) (meta (jrnl (mem_fs Map.empty Map.empty))) \<lparr>this_ino = get_root_ino, child_list = Map.empty\<rparr>"
    using mem_sound_empty by (auto simp: mountable_def mem_fs_def journal_new_def Let_def present_def blocks_def intro: exI [of _ "[]"])
qed

theorem fuse_init_serves_root_witness:
  "\<exists>g'. fuse_init mem_world (\<lambda>e. (Some 7, e)) \<lparr>client_id = 0, client_uid = 0, client_gid = 0\<rparr> 5 6 (mem_fs Map.empty Map.empty) = (Inr (), g') \<and>
     dentry_tables g' = [get_root_ino \<mapsto> 0] \<and> listing g' 0 = Map.empty"
proof -
  have "env (mem_fs Map.empty Map.empty) = Map.empty" by (simp add: mem_fs_def)
  then show ?thesis
    using fuse_init_serves_root [OF mem_fs_empty(4,1) _ mem_fs_empty(3,2), of "\<lambda>e. (Some 7, e)" 7] by (fastforce simp: yields_def)
qed

section \<open>A client at work\<close>

lemma safe_fuse_init: "safe g (fuse_init W mount raw uid gid g) (\<lambda>_ _. True)"
proof -
  have root: "safe h (mount_root W uid gid h) (\<lambda>_ g'. heap_same h g')" for h
    by (rule heap_same_safe) (auto simp: mount_root_def heap_same_def Let_def split: prod.splits)
  have set: "safe h (Inr (), h\<lparr>leases := l\<rparr>) (\<lambda>_ _. True)" "safe h (Inr (), h\<lparr>this_client := c\<rparr>) (\<lambda>_ _. True)" for h l c
    by (rule heap_same_safe [where m = "\<lambda>h. (Inr (), h\<lparr>leases := l\<rparr>)", THEN safe_triv], simp add: heap_same_def)
      (rule heap_same_safe [where m = "\<lambda>h. (Inr (), h\<lparr>this_client := c\<rparr>)", THEN safe_triv], simp add: heap_same_def)
  have index: "safe h (Inr (), h\<lparr>dentry_tables := Map.empty\<rparr>) (\<lambda>_ _. True)" for h
    using wf_heap_index [of h Map.empty] by (simp add: safe_def heap_le_def)
  have files: "safe h (Inr (), h\<lparr>fh_list := Map.empty, jrnl := j\<rparr>) (\<lambda>_ _. True)" for h j
    using wf_heap_files [of h Map.empty] heap_same_wf [of "h\<lparr>fh_list := Map.empty\<rparr>" "h\<lparr>fh_list := Map.empty, jrnl := j\<rparr>"]
    by (simp add: safe_def heap_le_def heap_same_def)
  show ?thesis unfolding fuse_init_def directory_table_new_def
    by (intro safes root [THEN safe_post] set [THEN safe_post] index [THEN safe_post] files)
qed

text \<open>
  What happens at a mounted client, in any order: operations that FUSE calls, procedures that other
  clients call, rounds of the journal's threads, and changes of the world around it.
\<close>

inductive client_run :: "('s, 'e) world \<Rightarrow> ('s, 'e) fs \<Rightarrow> bool" for W where
  mounted: "unmounted g \<Longrightarrow> fuse_init W mount raw uid gid g = (Inr (), g') \<Longrightarrow> client_run W g'"
| called: "client_run W g \<Longrightarrow> get_fuse_ops W q g = (r, g') \<Longrightarrow> client_run W g'"
| served: "client_run W g \<Longrightarrow> rpc_serve W m g = (r, g') \<Longrightarrow> client_run W g'"
| swapped: "client_run W g \<Longrightarrow> jt_replace_map (jtab (jrnl g)) = (b, t) \<Longrightarrow>
    client_run W (g\<lparr>jrnl := (jrnl g)\<lparr>jtab := t\<rparr>\<rparr>)"
| commit: "client_run W g \<Longrightarrow> commit_one (w_pool W) (w_ords W) p (jrnl g) = (r, j) \<Longrightarrow> client_run W (g\<lparr>jrnl := j\<rparr>)"
| checkpoint: "client_run W g \<Longrightarrow> checkpoint_one (w_pool W) (w_ords W) k (jrnl g) = Some (r, j) \<Longrightarrow>
    client_run W (g\<lparr>jrnl := j\<rparr>)"
| outside: "client_run W g \<Longrightarrow> client_run W (g\<lparr>env := e, data_pool := s, jrnl := (jrnl g)\<lparr>meta := s'\<rparr>\<rparr>)"

lemma client_run_wf: "client_run W g \<Longrightarrow> wf_heap g"
proof (induction rule: client_run.induct)
  case (mounted g mount raw uid gid g')
  have "wf_heap g" using mounted(1) by (simp add: unmounted_def wf_heap_def)
  then show ?case using safeD(1) [OF safe_fuse_init [of g W mount raw uid gid, unfolded mounted(2)]] by simp
next
  case (called g q r g')
  then show ?case using safeD(1) [OF safe_get_fuse_ops [of g W q, unfolded called(2)]] by simp
next
  case (served g m r g')
  then show ?case using safeD(1) [OF safe_rpc_serve [of g W m, unfolded served(2)]] by simp
qed (erule heap_same_wf [THEN iffD2, rotated], simp add: heap_same_def)+


text \<open>
  C4: Every state a client can reach is well typed, whatever the manager, the other clients and the pools answer
  and in whatever order things happen: an object that says it is remote is one, so the cast of a remote
  operation succeeds; a table found through the index belongs to the directory it is indexed by, and has its
  inode and its entries when it is local; the inodes of its children exist; an open file leads to an inode.
\<close>

theorem client_heap_well_typed:
  assumes "client_run W g"
  shows "(\<forall>x < inode_next g. loc (inode_at g x) = REMOTE \<longrightarrow> (\<exists>i r. inodes g x = Remote i r)) \<and>
    (\<forall>u t. dentry_tables g u = Some t \<longrightarrow> t < dtable_next g \<and> dir_ino (dtables g t) = u \<and>
       (dt_loc (dtables g t) = REMOTE \<or>
        dt_loc (dtables g t) = LOCAL \<and> this_dir_inode (dtables g t) \<noteq> None \<and> dt_dentries (dtables g t) \<noteq> None) \<and>
       (\<forall>n x. child_inodes (dtables g t) n = Some x \<longrightarrow> x < inode_next g)) \<and>
    (\<forall>a h. fh_list g a = Some h \<longrightarrow> fhno h = a \<and> (\<exists>x. get_open_inode_info h = Inr (Some x) \<and> x < inode_next g))"
proof -
  note D = wf_heapD [OF client_run_wf [OF assms]]
  have "\<exists>i r. inodes g x = Remote i r" if "x < inode_next g" "loc (inode_at g x) = REMOTE" for x
    using D(1) [OF that(1)] that(2) by (cases "inodes g x") (simp_all add: inode_at_def)
  moreover have "t < dtable_next g \<and> dir_ino (dtables g t) = u \<and>
       (dt_loc (dtables g t) = REMOTE \<or>
        dt_loc (dtables g t) = LOCAL \<and> this_dir_inode (dtables g t) \<noteq> None \<and> dt_dentries (dtables g t) \<noteq> None) \<and>
       (\<forall>n x. child_inodes (dtables g t) n = Some x \<longrightarrow> x < inode_next g)" if "dentry_tables g u = Some t" for u t
    using D(3) [OF that] D(2) [of t] unfolding ready_def wf_table_def alive_def by blast
  moreover have "fhno h = a \<and> (\<exists>x. get_open_inode_info h = Inr (Some x) \<and> x < inode_next g)" if "fh_list g a = Some h" for a h
    using D(4) [OF that] by (auto simp: wf_handle_def get_open_inode_info_def)
  ultimately show ?thesis by blast
qed

theorem client_heap_well_typed_witness:
  "\<exists>g. client_run mem_world g \<and> (\<forall>u t. dentry_tables g u = Some t \<longrightarrow> dir_ino (dtables g t) = u)"
proof -
  have "env (mem_fs Map.empty Map.empty) = Map.empty" by (simp add: mem_fs_def)
  then obtain g where "fuse_init mem_world (\<lambda>e. (Some 7, e)) \<lparr>client_id = 0, client_uid = 0, client_gid = 0\<rparr> 5 6 (mem_fs Map.empty Map.empty) = (Inr (), g)"
    using fuse_init_ok [OF mem_fs_empty(4,1) _ mem_fs_empty(3,2), of "\<lambda>e. (Some 7, e)" 7] by (fastforce simp: yields_def)
  then have "client_run mem_world g" by (rule client_run.mounted [OF mem_fs_empty(1)])
  then show ?thesis using client_heap_well_typed by blast
qed

end
