(* ===== verification/Leadership.thy ===== *)
theory Leadership
  imports Client_Types
begin

text \<open>
  Who leads a directory, in a whole system: clients that mount, crash, and run any operation and any
  procedure, and one manager.  The judgement \<open>law\<close> follows the lease cache and the index of tables through
  every operation of a client; the result is that at most one client serves a directory from a local table.
\<close>

section \<open>The manager as a client sees it\<close>

text \<open>How numbers are printed, and the manager's table and clock within the environment.\<close>

record 'e manager_view =
  v_string :: "uuid \<Rightarrow> string"
  v_table :: "'e \<Rightarrow> lease_table"
  v_time :: "'e \<Rightarrow> int"

text \<open>What others may do meanwhile: time passes, and no lease that is not over is changed.\<close>

definition undisturbed :: "'e manager_view \<Rightarrow> 'e \<Rightarrow> 'e \<Rightarrow> bool" where
  "undisturbed V e e' \<longleftrightarrow> v_time V e \<le> v_time V e' \<and>
     (\<forall>k x. v_table V e k = Some x \<and> v_time V e' < due x \<longrightarrow> v_table V e' k = Some x)"

lemma undisturbed_refl [simp]: "undisturbed V e e"
  by (simp add: undisturbed_def)

lemma undisturbed_trans: "undisturbed V e e1 \<Longrightarrow> undisturbed V e1 e2 \<Longrightarrow> undisturbed V e e2"
  unfolding undisturbed_def by fastforce

text \<open>
  A request of \<open>c\<close> at the manager: answered by \<^verbatim>\<open>lease_impl::acquire\<close> while it acts on the table
  between \<open>t1\<close> and \<open>t2\<close>, or by its insertion when another client's first request was faster; others act before
  and after.  A call without an answer may have been carried out or not.
\<close>

definition granted :: "'e manager_view \<Rightarrow> lease_request \<Rightarrow> 'e \<Rightarrow> lease_response \<Rightarrow> 'e \<Rightarrow> bool" where
  "granted V q e p e' \<longleftrightarrow>
     (\<exists>t1 t2 r. v_time V e \<le> t1 \<and> t1 \<le> t2 \<and> v_time V e' = t2 \<and> p = lease_reply r \<and> v_table V e' = snd (snd (snd r)) \<and>
        (let ino = splice_prefix_and_postfix (ino_prefix q) (ino_postfix q) in
         r = lease_table_acquire (v_string V) t1 t2 ino (req_remote_addr q) (v_table V e) \<or>
         r = acquire_insert (v_string V) t2 ino (req_remote_addr q) (v_table V e)))"

definition lawful_world :: "'e manager_view \<Rightarrow> ('s, 'e) world \<Rightarrow> bool" where
  "lawful_world V W \<longleftrightarrow>
     (\<forall>q e p e'. w_manager W q e = (p, e') \<and> req_remote_addr q = w_self W \<longrightarrow>
        (case p of None \<Rightarrow> undisturbed V e e'
         | Some a \<Rightarrow> \<exists>e1 e2. undisturbed V e e1 \<and> granted V q e1 a e2 \<and> undisturbed V e2 e')) \<and>
     (\<forall>ad q e p e'. w_rpc W ad q e = (p, e') \<longrightarrow> undisturbed V e e')"

section \<open>The invariant of a client\<close>

text \<open>
  A lease in the cache that is not over is the manager's, and it is the client's own exactly when the
  manager has it for the client; a local table is only indexed under a lease obtained as leader, and the
  table of a directory that another client leads names that client (or the client itself, when it lost
  the race of two first requests).
\<close>

definition cache_ok :: "'e manager_view \<Rightarrow> string \<Rightarrow> lease_table_client \<Rightarrow> 'e \<Rightarrow> bool" where
  "cache_ok V c l e \<longleftrightarrow>
     (\<forall>ino x. l ino = Some x \<and> v_time V e < c_due x \<longrightarrow>
        (\<exists>y. v_table V e (v_string V ino) = Some y \<and> due y = c_due x \<and> (leader x \<longleftrightarrow> addr y = c)))"

definition entry_ok :: "'e manager_view \<Rightarrow> string \<Rightarrow> uuid \<Rightarrow> meta_location \<Rightarrow> string \<Rightarrow> lease_table_client \<Rightarrow> 'e \<Rightarrow> bool" where
  "entry_ok V c ino lc ip l e \<longleftrightarrow>
     (\<exists>x. l ino = Some x \<and> (v_time V e < c_due x \<and> \<not> leader x \<longrightarrow>
        lc \<noteq> LOCAL \<and> (\<exists>y. v_table V e (v_string V ino) = Some y \<and> (ip = addr y \<or> ip = c))))"

definition node_ok :: "'e manager_view \<Rightarrow> string \<Rightarrow> ('s, 'e) fs \<Rightarrow> bool" where
  "node_ok V c g \<longleftrightarrow> cache_ok V c (leases g) (env g) \<and>
     (\<forall>ino t. dentry_tables g ino = Some t \<longrightarrow> t < dtable_next g \<and>
       entry_ok V c ino (dt_loc (dtables g t)) (leader_ip (dtables g t)) (leases g) (env g))"

lemma cache_ok_undisturbed: "undisturbed V e e' \<Longrightarrow> cache_ok V c l e \<Longrightarrow> cache_ok V c l e'"
  unfolding undisturbed_def cache_ok_def by (metis order_le_less_trans)

lemma entry_ok_undisturbed:
  assumes "undisturbed V e e'" and "cache_ok V c l e" and "entry_ok V c ino lc ip l e"
  shows "entry_ok V c ino lc ip l e'"
proof -
  from assms(3) obtain x where x: "l ino = Some x" and n: "v_time V e < c_due x \<Longrightarrow> \<not> leader x \<Longrightarrow>
      lc \<noteq> LOCAL \<and> (\<exists>y. v_table V e (v_string V ino) = Some y \<and> (ip = addr y \<or> ip = c))"
    by (auto simp: entry_ok_def split: if_splits)
  have "lc \<noteq> LOCAL \<and> (\<exists>y. v_table V e' (v_string V ino) = Some y \<and> (ip = addr y \<or> ip = c))"
    if t': "v_time V e' < c_due x" and nl: "\<not> leader x"
  proof -
    have t: "v_time V e < c_due x" using assms(1) t' by (simp add: undisturbed_def)
    then obtain y where y: "v_table V e (v_string V ino) = Some y" "ip = addr y \<or> ip = c" using n nl by blast
    moreover have "due y = c_due x" using assms(2) x t y(1) by (fastforce simp: cache_ok_def)
    ultimately have "v_table V e' (v_string V ino) = Some y" using assms(1) t' by (simp add: undisturbed_def)
    then show ?thesis using y(2) n [OF t nl] by blast
  qed
  then show ?thesis using x by (auto simp: entry_ok_def)
qed

section \<open>The judgement\<close>

text \<open>
  The outcome of a computation at a client: the manager's table has only been changed in ways that others need not mind,
  and the invariant holds again; unless \<open>b\<close>, a computation that ends with a \<^verbatim>\<open>runtime_error\<close> may break it.
\<close>

definition law :: "'e manager_view \<Rightarrow> ('s, 'e) world \<Rightarrow> bool \<Rightarrow> ('s, 'e) fs \<Rightarrow> 'a result \<times> ('s, 'e) fs \<Rightarrow> bool" where
  "law V W b g o1 \<longleftrightarrow> (lawful_world V W \<and> node_ok V (w_self W) g \<longrightarrow>
     (case o1 of (r, g') \<Rightarrow> undisturbed V (env g) (env g') \<and>
        (b \<or> (\<forall>m. r \<noteq> Inl (Runtime_error m)) \<longrightarrow> node_ok V (w_self W) g')))"

named_theorems laws "rules of the judgement on leadership"

lemma lawI:
  assumes "\<And>r g'. lawful_world V W \<Longrightarrow> node_ok V (w_self W) g \<Longrightarrow> o1 = (r, g') \<Longrightarrow>
    undisturbed V (env g) (env g') \<and> (b \<or> (\<forall>m. r \<noteq> Inl (Runtime_error m)) \<longrightarrow> node_ok V (w_self W) g')"
  shows "law V W b g o1"
  using assms by (cases o1) (simp add: law_def)

lemma lawD:
  assumes "law V W b g (r, g')" and "lawful_world V W" and "node_ok V (w_self W) g"
  shows "undisturbed V (env g) (env g')" and "b \<or> (\<forall>m. r \<noteq> Inl (Runtime_error m)) \<Longrightarrow> node_ok V (w_self W) g'"
  using assms by (auto simp: law_def)

text \<open>Sequencing; the second part may assume that the first succeeded.\<close>

lemma law_bind_known:
  assumes "law V W b g (m g)"
    and "\<And>x g'. lawful_world V W \<Longrightarrow> node_ok V (w_self W) g \<Longrightarrow> m g = (Inr x, g') \<Longrightarrow> law V W b g' (f x g')"
  shows "law V W b g (bindE m f g)"
proof (rule lawI)
  fix r2 g2
  assume A: "lawful_world V W" "node_ok V (w_self W) g" "bindE m f g = (r2, g2)"
  obtain r g' where m: "m g = (r, g')" by fastforce
  note 1 = lawD [OF assms(1) [unfolded m] A(1,2)]
  show "undisturbed V (env g) (env g2) \<and> (b \<or> (\<forall>m. r2 \<noteq> Inl (Runtime_error m)) \<longrightarrow> node_ok V (w_self W) g2)"
  proof (cases r)
    case (Inl e)
    then show ?thesis using A(3) m 1 by auto
  next
    case (Inr x)
    then have "f x g' = (r2, g2)" using A(3) m by simp
    note 2 = lawD [OF assms(2) [OF A(1,2) m [unfolded Inr], unfolded this] A(1) 1(2)]
    show ?thesis using undisturbed_trans [OF 1(1)] 2 Inr by blast
  qed
qed

lemma law_bind [laws]: "law V W b g (m g) \<Longrightarrow> (\<And>x g'. law V W b g' (f x g')) \<Longrightarrow> law V W b g (bindE m f g)"
  by (rule law_bind_known)

lemma law_result [laws]: "law V W b g (r, g)" "law V W b g (throwE e g)" "law V W b g (returnE x g)" "law V W b g (liftE h g)"
  by (simp_all add: law_def split: sum.split)

lemma law_read [laws]: "law V W b g (f g g) \<Longrightarrow> law V W b g (readE f g)"
  by (simp add: readE_def)

lemma law_if [laws]:
  "law V W b g r \<Longrightarrow> law V W b g r' \<Longrightarrow> law V W b g (if q then r else r')"
  "law V W b g (m g) \<Longrightarrow> law V W b g (n g) \<Longrightarrow> law V W b g ((if q then m else n) g)"
  by simp_all

lemma law_option [laws]:
  "law V W b g r \<Longrightarrow> (\<And>x. law V W b g (h x)) \<Longrightarrow> law V W b g (case p of None \<Rightarrow> r | Some x \<Rightarrow> h x)"
  "law V W b g (m g) \<Longrightarrow> (\<And>x. law V W b g (f x g)) \<Longrightarrow> law V W b g ((case p of None \<Rightarrow> m | Some x \<Rightarrow> f x) g)"
  by (cases p; simp)+

lemma law_sum [laws]:
  "(\<And>e. law V W b g (h e)) \<Longrightarrow> (\<And>x. law V W b g (h' x)) \<Longrightarrow> law V W b g (case p of Inl e \<Rightarrow> h e | Inr x \<Rightarrow> h' x)"
  "(\<And>e. law V W b g (f e g)) \<Longrightarrow> (\<And>x. law V W b g (f' x g)) \<Longrightarrow> law V W b g ((case p of Inl e \<Rightarrow> f e | Inr x \<Rightarrow> f' x) g)"
  by (cases p; simp)+

lemma law_prod [laws]: "(\<And>x y. law V W b g (f x y g)) \<Longrightarrow> law V W b g ((case p of (x, y) \<Rightarrow> f x y) g)"
  by (cases p) simp

lemma law_iobj [laws]:
  "(\<And>i. ob = Inode i \<Longrightarrow> law V W b g (h i)) \<Longrightarrow> (\<And>i r. ob = Remote i r \<Longrightarrow> law V W b g (h' i r)) \<Longrightarrow>
    law V W b g (case ob of Inode i \<Rightarrow> h i | Remote i r \<Rightarrow> h' i r)"
  by (cases ob) simp_all

lemma law_loc [laws]:
  "law V W b g (x g) \<Longrightarrow> law V W b g (y g) \<Longrightarrow> law V W b g (z g) \<Longrightarrow>
    law V W b g ((case l of LOCAL \<Rightarrow> x | REMOTE \<Rightarrow> y | _ \<Rightarrow> z) g)"
  by (cases l) simp_all

lemma law_fold [laws]: "(\<And>x h. law V W b h (f x h)) \<Longrightarrow> law V W b g (foldE f xs g)"
  by (induction xs arbitrary: g) (simp_all add: laws)

text \<open>Computations that leave cache and index alone.\<close>

definition steady :: "('s, 'e) fs \<Rightarrow> ('s, 'e) fs \<Rightarrow> bool" where
  "steady g g' \<longleftrightarrow> leases g' = leases g \<and> env g' = env g \<and> dentry_tables g' = dentry_tables g \<and> dtable_next g \<le> dtable_next g' \<and>
     (\<forall>t < dtable_next g. dt_loc (dtables g' t) = dt_loc (dtables g t) \<and> leader_ip (dtables g' t) = leader_ip (dtables g t))"

lemma steady_refl [simp]: "steady g g"
  by (simp add: steady_def)

lemma steady_trans: "steady g g1 \<Longrightarrow> steady g1 g2 \<Longrightarrow> steady g g2"
  by (auto simp: steady_def)

lemma steady_node_ok: "steady g g' \<Longrightarrow> node_ok V c g \<Longrightarrow> node_ok V c g'"
  by (fastforce simp: steady_def node_ok_def entry_ok_def)

lemma law_steady: "(\<And>r g'. m g = (r, g') \<Longrightarrow> steady g g') \<Longrightarrow> law V W b g (m g)"
  using steady_node_ok [of g "snd (m g)"] by (cases "m g") (simp add: law_def steady_def)

lemma law_env:
  assumes "\<And>r g'. m g = (r, g') \<Longrightarrow> \<exists>e. g' = g\<lparr>env := e\<rparr> \<and> (lawful_world V W \<longrightarrow> undisturbed V (env g) e)"
  shows "law V W b g (m g)"
proof (rule lawI)
  fix r g'
  assume A: "lawful_world V W" "node_ok V (w_self W) g" "m g = (r, g')"
  then obtain e where "g' = g\<lparr>env := e\<rparr>" "undisturbed V (env g) e" using assms by blast
  then show "undisturbed V (env g) (env g') \<and> (b \<or> (\<forall>m. r \<noteq> Inl (Runtime_error m)) \<longrightarrow> node_ok V (w_self W) g')"
    using A(2) cache_ok_undisturbed [of V "env g" e] entry_ok_undisturbed [of V "env g" e] by (simp add: node_ok_def)
qed


section \<open>Acquiring a lease\<close>

lemma granted_undisturbed: "granted V q e p e' \<Longrightarrow> undisturbed V e e'"
  by (auto simp: granted_def undisturbed_def Let_def lease_table_acquire_def acquire_found_def acquire_insert_def cas_def
      get_info_def split: option.splits if_splits)

text \<open>What an answer says of the manager's table when it is given.\<close>

definition truth :: "'e manager_view \<Rightarrow> string \<Rightarrow> uuid \<Rightarrow> lease_response \<Rightarrow> 'e \<Rightarrow> bool" where
  "truth V c ino p e \<longleftrightarrow>
     (v_time V e < resp_due p \<longrightarrow> (\<exists>y. v_table V e (v_string V ino) = Some y \<and> due y = resp_due p \<and> (ret p = 0 \<longleftrightarrow> addr y = c) \<and>
        (ret p \<noteq> 0 \<longrightarrow> resp_remote_addr p = addr y \<or> resp_remote_addr p = c)))"

lemma granted_truth:
  assumes "granted V (make_request c ino) e p e'"
  shows "truth V c ino p e'" and "ret p = 0 \<or> ret p = -1"
    and "v_table V e (v_string V ino) = Some y \<Longrightarrow> v_time V e' < due y \<Longrightarrow> resp_due p = due y"
  using assms by (auto simp: granted_def truth_def Let_def lease_table_acquire_def acquire_find_def acquire_found_def
      acquire_insert_def cas_def get_info_def lease_reply_def lease_entry_new_def make_request_def split: option.splits if_splits)

text \<open>The cache after an answer, while others act before and after.\<close>

lemma answered:
  assumes c: "cache_ok V c l e" and o1: "undisturbed V e e1" and gr: "granted V (make_request c ino) e1 p e2"
    and o2: "undisturbed V e2 e3" and l': "l' = lease_update ino (resp_due p) (ret p = 0) l"
  shows "cache_ok V c l' e3" and "u \<noteq> ino \<Longrightarrow> l' u = l u"
    and "(ret p \<noteq> 0 \<Longrightarrow> lc \<noteq> LOCAL \<and> ip = resp_remote_addr p) \<Longrightarrow> entry_ok V c ino lc ip l' e3"
proof -
  note T = granted_truth [OF gr]
  have all: "cache_ok V c l e1" "cache_ok V c l e3"
    using cache_ok_undisturbed [OF _ c] o1 undisturbed_trans [OF undisturbed_trans [OF o1 granted_undisturbed [OF gr]] o2] by blast+
  have new: "\<exists>y. v_table V e3 (v_string V ino) = Some y \<and> due y = resp_due p \<and> (ret p = 0 \<longleftrightarrow> addr y = c) \<and>
      (ret p \<noteq> 0 \<longrightarrow> resp_remote_addr p = addr y \<or> resp_remote_addr p = c)" if "v_time V e3 < resp_due p"
    using T(1) that o2 unfolding truth_def undisturbed_def by fastforce
  show "u \<noteq> ino \<Longrightarrow> l' u = l u" by (simp add: l' lease_update_def split: option.split)
  have cases: "l' ino = Some \<lparr>c_due = resp_due p, leader = (ret p = 0)\<rparr> \<or>
      (\<exists>x. l ino = Some x \<and> l' ino = Some x \<and> resp_due p \<le> c_due x)"
    by (auto simp: l' lease_update_def set_info_def split: option.split)
  show "cache_ok V c l' e3"
    unfolding cache_ok_def
  proof (intro allI impI)
    fix u x
    assume x: "l' u = Some x \<and> v_time V e3 < c_due x"
    show "\<exists>y. v_table V e3 (v_string V u) = Some y \<and> due y = c_due x \<and> leader x = (addr y = c)"
    proof (cases "l u = Some x")
      case True
      then show ?thesis using all(2) x by (simp add: cache_ok_def)
    next
      case False
      then have "u = ino" using x by (auto simp: l' lease_update_def split: option.splits if_splits)
      then show ?thesis using cases False x new by auto
    qed
  qed
  show "entry_ok V c ino lc ip l' e3" if give: "ret p \<noteq> 0 \<Longrightarrow> lc \<noteq> LOCAL \<and> ip = resp_remote_addr p"
    using cases
  proof
    assume "l' ino = Some \<lparr>c_due = resp_due p, leader = (ret p = 0)\<rparr>"
    then show ?thesis using new give by (auto simp: entry_ok_def)
  next
    assume "\<exists>x. l ino = Some x \<and> l' ino = Some x \<and> resp_due p \<le> c_due x"
    then obtain x where x: "l ino = Some x" "l' ino = Some x" by blast
    have "lc \<noteq> LOCAL \<and> (\<exists>y. v_table V e3 (v_string V ino) = Some y \<and> (ip = addr y \<or> ip = c))"
      if t: "v_time V e3 < c_due x" and nl: "\<not> leader x"
    proof -
      have le: "v_time V e1 < c_due x" "v_time V e2 < c_due x" "v_time V e2 \<le> v_time V e3"
        using t o2 granted_undisturbed [OF gr] by (auto simp: undisturbed_def)
      obtain y where y: "v_table V e1 (v_string V ino) = Some y" "due y = c_due x" "addr y \<noteq> c"
        using all(1) x(1) le(1) nl by (auto simp: cache_ok_def)
      then have "resp_due p = c_due x" using T(3) le(2) by simp
      then show ?thesis using new t y granted_undisturbed [OF gr] o2 le give unfolding undisturbed_def by fastforce
    qed
    then show ?thesis using x(2) by (auto simp: entry_ok_def)
  qed
qed

section \<open>The index\<close>

text \<open>
  \<^verbatim>\<open>lease_client::acquire\<close> at a client that has no table of the directory: whatever table it is going to
  index after a grant, and a remote table with the address it was given after a refusal, is justified.
\<close>

lemma lc_acquire_ok:
  assumes W: "lawful_world V W" and ok: "node_ok V (w_self W) g" and r: "lc_acquire W ino [] g = (r, g1)"
  obtains l e k where "g1 = g\<lparr>clock_reads := k, leases := l, env := e\<rparr>" and "undisturbed V (env g) e"
    and "cache_ok V (w_self W) l e" and "\<And>u. u \<noteq> ino \<Longrightarrow> l u = leases g u"
    and "\<And>m. r = Inl m \<Longrightarrow> l = leases g"
    and "\<And>n a lc ip. r = Inr (n, a) \<Longrightarrow> (n \<noteq> 0 \<Longrightarrow> lc \<noteq> LOCAL \<and> ip = a) \<Longrightarrow> entry_ok V (w_self W) ino lc ip l e"
    and "\<And>n a. r = Inr (n, a) \<Longrightarrow> n = 0 \<or> n = -1"
proof -
  let ?now = "clock_src g (clock_reads g)" and ?k = "Suc (clock_reads g)" and ?q = "make_request (w_self W) ino"
  have c: "cache_ok V (w_self W) (leases g) (env g)" using ok by (simp add: node_ok_def)
  show thesis
  proof (cases "is_mine ?now ino (leases g)")
    case True
    then have g1: "r = Inr (0, [])" "g1 = g\<lparr>clock_reads := ?k, leases := leases g, env := env g\<rparr>"
      using r by (cases g, auto simp: lc_acquire_def bindE_def read_clock_def lease_client_acquire_def)+
    obtain x where "leases g ino = Some x" "leader x" using True by (auto simp: is_mine_def split: option.splits)
    then show thesis using that [OF g1(2)] g1(1) c by (simp add: entry_ok_def)
  next
    case False
    obtain p e' where p: "w_manager W ?q (env g) = (p, e')" by fastforce
    then have L: "case p of None \<Rightarrow> undisturbed V (env g) e'
        | Some a \<Rightarrow> \<exists>e1 e2. undisturbed V (env g) e1 \<and> granted V ?q e1 a e2 \<and> undisturbed V e2 e'"
      using W unfolding lawful_world_def by (fastforce simp: make_request_def)
    show thesis
    proof (cases p)
      case None
      then have "r = Inl (Runtime_error ''lease_client::acquire() failed'')" "g1 = g\<lparr>clock_reads := ?k, leases := leases g, env := e'\<rparr>"
        using r False p by (simp_all add: lc_acquire_def bindE_def read_clock_def lease_client_acquire_def)
      moreover have u: "undisturbed V (env g) e'" using L None by simp
      ultimately show thesis by (intro that [OF _ u cache_ok_undisturbed [OF u c]]) simp_all
    next
      case (Some a)
      then obtain e1 e2 where o: "undisturbed V (env g) e1" "granted V ?q e1 a e2" "undisturbed V e2 e'" using L by auto
      let ?l = "lease_update ino (resp_due a) (ret a = 0) (leases g)"
      have g1: "r = Inr (ret a, if ret a \<noteq> 0 then resp_remote_addr a else [])" "g1 = g\<lparr>clock_reads := ?k, leases := ?l, env := e'\<rparr>"
        using r False p Some by (auto simp: lc_acquire_def bindE_def read_clock_def lease_client_acquire_def handle_response_def)
      note A = answered [OF c o refl]
      show thesis
        by (rule that [OF g1(2) _ A(1)])
          (use A(2,3) g1(1) granted_truth(2) [OF o(2)] undisturbed_trans [OF undisturbed_trans [OF o(1) granted_undisturbed [OF o(2)]] o(3)] in \<open>auto split: if_splits\<close>)
    qed
  qed
qed

text \<open>Making and filling a table.\<close>

lemma steady_bind:
  assumes "\<And>r g'. m g = (r, g') \<Longrightarrow> steady g g'" and "\<And>x g' r g''. f x g' = (r, g'') \<Longrightarrow> steady g' g''" and "bindE m f g = (r, g')"
  shows "steady g g'"
proof -
  obtain r1 g1 where m: "m g = (r1, g1)" by fastforce
  show ?thesis using assms(1) [OF m] assms(2) [of _ g1] assms(3) m steady_trans [of g g1 g'] by (cases r1) auto
qed

lemma steady_new_iobj: "new_iobj ob g = (r, g') \<Longrightarrow> steady g g'"
  by (auto simp: new_iobj_def steady_def)

lemma steady_new_dtable: "new_dtable dt g = (r, g') \<Longrightarrow> steady g g' \<and> r = Inr (dtable_next g) \<and> dtables g' (dtable_next g) = dt \<and> dtable_next g' = Suc (dtable_next g)"
  by (auto simp: new_dtable_def steady_def)

lemma steady_update_inode: "update_inode x f g = (r, g') \<Longrightarrow> steady g g'"
  by (auto simp: update_inode_def steady_def)

lemma steady_update_dtable:
  "update_dtable t f g = (r, g') \<Longrightarrow> dt_loc (f (dtables g t)) = dt_loc (dtables g t) \<and> leader_ip (f (dtables g t)) = leader_ip (dtables g t) \<or>
    dtable_next g \<le> t \<Longrightarrow> steady g g'"
  by (auto simp: update_dtable_def steady_def)

lemma steady_child_inode:
  "create_child_inode t n x g = (r, g') \<Longrightarrow> steady g g'"
  "add_child_inode t n x g = (r, g') \<Longrightarrow> steady g g'"
  "delete_child_inode t n g = (r, g') \<Longrightarrow> steady g g'"
  by (auto simp: create_child_inode_def add_child_inode_def delete_child_inode_def update_dtable_def bindE_def steady_def
      split: option.splits)

lemma steady_pull_child: "pull_child W t p g = (r, g') \<Longrightarrow> steady g g'"
  by (auto simp: pull_child_def bindE_def split: sum.splits prod.splits dest!: steady_new_iobj steady_child_inode(2) intro: steady_trans)

lemma steady_fold:
  assumes "\<And>x g r g'. f x g = (r, g') \<Longrightarrow> steady g g'"
  shows "foldE f xs g = (r, g') \<Longrightarrow> steady g g'"
proof (induction xs arbitrary: g r)
  case (Cons x xs)
  obtain r1 g1 where "f x g = (r1, g1)" by fastforce
  then show ?case using Cons assms [of x g] by (cases r1) (auto intro: steady_trans)
qed simp

lemma steady_pull_child_metadata:
  assumes "pull_child_metadata W t g = (r, g')"
  shows "steady g g'"
proof (cases "dentry_new (w_pool W) (meta (jrnl g)) (dir_ino (dtables g t)) False")
  case (Inl e)
  then show ?thesis using assms by (simp add: pull_child_metadata_def)
next
  case (Inr d)
  then have run: "bindE (update_dtable t (\<lambda>dt. dt\<lparr>dt_dentries := Some d\<rparr>))
      (\<lambda>_. bindE (foldE (pull_child W t) (ord_children (w_ords W) (child_list d))) (\<lambda>_. returnE 0)) g = (r, g')"
    using assms by (simp add: pull_child_metadata_def)
  show ?thesis
  proof (rule steady_bind [OF _ _ run])
    fix x h r h'
    assume "bindE (foldE (pull_child W t) (ord_children (w_ords W) (child_list d))) (\<lambda>_. returnE 0) h = (r, h')"
    then show "steady h h'"
      by (rule steady_bind [rotated 2]) (auto intro: steady_fold [OF steady_pull_child])
  qed (erule steady_update_dtable, simp)
qed

lemma dentry_table_new_fresh:
  assumes "dentry_table_new W ino l g = (r, g')"
  shows "steady g g' \<and> (\<forall>t. r = Inr t \<longrightarrow> t = dtable_next g \<and> t < dtable_next g' \<and> dt_loc (dtables g' t) = l)"
  using assms by (auto simp: dentry_table_new_def bindE_def new_iobj_def new_dtable_def empty_table_def steady_def
      split: if_splits sum.splits)

lemma dentry_table_new_dir_fresh:
  assumes "dentry_table_new_dir u x d l g = (r, g')"
  shows "steady g g' \<and> (\<forall>t. r = Inr t \<longrightarrow> t = dtable_next g \<and> t < dtable_next g' \<and> dt_loc (dtables g' t) = l)"
  using assms by (auto simp: dentry_table_new_dir_def bindE_def update_inode_def new_dtable_def empty_table_def steady_def
      split: if_splits)

lemma set_leader_ip_effect:
  "set_leader_ip t a g = (r, g') \<Longrightarrow> leases g' = leases g \<and> env g' = env g \<and> dentry_tables g' = dentry_tables g \<and>
    dtable_next g' = dtable_next g \<and> (\<forall>t'. t' \<noteq> t \<longrightarrow> dtables g' t' = dtables g t') \<and>
    dt_loc (dtables g' t) = dt_loc (dtables g t) \<and> leader_ip (dtables g' t) = a"
  by (auto simp: set_leader_ip_def update_dtable_def)

text \<open>A table may be indexed when the lease justifies it.\<close>

definition justified :: "'e manager_view \<Rightarrow> string \<Rightarrow> uuid \<Rightarrow> nat \<Rightarrow> ('s, 'e) fs \<Rightarrow> bool" where
  "justified V c ino t g \<longleftrightarrow> t < dtable_next g \<and>
     entry_ok V c ino (dt_loc (dtables g t)) (leader_ip (dtables g t)) (leases g) (env g)"

lemma justified_steady: "steady g g' \<Longrightarrow> justified V c ino t g \<Longrightarrow> justified V c ino t g'"
  by (auto simp: justified_def steady_def)

lemma law_add_dentry_table:
  assumes "lawful_world V W \<Longrightarrow> node_ok V (w_self W) g \<Longrightarrow> justified V (w_self W) ino t g"
  shows "law V W b g (add_dentry_table ino t g)"
  using assms by (auto simp: law_def add_dentry_table_def justified_def node_ok_def split: option.split)

text \<open>The tail of the two functions that lease a table: fill it, give it its address, index it.\<close>

lemma law_index_table:
  assumes new: "\<And>r g'. m g = (r, g') \<Longrightarrow> steady g g' \<and> (\<forall>t. r = Inr t \<longrightarrow> t = dtable_next g \<and> t < dtable_next g' \<and> dt_loc (dtables g' t) = l)"
    and fill: "\<And>t h r h'. fill t h = (r, h') \<Longrightarrow> steady h h'"
    and ok: "lawful_world V W \<Longrightarrow> node_ok V (w_self W) g \<Longrightarrow> entry_ok V (w_self W) ino l a (leases g) (env g)"
  shows "law V W b g (bindE m (\<lambda>t. bindE (set_leader_ip t a) (\<lambda>_. bindE (fill t) (\<lambda>_.
    bindE (add_dentry_table ino t) (\<lambda>_. returnE (Some t))))) g)"
proof (rule law_bind_known)
  show "law V W b g (m g)" by (rule law_steady) (use new in blast)
next
  fix t g1
  assume A: "lawful_world V W" "node_ok V (w_self W) g" "m g = (Inr t, g1)"
  obtain g2 r where g2: "set_leader_ip t a g1 = (r, g2)" by fastforce
  have t: "steady g g1" "t = dtable_next g" "t < dtable_next g1" "dt_loc (dtables g1 t) = l" using new [OF A(3)] by auto
  note E = set_leader_ip_effect [OF g2]
  have s: "steady g g2" using t E by (auto simp: steady_def)
  have "justified V (w_self W) ino t g2" using ok [OF A(1,2)] t E s by (auto simp: justified_def steady_def)
  then have tail: "law V W b g2 (bindE (fill t) (\<lambda>_. bindE (add_dentry_table ino t) (\<lambda>_. returnE (Some t))) g2)"
    by (intro law_bind_known law_steady law_add_dentry_table law_result)
      (use fill justified_steady in blast)+
  have r: "r = Inr ()" using g2 by (simp add: set_leader_ip_def update_dtable_def)
  have ok2: "node_ok V (w_self W) g2" by (rule steady_node_ok [OF s A(2)])
  show "law V W b g1 (bindE (set_leader_ip t a) (\<lambda>_. bindE (fill t) (\<lambda>_. bindE (add_dentry_table ino t) (\<lambda>_. returnE (Some t)))) g1)"
  proof (rule lawI)
    fix r' g'
    assume "bindE (set_leader_ip t a) (\<lambda>_. bindE (fill t) (\<lambda>_. bindE (add_dentry_table ino t) (\<lambda>_. returnE (Some t)))) g1 = (r', g')"
    then have "bindE (fill t) (\<lambda>_. bindE (add_dentry_table ino t) (\<lambda>_. returnE (Some t))) g2 = (r', g')" using g2 r by simp
    note lawD [OF tail [unfolded this] A(1) ok2]
    then show "undisturbed V (env g1) (env g') \<and> (b \<or> (\<forall>m. r' \<noteq> Inl (Runtime_error m)) \<longrightarrow> node_ok V (w_self W) g')"
      using E by simp
  qed
qed

lemma law_lease_dentry_table:
  assumes none: "dentry_tables g ino = None"
  shows "law V W b g (lease_dentry_table W ino g)"
proof -
  have acq: "law V W b g (lc_acquire W ino [] g)"
  proof (rule lawI)
    fix r g1
    assume A: "lawful_world V W" "node_ok V (w_self W) g" "lc_acquire W ino [] g = (r, g1)"
    obtain l e k where g1: "g1 = g\<lparr>clock_reads := k, leases := l, env := e\<rparr>" "undisturbed V (env g) e" "cache_ok V (w_self W) l e"
      "\<And>u. u \<noteq> ino \<Longrightarrow> l u = leases g u" by (rule lc_acquire_ok [OF A]) blast
    have "t < dtable_next g \<and> entry_ok V (w_self W) u (dt_loc (dtables g t)) (leader_ip (dtables g t)) l e"
      if t: "dentry_tables g u = Some t" for u t
    proof -
      have "u \<noteq> ino" using none t by auto
      moreover have "entry_ok V (w_self W) u (dt_loc (dtables g t)) (leader_ip (dtables g t)) (leases g) e"
        using entry_ok_undisturbed [OF g1(2)] A(2) t by (simp add: node_ok_def)
      ultimately show ?thesis using g1(4) A(2) t by (simp add: node_ok_def entry_ok_def)
    qed
    then show "undisturbed V (env g) (env g1) \<and> (b \<or> (\<forall>m. r \<noteq> Inl (Runtime_error m)) \<longrightarrow> node_ok V (w_self W) g1)"
      using g1(1-3) A(2) none by (auto simp: node_ok_def)
  qed
  show ?thesis
    unfolding lease_dentry_table_def
  proof (rule law_bind_known [where m = "lc_acquire W ino []", OF acq], clarify)
    fix n a g1
    assume A: "lawful_world V W" "node_ok V (w_self W) g" "lc_acquire W ino [] g = (Inr (n, a), g1)"
    have just: "entry_ok V (w_self W) ino lc ip (leases g1) (env g1)" if "n \<noteq> 0 \<Longrightarrow> lc \<noteq> LOCAL \<and> ip = a" for lc ip
      by (rule lc_acquire_ok [OF A]) (use that in auto)
    show "law V W b g1 ((if n = 0 then bindE (dentry_table_new W ino LOCAL) (\<lambda>t. bindE (set_leader_ip t a) (\<lambda>_.
           bindE (pull_child_metadata W t) (\<lambda>_. bindE (add_dentry_table ino t) (\<lambda>_. returnE (Some t)))))
        else if n = - 1 then bindE (dentry_table_new W ino REMOTE) (\<lambda>t. bindE (set_leader_ip t a) (\<lambda>_.
           bindE (add_dentry_table ino t) (\<lambda>_. returnE (Some t))))
        else returnE None) g1)"
    proof -
      have "law V W b g1 (bindE (dentry_table_new W ino REMOTE) (\<lambda>t. bindE (set_leader_ip t a) (\<lambda>_. bindE (returnE ()) (\<lambda>_.
           bindE (add_dentry_table ino t) (\<lambda>_. returnE (Some t))))) g1)"
        by (rule law_index_table [where m = "dentry_table_new W ino REMOTE" and l = REMOTE, OF dentry_table_new_fresh])
          (use just in \<open>auto simp: returnE_def\<close>)
      moreover have "law V W b g1 (bindE (dentry_table_new W ino LOCAL) (\<lambda>t. bindE (set_leader_ip t a) (\<lambda>_.
           bindE (pull_child_metadata W t) (\<lambda>_. bindE (add_dentry_table ino t) (\<lambda>_. returnE (Some t))))) g1)" if "n = 0"
        by (rule law_index_table [where m = "dentry_table_new W ino LOCAL" and l = LOCAL, OF dentry_table_new_fresh steady_pull_child_metadata])
          (use just that in auto)
      ultimately show ?thesis by (auto simp: law_result)
    qed
  qed
qed

text \<open>
  Making a directory also leases its table.  Should the index have a table under the new number already, the
  grant still justifies it; after a refusal the function throws.
\<close>

lemma law_lease_dentry_table_mkdir [laws]: "law V W False g (lease_dentry_table_mkdir W x d g)"
proof (rule lawI)
  fix r g'
  assume W: "lawful_world V W" and ok: "node_ok V (w_self W) g" and run: "lease_dentry_table_mkdir W x d g = (r, g')"
  let ?ino = "ino_of g x"
  obtain r1 g1 where acq: "lc_acquire W ?ino [] g = (r1, g1)" by fastforce
  obtain l e k where g1: "g1 = g\<lparr>clock_reads := k, leases := l, env := e\<rparr>" "undisturbed V (env g) e" "cache_ok V (w_self W) l e"
    "\<And>u. u \<noteq> ?ino \<Longrightarrow> l u = leases g u" "\<And>m. r1 = Inl m \<Longrightarrow> l = leases g"
    and just: "\<And>n a lc ip. r1 = Inr (n, a) \<Longrightarrow> (n \<noteq> 0 \<Longrightarrow> lc \<noteq> LOCAL \<and> ip = a) \<Longrightarrow> entry_ok V (w_self W) ?ino lc ip l e"
    and code: "\<And>n a. r1 = Inr (n, a) \<Longrightarrow> n = 0 \<or> n = -1"
    by (rule lc_acquire_ok [OF W ok acq]) blast
  have index: "t < dtable_next g \<and> entry_ok V (w_self W) u (dt_loc (dtables g t)) (leader_ip (dtables g t)) l e"
    if t: "dentry_tables g u = Some t" and u: "u = ?ino \<Longrightarrow> (\<exists>a. r1 = Inr (0, a)) \<or> l = leases g" for u t
  proof -
    have o: "t < dtable_next g" "entry_ok V (w_self W) u (dt_loc (dtables g t)) (leader_ip (dtables g t)) (leases g) e"
      using entry_ok_undisturbed [OF g1(2)] ok t by (simp_all add: node_ok_def)
    show ?thesis
    proof (cases "u = ?ino \<and> l \<noteq> leases g")
      case True
      then show ?thesis using u just o(1) by auto
    next
      case False
      then have "l u = leases g u" using g1(4) by auto
      then show ?thesis using o by (simp add: entry_ok_def)
    qed
  qed
  show "undisturbed V (env g) (env g') \<and> (False \<or> (\<forall>m. r \<noteq> Inl (Runtime_error m)) \<longrightarrow> node_ok V (w_self W) g')"
  proof (cases r1)
    case (Inl m)
    then have "r = Inl m" "g' = g1" using run acq by (simp_all add: lease_dentry_table_mkdir_def Let_def)
    moreover have "node_ok V (w_self W) g1" using g1(1,3) index g1(5) [OF Inl] by (simp add: node_ok_def)
    ultimately show ?thesis using g1(1,2) by simp
  next
    case (Inr p)
    obtain n a where p: "p = (n, a)" by fastforce
    show ?thesis
    proof (cases "n = 0")
      case True
      have ok1: "node_ok V (w_self W) g1" using g1(1,3) index Inr p True by (simp add: node_ok_def)
      have "law V W True g1 (bindE (dentry_table_new_dir (p_ino (w_raw W)) x d LOCAL) (\<lambda>t. bindE (set_leader_ip t a) (\<lambda>_.
          bindE (returnE ()) (\<lambda>_. bindE (add_dentry_table ?ino t) (\<lambda>_. returnE (Some t))))) g1)"
        by (rule law_index_table [where m = "dentry_table_new_dir (p_ino (w_raw W)) x d LOCAL" and l = LOCAL, OF dentry_table_new_dir_fresh])
          (use just [OF Inr [unfolded p]] g1(1) True in \<open>auto simp: returnE_def\<close>)
      moreover have "lease_dentry_table_mkdir W x d g = bindE (dentry_table_new_dir (p_ino (w_raw W)) x d LOCAL) (\<lambda>t. bindE (set_leader_ip t a) (\<lambda>_.
          bindE (returnE ()) (\<lambda>_. bindE (add_dentry_table ?ino t) (\<lambda>_. returnE (Some t))))) g1"
        using acq Inr p True by (simp add: lease_dentry_table_mkdir_def Let_def)
      ultimately have "law V W True g1 (r, g')" using run by simp
      note lawD [OF this W ok1]
      then show ?thesis using undisturbed_trans [OF g1(2)] g1(1) by simp
    next
      case False
      then have "r = Inl (Runtime_error ''New directory should have local dentry table'')" "g' = g1"
        using run acq Inr p code by (auto simp: lease_dentry_table_mkdir_def Let_def)
      then show ?thesis using g1(1,2) by simp
    qed
  qed
qed

section \<open>The manager among its clients\<close>

text \<open>
  A manager that meets \<open>lawful_world\<close>: between two requests of a client it answers any number of
  requests of others, as a plan says, each with \<^verbatim>\<open>lease_impl::acquire\<close> at a time of its own; and any of
  its answers may be lost.
\<close>

record busy_manager =
  m_table :: lease_table
  m_clock :: int
  m_plan :: "(int \<times> lease_request) list list"
  m_lost :: "bool list"

definition answer_one :: "(uuid \<Rightarrow> string) \<Rightarrow> int \<times> lease_request \<Rightarrow> busy_manager \<Rightarrow> busy_manager" where
  "answer_one ts x e =
     (let t = max (m_clock e) (fst x) in
      e\<lparr>m_clock := t, m_table := snd (lease_impl_acquire ts t t (snd x) (m_table e))\<rparr>)"

definition answer_others :: "(uuid \<Rightarrow> string) \<Rightarrow> busy_manager \<Rightarrow> busy_manager" where
  "answer_others ts e =
     (case m_plan e of [] \<Rightarrow> e | xs # p \<Rightarrow> (fold (answer_one ts) xs e)\<lparr>m_plan := p\<rparr>)"

definition busy_acquire :: "(uuid \<Rightarrow> string) \<Rightarrow> lease_request \<Rightarrow> busy_manager \<Rightarrow> lease_response option \<times> busy_manager" where
  "busy_acquire ts q e0 =
     (let e = answer_others ts e0;
          (p, tbl) = lease_impl_acquire ts (m_clock e) (m_clock e) q (m_table e);
          e' = answer_others ts (e\<lparr>m_table := tbl\<rparr>)
      in case m_lost e' of True # l \<Rightarrow> (None, e'\<lparr>m_lost := l\<rparr>) | False # l \<Rightarrow> (Some p, e'\<lparr>m_lost := l\<rparr>) | [] \<Rightarrow> (Some p, e'))"

definition busy_view :: "(uuid \<Rightarrow> string) \<Rightarrow> busy_manager manager_view" where
  "busy_view ts = \<lparr>v_string = ts, v_table = m_table, v_time = m_clock\<rparr>"

lemma granted_now:
  "granted (busy_view ts) q e (fst (lease_impl_acquire ts (m_clock e) (m_clock e) q (m_table e)))
     (e\<lparr>m_table := snd (lease_impl_acquire ts (m_clock e) (m_clock e) q (m_table e))\<rparr>)"
  unfolding granted_def
  by (rule exI [of _ "m_clock e"], rule exI [of _ "m_clock e"], rule exI [of _ "lease_table_acquire ts (m_clock e) (m_clock e)
      (splice_prefix_and_postfix (ino_prefix q) (ino_postfix q)) (req_remote_addr q) (m_table e)"])
    (simp add: busy_view_def lease_impl_acquire_def Let_def)

lemma undisturbed_busy [simp]:
  "undisturbed (busy_view ts) e (e'\<lparr>m_plan := p\<rparr>) = undisturbed (busy_view ts) e e'"
  "undisturbed (busy_view ts) e (e'\<lparr>m_lost := l\<rparr>) = undisturbed (busy_view ts) e e'"
  "m_clock e \<le> t \<Longrightarrow> undisturbed (busy_view ts) e (e\<lparr>m_clock := t\<rparr>)"
  by (simp_all add: undisturbed_def busy_view_def)

lemma answer_one_undisturbed: "undisturbed (busy_view ts) e (answer_one ts x e)"
proof -
  let ?e = "e\<lparr>m_clock := max (m_clock e) (fst x)\<rparr>"
  have "undisturbed (busy_view ts) ?e (answer_one ts x e)"
    using granted_undisturbed [OF granted_now [of ts "snd x" ?e]] by (simp add: answer_one_def Let_def)
  then show ?thesis by (rule undisturbed_trans [rotated]) simp
qed

lemma answer_others_undisturbed: "undisturbed (busy_view ts) e (answer_others ts e)"
proof -
  have "undisturbed (busy_view ts) e (fold (answer_one ts) xs e)" for xs
    by (induction xs arbitrary: e) (auto intro: undisturbed_trans [OF answer_one_undisturbed])
  then show ?thesis by (simp add: answer_others_def split: list.split)
qed

lemma busy_manager_lawful:
  assumes m: "w_manager W = busy_acquire ts" and rpc: "\<And>ad q e. undisturbed (busy_view ts) e (snd (w_rpc W ad q e))"
  shows "lawful_world (busy_view ts) W"
proof -
  define V where "V = busy_view ts"
  have main: "case p of None \<Rightarrow> undisturbed V e e' | Some a \<Rightarrow> \<exists>e1 e2. undisturbed V e e1 \<and> granted V q e1 a e2 \<and> undisturbed V e2 e'"
    if run: "busy_acquire ts q e = (p, e')" for q e p e'
  proof -
    let ?e1 = "answer_others ts e"
    let ?r = "lease_impl_acquire ts (m_clock ?e1) (m_clock ?e1) q (m_table ?e1)"
    let ?e2 = "?e1\<lparr>m_table := snd ?r\<rparr>"
    have u: "undisturbed V e ?e1" "granted V q ?e1 (fst ?r) ?e2" "undisturbed V ?e2 (answer_others ts ?e2)"
      using answer_others_undisturbed granted_now V_def by blast+
    have "\<exists>l. e' = (answer_others ts ?e2)\<lparr>m_lost := l\<rparr> \<and> (p = None \<or> p = Some (fst ?r))"
      using run by (cases "m_lost (answer_others ts ?e2)") (auto simp: busy_acquire_def Let_def case_prod_unfold split: bool.splits intro: exI [of _ "[]"])
    then obtain l where l: "e' = (answer_others ts ?e2)\<lparr>m_lost := l\<rparr>" "p = None \<or> p = Some (fst ?r)" by blast
    then have "undisturbed V ?e2 e'" using u(3) V_def by simp
    moreover from this have "undisturbed V e e'" using u undisturbed_trans granted_undisturbed by metis
    ultimately show ?thesis using u(1,2) l(2) by (cases p) (simp_all, blast)
  qed
  show ?thesis
    unfolding lawful_world_def V_def [symmetric]
  proof (intro conjI allI impI)
    fix q e p e'
    assume "w_manager W q e = (p, e') \<and> req_remote_addr q = w_self W"
    then show "case p of None \<Rightarrow> undisturbed V e e' | Some a \<Rightarrow> \<exists>e1 e2. undisturbed V e e1 \<and> granted V q e1 a e2 \<and> undisturbed V e2 e'"
      using main m by simp
  next
    fix ad q e p e'
    assume "w_rpc W ad q e = (p, e')"
    then show "undisturbed V e e'" using rpc [of e ad q] by (simp add: V_def)
  qed
qed

end
