(* ===== verification/Leadership_Ops.thy ===== *)
theory Leadership_Ops
  imports Leadership
begin

text \<open>
  Every operation of a client obeys the judgement on leadership: the lease cache and the index of tables only change through
  the functions that lease a table.
\<close>

section \<open>Primitives\<close>

lemma law_sources [laws]:
  "law V W b g (read_clock g)" "law V W b g (get_time g)" "law V W b g (alloc_new_ino g)" "law V W b g (new_address g)"
  "law V W b g (lc_is_valid ino g)" "law V W b g (journal_call h g)" "law V W b g (data_call k g)"
  "law V W b g (new_iobj ob g)" "law V W b g (update_inode x f g)" "law V W b g (update_core x f' g)"
  "law V W b g (add_file_handler a fh g)" "law V W b g (delete_file_handler a g)" "law V W b g (get_file_handler a g)"
  by (rule law_steady; auto simp: steady_def source_defs lc_is_valid_def journal_call_def data_call_def new_iobj_def
      update_inode_def update_core_def add_file_handler_def delete_file_handler_def get_file_handler_def bindE_def split: prod.splits option.splits)+

lemma law_tables [laws]:
  "law V W b g (create_child_inode t n x g)" "law V W b g (add_child_inode t n x g)" "law V W b g (delete_child_inode t n g)"
  "law V W b g (dt_fill_filler W t g)" "law V W b g (dt_get_child_num W t g)"
  by (rule law_steady; auto dest: steady_child_inode simp: dt_fill_filler_def dt_get_child_num_def split: option.splits)+

lemma law_rpc_call [laws]: "law V W b g (rpc_call W ad q g)"
  by (rule law_env) (fastforce simp: rpc_call_def remote_call_def lawful_world_def split: prod.splits option.splits)

lemma law_delete_dentry_table [laws]: "law V W b g (delete_dentry_table ino g)"
  by (auto simp: law_def delete_dentry_table_def node_ok_def split: option.split)

lemma law_get_dentry_table [laws]: "law V W b g (get_dentry_table W ino remote g)"
proof -
  have gone: "dentry_tables g2 ino = None" if "delete_dentry_table ino g1 = (r, g2)" for r and g1 g2 :: "('b, 'a) fs"
    using that by (auto simp: delete_dentry_table_def split: option.splits)
  have fresh: "law V W b g1 (bindE (delete_dentry_table ino) (\<lambda>_. lease_dentry_table W ino) g1)" for g1
    by (rule law_bind_known [OF law_delete_dentry_table]) (rule law_lease_dentry_table, erule gone)
  have drop: "law V W b h (bindE (delete_dentry_table ino) (\<lambda>_. throwE Not_leader) h)" for h :: "('b, 'a) fs" by (intro laws)
  show ?thesis
  proof (cases "dentry_tables g ino")
    case None
    then show ?thesis by (simp add: get_dentry_table_def law_lease_dentry_table law_result)
  next
    case (Some t)
    have "law V W b g (bindE (lc_is_valid ino) (\<lambda>valid. if valid then returnE (Some t) else m) g)"
      if "\<And>g'. law V W b g' (m g')" for m by (intro laws that)
    from this [OF fresh] this [OF drop]
    show ?thesis using Some by (simp add: get_dentry_table_def)
  qed
qed

lemma law_deref [laws]: "law V W b g (deref p g)"
  unfolding deref_def by (intro laws)

lemma law_again [laws]: "law V W b g (find_remote_dentry_table_again W x g)"
proof -
  have put: "law V W b h (Inr (), h\<lparr>inodes := j\<rparr>)" for h j
    by (rule law_steady [where m = "\<lambda>h. (Inr (), h\<lparr>inodes := j\<rparr>)"]) (auto simp: steady_def)
  then show ?thesis unfolding find_remote_dentry_table_again_def by (intro laws put)
qed

section \<open>Tables, paths and open files\<close>

lemma law_remote_call:
  assumes "\<And>e r e'. f e = (r, e') \<Longrightarrow> lawful_world V W \<Longrightarrow> undisturbed V e e'"
  shows "law V W b g (remote_call f g)"
  by (rule law_env) (use assms in \<open>fastforce simp: remote_call_def split: prod.splits\<close>)

lemma law_remote_reads [laws]:
  "law V W b g (remote_call (rc_get_mode W a u n) g)" "law V W b g (remote_call (rc_permission_check W a u n k q) g)"
  "law V W b g (remote_call (rc_check_child_inode W a u n) g)"
  by (rule law_remote_call; auto simp: rc_get_mode_def rc_permission_check_def rc_check_child_inode_def lawful_world_def
      split: prod.splits option.splits)+

lemma law_virtual [laws]:
  "law V W b g (get_this_dir_inode W t g)" "law V W b g (get_mode W x g)" "law V W b g (check_permission W x k g)"
  "law V W b g (get_child_inode W t n u g)" "law V W b g (check_child_inode W t n g)"
  unfolding get_this_dir_inode_def get_mode_def check_permission_def get_child_inode_def check_child_inode_def Let_def
  by (intro laws)+

lemma law_traverse_step [laws]: "law V W b g (traverse_step W n t g)"
  unfolding traverse_step_def by (intro laws)

lemma law_traverse [laws]: "law V W b g (traverse W path n e t x g)"
proof (induction "nat (n - e)" arbitrary: e t x g rule: less_induct)
  case less
  show ?case
  proof (cases "set_name_bound e path n")
    case None
    then show ?thesis by (subst traverse.simps) (simp add: law_result)
  next
    case (Some p)
    obtain s e' where p: "p = (s, e')" by fastforce
    then have IH: "law V W b h (traverse W path n e' t' x' h)" for t' x' h
      using less.hyps [of e'] set_name_bound_progress [of e path n s e'] Some by simp
    have "traverse W path n e t x g =
        bindE (traverse_step W (substr path s e') t) (\<lambda>p. traverse W path n e' (fst p) (snd p)) g"
      using Some p by (subst traverse.simps) (simp add: bindE_def case_prod_unfold split: sum.split)
    also have "law V W b g \<dots>" by (intro laws IH)
    finally show ?thesis .
  qed
qed

lemma law_paths [laws]:
  "law V W b g (path_traversal W path g)" "law V W b g (table_of W i g)" "law V W b g (open_inode fh g)"
  unfolding path_traversal_def table_of_def open_inode_def by (intro laws)+

lemma law_target_inode [laws]: "law V W b g (target_inode W path fi g)"
  unfolding target_inode_def by (intro laws)

section \<open>Operations of the leader\<close>

lemma law_pieces [laws]:
  "law V W b g (make_inode p m g)" "law V W b g (server_inode u owner grp m g)" "law V W b g (touch_dir i g)"
  "law V W b g (j_mkself W i g)" "law V W b g (j_chself W i g)" "law V W b g (j_rmself W u g)"
  "law V W b g (j_mkdir W i n u g)" "law V W b g (j_rmdir W i n u g)" "law V W b g (j_mkreg W i n f g)"
  "law V W b g (j_rmreg W i n f g)" "law V W b g (j_chreg W f g)"
  unfolding make_inode_def server_inode_def touch_dir_def j_mkself_def j_chself_def j_rmself_def j_mkdir_def j_rmdir_def
    j_mkreg_def j_rmreg_def j_chreg_def
  by (intro laws)+

lemma law_pieces2 [laws]:
  "law V W b g (j_change W i g)" "law V W b g (open_handle i g)" "law V W b g (utime_one i put tv g)"
  "law V W b g (drop_target W p t n u g)"
  unfolding j_change_def open_handle_def utime_one_def drop_target_def by (intro laws)+

lemma law_local [laws]:
  "law V W b g (local_getattr i st g)" "law V W b g (local_access W i k g)"
  "law V W b g (local_releasedir i fh g)" "law V W b g (local_readdir W i g)"
  "law V W b g (local_readlink W i sz g)" "law V W b g (local_release i fh g)"
  "law V W b g (local_read W i len off g)"
  "law V W b g (local_chmod W i m g)" "law V W b g (local_chown W i ow gr g)"
  "law V W b g (local_utimens W i tv0 tv1 g)" "law V W b g (local_truncate W i off' g)"
  "law V W b g (local_write W i buf sz' off'' fl g)"
  unfolding local_getattr_def local_access_def local_releasedir_def local_readdir_def local_readlink_def
    local_release_def local_read_def local_chmod_def local_chown_def local_utimens_def local_truncate_def local_write_def Let_def
  by (intro laws)+

lemma law_local_entries [laws]:
  "law V W b g (local_opendir W i fh g)" "law V W b g (local_open W i fl fh g)"
  "law V W False g (local_mkdir W p n m g)" "law V W b g (local_create W p n m g)"
  "law V W b g (local_symlink W p src dst g)" "law V W b g (local_unlink W p n g)"
  "law V W b g (local_rmdir_top W i u g)" "law V W b g (local_rmdir_down W p u n g)"
  "law V W b g (local_rename_same_parent W p x y fl' g)" "law V W b g (local_rename_not_same_parent_src W p x fl' g)"
  "law V W b g (local_rename_not_same_parent_dst W p z u y fl' g)"
  unfolding local_opendir_def local_open_def local_mkdir_def local_create_def local_symlink_def local_unlink_def local_rmdir_top_def
    local_rmdir_down_def local_rename_same_parent_def local_rename_not_same_parent_src_def local_rename_not_same_parent_dst_def Let_def
  by (intro laws)+

section \<open>Procedures that other clients call\<close>

text \<open>A handler that turns some outcomes of a computation into others, in the state it ends in.\<close>

lemma law_case:
  assumes "law V W b g (m g)" and "\<And>r g'. m g = (r, g') \<Longrightarrow> (\<forall>m. r \<noteq> Inl (Runtime_error m)) \<or> b \<Longrightarrow> law V W b g' o2"
    and "\<And>m' g'. m g = (Inl (Runtime_error m'), g') \<Longrightarrow> o2 = (Inl (Runtime_error m'), g') \<or> b"
  shows "law V W b g o2"
proof (rule lawI)
  fix r2 g2
  assume A: "lawful_world V W" "node_ok V (w_self W) g" "o2 = (r2, g2)"
  obtain r g' where m: "m g = (r, g')" by fastforce
  note 1 = lawD [OF assms(1) [unfolded m] A(1,2)]
  show "undisturbed V (env g) (env g2) \<and> (b \<or> (\<forall>m. r2 \<noteq> Inl (Runtime_error m)) \<longrightarrow> node_ok V (w_self W) g2)"
  proof (cases "(\<forall>m. r \<noteq> Inl (Runtime_error m)) \<or> b")
    case True
    note 2 = lawD [OF assms(2) [OF m True, unfolded A(3)] A(1) 1(2)]
    show ?thesis using undisturbed_trans [OF 1(1)] 2 True by blast
  next
    case False
    then show ?thesis using assms(3) m A(3) 1(1) by auto
  qed
qed

lemma law_with_table [laws]:
  assumes "\<And>p g'. law V W b g' (k p g')"
  shows "law V W b g (with_table W w k g)"
  by (rule law_case [where m = "get_dentry_table W (wire_to_ino w) True"])
    (auto simp: with_table_def assms laws split: sum.split exn.split)

lemma law_rpc_targets [laws]:
  "law V W b g (fetch_target W t n q g)" "law V W b g (target_of W t n q g)" "law V W b g (parent_of W t g)"
  unfolding fetch_target_def target_of_def parent_of_def by (intro laws)+

lemma law_permission_answer [laws]: "law V W b g (permission_answer W i k g)"
  by (rule law_case [where m = "check_permission W i k"])
    (auto simp: permission_answer_def laws split: sum.split exn.split)

lemma law_rpc_attributes:
  "law V W b g (rpc_check_child_inode W w n g)" "law V W b g (rpc_get_mode W w n g)"
  "law V W b g (rpc_permission_check W w n k q g)" "law V W b g (rpc_access W w n k q g)"
  "law V W b g (rpc_opendir W w n q g)" "law V W b g (rpc_open W w n fl g)"
  "law V W b g (rpc_readlink W w n sz g)" "law V W b g (rpc_write W w n sz' off fl g)"
  "law V W b g (rpc_chmod W w n m q g)" "law V W b g (rpc_chown W w n ow gr q g)"
  "law V W b g (rpc_utimens W w n tv0 tv1 q g)" "law V W b g (rpc_truncate W w n off' q g)"
  unfolding rpc_check_child_inode_def rpc_get_mode_def rpc_permission_check_def rpc_access_def rpc_opendir_def rpc_open_def
    rpc_readlink_def rpc_write_def rpc_chmod_def rpc_chown_def rpc_utimens_def rpc_truncate_def Let_def
  by (intro laws)+

lemma law_rpc_entries:
  "law V W b g (rpc_mkdir W w n m ow gr g)" "law V W b g (rpc_rmdir_top W w u g)"
  "law V W b g (rpc_rmdir_down W w n u g)" "law V W b g (rpc_symlink W w n src dst g)"
  "law V W b g (rpc_create W w n m g)" "law V W b g (rpc_unlink W w n g)"
  "law V W b g (rpc_rename_same_parent W w x y fl g)" "law V W b g (rpc_rename_not_same_parent_src W w x fl g)"
  "law V W b g (rpc_rename_not_same_parent_dst W w q u y fl g)"
  unfolding rpc_mkdir_def rpc_rmdir_top_def rpc_rmdir_down_def rpc_symlink_def rpc_create_def rpc_unlink_def
    rpc_rename_same_parent_def rpc_rename_not_same_parent_src_def rpc_rename_not_same_parent_dst_def Let_def
  by (intro laws)+

lemma law_rpc_getattr: "law V W b g (rpc_getattr W w n q g)"
proof -
  have "law V W b h (case fetch_target W t n q h of (Inl No_entry, g1) \<Rightarrow> (Inr (answer (- EACCES)), g1) | (Inl e, g1) \<Rightarrow> (Inl e, g1)
      | (Inr q, g1) \<Rightarrow> bindE (deref q) (\<lambda>i. bindE (get_mode W i) (\<lambda>m. readE (\<lambda>h. returnE (stat_respond m (inode_at h i))))) g1)" for h t
    by (rule law_case [where m = "fetch_target W t n q"]) (auto split: sum.split exn.split intro!: laws)
  then show ?thesis unfolding rpc_getattr_def by (intro laws) blast
qed

lemma law_rpc_readdir: "law V W b g (rpc_readdir W w g)"
  by (rule law_case [where m = "get_dentry_table W (wire_to_ino w) True"])
    (auto simp: rpc_readdir_def split: sum.split exn.split intro!: laws)

lemma law_rpc_serve: "law V W b g (rpc_serve W q g)"
  by (cases q) (simp_all add: law_rpc_attributes law_rpc_entries law_rpc_getattr law_rpc_readdir)

section \<open>Calls to other clients\<close>

lemma law_as_remote [laws]: "(\<And>i r. law V W b g (k i r g)) \<Longrightarrow> law V W b g (as_remote x k g)"
  unfolding as_remote_def by (intro laws)

lemma law_common_call [laws]: "law V W b g (common_call W r q g)"
  unfolding common_call_def by (intro laws)

lemma law_remote_handle [laws]: "law V W b g (remote_handle u x g)"
  unfolding remote_handle_def by (intro laws)

lemma law_remote [laws]:
  "law V W b g (remote_getattr W x s g)" "law V W b g (remote_access W x k g)"
  "law V W b g (remote_readdir W x g)" "law V W b g (remote_rmdir_top W x u g)"
  "law V W b g (remote_rmdir_down W x u n g)" "law V W b g (remote_symlink W x a' b' g)"
  "law V W b g (remote_readlink W x sz g)" "law V W b g (remote_rename_same_parent W x a' b' fl g)"
  "law V W b g (remote_rename_not_same_parent_dst W x p u b' fl g)" "law V W b g (remote_unlink W x n g)"
  "law V W b g (remote_write W x buf sz' off fl g)" "law V W b g (remote_chmod W x m g)"
  "law V W b g (remote_chown W x ow gr g)" "law V W b g (remote_utimens W x tv0 tv1 g)"
  "law V W b g (remote_truncate W x off' g)" "law V W b g (remote_opendir W x fh g)"
  "law V W b g (remote_open W x fl fh g)" "law V W b g (remote_create W x n m fh g)"
  "law V W b g (remote_mkdir W x n m g)" "law V W b g (remote_rename_not_same_parent_src W x a' fl g)"
  unfolding remote_getattr_def remote_access_def remote_readdir_def remote_rmdir_top_def remote_rmdir_down_def
    remote_symlink_def remote_readlink_def remote_rename_same_parent_def remote_rename_not_same_parent_dst_def
    remote_unlink_def remote_write_def remote_chmod_def remote_chown_def remote_utimens_def remote_truncate_def
    remote_opendir_def remote_open_def remote_create_def remote_mkdir_def remote_rename_not_same_parent_src_def
    rc_getattr_def rc_access_def rc_readdir_def rc_rmdir_top_def rc_rmdir_down_def rc_symlink_def rc_readlink_def
    rc_rename_same_parent_def rc_rename_not_same_parent_dst_def rc_unlink_def rc_write_def rc_chmod_def rc_chown_def
    rc_utimens_def rc_truncate_def rc_opendir_def rc_open_def rc_create_def rc_mkdir_def rc_rename_not_same_parent_src_def Let_def
  by (intro laws)+

section \<open>The operations FUSE calls\<close>

lemma law_retry:
  assumes "retry W code x op g = Some y" and "\<And>h. law V W b h (op h)"
  shows "law V W b g y"
proof -
  have "(\<forall>h. law V W b h (op h)) \<longrightarrow> law V W b g y"
  proof (rule retry_induct [where P = "\<lambda>W code x op g y. (\<forall>h. law V W b h (op h)) \<longrightarrow> law V W b g y", OF _ assms(1)], intro impI)
    fix rec W code x op g y
    assume IH: "\<And>W code x op g y. rec W code x op g = Some y \<Longrightarrow> (\<forall>h. law V W b h (op h)) \<longrightarrow> law V W b g y"
      and y: "(case op g of (Inl e, g1) \<Rightarrow> Some (Inl e, g1)
        | (Inr a, g1) \<Rightarrow> if code a = - ENOTLEADER
            then (case find_remote_dentry_table_again W x g1 of (Inl e, g2) \<Rightarrow> Some (Inl e, g2)
              | (Inr _, g2) \<Rightarrow> rec W code x op g2)
            else if code a = - ENEEDRECOV then Some (Inl (Runtime_error ''Need Recovery of remote dentry_table''), g1)
            else Some (Inr a, g1)) = Some y"
      and op: "\<forall>h. law V W b h (op h)"
    show "law V W b g y"
    proof (rule law_case [where m = op])
      fix r g1
      assume r: "op g = (r, g1)"
      show "law V W b g1 y"
      proof (cases r)
        case (Inl e)
        then show ?thesis using y r by (auto simp: law_result)
      next
        case (Inr a)
        have again: "law V W b g1 y"
          if f: "(case find_remote_dentry_table_again W x g1 of (Inl e, g2) \<Rightarrow> Some (Inl e, g2) | (Inr _, g2) \<Rightarrow> rec W code x op g2) = Some y"
        proof (rule law_case [where m = "find_remote_dentry_table_again W x", OF law_again])
          fix r2 g2
          assume r2: "find_remote_dentry_table_again W x g1 = (r2, g2)"
          show "law V W b g2 y"
          proof (cases r2)
            case (Inl e)
            then have "y = (Inl e, g2)" using f r2 by simp
            then show ?thesis by (simp add: law_result)
          next
            case (Inr z)
            then have "rec W code x op g2 = Some y" using f r2 by simp
            then show ?thesis using IH op by blast
          qed
        qed (use f in simp)
        show ?thesis
        proof (cases "code a = - ENOTLEADER")
          case True
          then show ?thesis using y r Inr by (intro again) simp
        next
          case False
          then have "snd y = g1" using y r Inr by (simp split: if_splits) (auto simp: r)
          then show ?thesis using law_result(1) [of V W b g1 "fst y"] by (cases y) simp
        qed
      qed
    qed (use y op in auto)
  qed
  then show ?thesis using assms(2) by blast
qed

lemma law_retrying [laws]: "(\<And>h. law V W b h (op h)) \<Longrightarrow> law V W b g (retrying W code x op g)"
  using law_retry [of W code x op g] by (auto simp: retrying_def law_result split: option.split)

lemma law_catch [laws]:
  "law V W b g (m g) \<Longrightarrow> law V W b g (catch_entry f m g)"
  "law V W True g (n g) \<Longrightarrow> law V W b g (catch_runtime n g)"
  by (auto simp: catch_entry_def catch_runtime_def law_def split: prod.splits sum.splits exn.splits)

lemma law_by_loc [laws]:
  "law V W b g (m g) \<Longrightarrow> law V W b g (n g) \<Longrightarrow> law V W b g (by_loc i x m n g)"
  "law V W b g (m' g) \<Longrightarrow> law V W b g (n' g) \<Longrightarrow> law V W b g (by_table t x m' n' g)"
  unfolding by_loc_def by_table_def by (intro laws; simp)+

lemma law_fuse_dirs [laws]: "law V W b g (table_inode W t n g)" "law V W b g (parent_dir W path g)"
  unfolding table_inode_def parent_dir_def by (intro laws)+

lemma law_reply: "law V W b g (m g) \<Longrightarrow> law V W b g (reply f m g)"
  unfolding reply_def by (intro laws)

lemma law_fuse:
  "law V W b g (fuse_getattr W path st fi g)" "law V W b g (fuse_access W path k g)"
  "law V W b g (fuse_readlink W path sz g)" "law V W b g (fuse_opendir W path fh g)"
  "law V W b g (fuse_releasedir W path fi g)" "law V W b g (fuse_release W path fi g)"
  "law V W b g (fuse_open W path fl fh g)" "law V W b g (fuse_write W path buf sz off fw g)"
  "law V W b g (fuse_chmod W path m fi g)" "law V W b g (fuse_chown W path ow gr fi g)"
  "law V W b g (fuse_utimens W path tv0 tv1 fi g)" "law V W b g (fuse_truncate W path sz fi g)"
  "law V W b g (fuse_symlink W src dst g)" "law V W b g (fuse_readdir W path fi g)"
  "law V W False g (fuse_mkdir W path m g)" "law V W b g (fuse_create W path m fh g)"
  "law V W b g (fuse_unlink W path g)"
  unfolding fuse_getattr_def fuse_access_def fuse_readlink_def fuse_opendir_def fuse_releasedir_def fuse_release_def
    fuse_open_def fuse_write_def fuse_chmod_def fuse_chown_def fuse_utimens_def fuse_truncate_def
    fuse_symlink_def fuse_readdir_def fuse_mkdir_def fuse_create_def fuse_unlink_def
  by (intro laws)+

lemma law_two_dirs [laws]:
  "law V W b g (rmdir_top W t i u n g)" "law V W b g (rmdir_down W t p u n g)"
  "law V W b g (rename_within W pp x y fl g)" "law V W b g (rename_take W t p x fl g)"
  "law V W b g (rename_put W t p q u y fl g)"
  unfolding rmdir_top_def rmdir_down_def rename_within_def rename_take_def rename_put_def by (intro laws)+

lemma law_rename_across [laws]: "law V W b g (rename_across W pp pp' x y fl g)"
  unfolding rename_across_def by (intro laws)

lemma law_fuse_two_dirs: "law V W b g (fuse_rmdir W path g)" "law V W b g (fuse_rename W x y fl g)"
  unfolding fuse_rmdir_def fuse_rename_def by (intro laws)+

lemma law_fuse_read: "law V W b g (fuse_read W path len off fi g)"
proof -
  let ?m = "catch_entry (\<lambda>r. (r, [])) (bindE (target_inode W path fi) (\<lambda>i.
             bindE (local_read W i len off) (\<lambda>bs. returnE (as_int (int (length bs)), bs))))"
  have "law V W b g (?m g)" by (intro laws)
  then show ?thesis
    by (rule law_case [where m = ?m]) (auto simp: fuse_read_def split: sum.split exn.split intro!: laws)
qed

lemma law_get_fuse_ops: "law V W False g (get_fuse_ops W q g)"
  by (cases q) (simp_all add: law_reply law_fuse law_fuse_two_dirs law_fuse_read)

section \<open>Mounting\<close>

lemma law_fuse_init:
  assumes W: "lawful_world V W" and mount: "\<And>e. undisturbed V e (snd (mount e))"
    and run: "fuse_init W mount raw uid gid g = (Inr (), g')"
  shows "undisturbed V (env g) (env g')" and "node_ok V (w_self W) g'"
proof -
  obtain c g1 where c: "remote_call (client_new mount raw) (g\<lparr>leases := Map.empty\<rparr>) = (Inr c, g1)"
    using run by (auto simp: fuse_init_def bindE_def split: prod.splits sum.splits)
  then have g1: "undisturbed V (env g) (env g1)" "leases g1 = Map.empty"
    using mount [of "env g"] by (auto simp: remote_call_def client_new_def session_client_mount_def bindE_def split: prod.splits option.splits)
  obtain g2 where g2: "mount_root W uid gid (g1\<lparr>this_client := c\<lparr>client_uid := uid, client_gid := gid\<rparr>\<rparr>) = (Inr (), g2)"
    using run c by (auto simp: fuse_init_def bindE_def split: prod.splits sum.splits)
  have "env g2 = env g1" "leases g2 = leases g1" using g2 by (auto simp: mount_root_def Let_def split: prod.splits)
  then have ok: "node_ok V (w_self W) (g2\<lparr>dentry_tables := Map.empty\<rparr>)" and e: "env (g2\<lparr>dentry_tables := Map.empty\<rparr>) = env g1"
    using g1(2) by (simp_all add: node_ok_def cache_ok_def)
  obtain g3 where g3: "directory_table_new W (g2\<lparr>dentry_tables := Map.empty\<rparr>) = (Inr (), g3)"
    and g': "g' = g3\<lparr>fh_list := Map.empty, jrnl := journal_new (meta (jrnl g3))\<rparr>"
    using run c g2 by (auto simp: fuse_init_def bindE_def split: prod.splits sum.splits)
  have "law V W True (g2\<lparr>dentry_tables := Map.empty\<rparr>) (directory_table_new W (g2\<lparr>dentry_tables := Map.empty\<rparr>))"
    unfolding directory_table_new_def by (intro laws)
  note D = lawD [OF this [unfolded g3] W ok]
  show "undisturbed V (env g) (env g')" using undisturbed_trans [OF g1(1)] D(1) e g' by simp
  show "node_ok V (w_self W) g'" using D(2) g' by (simp add: node_ok_def)
qed

end
