(* ===== verification/Cluster.thy ===== *)
theory Cluster
  imports Leadership_Ops
begin

text \<open>
  The whole system: clients at their addresses, which mount, run FUSE operations, serve the procedures of
  others, commit and checkpoint, and crash; the pools, which all of them write; and the manager.  The result is that
  at most one client serves a directory from a local table.
\<close>

section \<open>Steps\<close>

text \<open>
  \<open>shared\<close> is the environment (the manager with its table, and the network); each client acts on it in turn.
  What others do while a client waits for the manager or for another client is part of the answer it
  gets (\<open>lawful_world\<close>).
\<close>

record ('s, 'e) cluster =
  nodes :: "string \<Rightarrow> ('s, 'e) fs option"
  shared :: 'e

definition node_acts :: "string \<Rightarrow> ('s, 'e) fs \<Rightarrow> ('s, 'e) cluster \<Rightarrow> ('s, 'e) cluster" where
  "node_acts c g k = k\<lparr>nodes := (nodes k)(c \<mapsto> g), shared := env g\<rparr>"

definition node_ends :: "string \<Rightarrow> 'e \<Rightarrow> ('s, 'e) cluster \<Rightarrow> ('s, 'e) cluster" where
  "node_ends c e k = k\<lparr>nodes := (nodes k)(c := None), shared := e\<rparr>"

definition node_at :: "('s, 'e) cluster \<Rightarrow> string \<Rightarrow> ('s, 'e) fs option" where
  "node_at k c = map_option (\<lambda>g. g\<lparr>env := shared k\<rparr>) (nodes k c)"

text \<open>
  A \<^verbatim>\<open>runtime_error\<close> that leaves a FUSE operation ends the process; one that leaves a procedure
  fails that call only.  \<open>others\<close> is whatever else happens at the manager, a mount that failed included; it may even
  restart with an empty table, but only once every lease is over.
\<close>

inductive cluster_step :: "'e manager_view \<Rightarrow> (string \<Rightarrow> ('s, 'e) world) \<Rightarrow> ('s, 'e) cluster \<Rightarrow> ('s, 'e) cluster \<Rightarrow> bool" for V W where
  joins: "nodes k c = None \<Longrightarrow> unmounted g \<Longrightarrow> (\<forall>e. undisturbed V e (snd (mount e))) \<Longrightarrow>
    fuse_init (W c) mount raw uid gid (g\<lparr>env := shared k\<rparr>) = (Inr (), g') \<Longrightarrow> cluster_step V W k (node_acts c g' k)"
| calls: "node_at k c = Some g \<Longrightarrow> get_fuse_ops (W c) q g = (r, g') \<Longrightarrow> (\<forall>m. r \<noteq> Inl (Runtime_error m)) \<Longrightarrow>
    cluster_step V W k (node_acts c g' k)"
| aborts: "node_at k c = Some g \<Longrightarrow> get_fuse_ops (W c) q g = (Inl (Runtime_error m), g') \<Longrightarrow>
    cluster_step V W k (node_ends c (env g') k)"
| serves: "node_at k c = Some g \<Longrightarrow> rpc_serve (W c) p g = (r, g') \<Longrightarrow> cluster_step V W k (node_acts c g' k)"
| swaps: "node_at k c = Some g \<Longrightarrow> jt_replace_map (jtab (jrnl g)) = (b, t) \<Longrightarrow>
    cluster_step V W k (node_acts c (g\<lparr>jrnl := (jrnl g)\<lparr>jtab := t\<rparr>\<rparr>) k)"
| commits: "node_at k c = Some g \<Longrightarrow> commit_one (w_pool (W c)) (w_ords (W c)) p (jrnl g) = (r, j) \<Longrightarrow>
    cluster_step V W k (node_acts c (g\<lparr>jrnl := j\<rparr>) k)"
| checkpoints: "node_at k c = Some g \<Longrightarrow> checkpoint_one (w_pool (W c)) (w_ords (W c)) p (jrnl g) = Some (r, j) \<Longrightarrow>
    cluster_step V W k (node_acts c (g\<lparr>jrnl := j\<rparr>) k)"
| pools: "node_at k c = Some g \<Longrightarrow> cluster_step V W k (node_acts c (g\<lparr>jrnl := (jrnl g)\<lparr>meta := s\<rparr>, data_pool := s'\<rparr>) k)"
| crashes: "cluster_step V W k (node_ends c (shared k) k)"
| others: "undisturbed V (shared k) e \<Longrightarrow> cluster_step V W k (k\<lparr>shared := e\<rparr>)"

inductive cluster_reachable :: "'e manager_view \<Rightarrow> (string \<Rightarrow> ('s, 'e) world) \<Rightarrow> ('s, 'e) cluster \<Rightarrow> bool" for V W where
  empty: "cluster_reachable V W \<lparr>nodes = Map.empty, shared = e\<rparr>"
| step: "cluster_reachable V W k \<Longrightarrow> cluster_step V W k k' \<Longrightarrow> cluster_reachable V W k'"

section \<open>The invariant\<close>

definition cluster_ok :: "'e manager_view \<Rightarrow> ('s, 'e) cluster \<Rightarrow> bool" where
  "cluster_ok V k \<longleftrightarrow> (\<forall>c g. node_at k c = Some g \<longrightarrow> node_ok V c g)"

lemma node_ok_local [simp]:
  "node_ok V c (g\<lparr>jrnl := j\<rparr>) = node_ok V c g" "node_ok V c (g\<lparr>data_pool := s\<rparr>) = node_ok V c g"
  by (simp_all add: node_ok_def)

lemma node_ok_undisturbed: "undisturbed V (env g) e \<Longrightarrow> node_ok V c g \<Longrightarrow> node_ok V c (g\<lparr>env := e\<rparr>)"
  using cache_ok_undisturbed entry_ok_undisturbed by (fastforce simp: node_ok_def)

text \<open>A step of one client, as the others see it.\<close>

lemma cluster_ok_others:
  assumes "cluster_ok V k" and "undisturbed V (shared k) e"
  shows "cluster_ok V (k\<lparr>shared := e\<rparr>)"
  unfolding cluster_ok_def
proof (intro allI impI)
  fix c g
  assume "node_at (k\<lparr>shared := e\<rparr>) c = Some g"
  then obtain g0 where g0: "nodes k c = Some g0" "g = g0\<lparr>env := e\<rparr>" by (auto simp: node_at_def)
  then have "node_ok V c (g0\<lparr>env := shared k\<rparr>)" using assms(1) by (simp add: cluster_ok_def node_at_def)
  from node_ok_undisturbed [OF _ this] show "node_ok V c g" using assms(2) g0(2) by simp
qed

lemma cluster_ok_acts:
  assumes "cluster_ok V k" and "undisturbed V (shared k) (env g)" and "node_ok V c g"
  shows "cluster_ok V (node_acts c g k)"
  using cluster_ok_others [OF assms(1,2)] assms(3) by (simp add: cluster_ok_def node_acts_def node_at_def)

lemma cluster_ok_ends:
  assumes "cluster_ok V k" and "undisturbed V (shared k) e"
  shows "cluster_ok V (node_ends c e k)"
  using cluster_ok_others [OF assms] by (simp add: cluster_ok_def node_ends_def node_at_def)

lemma cluster_ok_law:
  assumes "cluster_ok V k" and "node_at k c = Some g" and "law V (W c) b g (r, g')" and "lawful_world V (W c)" and "w_self (W c) = c"
  shows "undisturbed V (shared k) (env g')" and "b \<or> (\<forall>m. r \<noteq> Inl (Runtime_error m)) \<Longrightarrow> cluster_ok V (node_acts c g' k)"
proof -
  have g: "env g = shared k" using assms(2) by (auto simp: node_at_def)
  have "node_ok V (w_self (W c)) g" using assms(1,2,5) by (simp add: cluster_ok_def)
  note D = lawD [OF assms(3,4) this]
  show u: "undisturbed V (shared k) (env g')" using D(1) g by simp
  show "b \<or> (\<forall>m. r \<noteq> Inl (Runtime_error m)) \<Longrightarrow> cluster_ok V (node_acts c g' k)"
    using cluster_ok_acts [OF assms(1) u] D(2) assms(5) by simp
qed

lemma cluster_ok_quiet:
  assumes "cluster_ok V k" and "node_at k c = Some g"
  shows "cluster_ok V (node_acts c (g\<lparr>jrnl := j\<rparr>) k)" and "cluster_ok V (node_acts c (g\<lparr>jrnl := j, data_pool := s\<rparr>) k)"
proof -
  have "node_ok V c g" "env g = shared k" using assms by (auto simp: cluster_ok_def node_at_def)
  then show "cluster_ok V (node_acts c (g\<lparr>jrnl := j\<rparr>) k)" and "cluster_ok V (node_acts c (g\<lparr>jrnl := j, data_pool := s\<rparr>) k)"
    by (auto intro!: cluster_ok_acts [OF assms(1)])
qed

lemma cluster_ok_step:
  assumes W: "\<And>c. lawful_world V (W c) \<and> w_self (W c) = c" and ok: "cluster_ok V k" and "cluster_step V W k k'"
  shows "cluster_ok V k'"
  using assms(3)
proof cases
  case (joins c g mount raw uid gid g')
  note I = law_fuse_init [OF _ _ joins(5), of V]
  show ?thesis
    unfolding joins(1)
    using cluster_ok_acts [OF ok, of g' c] I W [of c] joins(4) by simp
next
  case (calls c g q r g')
  then show ?thesis using cluster_ok_law(2) [OF ok calls(2)] law_get_fuse_ops [of V "W c" g q] W [of c] by metis
next
  case (aborts c g q m g')
  then have "undisturbed V (shared k) (env g')"
    using cluster_ok_law(1) [OF ok aborts(2)] law_get_fuse_ops [of V "W c" g q] W [of c] by metis
  then show ?thesis using aborts(1) cluster_ok_ends [OF ok] by simp
next
  case (serves c g p r g')
  then show ?thesis using cluster_ok_law(2) [OF ok serves(2)] law_rpc_serve [of V "W c" True g p] W [of c] by metis
next
  case (crashes c)
  then show ?thesis using cluster_ok_ends [OF ok] by simp
next
  case (others e)
  then show ?thesis using cluster_ok_others [OF ok] by simp
qed (auto simp: cluster_ok_quiet [OF ok])

lemma cluster_reachable_ok:
  assumes "cluster_reachable V W k" and "\<And>c. lawful_world V (W c) \<and> w_self (W c) = c"
  shows "cluster_ok V k"
  using assms(1)
proof induction
  case (empty e)
  show ?case by (simp add: cluster_ok_def node_at_def)
next
  case (step k k')
  show ?case by (rule cluster_ok_step [OF assms(2) step.IH step.hyps(2)])
qed

section \<open>At most one leader\<close>

text \<open>A client that has a table of a directory, under a lease in its cache that is not over.\<close>

definition uses_table :: "'e manager_view \<Rightarrow> ('s, 'e) cluster \<Rightarrow> string \<Rightarrow> uuid \<Rightarrow> dentry_table \<Rightarrow> bool" where
  "uses_table V k c ino dt \<longleftrightarrow>
     (\<exists>g t. nodes k c = Some g \<and> dentry_tables g ino = Some t \<and> dt = dtables g t \<and> is_valid (v_time V (shared k)) ino (leases g))"

lemma uses_table_manager:
  assumes "cluster_ok V k" and "uses_table V k c ino dt"
  obtains y where "v_table V (shared k) (v_string V ino) = Some y" and "v_time V (shared k) < due y"
    and "addr y = c \<or> dt_loc dt \<noteq> LOCAL \<and> (leader_ip dt = addr y \<or> leader_ip dt = c)"
proof -
  from assms(2) obtain g t x where g: "nodes k c = Some g" "dentry_tables g ino = Some t" "dt = dtables g t"
    "leases g ino = Some x" "v_time V (shared k) < c_due x"
    by (auto simp: uses_table_def is_valid_def split: option.splits)
  have "node_ok V c (g\<lparr>env := shared k\<rparr>)" using assms(1) g(1) by (simp add: cluster_ok_def node_at_def)
  then have "cache_ok V c (leases g) (shared k)" "entry_ok V c ino (dt_loc dt) (leader_ip dt) (leases g) (shared k)"
    using g(2,3) by (simp_all add: node_ok_def)
  moreover from this(1) obtain y where "v_table V (shared k) (v_string V ino) = Some y" "due y = c_due x" "leader x \<longleftrightarrow> addr y = c"
    using g(4,5) by (auto simp: cache_ok_def)
  ultimately show thesis using g(4,5) by (intro that) (auto simp: entry_ok_def)
qed

text \<open>
  C2: At most one client serves a directory: in every state the system reaches, when a client has a local
  table of a directory under a lease that is not over on the manager's clock, and any client has a table of it under
  such a lease, they are the same client, or the other's table is remote and leads to the first (or to itself, when
  it lost the race of two first requests).
\<close>

theorem one_leader_per_directory:
  assumes "\<And>c. lawful_world V (W c) \<and> w_self (W c) = c" and "cluster_reachable V W k"
    and "uses_table V k c ino dt" and "dt_loc dt = LOCAL" and "uses_table V k c' ino dt'"
  shows "c' = c \<or> dt_loc dt' \<noteq> LOCAL \<and> leader_ip dt' \<in> {c, c'}"
proof -
  note ok = cluster_reachable_ok [OF assms(2,1)]
  obtain y where "v_table V (shared k) (v_string V ino) = Some y" "addr y = c"
    using uses_table_manager [OF ok assms(3)] assms(4) by metis
  then show ?thesis using uses_table_manager [OF ok assms(5)] by auto
qed

section \<open>Two clients\<close>

text \<open>The manager and the pool of the examples, seen from the client at any address.\<close>

definition mem_view :: "lease_table manager_view" where
  "mem_view = \<lparr>v_string = uuid_to_string mem_librados, v_table = (\<lambda>m. m), v_time = (\<lambda>_. 1)\<rparr>"

definition mem_worlds :: "string \<Rightarrow> (pool, lease_table) world" where
  "mem_worlds c = mem_world\<lparr>w_self := c\<rparr>"

lemma mem_worlds_lawful: "lawful_world mem_view (mem_worlds c) \<and> w_self (mem_worlds c) = c"
proof -
  have "granted mem_view q e (fst (lease_impl_acquire (uuid_to_string mem_librados) 1 1 q e))
      (snd (lease_impl_acquire (uuid_to_string mem_librados) 1 1 q e))" for q e
    unfolding granted_def
    by (rule exI [of _ 1], rule exI [of _ 1], rule exI [of _ "lease_table_acquire (uuid_to_string mem_librados) 1 1
        (splice_prefix_and_postfix (ino_prefix q) (ino_postfix q)) (req_remote_addr q) e"])
      (simp add: mem_view_def lease_impl_acquire_def Let_def)
  then have "granted mem_view q e p e'" if "lease_impl_acquire (uuid_to_string mem_librados) 1 1 q e = (p, e')" for q e p e'
    using that by (metis fst_conv snd_conv)
  then show ?thesis
    unfolding lawful_world_def
    by (auto simp: mem_worlds_def mem_world_def map_prod_def split: prod.splits) (blast intro: undisturbed_refl)
qed

lemma mem_worlds_mount:
  "w_pool (mem_worlds c) = w_pool mem_world" "w_ords (mem_worlds c) = w_ords mem_world"
  "mountable (mem_worlds c) objs s d = mountable mem_world objs s d"
  by (simp_all add: mem_worlds_def mountable_def stored_directory_def stored_child_def)

abbreviation mem_mount :: "string \<Rightarrow> lease_table \<Rightarrow> unit result \<times> (pool, lease_table) fs" where
  "mem_mount c m \<equiv> fuse_init (mem_worlds c) (\<lambda>e. (Some 7, e)) \<lparr>client_id = 0, client_uid = 0, client_gid = 0\<rparr> 5 6
     ((mem_fs Map.empty Map.empty)\<lparr>env := m\<rparr>)"

text \<open>Mounting as far as the leases go: the index asks for the root after everything else is set up.\<close>

lemma mem_mount_steps:
  obtains s k cl where "mem_mount c m = bindE (directory_table_new (mem_worlds c)) (\<lambda>_ g.
      (Inr (), g\<lparr>fh_list := Map.empty, jrnl := journal_new (meta (jrnl g))\<rparr>))
      ((mem_fs s Map.empty)\<lparr>env := m, this_client := cl, time_reads := k\<rparr>)"
    and "stored_directory (mem_worlds c) s get_root_ino \<lparr>this_ino = get_root_ino, child_list = Map.empty\<rparr>"
proof -
  let ?c = "\<lparr>client_id = 7, client_uid = 5, client_gid = 6\<rparr> :: nmfs_client"
  let ?g = "(mem_fs Map.empty Map.empty)\<lparr>env := m, this_client := ?c\<rparr>"
  have "tx_io (w_pool (mem_worlds c)) (\<lambda>s. s) (w_ords (mem_worlds c))"
    "mountable (mem_worlds c) (\<lambda>s. s) (meta (jrnl ?g)) \<lparr>this_ino = get_root_ino, child_list = Map.empty\<rparr>"
    using mem_fs_empty(2,4) by (simp_all only: mem_worlds_mount) simp_all
  from mount_root_ok [OF this] obtain s k where
    "mount_root (mem_worlds c) 5 6 ?g = (Inr (), ?g\<lparr>jrnl := (jrnl ?g)\<lparr>meta := s\<rparr>, time_reads := k\<rparr>)"
    "stored_directory (mem_worlds c) s get_root_ino \<lparr>this_ino = get_root_ino, child_list = Map.empty\<rparr>" by blast
  then show thesis
    by (intro that [where s = s and cl = ?c and k = k]) (simp_all add: fuse_init_def remote_call_def client_new_def session_client_mount_def
        mem_fs_def journal_new_def)
qed

text \<open>The first client gets the lease and leads; the second is refused and has a remote table.\<close>

lemma mem_mount_first:
  obtains g where "mem_mount c Map.empty = (Inr (), g)" and "dentry_tables g = [get_root_ino \<mapsto> 0]"
    and "dt_loc (dtables g 0) = LOCAL" and "is_valid 1 get_root_ino (leases g)"
proof -
  obtain s k cl where s: "mem_mount c Map.empty = bindE (directory_table_new (mem_worlds c)) (\<lambda>_ g.
      (Inr (), g\<lparr>fh_list := Map.empty, jrnl := journal_new (meta (jrnl g))\<rparr>))
      ((mem_fs s Map.empty)\<lparr>env := Map.empty, this_client := cl, time_reads := k\<rparr>)"
    "stored_directory (mem_worlds c) s get_root_ino \<lparr>this_ino = get_root_ino, child_list = Map.empty\<rparr>"
    by (rule mem_mount_steps)
  let ?g = "(mem_fs s Map.empty)\<lparr>env := Map.empty, this_client := cl, time_reads := k\<rparr>"
  have "\<exists>h. lc_acquire (mem_worlds c) get_root_ino [] ?g = (Inr (0, []), h) \<and> is_valid 1 get_root_ino (leases h)"
    by (simp add: lc_acquire_def bindE_def read_clock_def mem_fs_def mem_worlds_def mem_world_def lease_client_acquire_def
        is_mine_def lease_impl_acquire_def lease_table_acquire_def acquire_find_def acquire_insert_def Let_def
        lease_reply_def handle_response_def lease_entry_new_def lease_update_def is_valid_def lease_period_def LEASE_PERIOD_MS_def)
  then obtain h where h: "lc_acquire (mem_worlds c) get_root_ino [] ?g = (Inr (0, []), h)" "is_valid 1 get_root_ino (leases h)"
    by blast
  have e: "dentry_tables ?g get_root_ino = None" "dtable_next ?g = 0" "dentry_tables ?g = Map.empty" by (simp_all add: mem_fs_def)
  obtain g where g: "lease_dentry_table (mem_worlds c) get_root_ino ?g = (Inr (Some 0), g)" "coherent g 0"
    "dentry_tables g = [get_root_ino \<mapsto> 0]" "leases g = leases h"
    using lease_dentry_table_local [OF h(1) e(1)] s(2) mem_world_iteration e(2,3)
    by (auto simp: mem_worlds_mount mem_fs_def journal_new_def)
  have "directory_table_new (mem_worlds c) ?g = (Inr (), g)"
    using g(1) e(1) by (simp add: directory_table_new_def get_dentry_table_def)
  then show thesis using s(1) g(2-) h(2)
    by (intro that [of "g\<lparr>fh_list := Map.empty, jrnl := journal_new (meta (jrnl g))\<rparr>"]) (simp_all add: coherent_def)
qed

lemma mem_mount_second:
  assumes "m (uuid_to_string mem_librados get_root_ino) = Some y" and "addr y \<noteq> c" and "1 < due y"
  obtains g where "mem_mount c m = (Inr (), g)" and "dentry_tables g = [get_root_ino \<mapsto> 0]"
    and "is_valid 1 get_root_ino (leases g)" and "env g = m"
proof -
  obtain s k cl where s: "mem_mount c m = bindE (directory_table_new (mem_worlds c)) (\<lambda>_ g.
      (Inr (), g\<lparr>fh_list := Map.empty, jrnl := journal_new (meta (jrnl g))\<rparr>))
      ((mem_fs s Map.empty)\<lparr>env := m, this_client := cl, time_reads := k\<rparr>)"
    by (rule mem_mount_steps)
  let ?g = "(mem_fs s Map.empty)\<lparr>env := m, this_client := cl, time_reads := k\<rparr>"
  have "m(uuid_to_string mem_librados get_root_ino \<mapsto> y) = m" using assms(1) by auto
  then have "lc_acquire (mem_worlds c) get_root_ino [] ?g =
      (Inr (-1, addr y), ?g\<lparr>clock_reads := 1, leases := [get_root_ino \<mapsto> \<lparr>c_due = due y, leader = False\<rparr>]\<rparr>)"
    using assms by (simp add: lc_acquire_def bindE_def read_clock_def mem_fs_def mem_worlds_def mem_world_def
        lease_client_acquire_def is_mine_def lease_impl_acquire_def lease_table_acquire_def acquire_find_def
        acquire_found_def cas_def Let_def lease_reply_def handle_response_def lease_update_def make_request_def del: prefix_root)
  then have "\<exists>g. directory_table_new (mem_worlds c) ?g = (Inr (), g) \<and> dentry_tables g = [get_root_ino \<mapsto> 0] \<and>
      is_valid 1 get_root_ino (leases g) \<and> env g = m"
    using assms(3) by (simp add: directory_table_new_def get_dentry_table_def lease_dentry_table_def dentry_table_new_def
        new_dtable_def set_leader_ip_def update_dtable_def add_dentry_table_def bindE_def is_valid_def mem_fs_def)
  then show thesis using s(1) that by auto
qed

lemma mem_joins: "unmounted ((mem_fs Map.empty Map.empty)\<lparr>env := e\<rparr>)" "\<forall>e. undisturbed mem_view e (snd (Some 7, e))"
  by (simp_all add: unmounted_def mem_fs_def)

theorem one_leader_per_directory_witness:
  "\<exists>k dt dt'. cluster_reachable mem_view mem_worlds k \<and> uses_table mem_view k ''a'' get_root_ino dt \<and> dt_loc dt = LOCAL \<and>
     uses_table mem_view k ''b'' get_root_ino dt' \<and> dt_loc dt' \<noteq> LOCAL \<and> leader_ip dt' \<in> {''a'', ''b''}"
proof -
  obtain g where g: "mem_mount ''a'' Map.empty = (Inr (), g)" "dentry_tables g = [get_root_ino \<mapsto> 0]" "dt_loc (dtables g 0) = LOCAL"
    "is_valid 1 get_root_ino (leases g)" by (rule mem_mount_first)
  let ?k0 = "\<lparr>nodes = Map.empty, shared = Map.empty\<rparr> :: (pool, lease_table) cluster"
  let ?k1 = "node_acts ''a'' g ?k0"
  have "cluster_step mem_view mem_worlds ?k0 ?k1"
    by (rule cluster_step.joins [OF _ mem_joins]) (use g(1) in simp_all)
  then have k1: "cluster_reachable mem_view mem_worlds ?k1"
    by (rule cluster_reachable.step [OF cluster_reachable.empty])
  have a: "uses_table mem_view ?k1 ''a'' get_root_ino (dtables g 0)"
    using g by (simp add: uses_table_def node_acts_def mem_view_def)
  obtain y where y: "env g (uuid_to_string mem_librados get_root_ino) = Some y" "addr y = ''a''" "1 < due y"
    using uses_table_manager [OF cluster_reachable_ok [OF k1 mem_worlds_lawful] a] g(3)
    by (auto simp: mem_view_def node_acts_def)
  obtain g' where g': "mem_mount ''b'' (env g) = (Inr (), g')" "dentry_tables g' = [get_root_ino \<mapsto> 0]"
    "is_valid 1 get_root_ino (leases g')" "env g' = env g" by (rule mem_mount_second [where m = "env g" and c = "''b''" and y = y]) (use y in simp_all)
  let ?k2 = "node_acts ''b'' g' ?k1"
  have "cluster_step mem_view mem_worlds ?k1 ?k2"
    by (rule cluster_step.joins [OF _ mem_joins]) (use g'(1) in \<open>simp_all add: node_acts_def\<close>)
  then have k2: "cluster_reachable mem_view mem_worlds ?k2" by (rule cluster_reachable.step [OF k1])
  have uses: "uses_table mem_view ?k2 ''a'' get_root_ino (dtables g 0)" "uses_table mem_view ?k2 ''b'' get_root_ino (dtables g' 0)"
    using g g' by (simp_all add: uses_table_def node_acts_def mem_view_def)
  have "''b'' = ''a'' \<or> dt_loc (dtables g' 0) \<noteq> LOCAL \<and> leader_ip (dtables g' 0) \<in> {''a'', ''b''}"
    using one_leader_per_directory [OF mem_worlds_lawful k2 uses(1) g(3) uses(2)] .
  then show ?thesis using k2 uses g(3) by auto
qed

text \<open>
  The step \<open>others\<close> may not forget a lease that is not over, and \<^verbatim>\<open>manager/main.cpp\<close> does when it
  starts again: its table is only in memory.  Then both clients lead.
\<close>

lemma restarted_manager_two_leaders:
  "\<exists>k k' dt dt'. cluster_reachable mem_view mem_worlds k \<and> cluster_step mem_view mem_worlds (k\<lparr>shared := Map.empty\<rparr>) k' \<and>
     uses_table mem_view k' ''a'' get_root_ino dt \<and> dt_loc dt = LOCAL \<and>
     uses_table mem_view k' ''b'' get_root_ino dt' \<and> dt_loc dt' = LOCAL"
proof -
  obtain g where g: "mem_mount ''a'' Map.empty = (Inr (), g)" "dentry_tables g = [get_root_ino \<mapsto> 0]" "dt_loc (dtables g 0) = LOCAL"
    "is_valid 1 get_root_ino (leases g)" by (rule mem_mount_first)
  obtain h where h: "mem_mount ''b'' Map.empty = (Inr (), h)" "dentry_tables h = [get_root_ino \<mapsto> 0]" "dt_loc (dtables h 0) = LOCAL"
    "is_valid 1 get_root_ino (leases h)" by (rule mem_mount_first)
  let ?k0 = "\<lparr>nodes = Map.empty, shared = Map.empty\<rparr> :: (pool, lease_table) cluster"
  let ?k1 = "node_acts ''a'' g ?k0" and ?k2 = "node_acts ''b'' h ((node_acts ''a'' g ?k0)\<lparr>shared := Map.empty\<rparr>)"
  have "cluster_step mem_view mem_worlds ?k0 ?k1" by (rule cluster_step.joins [OF _ mem_joins]) (use g(1) in simp_all)
  then have "cluster_reachable mem_view mem_worlds ?k1" by (rule cluster_reachable.step [OF cluster_reachable.empty])
  moreover have "cluster_step mem_view mem_worlds (?k1\<lparr>shared := Map.empty\<rparr>) ?k2"
    by (rule cluster_step.joins [OF _ mem_joins]) (use h(1) in \<open>simp_all add: node_acts_def\<close>)
  moreover have "uses_table mem_view ?k2 ''a'' get_root_ino (dtables g 0)" "uses_table mem_view ?k2 ''b'' get_root_ino (dtables h 0)"
    using g h by (simp_all add: uses_table_def node_acts_def mem_view_def)
  ultimately show ?thesis using g(3) h(3) by blast
qed

end
