(* ===== verification/Durability.thy ===== *)
theory Durability
  imports Local_Refine
begin

text \<open>
  From memory to the pool and back: the entries a leader shows, its open transaction committed and
  checkpointed, are the entries the next leader loads.
\<close>

section \<open>Children that can be loaded\<close>

context tx_io
begin

lemma inode_pull_unchanged:
  assumes "unchanged objs K s s'" and "inode_pull L s raw u = Inr i" and "i_ino (core i) = u" and "inode_key u \<notin> K"
  shows "inode_pull L s' raw u = Inr i"
proof -
  have rd: "rados_read L s' INODE (uuid_to_string L u) len off = rados_read L s INODE (uuid_to_string L u) len off" for len off
    using assms(1,4) by (intro rados_read_cong) (simp add: unchanged_def)
  obtain bs where bs: "rados_read L s INODE (uuid_to_string L u) REG_INODE_SIZE 0 = Inr bs"
    using assms(2) by (auto simp: inode_pull_def split: sum.splits exn.splits)
  define v where "v = bs @ replicate (REG_INODE_SIZE - length bs) 0"
  have d: "inode_deserialize L s v (raw\<lparr>link_target_name := None\<rparr>) = Inr i"
    using assms(2) bs unfolding v_def by (auto simp: inode_pull_def split: sum.splits exn.splits)
  have "i_ino (decode_core v) = u"
    using d assms(3) by (auto simp: inode_deserialize_def Let_def split: if_splits sum.splits)
  then have "inode_deserialize L s' v (raw\<lparr>link_target_name := None\<rparr>) = inode_deserialize L s v (raw\<lparr>link_target_name := None\<rparr>)"
    by (simp add: inode_deserialize_def Let_def rd)
  then have "inode_deserialize L s' v (raw\<lparr>link_target_name := None\<rparr>) = Inr i" using d by simp
  then show ?thesis using bs rd by (simp add: inode_pull_def v_def)
qed

end

lemma stored_child_unchanged:
  assumes "tx_io (w_pool W) objs ords" and "unchanged objs K s s'" and "stored_child W s u"
    and "(INODE, uuid_to_string (w_pool W) u) \<notin> K"
  shows "stored_child W s' u"
  using assms tx_io.inode_pull_unchanged [OF assms(1,2)] unfolding stored_child_def by blast

text \<open>A number that is in the pool or will be there with the transaction.\<close>

definition kept :: "('s, 'e) world \<Rightarrow> 's \<Rightarrow> transaction \<Rightarrow> uuid \<Rightarrow> bool" where
  "kept W s tx u \<longleftrightarrow> (\<exists>i. f_inodes tx u = Some (Some i)) \<or> (\<exists>i. u = s_ino tx \<and> s_inode tx = Some i) \<or> stored_child W s u"

lemma kept_stored:
  assumes io: "tx_io (w_pool W) objs (w_ords W)" and wf: "wf_tx tx" and k: "kept W s tx u"
    and self: "\<forall>i. s_inode tx = Some i \<longrightarrow> tx_io.holds_inode (w_pool W) objs s' i"
    and files: "\<forall>u i. f_inodes tx u = Some (Some i) \<longrightarrow> tx_io.holds_inode (w_pool W) objs s' i"
    and un: "unchanged objs ((if s_inode tx = None then {} else {(INODE, uuid_to_string (w_pool W) (s_ino tx))}) \<union>
      {(DENTRY, uuid_to_string (w_pool W) (s_ino tx))} \<union> (\<lambda>u. (INODE, uuid_to_string (w_pool W) u)) ` live_inodes (f_inodes tx)) s s'"
  shows "stored_child W s' u"
proof -
  have held: "stored_child W s' (i_ino (core i))" if "tx_io.holds_inode (w_pool W) objs s' i" "wf_inode i" for i
    using tx_io.holds_inode_pull [OF io that, of "w_raw W"] by (simp add: stored_child_def)
  show ?thesis
  proof (cases "\<exists>i. f_inodes tx u = Some (Some i) \<or> (u = s_ino tx \<and> s_inode tx = Some i)")
    case True
    then show ?thesis using held self files wf unfolding wf_tx_def by metis
  next
    case False
    then have "(INODE, uuid_to_string (w_pool W) u) \<notin> (if s_inode tx = None then {} else {(INODE, uuid_to_string (w_pool W) (s_ino tx))}) \<union>
      {(DENTRY, uuid_to_string (w_pool W) (s_ino tx))} \<union> (\<lambda>u. (INODE, uuid_to_string (w_pool W) u)) ` live_inodes (f_inodes tx)"
      using tx_io.uuid_to_string_eq [OF io] by (auto simp: live_inodes_def)
    moreover have "stored_child W s u" using k False by (auto simp: kept_def)
    ultimately show ?thesis using stored_child_unchanged [OF io un] by blast
  qed
qed

text \<open>The live files of a transaction, once they are stored.\<close>

definition stored_files :: "('s, 'e) world \<Rightarrow> 's \<Rightarrow> transaction \<Rightarrow> bool" where
  "stored_files W s tx \<longleftrightarrow> (\<forall>u i. f_inodes tx u = Some (Some i) \<longrightarrow>
     (\<exists>k. inode_pull (w_pool W) s (w_raw W) u = Inr k \<and> core k = core i))"

lemma stored_filesI:
  assumes io: "tx_io (w_pool W) objs (w_ords W)" and "wf_tx tx"
    and "\<forall>u i. f_inodes tx u = Some (Some i) \<longrightarrow> tx_io.holds_inode (w_pool W) objs s' i"
  shows "stored_files W s' tx"
  unfolding stored_files_def
proof (intro allI impI)
  fix u i
  assume "f_inodes tx u = Some (Some i)"
  then have "wf_inode i" "i_ino (core i) = u" "tx_io.holds_inode (w_pool W) objs s' i"
    using assms(2,3) by (auto simp: wf_tx_def)
  then show "\<exists>k. inode_pull (w_pool W) s' (w_raw W) u = Inr k \<and> core k = core i"
    using tx_io.holds_inode_pull [OF io, of s' i "w_raw W"] by auto
qed

lemma stored_files_unchanged:
  assumes io: "tx_io (w_pool W) objs ords" and un: "unchanged objs {(JOURNAL, k)} s s'" and wf: "wf_tx tx"
    and "stored_files W s tx"
  shows "stored_files W s' tx"
  unfolding stored_files_def
proof (intro allI impI)
  fix u i
  assume f: "f_inodes tx u = Some (Some i)"
  then obtain k where k: "inode_pull (w_pool W) s (w_raw W) u = Inr k" "core k = core i"
    using assms(4) by (auto simp: stored_files_def)
  moreover have "i_ino (core i) = u" using f wf by (simp add: wf_tx_def)
  ultimately show "\<exists>k. inode_pull (w_pool W) s' (w_raw W) u = Inr k \<and> core k = core i"
    using tx_io.inode_pull_unchanged [OF io un k(1)] by auto
qed

section \<open>Applying the open transaction\<close>

lemma finite_apply_dentries:
  "finite (dom (dentries tx)) \<Longrightarrow> finite (dom m) \<Longrightarrow> finite (dom (apply_dentries (dentries tx) m))"
  by (rule finite_subset [of _ "dom (dentries tx) \<union> dom m"]) (auto simp: apply_dentries_def split: option.splits)

lemma sync_stores_directory:
  assumes io: "tx_io (w_pool W) objs (w_ords W)" and snd: "sound objs s" and wf: "wf_tx tx" and alive: "status tx \<noteq> S_DELETED"
    and d0: "dentry_new (w_pool W) s (s_ino tx) (status tx = S_CREATED) = Inr d0" "wf_dentry d0"
    and l: "l = apply_dentries (dentries tx) (child_list d0)"
    and fits: "dentry_raw_size (ord_children (w_ords W)) \<lparr>this_ino = s_ino tx, child_list = l\<rparr> \<le> OBJ_SIZE"
    and kept: "kept W s tx (s_ino tx)" "\<forall>u \<in> ran l. kept W s tx u"
  shows "\<exists>s'. tx_sync (w_pool W) (w_ords W) tx s = (Inr (), s') \<and> sound objs s' \<and>
    stored_directory W s' (s_ino tx) \<lparr>this_ino = s_ino tx, child_list = l\<rparr> \<and> stored_files W s' tx \<and>
    unchanged objs ((if s_inode tx = None then {} else {(INODE, uuid_to_string (w_pool W) (s_ino tx))}) \<union>
      {(DENTRY, uuid_to_string (w_pool W) (s_ino tx))} \<union> (\<lambda>u. (INODE, uuid_to_string (w_pool W) u)) ` live_inodes (f_inodes tx)) s s'"
proof -
  from tx_io.tx_sync_ok [OF io snd wf alive d0] fits obtain s' where
    s': "tx_sync (w_pool W) (w_ords W) tx s = (Inr (), s')" "sound objs s'"
      "dentry_new (w_pool W) s' (s_ino tx) False = Inr \<lparr>this_ino = s_ino tx, child_list = l\<rparr>"
    and held: "\<forall>i. s_inode tx = Some i \<longrightarrow> tx_io.holds_inode (w_pool W) objs s' i"
      "\<forall>u i. f_inodes tx u = Some (Some i) \<longrightarrow> tx_io.holds_inode (w_pool W) objs s' i"
    and un: "unchanged objs ((if s_inode tx = None then {} else {(INODE, uuid_to_string (w_pool W) (s_ino tx))}) \<union>
      {(DENTRY, uuid_to_string (w_pool W) (s_ino tx))} \<union> (\<lambda>u. (INODE, uuid_to_string (w_pool W) u)) ` live_inodes (f_inodes tx)) s s'"
    unfolding l by blast
  have "finite (dom l)" unfolding l using d0(2) wf by (intro finite_apply_dentries) (simp_all add: wf_dentry_def wf_tx_def)
  then have "stored_directory W s' (s_ino tx) \<lparr>this_ino = s_ino tx, child_list = l\<rparr>"
    using s'(3) kept kept_stored [OF io wf _ held un] by (simp add: stored_directory_def)
  then show ?thesis using s'(1,2) un stored_filesI [OF io wf held(2)] by blast
qed


section \<open>Commit, checkpoint and the next leader\<close>

context tx_io
begin

lemma tx_serialize_total:
  assumes "wf_tx tx"
  shows "\<exists>b raw. tx_serialize ords tx = Inr (b # raw)"
proof -
  have fin: "finite (dom (f_inodes tx))" using assms by (simp add: wf_tx_def)
  let ?fs = "List.map_filter snd (ord_f_inodes ords (f_inodes tx))"
  let ?f = "\<lambda>i. encode_core (core i) @ (case link_target_name i of None \<Rightarrow> [] | Some name \<Rightarrow> map byte_of_char name)"
  have wf: "wf_inode i" if "i \<in> set ?fs" for i
    using that fi.iter_mem [OF fin] assms by (auto simp: List.map_filter_def wf_tx_def)
  have "mapR inode_serialize ?fs = Inr (map ?f ?fs)" by (rule mapR_map) (simp add: wf_serialize wf)
  moreover have "\<exists>p. (case s_inode tx of None \<Rightarrow> Inr [-1, -1, -1, -1]
      | Some i \<Rightarrow> map_sum id encode_sized (inode_serialize i)) = Inr p"
    using assms by (auto simp: wf_tx_def wf_serialize split: option.split)
  ultimately have "\<exists>raw. tx_serialize ords tx = Inr raw \<and> raw \<noteq> []" by (auto simp: tx_serialize_def Let_def)
  then show ?thesis by (auto simp: neq_Nil_conv)
qed

end

text \<open>
  One round of the journal for a directory: the commit thread's work on its transaction, then one
  iteration of the checkpoint thread it is queued for.
\<close>

lemma journal_round:
  assumes io: "tx_io L objs ords" and tx: "jt_heap (jtab j) x = tx" "s_ino tx = d" "\<not> committed tx" "wf_tx tx"
    and q: "jqueues j (queue_index d) = []" and old: "stores objs (meta j) JOURNAL (uuid_to_string L d) old" "length old < 2 ^ 62"
      "tx_entries tx \<le> 2 ^ 28 + 2"
    and snd: "sound objs (meta j)"
    and sync: "\<And>s. sound objs s \<Longrightarrow> unchanged objs {(JOURNAL, uuid_to_string L d)} (meta j) s \<Longrightarrow>
      \<exists>s'. tx_sync L ords (tx\<lparr>committed := True, tx_offset := Some (length old)\<rparr>) s = (Inr (), s') \<and>
        unchanged objs K s s' \<and> P s'"
    and K: "(JOURNAL, uuid_to_string L d) \<notin> K"
    and P: "\<And>s s'. unchanged objs {(JOURNAL, uuid_to_string L d)} s s' \<Longrightarrow> P s \<Longrightarrow> P s'"
  shows "\<exists>j1 j2. commit_one L ords (d, x) j = (Inr (), j1) \<and>
    checkpoint_one L ords (queue_index d) j1 = Some (Inr True, j2) \<and> P (meta j2)"
proof -
  let ?k = "uuid_to_string L d"
  let ?tx = "tx\<lparr>committed := True, tx_offset := Some (length old)\<rparr>"
  obtain b raw where ser: "tx_serialize ords tx = Inr (b # raw)" using tx_io.tx_serialize_total [OF io tx(4)] by blast
  note fits = tx_io.record_fits [OF io tx(4) ser old(3,2)]
  then have at: "length old < MAX_OFFSET" by simp
  from tx_io.tx_commit_ok [OF io _ fits tx(3) ser] old(1) tx(2) obtain s1 where
    s1: "tx_commit L ords (tx, meta j) = (Inr (), (?tx, s1))" "stores objs s1 JOURNAL ?k (old @ b # raw)"
      "frame objs JOURNAL ?k (meta j) s1" by blast
  let ?j1 = "j\<lparr>jtab := (jtab j)\<lparr>jt_heap := (jt_heap (jtab j))(x := ?tx)\<rparr>, meta := s1,
    jqueues := (jqueues j)(queue_index d := [Some x])\<rparr>"
  have c: "commit_one L ords (d, x) j = (Inr (), ?j1)"
    using tx(1) s1(1) q by (simp add: commit_one_def Let_def mq_issue_def)
  from sync [OF sound_step [OF snd s1(2,3)] frame_unchanged [OF s1(3)]] obtain s2 where
    s2: "tx_sync L ords ?tx s1 = (Inr (), s2)" "unchanged objs K s1 s2" "P s2" by blast
  have "stores objs s2 JOURNAL (uuid_to_string L (s_ino ?tx)) (old @ b # raw)"
    using unchanged_stores [OF s2(2) K] s1(2) tx(2) by simp
  from tx_io.tx_checkpoint_ok [OF io s2(1) _ this at] tx(2) obtain s3 where
    s3: "tx_checkpoint L ords ?tx s1 = (Inr (), s3)" "frame objs JOURNAL ?k s2 s3" by auto
  have "checkpoint_one L ords (queue_index d) ?j1 = Some (Inr True, ?j1\<lparr>jqueues := (jqueues ?j1)(queue_index d := []), meta := s3\<rparr>)"
    using s3(1) by (simp add: checkpoint_one_def mq_dispatch_def Let_def)
  moreover have "P s3" by (rule P [OF frame_unchanged [OF s3(2)] s2(3)])
  ultimately show ?thesis using c by (intro exI) auto
qed


lemma stored_directory_unchanged:
  assumes io: "tx_io (w_pool W) objs ords" and un: "unchanged objs {(JOURNAL, k)} s s'" and d: "stored_directory W s u d"
  shows "stored_directory W s' u d"
  using d stored_child_unchanged [OF io un] tx_io.dentry_new_unchanged [OF io un]
  by (auto simp: stored_directory_def)

lemma kept_unchanged:
  assumes "tx_io (w_pool W) objs ords" and "unchanged objs {(JOURNAL, k)} s s'" and "kept W s tx u"
  shows "kept W s' tx u"
  using assms stored_child_unchanged [OF assms(1,2)] by (auto simp: kept_def)

lemma round_stores_listing:
  assumes io: "tx_io (w_pool W) objs (w_ords W)" and step: "in_step g t (child_list d0)"
    and d: "d = dir_ino (dtables g t)" and x: "jt_map (jtab (jrnl g)) d = Some x" and tx: "tx = jt_heap (jtab (jrnl g)) x"
    and wf: "wf_tx tx" and alive: "status tx \<noteq> S_DELETED"
    and d0: "dentry_new (w_pool W) (meta (jrnl g)) d (status tx = S_CREATED) = Inr d0" "wf_dentry d0"
    and fits: "dentry_raw_size (ord_children (w_ords W)) \<lparr>this_ino = d, child_list = listing g t\<rparr> \<le> OBJ_SIZE"
    and kept: "kept W (meta (jrnl g)) tx d" "\<forall>u \<in> ran (listing g t). kept W (meta (jrnl g)) tx u"
    and q: "jqueues (jrnl g) (queue_index d) = []"
    and snd: "sound objs (meta (jrnl g))"
    and old: "stores objs (meta (jrnl g)) JOURNAL (uuid_to_string (w_pool W) d) old" "length old < 2 ^ 62"
      "tx_entries tx \<le> 2 ^ 28 + 2"
  shows "\<exists>j1 j2. commit_one (w_pool W) (w_ords W) (d, x) ((jrnl g)\<lparr>jtab := snd (jt_replace_map (jtab (jrnl g)))\<rparr>) = (Inr (), j1) \<and>
    checkpoint_one (w_pool W) (w_ords W) (queue_index d) j1 = Some (Inr True, j2) \<and>
    stored_directory W (meta j2) d \<lparr>this_ino = d, child_list = listing g t\<rparr> \<and> stored_files W (meta j2) tx"
proof -
  have ok: "jtab_ok (jtab (jrnl g))" using step by (simp add: in_step_def)
  have t: "s_ino tx = d" "\<not> committed tx" using jtab_okD [OF ok x] tx by simp_all
  have "open_tx (jrnl g) d = tx" using x tx by (simp add: open_tx_def)
  then have l: "listing g t = apply_dentries (dentries tx) (child_list d0)" using step d by (simp add: in_step_def)
  let ?j = "(jrnl g)\<lparr>jtab := snd (jt_replace_map (jtab (jrnl g)))\<rparr>"
  let ?tx = "tx\<lparr>committed := True, tx_offset := Some (length old)\<rparr>"
  have sync: "\<exists>s'. tx_sync (w_pool W) (w_ords W) ?tx s = (Inr (), s') \<and>
      unchanged objs ((if s_inode tx = None then {} else {(INODE, uuid_to_string (w_pool W) d)}) \<union>
        {(DENTRY, uuid_to_string (w_pool W) d)} \<union> (\<lambda>u. (INODE, uuid_to_string (w_pool W) u)) ` live_inodes (f_inodes tx)) s s' \<and>
      (stored_directory W s' d \<lparr>this_ino = d, child_list = listing g t\<rparr> \<and> stored_files W s' tx)"
    if s: "sound objs s" "unchanged objs {(JOURNAL, uuid_to_string (w_pool W) d)} (meta ?j) s" for s
  proof -
    have un: "unchanged objs {(JOURNAL, uuid_to_string (w_pool W) d)} (meta (jrnl g)) s" using s(2) by simp
    have same: "kept W s ?tx u = kept W s tx u" "stored_files W s' ?tx = stored_files W s' tx" for u s'
      by (simp_all add: kept_def stored_files_def)
    have "wf_tx ?tx" using wf by (simp add: wf_tx_def)
    moreover have "dentry_new (w_pool W) s (s_ino ?tx) (status ?tx = S_CREATED) = Inr d0"
      using tx_io.dentry_new_unchanged [OF io un] d0(1) t(1) by simp
    moreover have "kept W s ?tx (s_ino ?tx)" "\<forall>u \<in> ran (listing g t). kept W s ?tx u"
      using kept_unchanged [OF io un] kept t(1) unfolding same by simp_all
    ultimately show ?thesis
      using sync_stores_directory [OF io s(1), of ?tx d0 "listing g t"] alive d0(2) l fits t(1) unfolding same by auto
  qed
  show ?thesis
    by (rule journal_round [OF io _ t(1,2) wf _ _ old(2,3) _ sync])
      (use tx q old(1) snd stored_directory_unchanged [OF io] stored_files_unchanged [OF io _ wf] in \<open>auto simp: jt_replace_map_def\<close>)
qed


text \<open>What is stored does not depend on who loads it.\<close>

lemma stored_directory_pool:
  assumes "w_pool W' = w_pool W" and "stored_directory W s u d"
  shows "stored_directory W' s u d"
proof -
  have "stored_child W' s v" if "stored_child W s v" for v
    using that assms(1)
    by (fastforce simp: stored_child_def inode_pull_def inode_deserialize_def Let_def
        split: sum.splits exn.splits if_splits)
  then show ?thesis using assms by (simp add: stored_directory_def)
qed

lemma next_leader_loads:
  fixes W :: "('s, 'e) world"
  assumes "w_pool W' = w_pool W" and "iteration (ord_children (w_ords W'))" and "stored_directory W (meta (jrnl g')) d \<lparr>this_ino = d, child_list = m\<rparr>"
    and "served d g' = None" and "lc_acquire W' d [] (dropped d g') = (Inr (0, a), g1)"
  shows "\<exists>t' g2. get_dentry_table W' d False g' = (Inr (Some t'), g2) \<and> coherent g2 t' \<and>
    dir_ino (dtables g2 t') = d \<and> listing g2 t' = m"
proof -
  have "stored_directory W' (meta (jrnl (dropped d g'))) d \<lparr>this_ino = d, child_list = m\<rparr>"
    using stored_directory_pool [OF assms(1,3)] by simp
  from lease_dentry_table_local [OF assms(5) _ assms(2) this] show ?thesis
    by (auto simp: get_dentry_table_miss [OF assms(4)])
qed

section \<open>Durable directories\<close>

text \<open>
  What the journal needs of a directory: its table is in step with the open transaction, the stored
  directory can be read, and every number the table shows is in the pool or comes there with the
  transaction.
\<close>

definition durable :: "('s, 'e) world \<Rightarrow> ('s, 'e) fs \<Rightarrow> nat \<Rightarrow> dentry \<Rightarrow> bool" where
  "durable W g t d0 \<longleftrightarrow>
     (let d = dir_ino (dtables g t); tx = open_tx (jrnl g) d in
      in_step g t (child_list d0) \<and> wf_dentry d0 \<and> wf_tx tx \<and> status tx \<noteq> S_DELETED \<and>
      dentry_new (w_pool W) (meta (jrnl g)) d (status tx = S_CREATED) = Inr d0 \<and>
      kept W (meta (jrnl g)) tx d \<and> (\<forall>u \<in> ran (listing g t). kept W (meta (jrnl g)) tx u))"

text \<open>One round of the journal, and what the leader after it is shown.\<close>

definition checkpointed :: "('s, 'e) world \<Rightarrow> uuid \<Rightarrow> 's journal \<Rightarrow> 's \<Rightarrow> bool" where
  "checkpointed W d j s \<longleftrightarrow>
     (\<exists>x j1 j2. jt_map (jtab j) d = Some x \<and>
        commit_one (w_pool W) (w_ords W) (d, x) (j\<lparr>jtab := snd (jt_replace_map (jtab j))\<rparr>) = (Inr (), j1) \<and>
        checkpoint_one (w_pool W) (w_ords W) (queue_index d) j1 = Some (Inr True, j2) \<and> s = meta j2)"

definition next_leader_shows :: "('s, 'e) world \<Rightarrow> uuid \<Rightarrow> 's \<Rightarrow> (string \<rightharpoonup> uuid) \<Rightarrow> bool" where
  "next_leader_shows W d s m \<longleftrightarrow>
     (\<forall>(W' :: ('s, 'e) world) g' a g1. w_pool W' = w_pool W \<and> iteration (ord_children (w_ords W')) \<and> meta (jrnl g') = s \<and>
        served d g' = None \<and> lc_acquire W' d [] (dropped d g') = (Inr (0, a), g1) \<longrightarrow>
        (\<exists>t' g2. get_dentry_table W' d False g' = (Inr (Some t'), g2) \<and> coherent g2 t' \<and>
           dir_ino (dtables g2 t') = d \<and> listing g2 t' = m))"

lemma durable_round:
  assumes io: "tx_io (w_pool W) objs (w_ords W)" and D: "durable W g t d0" and d: "d = dir_ino (dtables g t)"
    and x: "jt_map (jtab (jrnl g)) d \<noteq> None"
    and fits: "dentry_raw_size (ord_children (w_ords W)) \<lparr>this_ino = d, child_list = listing g t\<rparr> \<le> OBJ_SIZE"
    and pool: "jqueues (jrnl g) (queue_index d) = []" "sound objs (meta (jrnl g))"
      "stores objs (meta (jrnl g)) JOURNAL (uuid_to_string (w_pool W) d) old" "length old < 2 ^ 62"
      "tx_entries (open_tx (jrnl g) d) \<le> 2 ^ 28 + 2"
  shows "\<exists>s. checkpointed W d (jrnl g) s \<and> next_leader_shows W d s (listing g t) \<and> stored_files W s (open_tx (jrnl g) d)"
proof -
  from x obtain x where x: "jt_map (jtab (jrnl g)) d = Some x" by blast
  then have tx: "open_tx (jrnl g) d = jt_heap (jtab (jrnl g)) x" by (simp add: open_tx_def)
  have D': "in_step g t (child_list d0)" "wf_dentry d0" "wf_tx (open_tx (jrnl g) d)" "status (open_tx (jrnl g) d) \<noteq> S_DELETED"
    "dentry_new (w_pool W) (meta (jrnl g)) d (status (open_tx (jrnl g) d) = S_CREATED) = Inr d0"
    "kept W (meta (jrnl g)) (open_tx (jrnl g) d) d" "\<forall>u \<in> ran (listing g t). kept W (meta (jrnl g)) (open_tx (jrnl g) d) u"
    using D d by (simp_all add: durable_def Let_def)
  from round_stores_listing [OF io D'(1) d x tx D'(3-5,2) fits D'(6,7) pool] obtain j1 j2 where
    j: "commit_one (w_pool W) (w_ords W) (d, x) ((jrnl g)\<lparr>jtab := snd (jt_replace_map (jtab (jrnl g)))\<rparr>) = (Inr (), j1)"
      "checkpoint_one (w_pool W) (w_ords W) (queue_index d) j1 = Some (Inr True, j2)"
    and st: "stored_directory W (meta j2) d \<lparr>this_ino = d, child_list = listing g t\<rparr>" "stored_files W (meta j2) (open_tx (jrnl g) d)"
    by blast
  have "next_leader_shows W d (meta j2) (listing g t)"
    unfolding next_leader_shows_def using next_leader_loads [of _ W] st(1) by metis
  moreover have "checkpointed W d (jrnl g) (meta j2)" unfolding checkpointed_def using x j by blast
  ultimately show ?thesis using st(2) by blast
qed

text \<open>The example: the file of the example tree is still only in the journal.\<close>

definition journal_f :: "pool journal" where
  "journal_f = (journal_new root_pool)\<lparr>jtab := \<lparr>jt_map = [get_root_ino \<mapsto> 0],
     jt_heap = (\<lambda>_. (transaction_new get_root_ino)\<lparr>dentries := [''f'' \<mapsto> (True, splice_prefix_and_postfix 1 7)],
       f_inodes := [splice_prefix_and_postfix 1 7 \<mapsto> Some file_inode]\<rparr>), jt_next = 1\<rparr>\<rparr>"

definition leader_f :: "(pool, lease_table) fs" where
  "leader_f = tree_fs\<lparr>jrnl := journal_f\<rparr>"

lemma journal_f_simps:
  "jt_heap (jtab journal_f) 0 = (transaction_new get_root_ino)\<lparr>dentries := [''f'' \<mapsto> (True, splice_prefix_and_postfix 1 7)],
     f_inodes := [splice_prefix_and_postfix 1 7 \<mapsto> Some file_inode]\<rparr>"
  "jt_map (jtab journal_f) = [get_root_ino \<mapsto> 0]" "jt_next (jtab journal_f) = 1" "meta journal_f = root_pool"
  "jqueues journal_f = (\<lambda>_. [])" "jrnl leader_f = journal_f" "dtables leader_f = dtables tree_fs"
  "open_tx journal_f get_root_ino = jt_heap (jtab journal_f) 0"
  by (simp_all add: journal_f_def journal_new_def leader_f_def open_tx_def)

lemma leader_f_listing:
  "listing leader_f 0 = [''f'' \<mapsto> splice_prefix_and_postfix 1 7]" and leader_f_ino: "ino_of leader_f = ino_of tree_fs"
  and leader_f_in_step: "in_step leader_f 0 Map.empty" and leader_f_dir: "dir_ino (dtables leader_f 0) = get_root_ino"
proof -
  show same: "ino_of leader_f = ino_of tree_fs" by (simp add: leader_f_def ino_of_def inode_at_def fun_eq_iff)
  show l: "listing leader_f 0 = [''f'' \<mapsto> splice_prefix_and_postfix 1 7]"
    using listing_tree_fs same by (simp add: listing_def leader_f_def)
  have c: "coherent leader_f 0" using coherent_tree_fs same l listing_tree_fs by (simp add: coherent_def leader_f_def)
  show d: "dir_ino (dtables leader_f 0) = get_root_ino" by (simp add: journal_f_simps tree_fs_simps)
  show "in_step leader_f 0 Map.empty"
    using l c d by (simp add: in_step_def journal_f_simps jtab_ok_def transaction_new_def)
qed

lemma leader_f_durable: "durable mem_world leader_f 0 \<lparr>this_ino = get_root_ino, child_list = Map.empty\<rparr>"
proof -
  let ?u = "splice_prefix_and_postfix 1 7"
  have ino: "i_ino (core file_inode) = ?u" "wf_inode file_inode"
    by (simp_all add: file_inode_def inode_new_def new_core_def wf_inode_def S_ISLNK_def mode_bits)
  have "?u \<noteq> get_root_ino" by (simp add: splice_not_root)
  then have wf: "wf_tx (open_tx journal_f get_root_ino)"
    using ino by (auto simp: journal_f_simps wf_tx_def transaction_new_def name_ok_def)
  have root: "stored_child mem_world root_pool get_root_ino"
    "dentry_new mem_librados root_pool get_root_ino False = Inr \<lparr>this_ino = get_root_ino, child_list = Map.empty\<rparr>"
    using root_pool_stored by (simp_all add: stored_directory_def mem_world_def)
  then have "kept mem_world root_pool (open_tx journal_f get_root_ino) get_root_ino"
    "kept mem_world root_pool (open_tx journal_f get_root_ino) ?u" by (auto simp: kept_def journal_f_simps)
  then show ?thesis using wf root(2) leader_f_in_step leader_f_listing leader_f_dir
    by (simp add: durable_def Let_def journal_f_simps transaction_new_def wf_dentry_def mem_world_def)
qed

section \<open>Properties\<close>

text \<open>
  The next leader of a directory sees what the last one showed: once the open transaction has been
  committed and checkpointed, any client that shares the metadata pool and is granted the lease loads a
  table with exactly the entries that the table of the last leader had.
\<close>

theorem next_leader_sees_listing:
  fixes W :: "('s, 'e) world"
  assumes "tx_io (w_pool W) objs (w_ords W)" and "in_step g t (child_list d0)" and "d = dir_ino (dtables g t)"
    and "jt_map (jtab (jrnl g)) d = Some x" and "tx = jt_heap (jtab (jrnl g)) x"
    and "wf_tx tx" and "status tx \<noteq> S_DELETED"
    and "dentry_new (w_pool W) (meta (jrnl g)) d (status tx = S_CREATED) = Inr d0" and "wf_dentry d0"
    and "dentry_raw_size (ord_children (w_ords W)) \<lparr>this_ino = d, child_list = listing g t\<rparr> \<le> OBJ_SIZE"
    and "kept W (meta (jrnl g)) tx d" and "\<forall>u \<in> ran (listing g t). kept W (meta (jrnl g)) tx u"
    and "jqueues (jrnl g) (queue_index d) = []" and "sound objs (meta (jrnl g))"
    and "stores objs (meta (jrnl g)) JOURNAL (uuid_to_string (w_pool W) d) old" and "length old < 2 ^ 62"
    and "tx_entries tx \<le> 2 ^ 28 + 2"
  shows "\<exists>j1 j2. commit_one (w_pool W) (w_ords W) (d, x) ((jrnl g)\<lparr>jtab := snd (jt_replace_map (jtab (jrnl g)))\<rparr>) = (Inr (), j1) \<and>
    checkpoint_one (w_pool W) (w_ords W) (queue_index d) j1 = Some (Inr True, j2) \<and>
    (\<forall>(W' :: ('s, 'e) world) g' a g1. w_pool W' = w_pool W \<and> iteration (ord_children (w_ords W')) \<and> meta (jrnl g') = meta j2 \<and>
       served d g' = None \<and> lc_acquire W' d [] (dropped d g') = (Inr (0, a), g1) \<longrightarrow>
       (\<exists>t' g2. get_dentry_table W' d False g' = (Inr (Some t'), g2) \<and> coherent g2 t' \<and>
          dir_ino (dtables g2 t') = d \<and> listing g2 t' = listing g t))"
proof -
  from round_stores_listing [OF assms] obtain j1 j2 where
    j: "commit_one (w_pool W) (w_ords W) (d, x) ((jrnl g)\<lparr>jtab := snd (jt_replace_map (jtab (jrnl g)))\<rparr>) = (Inr (), j1)"
      "checkpoint_one (w_pool W) (w_ords W) (queue_index d) j1 = Some (Inr True, j2)"
    and st: "stored_directory W (meta j2) d \<lparr>this_ino = d, child_list = listing g t\<rparr>" by blast
  then show ?thesis using j next_leader_loads [of _ W] by metis
qed

theorem next_leader_sees_listing_witness:
  "\<exists>s t' g2. get_dentry_table mem_world get_root_ino False (mem_fs s Map.empty) = (Inr (Some t'), g2) \<and>
     listing g2 t' = [''f'' \<mapsto> splice_prefix_and_postfix 1 7]"
proof -
  let ?g = leader_f and ?d = "\<lparr>this_ino = get_root_ino, child_list = Map.empty\<rparr> :: dentry"
  let ?tx = "jt_heap (jtab journal_f) 0" and ?u = "splice_prefix_and_postfix 1 7"
  note tx = journal_f_simps and l = leader_f_listing
  note D = leader_f_durable [unfolded durable_def Let_def leader_f_dir journal_f_simps(6,8)]
  have W: "w_pool mem_world = mem_librados" "w_ords mem_world = mem_ords" by (simp_all add: mem_world_def)
  have fits: "dentry_raw_size sorted_iter \<lparr>this_ino = get_root_ino, child_list = [''f'' \<mapsto> ?u]\<rparr> \<le> OBJ_SIZE"
    by (simp add: dentry_raw_size_eq encode_child_def OBJ_SIZE_def)
  have step: "in_step ?g 0 (child_list ?d)" and wf: "wf_tx ?tx" using D by simp_all
  have small: "tx_entries ?tx \<le> 2 ^ 28 + 2" by (simp add: tx_entries_def tx(1) transaction_new_def)
  have H: "tx_io (w_pool mem_world) (\<lambda>s. s) (w_ords mem_world)" "get_root_ino = dir_ino (dtables ?g 0)"
    "jt_map (jtab (jrnl ?g)) get_root_ino = Some 0" "?tx = jt_heap (jtab (jrnl ?g)) 0" "status ?tx \<noteq> S_DELETED"
    "dentry_new (w_pool mem_world) (meta (jrnl ?g)) get_root_ino (status ?tx = S_CREATED) = Inr ?d" "wf_dentry ?d"
    "dentry_raw_size (ord_children (w_ords mem_world)) \<lparr>this_ino = get_root_ino, child_list = listing ?g 0\<rparr> \<le> OBJ_SIZE"
    "kept mem_world (meta (jrnl ?g)) ?tx get_root_ino" "\<forall>u \<in> ran (listing ?g 0). kept mem_world (meta (jrnl ?g)) ?tx u"
    "jqueues (jrnl ?g) (queue_index get_root_ino) = []" "sound (\<lambda>s. s) (meta (jrnl ?g))"
    "stores (\<lambda>s. s) (meta (jrnl ?g)) JOURNAL (uuid_to_string (w_pool mem_world) get_root_ino) []" "length ([] :: byte list) < 2 ^ 62"
    "tx_entries ?tx \<le> 2 ^ 28 + 2"
    using D tx(2-8) small leader_f_dir W fits l root_pool_sound root_pool_journal mem_tx.tx_io_axioms by simp_all
  obtain j2 :: "pool journal" where load: "\<And>W' g' a g1. w_pool W' = w_pool mem_world \<Longrightarrow> iteration (ord_children (w_ords W')) \<Longrightarrow>
      meta (jrnl g') = meta j2 \<Longrightarrow> served get_root_ino g' = None \<Longrightarrow>
      lc_acquire (W' :: (pool, lease_table) world) get_root_ino [] (dropped get_root_ino g') = (Inr (0, a), g1) \<Longrightarrow>
      \<exists>t' g2. get_dentry_table W' get_root_ino False g' = (Inr (Some t'), g2) \<and> coherent g2 t' \<and>
        dir_ino (dtables g2 t') = get_root_ino \<and> listing g2 t' = listing ?g 0"
    using next_leader_sees_listing [OF H(1) step H(2-4) wf H(5-15)] by blast
  let ?g' = "mem_fs (meta j2) Map.empty"
  have "meta (jrnl ?g') = meta j2" "served get_root_ino ?g' = None" by (simp_all add: mem_fs_def journal_new_def served_def)
  moreover obtain g1 where "lc_acquire mem_world get_root_ino [] (dropped get_root_ino ?g') = (Inr (0, []), g1)"
    using mem_fs_acquire_root by blast
  ultimately show ?thesis using load [OF refl mem_world_iteration] l by fastforce
qed

end
