(* ===== verification/Durable_Files.thy ===== *)
theory Durable_Files
  imports Fuse_Refine Durability
begin

text \<open>
  Files and the metadata pool: a directory whose open transaction the journal can apply is durable;
  creating and removing a file by path keep it so, and after the next commit and checkpoint the next
  leader of the directory sees the change.
\<close>

section \<open>Operations keep a directory durable\<close>

lemma s_ino_open_tx: "jtab_ok (jtab j) \<Longrightarrow> s_ino (open_tx j d) = d"
  using jtab_okD [of "jtab j" d] by (auto simp: open_tx_def transaction_new_def split: option.split)

lemma touch_self_parts [simp]:
  "status (touch_self raw i tx) = status tx" "f_inodes (touch_self raw i tx) = f_inodes tx"
  "s_ino (touch_self raw i tx) = s_ino tx" "\<exists>k. s_inode (touch_self raw i tx) = Some k"
  by (auto simp: touch_self_def split: option.split)

lemma tx_mkreg_facts:
  "tx_exec raw (Mkreg i n f) tx = (Inr 0, tx') \<Longrightarrow> status tx' = status tx \<and> s_ino tx' = s_ino tx \<and> s_inode tx' \<noteq> None \<and>
    f_inodes tx' = (f_inodes tx)(i_ino (core f) \<mapsto> Some (inode_copy raw f))"
  by (auto simp: tx_mkreg_def Let_def split: if_splits option.splits prod.splits bool.splits)

lemma tx_rmreg_facts:
  "tx_exec raw (Rmreg i n f) tx = (Inr 0, tx') \<Longrightarrow> status tx' = status tx \<and> s_ino tx' = s_ino tx \<and> s_inode tx' \<noteq> None \<and>
    f_inodes tx' = (f_inodes tx)(i_ino (core f) \<mapsto> None)"
  by (auto simp: tx_rmreg_def Let_def split: if_splits option.splits prod.splits bool.splits)

lemma tx_entries_step:
  assumes "tx_exec raw op tx = (r, tx')" and "op = Mkreg i n f \<or> op = Rmreg i n f" and "wf_tx tx"
  shows "tx_entries tx' \<le> tx_entries tx + 2"
proof -
  have sub: "dom (dentries tx') \<subseteq> insert n (dom (dentries tx))"
    "dom (f_inodes tx') \<subseteq> insert (i_ino (core f)) (dom (f_inodes tx))"
    using assms(1,2) by (auto simp: tx_mkreg_def tx_rmreg_def touch_self_def Let_def
      split: if_splits option.splits prod.splits bool.splits)
  have "card (dom m') \<le> Suc (card (dom m))" if "dom m' \<subseteq> insert x (dom m)" "finite (dom m)"
    for m' m :: "'k \<rightharpoonup> 'v" and x
    using card_mono [OF _ that(1)] card_insert_le_m1 [of "Suc (card (dom m))" "dom m" x] that(2) by simp
  from this [OF sub(1)] this [OF sub(2)] show ?thesis using assms(3) by (simp add: wf_tx_def tx_entries_def)
qed

lemma kept_mono:
  assumes "kept W s tx u" and "s_ino tx' = s_ino tx" and "s_inode tx' \<noteq> None"
    and "\<And>i. f_inodes tx u = Some (Some i) \<Longrightarrow> \<exists>k. f_inodes tx' u = Some (Some k)"
  shows "kept W s tx' u"
  using assms unfolding kept_def by fastforce

text \<open>An operation on a file of the directory, recorded and entered in the table.\<close>

lemma durable_step:
  assumes D: "durable W g t d0" and d: "d = dir_ino (dtables g t)" "dir_ino (dtables g' t) = d"
    and s: "in_step g' t (child_list d0)" and l: "logs raw d op (jrnl g) (jrnl g')" and ok: "op_ok d op"
    and st: "status (open_tx (jrnl g') d) = status (open_tx (jrnl g) d)" "s_ino (open_tx (jrnl g') d) = d"
      "s_inode (open_tx (jrnl g') d) \<noteq> None"
    and new: "\<And>u. u \<in> ran (listing g' t) \<Longrightarrow>
      (\<exists>k. f_inodes (open_tx (jrnl g') d) u = Some (Some k)) \<or>
      u \<in> ran (listing g t) \<and> f_inodes (open_tx (jrnl g') d) u = f_inodes (open_tx (jrnl g) d) u"
  shows "durable W g' t d0"
proof -
  let ?tx = "open_tx (jrnl g) d" and ?tx' = "open_tx (jrnl g') d" and ?s = "meta (jrnl g)"
  have D': "in_step g t (child_list d0)" "wf_dentry d0" "wf_tx ?tx" "status ?tx \<noteq> S_DELETED"
    "dentry_new (w_pool W) ?s d (status ?tx = S_CREATED) = Inr d0" "\<forall>u \<in> ran (listing g t). kept W ?s ?tx u"
    using D d(1) by (simp_all add: durable_def Let_def)
  have si: "s_ino ?tx = d" using D'(1) by (simp add: in_step_def s_ino_open_tx)
  have ex: "tx_exec raw op ?tx = (Inr 0, ?tx')" and m: "meta (jrnl g') = ?s" using l by (simp_all add: logs_def)
  have "wf_tx ?tx'" using wf_tx_exec [OF D'(3), of op raw] ok ex si by simp
  moreover have "kept W ?s ?tx' d" using st(2,3) by (auto simp: kept_def)
  moreover have "kept W ?s ?tx' u" if "u \<in> ran (listing g' t)" for u
    using new [OF that]
  proof
    assume u: "u \<in> ran (listing g t) \<and> f_inodes ?tx' u = f_inodes ?tx u"
    then have "kept W ?s ?tx u" using D'(6) by blast
    then show ?thesis by (rule kept_mono) (use st(2,3) si u in simp_all)
  qed (auto simp: kept_def)
  ultimately show ?thesis using s D' st(1) d m by (simp add: durable_def Let_def)
qed

lemma durable_mkreg:
  assumes "durable W g t d0" and "in_step g' t (child_list d0)" and "dir_ino (dtables g' t) = dir_ino (dtables g t)"
    and "logs raw (dir_ino (dtables g t)) (Mkreg i n f) (jrnl g) (jrnl g')" and "op_ok (dir_ino (dtables g t)) (Mkreg i n f)"
    and "listing g' t = (listing g t)(n \<mapsto> i_ino (core f))"
  shows "durable W g' t d0"
proof -
  let ?d = "dir_ino (dtables g t)"
  have "tx_exec raw (Mkreg i n f) (open_tx (jrnl g) ?d) = (Inr 0, open_tx (jrnl g') ?d)" using assms(4) by (simp only: logs_def)
  note F = tx_mkreg_facts [OF this]
  have "s_ino (open_tx (jrnl g') ?d) = ?d" using assms(2) by (simp add: in_step_def s_ino_open_tx)
  then show ?thesis
    by (intro durable_step [OF assms(1) refl assms(3,2,4,5)])
      (use F assms(6) ran_enter [of _ "listing g t" n "i_ino (core f)"] in \<open>auto split: if_splits\<close>)
qed

lemma durable_rmreg:
  assumes "durable W g t d0" and "in_step g' t (child_list d0)" and "dir_ino (dtables g' t) = dir_ino (dtables g t)"
    and "logs raw (dir_ino (dtables g t)) (Rmreg i n f) (jrnl g) (jrnl g')" and "op_ok (dir_ino (dtables g t)) (Rmreg i n f)"
    and "listing g' t = (listing g t)(n := None)" and "listing g t n = Some (i_ino (core f))"
  shows "durable W g' t d0"
proof -
  let ?d = "dir_ino (dtables g t)"
  have "tx_exec raw (Rmreg i n f) (open_tx (jrnl g) ?d) = (Inr 0, open_tx (jrnl g') ?d)" using assms(4) by (simp only: logs_def)
  note F = tx_rmreg_facts [OF this]
  have "s_ino (open_tx (jrnl g') ?d) = ?d" using assms(2) by (simp add: in_step_def s_ino_open_tx)
  moreover have "inj_on (listing g t) (dom (listing g t))" using assms(1) by (simp add: durable_def Let_def in_step_def)
  ultimately show ?thesis
    by (intro durable_step [OF assms(1) refl assms(3,2,4,5)])
      (use F assms(6) ran_leave [of "listing g t" n "i_ino (core f)"] assms(7) in \<open>auto split: if_splits\<close>)
qed


text \<open>Creating and removing by path; the caller's inode of the directory is well-formed.\<close>

lemma create_durable:
  assumes D: "durable W g t d0" and p: "lies_in g path p t" and n: "get_filename_from_path path = Inr n" "name_ok n"
    and m: "\<not> S_ISDIR mode" "\<not> S_ISLNK (mode OR S_IFREG)" and free: "listing g t n = None"
    and u: "u = uuid_src g (uuid_reads g)" "fresh_ino g t u" "u \<noteq> ino_of g p"
    and fh: "fh_list g (addr_src g (addr_reads g)) = None" and wfp: "wf_inode (inode_at g p)"
  obtains a g' k where "fuse_create W path mode fh_arg g = (Inr (0, a), g')" and "durable W g' t d0"
    and "listing g' t = (listing g t)(n \<mapsto> u)" and "dir_ino (dtables g' t) = ino_of g p"
    and "jt_map (jtab (jrnl g')) (ino_of g p) \<noteq> None" and "meta (jrnl g') = meta (jrnl g)" and "jqueues (jrnl g') = jqueues (jrnl g)"
    and "tx_entries (open_tx (jrnl g') (ino_of g p)) \<le> tx_entries (open_tx (jrnl g) (ino_of g p)) + 2"
    and "f_inodes (open_tx (jrnl g') (ino_of g p)) u = Some (Some k)" and "core k = new_core (mode OR S_IFREG)
      (client_uid (this_client g)) (client_gid (this_client g)) u (time_src g (time_reads g))"
proof -
  have step: "in_step g t (child_list d0)" using D by (simp add: durable_def Let_def)
  have dp: "ino_of g p = dir_ino (dtables g t)" using p by (simp add: lies_in_def)
  let ?f = "inode_new u (time_src g (time_reads g)) (ino_of g p) (client_uid (this_client g)) (client_gid (this_client g)) (mode OR S_IFREG) False"
  from fuse_create_leader [OF p step n(1) m(1) free u(2) [unfolded u(1)] fh, where W = W and fh = fh_arg, unfolded yields_def] obtain g' i where
    g': "fuse_create W path mode fh_arg g = (Inr (0, addr_src g (addr_reads g)), g')" "in_step g' t (child_list d0)"
      "listing g' t = (listing g t)(n \<mapsto> u)" "inodes g' (inode_next g) = Inode ?f"
    and d': "dir_ino (dtables g' t) = dir_ino (dtables g t)" and i: "same_kind i (inode_at g p)"
      "logs (w_raw W) (dir_ino (dtables g t)) (Mkreg i n (inode_at g' (inode_next g))) (jrnl g) (jrnl g')"
    unfolding u(1) by auto
  have new_ino: "i_ino (core (inode_new u ts q a b k False)) = u" for ts q a b k by (simp add: inode_new_def new_core_def)
  have f: "inode_at g' (inode_next g) = ?f" using g'(4) by (simp add: inode_at_def)
  have "wf_inode i" "i_ino (core i) = ino_of g p" using same_kind_wf [OF i(1) wfp] by (simp_all add: ino_of_def)
  then have ok: "op_ok (dir_ino (dtables g t)) (Mkreg i n ?f)"
    using n(2) u(3) dp wf_new(1) [OF m(2)] by (simp add: new_ino)
  have l: "logs (w_raw W) (ino_of g p) (Mkreg i n ?f) (jrnl g) (jrnl g')" using i(2) f dp by simp
  then have X: "tx_exec (w_raw W) (Mkreg i n ?f) (open_tx (jrnl g) (ino_of g p)) = (Inr 0, open_tx (jrnl g') (ino_of g p))"
    by (simp only: logs_def)
  note F = tx_mkreg_facts [OF X]
  have "wf_tx (open_tx (jrnl g) (ino_of g p))" using D dp by (simp add: durable_def Let_def)
  then have E: "tx_entries (open_tx (jrnl g') (ino_of g p)) \<le> tx_entries (open_tx (jrnl g) (ino_of g p)) + 2"
    using tx_entries_step [OF X] by blast
  have "durable W g' t d0"
    by (rule durable_mkreg [OF D g'(2) d' _ ok]) (use l dp g'(3) new_ino in simp_all)
  moreover have "f_inodes (open_tx (jrnl g') (ino_of g p)) u = Some (Some (inode_copy (w_raw W) ?f))" using F new_ino by simp
  ultimately show thesis using E l d' dp g'(1,3)
    by (intro that [of "addr_src g (addr_reads g)" g' "inode_copy (w_raw W) ?f"]) (auto simp: logs_def inode_new_def)
qed

lemma unlink_durable:
  assumes D: "durable W g t d0" and p: "lies_in g path p t" and n: "get_filename_from_path path = Inr n" "name_ok n"
    and x: "child_inodes (dtables g t) n = Some x" "i_nlink (core (inode_at g x)) = 1"
    and L: "librados_healthy (w_pool W) objs" and c: "stores objs (data_pool g) DATA (data_key W g x) c" "length c < 2 ^ 63"
    and wfp: "wf_inode (inode_at g p)"
  obtains g' where "fuse_unlink W path g = (Inr 0, g')" and "durable W g' t d0"
    and "listing g' t = (listing g t)(n := None)" and "dir_ino (dtables g' t) = ino_of g p"
    and "jt_map (jtab (jrnl g')) (ino_of g p) \<noteq> None" and "meta (jrnl g') = meta (jrnl g)" and "jqueues (jrnl g') = jqueues (jrnl g)"
    and "tx_entries (open_tx (jrnl g') (ino_of g p)) \<le> tx_entries (open_tx (jrnl g) (ino_of g p)) + 2"
    and "f_inodes (open_tx (jrnl g') (ino_of g p)) (ino_of g x) = Some None"
proof -
  have step: "in_step g t (child_list d0)" using D by (simp add: durable_def Let_def)
  have dp: "ino_of g p = dir_ino (dtables g t)" using p by (simp add: lies_in_def)
  from fuse_unlink_leader [OF p step n(1) x L c, unfolded yields_def] obtain g' i f where
    g': "fuse_unlink W path g = (Inr 0, g')" "in_step g' t (child_list d0)" "listing g' t = (listing g t)(n := None)"
      "dir_ino (dtables g' t) = dir_ino (dtables g t)"
    and i: "same_kind i (inode_at g p)" "i_ino (core f) = ino_of g x"
      "logs (w_raw W) (dir_ino (dtables g t)) (Rmreg i n f) (jrnl g) (jrnl g')" by auto
  have "wf_inode i" "i_ino (core i) = ino_of g p" using same_kind_wf [OF i(1) wfp] by (simp_all add: ino_of_def)
  then have ok: "op_ok (dir_ino (dtables g t)) (Rmreg i n f)" using n(2) dp by simp
  have X: "tx_exec (w_raw W) (Rmreg i n f) (open_tx (jrnl g) (ino_of g p)) = (Inr 0, open_tx (jrnl g') (ino_of g p))"
    using i(3) dp by (simp only: logs_def)
  note F = tx_rmreg_facts [OF X]
  have "wf_tx (open_tx (jrnl g) (ino_of g p))" using D dp by (simp add: durable_def Let_def)
  then have E: "tx_entries (open_tx (jrnl g') (ino_of g p)) \<le> tx_entries (open_tx (jrnl g) (ino_of g p)) + 2"
    using tx_entries_step [OF X] by blast
  have "durable W g' t d0"
    by (rule durable_rmreg [OF D g'(2,4) i(3) ok g'(3)]) (use child_listing [OF x(1)] i(2) in simp)
  then show thesis using E F i g' dp by (intro that [of g']) (auto simp: logs_def)
qed

section \<open>Properties\<close>

text \<open>
  C1: A file created by path survives its leader: the call returns 0, and after the next commit and
  checkpoint of the directory any client that is granted the lease shows exactly the old entries and the
  new one; the stored inode is a regular file of the calling user with the mode asked for.  The journal and
  the open transaction are far smaller than the 8 EiB that an \<^verbatim>\<open>off_t\<close> can address.
\<close>

theorem created_file_survives:
  assumes "durable W g t d0" and "lies_in g path p t" and "get_filename_from_path path = Inr n" and "name_ok n"
    and "\<not> S_ISDIR mode" and "\<not> S_ISLNK (mode OR S_IFREG)" and "listing g t n = None"
    and "u = uuid_src g (uuid_reads g)" and "fresh_ino g t u" and "u \<noteq> ino_of g p"
    and "fh_list g (addr_src g (addr_reads g)) = None" and "wf_inode (inode_at g p)"
    and "tx_io (w_pool W) objs (w_ords W)" and "sound objs (meta (jrnl g))" and "jqueues (jrnl g) (queue_index (ino_of g p)) = []"
    and "stores objs (meta (jrnl g)) JOURNAL (uuid_to_string (w_pool W) (ino_of g p)) old" and "length old < 2 ^ 62"
    and "tx_entries (open_tx (jrnl g) (ino_of g p)) \<le> 2 ^ 28"
    and "dentry_raw_size (ord_children (w_ords W)) \<lparr>this_ino = ino_of g p, child_list = (listing g t)(n \<mapsto> u)\<rparr> \<le> OBJ_SIZE"
  shows "yields (fuse_create W path mode fh) g (\<lambda>(r, a) g'. r = 0 \<and>
    (\<exists>s k. checkpointed W (ino_of g p) (jrnl g') s \<and> next_leader_shows W (ino_of g p) s ((listing g t)(n \<mapsto> u)) \<and>
       inode_pull (w_pool W) s (w_raw W) u = Inr k \<and> core k = new_core (mode OR S_IFREG)
         (client_uid (this_client g)) (client_gid (this_client g)) u (time_src g (time_reads g))))"
proof -
  obtain a g' i where g': "fuse_create W path mode fh g = (Inr (0, a), g')" "durable W g' t d0"
    "listing g' t = (listing g t)(n \<mapsto> u)" "dir_ino (dtables g' t) = ino_of g p"
    "jt_map (jtab (jrnl g')) (ino_of g p) \<noteq> None" "meta (jrnl g') = meta (jrnl g)" "jqueues (jrnl g') = jqueues (jrnl g)"
    and e: "tx_entries (open_tx (jrnl g') (ino_of g p)) \<le> tx_entries (open_tx (jrnl g) (ino_of g p)) + 2"
    and i: "f_inodes (open_tx (jrnl g') (ino_of g p)) u = Some (Some i)" "core i = new_core (mode OR S_IFREG)
      (client_uid (this_client g)) (client_gid (this_client g)) u (time_src g (time_reads g))"
    by (rule create_durable [OF assms(1-12), where fh_arg = fh])
  obtain s where s: "checkpointed W (ino_of g p) (jrnl g') s" "next_leader_shows W (ino_of g p) s (listing g' t)"
    "stored_files W s (open_tx (jrnl g') (ino_of g p))"
    using durable_round [OF assms(13) g'(2) g'(4) [symmetric] g'(5), of old] assms(14-19) e g'(3,6,7) by auto
  then obtain k where "inode_pull (w_pool W) s (w_raw W) u = Inr k" "core k = core i"
    using i(1) by (auto simp: stored_files_def)
  with s(1,2) g'(1,3) i(2) show ?thesis by (intro yieldsI [of _ _ "(0, a)" g']) auto
qed

text \<open>The example leader: its root directory has one file, which is only in the journal.\<close>

lemma leader_f_simps:
  "uuid_src leader_f (uuid_reads leader_f) = splice_prefix_and_postfix 1 0" "fh_list leader_f = Map.empty"
  "child_inodes (dtables leader_f 0) = [''f'' \<mapsto> 1]" "inode_at leader_f x = inode_at tree_fs x" "data_pool leader_f = Map.empty"
  "this_client leader_f = this_client tree_fs"
  by (simp_all add: leader_f_def tree_fs_simps inode_at_def)

lemma lies_in_leader_f:
  assumes "get_parent_dir_path path = Inr ''/''"
  shows "lies_in leader_f path 0 0"
proof -
  have r: "resolve leader_f ns t x = resolve tree_fs ns t x" for ns t x
    by (induction leader_f ns t x rule: resolve.induct)
      (simp_all add: leader_f_def leader_f_ino [unfolded leader_f_def] inode_at_def split: option.split sum.split)
  have l: "listing leader_f t = listing tree_fs t" for t using leader_f_ino by (simp add: listing_def leader_f_def)
  have "local_tree leader_f"
    using local_tree_fs leader_f_ino l unfolding local_tree_def coherent_def by (simp add: leader_f_def inode_at_def)
  moreover have "dentry_tables leader_f = dentry_tables tree_fs" "dtables leader_f = dtables tree_fs" "inode_next leader_f = inode_next tree_fs"
    by (simp_all add: leader_f_def)
  ultimately show ?thesis using lies_in_tree_fs [OF assms] unfolding lies_in_def r leader_f_ino by metis
qed

lemma leader_f_pool:
  "tx_io (w_pool mem_world) (\<lambda>s. s) (w_ords mem_world)" "sound (\<lambda>s. s) (meta (jrnl leader_f))"
  "jqueues (jrnl leader_f) (queue_index (ino_of leader_f 0)) = []" "ino_of leader_f 0 = get_root_ino"
  "stores (\<lambda>s. s) (meta (jrnl leader_f)) JOURNAL (uuid_to_string (w_pool mem_world) (ino_of leader_f 0)) []"
  "tx_entries (open_tx (jrnl leader_f) (ino_of leader_f 0)) \<le> 2 ^ 28"
  "wf_inode (inode_at leader_f 0)"
proof -
  show "wf_inode (inode_at leader_f 0)"
    by (simp add: leader_f_def inode_at_def tree_fs_def root_inode_def inode_new_def new_core_def wf_inode_def S_ISLNK_def mode_bits Let_def)
qed (use root_pool_sound root_pool_journal mem_tx.tx_io_axioms in
  \<open>simp_all add: tx_entries_def transaction_new_def journal_f_simps mem_world_def leader_f_ino tree_fs_file(3)\<close>)

text \<open>What a fresh client loads from the pool after the round.\<close>

lemma fresh_client_loads:
  assumes "next_leader_shows mem_world get_root_ino s m"
  shows "\<exists>t g. get_dentry_table mem_world get_root_ino False (mem_fs s Map.empty) = (Inr (Some t), g) \<and> listing g t = m"
proof -
  let ?g = "mem_fs s Map.empty"
  have "meta (jrnl ?g) = s" "served get_root_ino ?g = None" by (simp_all add: mem_fs_def journal_new_def served_def)
  moreover obtain g1 where "lc_acquire mem_world get_root_ino [] (dropped get_root_ino ?g) = (Inr (0, []), g1)"
    using mem_fs_acquire_root by blast
  ultimately show ?thesis using assms mem_world_iteration unfolding next_leader_shows_def by blast
qed

theorem created_file_survives_witness:
  "\<exists>a g' s t g2. fuse_create mem_world ''/g'' 0x1A4 0 leader_f = (Inr (0, a), g') \<and>
     checkpointed mem_world get_root_ino (jrnl g') s \<and>
     get_dentry_table mem_world get_root_ino False (mem_fs s Map.empty) = (Inr (Some t), g2) \<and>
     listing g2 t = [''f'' \<mapsto> splice_prefix_and_postfix 1 7, ''g'' \<mapsto> splice_prefix_and_postfix 1 0]"
proof -
  let ?u = "splice_prefix_and_postfix 1 0"
  have p: "get_parent_dir_path ''/g'' = Inr ''/''" "get_filename_from_path ''/g'' = Inr ''g''" by code_simp+
  have m: "name_ok ''g''" "\<not> S_ISDIR 0x1A4" "\<not> S_ISLNK (0x1A4 OR S_IFREG)"
    by (simp_all add: name_ok_def S_ISDIR_def S_ISLNK_def mode_bits)
  have u: "fresh_ino leader_f 0 ?u" "?u \<noteq> ino_of leader_f 0"
    by (simp_all add: fresh_ino_def leader_f_listing journal_f_simps tree_fs_simps(8) splice_inj transaction_new_def
        leader_f_pool(4) splice_not_root)
  have fits: "dentry_raw_size (ord_children (w_ords mem_world)) \<lparr>this_ino = ino_of leader_f 0,
      child_list = (listing leader_f 0)(''g'' \<mapsto> ?u)\<rparr> \<le> OBJ_SIZE"
    by (simp add: dentry_raw_size_eq encode_child_def OBJ_SIZE_def leader_f_listing mem_world_def sorted_iter_def insort_is_Cons)
  from created_file_survives [OF leader_f_durable lies_in_leader_f [OF p(1)] p(2) m _ leader_f_simps(1) [symmetric] u _
      leader_f_pool(7,1-3,5) _ leader_f_pool(6) fits, of 0] obtain a g' s where
    "fuse_create mem_world ''/g'' 0x1A4 0 leader_f = (Inr (0, a), g')" "checkpointed mem_world (ino_of leader_f 0) (jrnl g') s"
    "next_leader_shows mem_world (ino_of leader_f 0) s ((listing leader_f 0)(''g'' \<mapsto> ?u))"
    by (auto simp: yields_def leader_f_simps leader_f_listing)
  then show ?thesis using fresh_client_loads leader_f_listing unfolding leader_f_pool(4) by metis
qed

text \<open>
  C11: A file removed by path stays removed: the call returns 0, and after the next commit and checkpoint
  of the directory any client that is granted the lease shows exactly the other entries.  The journal and
  the open transaction are far smaller than the 8 EiB that an \<^verbatim>\<open>off_t\<close> can address.
\<close>

theorem removed_file_stays_removed:
  assumes "durable W g t d0" and "lies_in g path p t" and "get_filename_from_path path = Inr n" and "name_ok n"
    and "child_inodes (dtables g t) n = Some x" and "i_nlink (core (inode_at g x)) = 1"
    and "librados_healthy (w_pool W) objs" and "stores objs (data_pool g) DATA (data_key W g x) c" and "length c < 2 ^ 63"
    and "wf_inode (inode_at g p)"
    and "tx_io (w_pool W) objs (w_ords W)" and "sound objs (meta (jrnl g))" and "jqueues (jrnl g) (queue_index (ino_of g p)) = []"
    and "stores objs (meta (jrnl g)) JOURNAL (uuid_to_string (w_pool W) (ino_of g p)) old" and "length old < 2 ^ 62"
    and "tx_entries (open_tx (jrnl g) (ino_of g p)) \<le> 2 ^ 28"
    and "dentry_raw_size (ord_children (w_ords W)) \<lparr>this_ino = ino_of g p, child_list = (listing g t)(n := None)\<rparr> \<le> OBJ_SIZE"
  shows "yields (fuse_unlink W path) g (\<lambda>r g'. r = 0 \<and>
    (\<exists>s. checkpointed W (ino_of g p) (jrnl g') s \<and> next_leader_shows W (ino_of g p) s ((listing g t)(n := None))))"
proof -
  obtain g' where g': "fuse_unlink W path g = (Inr 0, g')" "durable W g' t d0"
    "listing g' t = (listing g t)(n := None)" "dir_ino (dtables g' t) = ino_of g p"
    "jt_map (jtab (jrnl g')) (ino_of g p) \<noteq> None" "meta (jrnl g') = meta (jrnl g)" "jqueues (jrnl g') = jqueues (jrnl g)"
    "tx_entries (open_tx (jrnl g') (ino_of g p)) \<le> tx_entries (open_tx (jrnl g) (ino_of g p)) + 2"
    by (rule unlink_durable [OF assms(1-10)])
  obtain s where "checkpointed W (ino_of g p) (jrnl g') s" "next_leader_shows W (ino_of g p) s (listing g' t)"
    using durable_round [OF assms(11) g'(2) g'(4) [symmetric] g'(5), of old] assms(12-17) g'(3,6,7,8) by auto
  with g'(1,3) show ?thesis by (intro yieldsI [of _ _ 0 g']) auto
qed

theorem removed_file_stays_removed_witness:
  "\<exists>g' s t g2. fuse_unlink mem_world ''/f'' leader_f = (Inr 0, g') \<and> checkpointed mem_world get_root_ino (jrnl g') s \<and>
     get_dentry_table mem_world get_root_ino False (mem_fs s Map.empty) = (Inr (Some t), g2) \<and> listing g2 t = Map.empty"
proof -
  have p: "get_parent_dir_path ''/f'' = Inr ''/''" "get_filename_from_path ''/f'' = Inr ''f''" by code_simp+
  have x: "name_ok ''f''" "child_inodes (dtables leader_f 0) ''f'' = Some 1" "i_nlink (core (inode_at leader_f 1)) = 1"
    "librados_healthy (w_pool mem_world) (\<lambda>s. s)" "stores (\<lambda>s. s) (data_pool leader_f) DATA (data_key mem_world leader_f 1) []"
    using mem.librados_healthy_axioms
    by (simp_all add: name_ok_def leader_f_simps tree_fs_simps(5,7) tree_fs_simps(7) [simplified] file_inode_simps mem_world_def)
  have fits: "dentry_raw_size (ord_children (w_ords mem_world)) \<lparr>this_ino = ino_of leader_f 0,
      child_list = (listing leader_f 0)(''f'' := None)\<rparr> \<le> OBJ_SIZE"
    by (simp add: dentry_raw_size_eq OBJ_SIZE_def leader_f_listing mem_world_def)
  from removed_file_stays_removed [OF leader_f_durable lies_in_leader_f [OF p(1)] p(2) x _ leader_f_pool(7,1-3,5) _ leader_f_pool(6) fits] obtain g' s where
    "fuse_unlink mem_world ''/f'' leader_f = (Inr 0, g')" "checkpointed mem_world (ino_of leader_f 0) (jrnl g') s"
    "next_leader_shows mem_world (ino_of leader_f 0) s ((listing leader_f 0)(''f'' := None))"
    by (auto simp: yields_def)
  moreover have "(listing leader_f 0)(''f'' := None) = Map.empty" by (simp add: leader_f_listing)
  ultimately show ?thesis using fresh_client_loads unfolding leader_f_pool(4) by metis
qed

end
