(* ===== verification/Diagnostics.thy ===== *)
theory Diagnostics
  imports Util_Path
begin

text \<open>
  What the program prints: the hexadecimal dump of a buffer (\<^verbatim>\<open>hexdump\<close> of \<^verbatim>\<open>client/util.cpp\<close>) and the lines of
  the log (\<^verbatim>\<open>lib/logger/logger.cpp\<close>), as the strings that reach the standard output.
\<close>

section \<open>Hexadecimal numbers\<close>

text \<open>The conversion \<^verbatim>\<open>%x\<close> of \<^verbatim>\<open>printf\<close>, and \<^verbatim>\<open>%0wx\<close>, which fills with zeros up to a width.\<close>

definition hex_digit :: "nat \<Rightarrow> char" where
  "hex_digit d = char_of (if d < 10 then 48 + d else 87 + d)"

fun hex_str :: "nat \<Rightarrow> string" where
  "hex_str n = (if n < 16 then [hex_digit n] else hex_str (n div 16) @ [hex_digit (n mod 16)])"

declare hex_str.simps [simp del]

definition zero_fill :: "nat \<Rightarrow> string \<Rightarrow> string" where
  "zero_fill w s = replicate (w - length s) (CHR ''0'') @ s"

section \<open>The dump\<close>

definition HEXDUMP_COLS :: nat where "HEXDUMP_COLS = 16"

text \<open>\<^verbatim>\<open>isprint\<close> of the C locale; a byte from 128 on is a negative \<^verbatim>\<open>char\<close>.\<close>

definition isprint :: "byte \<Rightarrow> bool" where
  "isprint b \<longleftrightarrow> 32 \<le> unat b \<and> unat b < 127"

definition ascii_column :: "byte list \<Rightarrow> nat \<Rightarrow> nat \<Rightarrow> char" where
  "ascii_column mem len j =
     (if len \<le> j then CHR '' '' else if isprint (mem ! j) then char_of (unat (mem ! j)) else CHR ''.'')"

text \<open>One round of the loop.\<close>

definition hexdump_round :: "byte list \<Rightarrow> nat \<Rightarrow> nat \<Rightarrow> string" where
  "hexdump_round mem len i =
     (if i mod HEXDUMP_COLS = 0 then ''0x'' @ zero_fill 6 (hex_str i) @ '': '' else []) @
     (if i < len then zero_fill 2 (hex_str (unat (mem ! i))) @ '' '' else ''   '') @
     (if i mod HEXDUMP_COLS = HEXDUMP_COLS - 1
      then map (ascii_column mem len) [i - (HEXDUMP_COLS - 1) ..< Suc i] @ [CHR 0x0A] else [])"

text \<open>The bound of the loop is computed in 32 bits.\<close>

definition hexdump :: "byte list \<Rightarrow> 32 word \<Rightarrow> string result" where
  "hexdump mem len =
     (let cols = word_of_nat HEXDUMP_COLS;
          n = unat (len + (if len mod cols \<noteq> 0 then cols - len mod cols else 0))
      in if 0 < n \<and> length mem < unat len then Inl Undefined_behaviour
         else Inr (concat (map (hexdump_round mem (unat len)) [0 ..< n])))"

section \<open>The lines of a dump\<close>

lemma hex_str_length: "n < 16 ^ Suc k \<Longrightarrow> length (hex_str n) \<le> Suc k"
proof (induction k arbitrary: n)
  case (Suc k)
  then have "n div 16 < 16 ^ Suc k" by (simp add: less_mult_imp_div_less mult.commute)
  from Suc.IH [OF this] show ?case by (subst hex_str.simps) simp
qed (simp add: hex_str.simps)

lemma zero_fill_length: "length s \<le> w \<Longrightarrow> length (zero_fill w s) = w"
  by (simp add: zero_fill_def)

lemma digit_zero: "hex_digit 0 = CHR ''0''"
  by code_simp

lemma hex_byte: "zero_fill 2 (hex_str (unat (b :: byte))) = [hex_digit (unat b div 16), hex_digit (unat b mod 16)]"
proof -
  have "unat b < 256" using unsigned_less [of b, where ?'a = nat] by simp
  then have "unat b div 16 < 16" by simp
  then show ?thesis by (cases "unat b < 16") (auto simp: zero_fill_def digit_zero hex_str.simps [of "unat b"] hex_str.simps [of "unat b div 16"])
qed

text \<open>Slices of lines of equal length.\<close>

lemma concat_lines:
  assumes "\<And>i. i < m \<Longrightarrow> length (f i) = w" and "i < m"
  shows "take w (drop (w * i) (concat (map f [0 ..< m]))) = f i" and "length (concat (map f [0 ..< m])) = w * m"
proof -
  have len: "length (concat (map f [0 ..< k])) = w * k" if "k \<le> m" for k
    using that assms(1) by (induction k) (simp_all add: algebra_simps)
  then show "length (concat (map f [0 ..< m])) = w * m" by simp
  have "[0 ..< m] = [0 ..< i] @ i # [Suc i ..< m]" using assms(2) by (metis less_imp_le_nat upt_add_eq_append upt_conv_Cons le0 le_add_diff_inverse)
  then show "take w (drop (w * i) (concat (map f [0 ..< m]))) = f i"
    using len [of i] assms by simp
qed


definition dump_line :: "byte list \<Rightarrow> nat \<Rightarrow> nat \<Rightarrow> string" where
  "dump_line mem len l = concat (map (hexdump_round mem len) [16 * l ..< 16 + 16 * l])"

definition cell :: "byte list \<Rightarrow> nat \<Rightarrow> nat \<Rightarrow> string" where
  "cell mem len i = (if i < len then [hex_digit (unat (mem ! i) div 16), hex_digit (unat (mem ! i) mod 16), CHR '' ''] else ''   '')"

lemma cell_length: "length (cell mem len i) = 3"
  by (simp add: cell_def)

lemma upt_shift: "[16 * l ..< 16 + 16 * l] = map ((+) (16 * l)) [0 ..< 16]"
proof -
  have "map ((+) (16 * l)) [0 ..< 16] = map (\<lambda>i. i + 16 * l) [0 ..< 16]" by (simp add: add.commute)
  then show ?thesis using map_add_upt [of "16 * l" 16] by simp
qed

lemma dump_line_eq:
  "dump_line mem len l = ''0x'' @ zero_fill 6 (hex_str (16 * l)) @ '': '' @ concat (map (cell mem len) [16 * l ..< 16 + 16 * l]) @
     map (ascii_column mem len) [16 * l ..< 16 + 16 * l] @ [CHR 0x0A]"
proof -
  have m: "(16 * l + k) mod 16 = k" if "k < 16" for k using that by simp
  have "hexdump_round mem len (16 * l + k) = (if k = 0 then ''0x'' @ zero_fill 6 (hex_str (16 * l)) @ '': '' else []) @ cell mem len (16 * l + k) @
     (if k = 15 then map (ascii_column mem len) [16 * l ..< 16 + 16 * l] @ [CHR 0x0A] else [])" if "k < 16" for k
    using m [OF that] by (auto simp: hexdump_round_def HEXDUMP_COLS_def hex_byte cell_def)
  note r = this
  have 16: "[0 ..< 16] = 0 # [1 ..< 15] @ [15]" by (simp add: upt_rec)
  have "concat (map (\<lambda>k. hexdump_round mem len (16 * l + k)) [1 ..< 15]) = concat (map (\<lambda>k. cell mem len (16 * l + k)) [1 ..< 15])"
    by (intro arg_cong [where f = concat] map_cong) (simp_all add: r)
  then show ?thesis
    using r [of 0] r [of 15] unfolding dump_line_def upt_shift 16 by (simp add: comp_def)
qed

lemma dump_line_length: "l < 16 ^ 5 \<Longrightarrow> length (dump_line mem len l) = 75"
proof -
  assume "l < 16 ^ 5"
  then have "length (zero_fill 6 (hex_str (16 * l))) = 6" using hex_str_length [of "16 * l" 5] by (intro zero_fill_length) simp
  moreover have "length (concat (map (cell mem len) [16 * l ..< 16 + 16 * l])) = 48"
    by (simp add: upt_shift length_concat comp_def cell_length sum_list_triv)
  ultimately show ?thesis by (simp add: dump_line_eq)
qed

text \<open>The digits and the character of one byte within its line.\<close>

lemma dump_line_nth:
  assumes "l < 16 ^ 5" and "k < 16"
  shows "take 3 (drop (10 + 3 * k) (dump_line mem len l)) = cell mem len (16 * l + k)"
    and "dump_line mem len l ! (58 + k) = ascii_column mem len (16 * l + k)"
proof -
  have z: "length (zero_fill 6 (hex_str (16 * l))) = 6"
    using hex_str_length [of "16 * l" 5] assms(1) by (intro zero_fill_length) simp
  have cells: "concat (map (cell mem len) [16 * l ..< 16 + 16 * l]) = concat (map (\<lambda>k. cell mem len (16 * l + k)) [0 ..< 16])"
    by (simp add: upt_shift comp_def)
  have c: "take 3 (drop (3 * k) (concat (map (\<lambda>k. cell mem len (16 * l + k)) [0 ..< 16]))) = cell mem len (16 * l + k)"
    "length (concat (map (\<lambda>k. cell mem len (16 * l + k)) [0 ..< 16])) = 48"
    using concat_lines [of 16 "\<lambda>k. cell mem len (16 * l + k)" 3 k] assms(2) by (simp_all add: cell_length)
  define p where "p = ''0x'' @ zero_fill 6 (hex_str (16 * l)) @ '': ''"
  define cs where "cs = concat (map (\<lambda>k. cell mem len (16 * l + k)) [0 ..< 16])"
  have line: "dump_line mem len l = p @ cs @ map (ascii_column mem len) [16 * l ..< 16 + 16 * l] @ [CHR 0x0A]"
    by (simp add: dump_line_eq cells p_def cs_def)
  have p: "length p = 10" using z by (simp add: p_def)
  show "take 3 (drop (10 + 3 * k) (dump_line mem len l)) = cell mem len (16 * l + k)"
    using c assms(2) unfolding line cs_def [symmetric] by (simp add: p)
  show "dump_line mem len l ! (58 + k) = ascii_column mem len (16 * l + k)"
    using c(2) assms(2) unfolding line cs_def [symmetric] by (simp add: p nth_append)
qed

section \<open>Reading a dump back\<close>

definition digit_value :: "char \<Rightarrow> nat" where
  "digit_value c = (if of_char c < (58 :: nat) then of_char c - 48 else of_char c - 87)"

lemma digit_value: "d < 16 \<Longrightarrow> digit_value (hex_digit d) = d"
proof -
  assume "d < 16"
  then have "of_char (hex_digit d) = (if d < 10 then 48 + d else 87 + d)" unfolding hex_digit_def by (simp only: of_char_of) simp
  then show ?thesis using \<open>d < 16\<close> unfolding digit_value_def by (simp split: if_splits)
qed

text \<open>The byte at a position, from its digits in its line.\<close>

definition dumped_byte :: "string \<Rightarrow> nat \<Rightarrow> byte" where
  "dumped_byte out i =
     (let p = 75 * (i div 16) + 10 + 3 * (i mod 16)
      in word_of_nat (16 * digit_value (out ! p) + digit_value (out ! Suc p)))"

lemma dump_rounds:
  "concat (map (hexdump_round mem len) [0 ..< 16 * m]) = concat (map (dump_line mem len) [0 ..< m])"
proof (induction m)
  case (Suc m)
  have e: "16 * Suc m = 16 * m + 16" "16 + 16 * m = 16 * m + 16" by simp_all
  have "[0 ..< 16 * Suc m] = [0 ..< 16 * m] @ [16 * m ..< 16 + 16 * m]"
    unfolding e by (rule upt_add_eq_append) simp
  then show ?case using Suc by (simp add: dump_line_def)
qed simp

lemma line_arith:
  "(n :: nat) mod 16 \<noteq> 0 \<Longrightarrow> n + (16 - n mod 16) = 16 * ((n + 15) div 16)" "n mod 16 = 0 \<Longrightarrow> n = 16 * ((n + 15) div 16)"
  "i < n \<Longrightarrow> i div 16 < (n + 15) div 16"
proof -
  have up: "(16 * q + r + 15) div 16 = Suc q" if "r < 16" "0 < r" for q r :: nat
    using that by (intro div_nat_eqI) simp_all
  have n: "n = 16 * (n div 16) + n mod 16" "n mod 16 < 16" by simp_all
  show "n + (16 - n mod 16) = 16 * ((n + 15) div 16)" if "n mod 16 \<noteq> 0"
  proof -
    have "16 * ((n + 15) div 16) = 16 + 16 * (n div 16)" using up [of "n mod 16" "n div 16"] that by simp
    then show ?thesis using n by linarith
  qed
  show "n = 16 * ((n + 15) div 16)" if "n mod 16 = 0"
    using n(1) that by (simp add: div_add1_eq)
  show "i div 16 < (n + 15) div 16" if "i < n"
  proof -
    have "(i + 16) div 16 \<le> (n + 15) div 16" using that by (intro div_le_mono) linarith
    then show ?thesis by simp
  qed
qed

lemma hexdump_rounds:
  assumes "unat (len :: 32 word) \<le> 2 ^ 24"
  shows "unat (len + (if len mod 16 \<noteq> 0 then 16 - len mod 16 else 0)) = 16 * ((unat len + 15) div 16)"
proof -
  have m: "unat (len mod 16) = unat len mod 16" by (simp add: unat_mod)
  have s: "unat (16 - len mod 16) = 16 - unat len mod 16"
    using m by (subst unat_sub) (simp_all add: word_le_nat_alt)
  have z: "len mod 16 \<noteq> 0 \<longleftrightarrow> unat len mod 16 \<noteq> 0" using m by (metis unat_eq_zero)
  show ?thesis
  proof (cases "unat len mod 16 = 0")
    case False
    have "unat len + unat (16 - len mod 16) < 2 ^ LENGTH(32)" using assms s by simp
    then have "unat (len + (16 - len mod 16)) = unat len + (16 - unat len mod 16)" using s unat_add_lem [of len "16 - len mod 16"] by simp
    then show ?thesis using False z line_arith(1) [OF False] by simp
  next
    case True
    then show ?thesis using z line_arith(2) [OF True] by simp
  qed
qed

theorem hexdump_roundtrip:
  assumes "unat len \<le> length mem" and "unat len \<le> 2 ^ 24"
  shows "\<exists>out. hexdump mem len = Inr out \<and> length out = 75 * ((unat len + 15) div 16) \<and>
    map (dumped_byte out) [0 ..< unat len] = take (unat len) mem \<and>
    (\<forall>i < unat len. out ! (75 * (i div 16) + 58 + i mod 16) =
       (if isprint (mem ! i) then char_of (unat (mem ! i)) else CHR ''.''))"
proof -
  let ?n = "unat len" and ?m = "(unat len + 15) div 16"
  let ?out = "concat (map (dump_line mem ?n) [0 ..< ?m])"
  have cols: "(word_of_nat HEXDUMP_COLS :: 32 word) = 16" by (simp add: HEXDUMP_COLS_def)
  have out: "hexdump mem len = Inr ?out"
    using assms(1) hexdump_rounds [OF assms(2)] by (simp add: hexdump_def cols Let_def dump_rounds del: mult_is_0)
  have lines: "length (dump_line mem ?n l) = 75" if "l < ?m" for l
    using that assms(2) by (intro dump_line_length) simp
  have at: "?out ! (75 * (i div 16) + j) = dump_line mem ?n (i div 16) ! j" if "i < ?n" "j < 75" for i j
  proof -
    have l: "i div 16 < ?m" by (rule line_arith(3) [OF that(1)])
    have "?out ! (75 * (i div 16) + j) = take 75 (drop (75 * (i div 16)) ?out) ! j"
      using that(2) concat_lines(2) [OF lines l] l by simp
    then show ?thesis using concat_lines(1) [OF lines l] by simp
  qed
  have i16: "16 * (i div 16) + i mod 16 = i" "i div 16 < 16 ^ 5" if "i < ?n" for i using that assms(2) by simp_all
  have cell: "cell mem ?n i = take 3 (drop (10 + 3 * (i mod 16)) (dump_line mem ?n (i div 16)))"
    and char: "dump_line mem ?n (i div 16) ! (58 + i mod 16) = ascii_column mem ?n i" if "i < ?n" for i
    using dump_line_nth [OF i16(2) [OF that], of "i mod 16" mem ?n] i16(1) [OF that] by simp_all
  have "dumped_byte ?out i = mem ! i" if i: "i < ?n" for i
  proof -
    let ?l = "dump_line mem ?n (i div 16)"
    have j: "10 + 3 * (i mod 16) + 1 < 75" by simp
    have "length ?l = 75" using lines line_arith(3) [OF i] by simp
    then have "?l ! (10 + 3 * (i mod 16) + j) = cell mem ?n i ! j" if "j < 3" for j
      using that unfolding cell [OF i] by simp
    from this [of 0] this [of 1] have "?out ! (75 * (i div 16) + 10 + 3 * (i mod 16)) = hex_digit (unat (mem ! i) div 16)"
      "?out ! Suc (75 * (i div 16) + 10 + 3 * (i mod 16)) = hex_digit (unat (mem ! i) mod 16)"
      using i at [OF i, of "10 + 3 * (i mod 16)"] at [OF i j] by (simp_all add: cell_def ac_simps)
    moreover have "unat (mem ! i) div 16 < 16" using unsigned_less [of "mem ! i", where ?'a = nat] by simp
    ultimately have "16 * digit_value (?out ! (75 * (i div 16) + 10 + 3 * (i mod 16))) +
        digit_value (?out ! Suc (75 * (i div 16) + 10 + 3 * (i mod 16))) = unat (mem ! i)" by (simp add: digit_value)
    then show ?thesis unfolding dumped_byte_def Let_def by (simp only:) simp
  qed
  then have "map (dumped_byte ?out) [0 ..< ?n] = take ?n mem"
    using assms(1) by (intro nth_equalityI) simp_all
  moreover have "length ?out = 75 * ?m"
    using concat_lines(2) [of ?m "dump_line mem ?n" 75] lines by (cases "?m = 0") simp_all
  moreover have "?out ! (75 * (i div 16) + 58 + i mod 16) =
       (if isprint (mem ! i) then char_of (unat (mem ! i)) else CHR ''.'')" if i: "i < ?n" for i
    using at [OF i, of "58 + i mod 16"] char [OF i] i by (simp add: ascii_column_def add.assoc)
  ultimately show ?thesis using out by blast
qed

theorem hexdump_roundtrip_witness:
  "\<exists>out. hexdump [0x48, 0x69, 0x00] 3 = Inr out \<and> map (dumped_byte out) [0, 1, 2] = [0x48, 0x69, 0x00]"
proof -
  have "[0 ..< 3] = [0, 1, 2 :: nat]" by code_simp
  then show ?thesis using hexdump_roundtrip [of 3 "[0x48, 0x69, 0x00]"] by auto
qed

section \<open>The log\<close>

datatype code_location =
    fuse_op | local_fs_op | remote_fs_op | rados_io_ops | dentry_ops | inode_ops | directory_table_ops
  | dentry_table_ops | lease_ops | rpc_client_ops | rpc_server_ops | manager_lease | manager_session
  | file_handler_ops | journal_ops | journal_table_ops | transaction_ops

fun location_str :: "code_location \<Rightarrow> string" where
  "location_str fuse_op = ''fuse_operations''"
| "location_str local_fs_op = ''local_fs_ops''"
| "location_str remote_fs_op = ''remote_fs_ops''"
| "location_str rados_io_ops = ''rados_io_ops''"
| "location_str dentry_ops = ''dentry_ops''"
| "location_str inode_ops = ''inode_operations''"
| "location_str directory_table_ops = ''directory_table''"
| "location_str dentry_table_ops = ''dentry_table''"
| "location_str lease_ops = ''lease_operation''"
| "location_str rpc_client_ops = ''rpc_client''"
| "location_str rpc_server_ops = ''rpc_server''"
| "location_str manager_lease = ''manager_lease''"
| "location_str manager_session = ''manager_session''"
| "location_str file_handler_ops = ''file_handler''"
| "location_str journal_ops = ''journal''"
| "location_str journal_table_ops = ''journal_table''"
| "location_str transaction_ops = ''transaction''"

definition CYAN :: string where "CYAN = CHR 0x1B # ''[0;36m''"
definition RESET :: string where "RESET = CHR 0x1B # ''[0m''"

text \<open>
  \<open>debug\<close> is the build option: without it nothing is printed.  The field of width 20 is adjusted to the left,
  as the constructor sets it.
\<close>

definition logger_log :: "bool \<Rightarrow> code_location \<Rightarrow> string \<Rightarrow> string" where
  "logger_log debug location message =
     (if debug then
        (let tag = ''['' @ location_str location @ '']'';
             text = (if location = fuse_op then CYAN @ message @ RESET else message)
         in tag @ replicate (20 - length tag) (CHR '' '') @ text @ [CHR 0x0A])
      else [])"

text \<open>Every tag fits the field, so the message starts at column 20, and the tags tell the locations apart.\<close>

lemma location_tag: "length (location_str l) \<le> 18"
  by (cases l) simp_all

lemma location_str_inj: "location_str l = location_str m \<Longrightarrow> l = m"
  by (cases l; cases m) simp_all

lemma logger_log_columns:
  "drop 20 (logger_log True l message) = (if l = fuse_op then CYAN @ message @ RESET else message) @ [CHR 0x0A]"
proof -
  define tag where "tag = ''['' @ location_str l @ '']''"
  have "length tag \<le> 20" using location_tag [of l] by (simp add: tag_def)
  then show ?thesis unfolding logger_log_def Let_def tag_def [symmetric] by simp
qed

end
