(* ===== verification/Rados_Conn.thy ===== *)
theory Rados_Conn
  imports Nmfs_Prelude
begin

text \<open>
  The connection of a \<^verbatim>\<open>rados_io\<close> object (its constructor and destructor in \<^verbatim>\<open>lib/rados_io/rados_io.cpp\<close>).  The
  cluster handle and the I/O context of librados are the state \<open>'c\<close>; the calls on them are the record
  \<open>cluster_calls\<close>, a parameter.
\<close>

record conn_info =
  ci_user :: string
  ci_cluster :: string
  ci_flags :: "64 word"

record 'c cluster_calls =
  cl_init2 :: "string \<Rightarrow> string \<Rightarrow> 64 word \<Rightarrow> 'c \<Rightarrow> int \<times> 'c"
  cl_conf_read_file :: "string \<Rightarrow> 'c \<Rightarrow> int \<times> 'c"
  cl_connect :: "'c \<Rightarrow> int \<times> 'c"
  cl_ioctx_create :: "string \<Rightarrow> 'c \<Rightarrow> int \<times> 'c"
  cl_ioctx_close :: "'c \<Rightarrow> 'c"
  cl_shutdown :: "'c \<Rightarrow> 'c"

text \<open>One step of the constructor: a negative code ends it with an exception, after the clean-up.\<close>

definition conn_step :: "('c \<Rightarrow> int \<times> 'c) \<Rightarrow> ('c \<Rightarrow> 'c) \<Rightarrow> string \<Rightarrow> ('c, unit) st" where
  "conn_step call cleanup msg c =
     (case call c of (ret, c') \<Rightarrow> if ret < 0 then (Inl (Runtime_error msg), cleanup c') else (Inr (), c'))"

definition rados_io_new :: "'c cluster_calls \<Rightarrow> conn_info \<Rightarrow> string \<Rightarrow> ('c, unit) st" where
  "rados_io_new C ci pool =
     bindE (conn_step (cl_init2 C (ci_user ci) (ci_cluster ci) (ci_flags ci)) id
       ''rados_io::rados_io() failed (couldn't initialize the cluster handle)'') (\<lambda>_.
     bindE (conn_step (cl_conf_read_file C ''/etc/ceph/ceph.conf'') (cl_shutdown C)
       ''rados_io::rados_io() failed (couldn't read the Ceph configuration file)'') (\<lambda>_.
     bindE (conn_step (cl_connect C) (cl_shutdown C)
       ''rados_io::rados_io() failed (couldn't connect to cluster)'') (\<lambda>_.
       conn_step (cl_ioctx_create C pool) (cl_shutdown C)
       ''rados_io::rados_io() failed (couldn't set up ioctx)'')))"

definition rados_io_delete :: "'c cluster_calls \<Rightarrow> 'c \<Rightarrow> 'c" where
  "rados_io_delete C c = cl_shutdown C (cl_ioctx_close C c)"

text \<open>
  What librados documents of these calls, counting the initialised cluster handles and the open I/O contexts:
  a call that fails opens nothing, the others open or close what they say.
\<close>

definition counts_handles :: "'c cluster_calls \<Rightarrow> ('c \<Rightarrow> nat) \<Rightarrow> ('c \<Rightarrow> nat) \<Rightarrow> bool" where
  "counts_handles C handles contexts \<longleftrightarrow>
     (\<forall>u n f c r c'. cl_init2 C u n f c = (r, c') \<longrightarrow> handles c' = (if r < 0 then handles c else Suc (handles c)) \<and> contexts c' = contexts c) \<and>
     (\<forall>p c r c'. cl_conf_read_file C p c = (r, c') \<longrightarrow> handles c' = handles c \<and> contexts c' = contexts c) \<and>
     (\<forall>c r c'. cl_connect C c = (r, c') \<longrightarrow> handles c' = handles c \<and> contexts c' = contexts c) \<and>
     (\<forall>p c r c'. cl_ioctx_create C p c = (r, c') \<longrightarrow> handles c' = handles c \<and>
        contexts c' = (if r < 0 then contexts c else Suc (contexts c))) \<and>
     (\<forall>c. handles (cl_ioctx_close C c) = handles c \<and> contexts (cl_ioctx_close C c) = contexts c - 1) \<and>
     (\<forall>c. handles (cl_shutdown C c) = handles c - 1 \<and> contexts (cl_shutdown C c) = contexts c)"

lemma conn_stepE:
  assumes "conn_step call cleanup msg c = (r, c2)"
  obtains n c1 where "call c = (n, c1)" and "n < 0" and "r = Inl (Runtime_error msg)" and "c2 = cleanup c1"
    | n where "call c = (n, c2)" and "\<not> n < 0" and "r = Inr ()"
  using assms by (auto simp: conn_step_def split: prod.splits if_splits)

text \<open>A cluster that counts, and refuses the connection with the code \<open>k\<close> when it is negative.\<close>

definition counting_cluster :: "int \<Rightarrow> (nat \<times> nat) cluster_calls" where
  "counting_cluster k =
     \<lparr>cl_init2 = (\<lambda>u n f (h, x). (0, (Suc h, x))), cl_conf_read_file = (\<lambda>p c. (0, c)), cl_connect = (\<lambda>c. (k, c)),
      cl_ioctx_create = (\<lambda>p (h, x). (0, (h, Suc x))), cl_ioctx_close = (\<lambda>(h, x). (h, x - 1)),
      cl_shutdown = (\<lambda>(h, x). (h - 1, x))\<rparr>"

text \<open>
  A connection leaks nothing: a constructor that throws leaves no handle initialised and no context open,
  whichever of its four steps failed; one that returns leaves exactly one of each, and the destructor
  releases both.
\<close>

theorem rados_io_connection_balanced:
  assumes "counts_handles C handles contexts" and "rados_io_new C ci pool c = (r, c')"
  shows "case r of
      Inl e \<Rightarrow> (\<exists>m. e = Runtime_error m) \<and> handles c' = handles c \<and> contexts c' = contexts c
    | Inr _ \<Rightarrow> handles c' = Suc (handles c) \<and> contexts c' = Suc (contexts c) \<and>
        handles (rados_io_delete C c') = handles c \<and> contexts (rados_io_delete C c') = contexts c"
  using assms unfolding rados_io_new_def counts_handles_def
  by (auto simp: bindE_def rados_io_delete_def split: prod.splits sum.splits elim!: conn_stepE)


theorem rados_io_connection_balanced_witness:
  "let ci = \<lparr>ci_user = ''client.admin'', ci_cluster = ''ceph'', ci_flags = 0\<rparr> in
     snd (snd (rados_io_new (counting_cluster 0) ci ''nmfs.meta'' (0, 0))) = 1 \<and>
     fst (snd (rados_io_new (counting_cluster (-2)) ci ''nmfs.meta'' (3, 1))) = 3"
proof -
  let ?new = "\<lambda>k. rados_io_new (counting_cluster k) \<lparr>ci_user = ''client.admin'', ci_cluster = ''ceph'', ci_flags = 0\<rparr> ''nmfs.meta''"
  have c: "counts_handles (counting_cluster k) fst snd" for k
    by (auto simp: counts_handles_def counting_cluster_def split: prod.splits)
  obtain r c' where ok: "?new 0 (0, 0) = (r, c')" by (metis surj_pair)
  obtain q d where bad: "?new (-2) (3, 1) = (q, d)" by (metis surj_pair)
  have "r = Inr ()" "\<exists>e. q = Inl e"
    using ok bad by (auto simp: rados_io_new_def conn_step_def counting_cluster_def bindE_def)
  then show ?thesis
    using rados_io_connection_balanced [OF c ok] rados_io_connection_balanced [OF c bad] ok bad by auto
qed

end
