(* ===== verification/Bench_IO.thy ===== *)
theory Bench_IO
  imports Rados_Refine Rados_Conn
begin

text \<open>
  The benchmarks' own \<^verbatim>\<open>rados_io\<close> (\<^verbatim>\<open>client/bench/rados_io.cpp\<close>): one object per key, no stripes, and a length of
  zero that means the rest of the object.  It calls \<^verbatim>\<open>write_full\<close>, which the library never does, so that call
  is an argument.  Offsets are natural numbers.
\<close>

section \<open>Operations\<close>

definition bench_rados_io_new :: "'c cluster_calls \<Rightarrow> conn_info \<Rightarrow> string \<Rightarrow> ('c, unit) st" where
  "bench_rados_io_new C ci pool =
     bindE (conn_step (cl_init2 C (ci_user ci) (ci_cluster ci) (ci_flags ci)) id
       ''rados_io::rados_io() failed (couldn't initialize the cluster handle)'') (\<lambda>_.
     bindE (conn_step (cl_conf_read_file C ''/etc/ceph/ceph.conf'') (cl_shutdown C)
       ''rados_io::rados_io() failed (couldn't read the Ceph configuration file)'') (\<lambda>_.
     bindE (conn_step (cl_connect C) (cl_shutdown C)
       ''rados_io::rados_io() failed (couldn't connect to cluster)'') (\<lambda>_.
       conn_step (cl_ioctx_create C pool) (cl_shutdown C)
       ''rados_io::rados_io() failed (couldn't set up ioctx)'')))"

definition bench_rados_io_delete :: "'c cluster_calls \<Rightarrow> 'c \<Rightarrow> 'c" where
  "bench_rados_io_delete C c = cl_shutdown C (cl_ioctx_close C c)"

text \<open>The length to read.  The first message continues over a line break, with the tabs of the next line.\<close>

definition bench_read_length :: "'s extern \<Rightarrow> 's \<Rightarrow> string \<Rightarrow> nat \<Rightarrow> nat \<Rightarrow> nat result" where
  "bench_read_length L s key offset len =
     (if len = 0 then
        (case lr_stat L s key of (ret, sz) \<Rightarrow>
           if ret < 0 then
             (if ret = - ENOENT then
                Inl (Runtime_error (''rados_io::read() failed '' @ replicate 6 (CHR 0x09) @ ''(object doesn't exist)''))
              else Inl (Runtime_error ''rados_io::read() failed''))
           else Inr (if offset < sz then sz - offset else 0))
      else Inr len)"

text \<open>The result is the returned count and the new value of the caller's string.\<close>

definition bench_read :: "'s extern \<Rightarrow> 's \<Rightarrow> string \<Rightarrow> nat \<Rightarrow> nat \<Rightarrow> (nat \<times> byte list) result" where
  "bench_read L s key offset len0 =
     (case bench_read_length L s key offset len0 of
        Inl e \<Rightarrow> Inl e
      | Inr len \<Rightarrow>
          (case lr_read L s key len offset of (ret, bl) \<Rightarrow>
             if 0 \<le> ret then Inr (nat ret, bl)
             else if ret = - ENOENT then Inl (Runtime_error ''rados_io::read() failed (object doesn't exist)'')
             else Inl (Runtime_error ''rados_io::read() failed'')))"

definition bench_write ::
  "'s extern \<Rightarrow> ('s \<Rightarrow> string \<Rightarrow> byte list \<Rightarrow> int \<times> 's) \<Rightarrow> string \<Rightarrow> byte list \<Rightarrow> nat \<Rightarrow> ('s, nat) st" where
  "bench_write L write_full key value offset s =
     (case (if offset \<noteq> 0 then lr_write L s key value offset else write_full s key value) of (ret, s') \<Rightarrow>
        if 0 \<le> ret then (Inr (length value), s') else (Inl (Runtime_error ''rados_io::write() failed''), s'))"

definition bench_exist :: "'s extern \<Rightarrow> 's \<Rightarrow> string \<Rightarrow> bool result" where
  "bench_exist L s key =
     (case lr_stat L s key of (ret, _) \<Rightarrow>
        if 0 \<le> ret then Inr True
        else if ret = - ENOENT then Inr False
        else Inl (Runtime_error ''rados_io::exist() failed''))"

definition bench_remove :: "'s extern \<Rightarrow> string \<Rightarrow> ('s, unit) st" where
  "bench_remove L key s =
     (case lr_remove L s key of (ret, s') \<Rightarrow>
        if 0 \<le> ret then (Inr (), s')
        else if ret = - ENOENT then (Inr (), s')
        else (Inl (Runtime_error ''rados_io::remove() failed''), s'))"

section \<open>Correctness\<close>

text \<open>librados with the call that replaces a whole object.\<close>

locale librados_full = librados_healthy L objs
  for L :: "'s extern" and objs :: "'s \<Rightarrow> string \<Rightarrow> byte list option" +
  fixes write_full :: "'s \<Rightarrow> string \<Rightarrow> byte list \<Rightarrow> int \<times> 's"
  assumes write_full_ok: "write_full s k bl = (ret, s') \<Longrightarrow> 0 \<le> ret \<Longrightarrow> objs s' = (objs s)(k \<mapsto> bl)"
    and write_full_healthy: "0 \<le> fst (write_full s k bl)"
begin

lemma bench_write_ok:
  obtains s' where "bench_write L write_full key v off s = (Inr (length v), s')"
    and "objs s' = (objs s)(key \<mapsto> (if off = 0 then v else obj_write (objs s key) off v))"
proof (cases "off = 0")
  case True
  obtain r s' where w: "write_full s key v = (r, s')" by fastforce
  then have "0 \<le> r" using write_full_healthy [of s key v] by simp
  then show thesis using that [of s'] write_full_ok [OF w] w True by (simp add: bench_write_def)
next
  case False
  obtain r s' where w: "lr_write L s key v off = (r, s')" by fastforce
  then have "0 \<le> r" using write_healthy [of s key v off] by simp
  then show thesis using that [of s'] write_ok [OF w] w False by (simp add: bench_write_def)
qed

lemma bench_read_length_ok:
  assumes "objs s key = Some d"
  shows "bench_read_length L s key off len = Inr (if len = 0 then length d - off else len)"
proof -
  obtain r n where st: "lr_stat L s key = (r, n)" by fastforce
  then have "0 \<le> r" using stat_healthy [of s key] assms by simp
  then show ?thesis using stat_ok [OF st] st assms by (auto simp: bench_read_length_def)
qed

text \<open>Reading gives the bytes of the range, and with the length zero everything from the offset on.\<close>

lemma bench_read_ok:
  assumes d: "objs s key = Some d"
  obtains n bl where "bench_read L s key off len = Inr (n, bl)"
    and "take n bl = (if len = 0 then drop off d else take len (drop off d))"
proof -
  let ?len = "if len = 0 then length d - off else len"
  obtain r bl where rd: "lr_read L s key ?len off = (r, bl)" by fastforce
  then have r: "0 \<le> r" using read_healthy [of s key ?len off] d by simp
  have "take (nat r) bl = take ?len (drop off d)" by (rule read_ok [OF rd r d])
  then show thesis using that [of "nat r" bl] rd r bench_read_length_ok [OF d, of off len]
    by (auto simp: bench_read_def)
qed

lemma bench_exist_ok: "bench_exist L s key = Inr (objs s key \<noteq> None)"
proof -
  obtain r n where st: "lr_stat L s key = (r, n)" by fastforce
  then show ?thesis using stat_healthy [of s key] stat_ENOENT [of s key] by (cases "objs s key") (auto simp: bench_exist_def ENOENT_def)
qed

lemma bench_remove_ok:
  obtains s' where "bench_remove L key s = (Inr (), s')" and "objs s' = (objs s)(key := None)"
proof -
  obtain r s' where rm: "lr_remove L s key = (r, s')" by fastforce
  show thesis
  proof (cases "objs s key")
    case None
    then have r: "r = - ENOENT" using remove_ENOENT [of s key] rm by simp
    have "(objs s)(key := None) = objs s" using None by auto
    then show ?thesis using that [of s'] remove_ENOENT_state [of s key s'] rm r by (simp add: bench_remove_def)
  next
    case (Some d)
    then have "0 \<le> r" using remove_healthy [of s key] rm by simp
    then show ?thesis using that [of s'] remove_ok [OF rm] rm by (simp add: bench_remove_def)
  qed
qed

end

interpretation mem_full: librados_full mem_librados "\<lambda>s. s" "\<lambda>s k bl. (0, s(k \<mapsto> bl))"
  by unfold_locales simp_all

text \<open>
  What is written from the start is read back as the whole value, whatever was there before: a shorter value cuts the
  object, where the library's \<^verbatim>\<open>write\<close> keeps the bytes after it.
\<close>

lemma bench_write_then_read:
  assumes "librados_full L objs write_full"
  shows "\<exists>s' n bl. bench_write L write_full key v 0 s = (Inr (length v), s') \<and> bench_read L s' key 0 0 = Inr (n, bl) \<and>
    take n bl = v \<and> bench_exist L s' key = Inr True"
proof -
  obtain s' where s': "bench_write L write_full key v 0 s = (Inr (length v), s')" "objs s' key = Some v"
    by (rule librados_full.bench_write_ok [OF assms, of key v 0 s]) simp
  obtain n bl where "bench_read L s' key 0 0 = Inr (n, bl)" "take n bl = v"
    by (rule librados_full.bench_read_ok [OF assms s'(2), of 0 0]) simp
  then show ?thesis using s' librados_full.bench_exist_ok [OF assms, of s' key] by auto
qed

lemma bench_write_then_read_witness:
  "\<exists>s' n bl. bench_write mem_librados (\<lambda>s k bl. (0, s(k \<mapsto> bl))) ''k'' [7] 0 [''k'' \<mapsto> [1, 2, 3]] = (Inr 1, s') \<and>
     bench_read mem_librados s' ''k'' 0 0 = Inr (n, bl) \<and> take n bl = [7]"
  using bench_write_then_read [OF mem_full.librados_full_axioms, of "''k''" "[7]" "[''k'' \<mapsto> [1, 2, 3]]"] by auto

text \<open>Constructor and destructor are those of the library, so they leak no handle either.\<close>

lemma bench_rados_io_connection: "bench_rados_io_new = rados_io_new" "bench_rados_io_delete = rados_io_delete"
  by (simp_all add: fun_eq_iff bench_rados_io_new_def rados_io_new_def bench_rados_io_delete_def rados_io_delete_def)

end
