(* ===== verification/Spec2Isabelle.thy ===== *)
theory Spec2Isabelle
  imports Cluster Durable_Files Diagnostics Bench_IO
begin

text \<open>
  NmFS is a distributed file system in user space (FUSE) over the object store Ceph RADOS.  Every
  mounted client keeps the directories it uses in memory.  A manager leases each directory to one
  client at a time; that client is its leader.  Operations on a directory run at its leader: locally,
  or by a remote procedure call from another client, which follows the lease when it has moved.  The
  leader journals every change per directory; background threads commit the transactions to the
  metadata pool and later apply them to the stored directories and inodes.  File data goes to the data
  pool directly, striped over objects of 4 MiB.

  This is the root of the verification library.  Each theory translates one part of the program, under
  \<^verbatim>\<open>src/\<close>, and proves what makes it correct.  The layers, from the bottom:

  \<^item> \<open>Nmfs_Prelude\<close>: exceptions as the datatype \<open>exn\<close>, stateful code as functions to a result and a state
    (\<open>bindE\<close>, \<open>liftE\<close>, \<open>foldE\<close>), the total-correctness predicate \<open>yields\<close>, byte encodings of machine
    integers, iteration over maps (locale \<open>iteration\<close>, interpreted on the order of \<^verbatim>\<open>std::map\<close>).
  \<^item> \<open>Uuid\<close> (\<^verbatim>\<open>client/meta/uuid_controller.cpp\<close>): inode numbers and their two 64-bit halves.
  \<^item> \<open>Rados_IO\<close>, \<open>Rados_Refine\<close> (\<^verbatim>\<open>lib/rados_io\<close>): reading, writing, truncating, removing and measuring a
    byte string striped over objects.  librados is the record \<open>extern\<close>; the locale \<open>librados_healthy\<close>
    states its documented behaviour and holds the proofs that the striped operations implement the
    operations on one flat byte string and touch nothing else.  \<open>mem_librados\<close> interprets it.
  \<^item> \<open>Util_Path\<close> (\<^verbatim>\<open>client/util.cpp\<close>), \<open>Inode\<close>, \<open>Dentry\<close> (\<^verbatim>\<open>client/meta\<close>): splitting of paths; inodes with
    their serialised form, permission check and rename messages; stored directories.
  \<^item> \<open>Transaction\<close>, \<open>Journal\<close> (\<^verbatim>\<open>client/journal\<close>): the journal of a directory, its record format, the table
    of open transactions, the queues, and a step relation \<open>jstep\<close> that interleaves operations with the
    commit and checkpoint threads.  Recording an operation has the effect of that operation on the
    directory; transactions are checkpointed in commit order; none is lost, open or committed.
  \<^item> \<open>Lease\<close>, \<open>Session\<close> (\<^verbatim>\<open>manager/lease\<close>, \<^verbatim>\<open>manager/session\<close>, \<^verbatim>\<open>client/lease\<close>, \<^verbatim>\<open>client/client\<close>): leases with
    explicit clock readings, and mutual exclusion for every interleaving; unique client numbers.
  \<^item> \<open>Rpc_Messages\<close> (\<^verbatim>\<open>client/proto/rpc.proto\<close>): the requests and responses between clients.
  \<^item> \<open>Fs_State\<close>: the state of a mounted client, the record \<open>fs\<close>: inodes and directory tables are objects
    in heaps indexed by numbers, so that sharing is as in the code; leases, journal, data pool, open
    files (\<^verbatim>\<open>client/meta/file_handler.cpp\<close>) and remote inodes (\<^verbatim>\<open>client/meta/remote_inode.cpp\<close>).  What comes from
    outside is the record \<open>world\<close> (librados, the manager, the channel \<open>w_rpc\<close> to other clients) and the
    sources of clock, time, random numbers and addresses, which the state reads one after the other.
  \<^item> \<open>Dentry_Table\<close>, \<open>Directory_Table\<close> (\<^verbatim>\<open>client/in_memory\<close>): the table of a directory, with its contract as
    the locale \<open>directory_ops\<close>, and the index of tables with path resolution.  In a tree that the client
    leads, resolving a path computes the pure function \<open>resolve\<close>.
  \<^item> \<open>Local_Ops\<close>, \<open>Local_Refine\<close> (\<^verbatim>\<open>client/fs_ops/local_ops.cpp\<close>): the operations of a leader.  The invariant
    \<open>in_step\<close> says that the stored entries with the open transaction applied are the entries the table
    shows; \<open>sized\<close> that the size in an inode is the length of its data.  Creating, removing, renaming and
    writing keep them.
  \<^item> \<open>Rpc_Server\<close>, \<open>Rpc_Client\<close> (\<^verbatim>\<open>client/rpc\<close>, \<^verbatim>\<open>client/fs_ops/remote_ops.cpp\<close>): the procedures a leader serves
    and the calls of the others.
  \<^item> \<open>Fuse_Ops\<close> (\<^verbatim>\<open>client/fs_ops/fuse_ops.cpp\<close>): mounting and the operations FUSE calls.  The loop that
    follows a lease is \<open>retry\<close>, a partial function without a value when it never ends.
  \<^item> \<open>Rpc_Refine\<close>, \<open>Fuse_Refine\<close>: a client without the lease refuses; a leader computes for others what it
    computes for itself; a caller connected to a leader by \<open>leader_channel\<close> gets the leader's result;
    a caller whose leader lost the lease finds the next one through the manager (\<open>parties\<close>); creating and
    removing files by path; error codes of paths that do not resolve.
  \<^item> \<open>Local_Dirs\<close>, \<open>Local_Links\<close>: making and removing directories, making and reading symbolic links and
    moving files between directories, by path, on a client that leads the directories: what changes in the
    tables, in the index and in the journals of the directories, and that nothing else does.
  \<^item> \<open>Durability\<close>, \<open>Durable_Files\<close>: the entries a leader shows, once its open transaction is committed and
    checkpointed, are the entries the next leader loads.  \<open>durable\<close> is the invariant of a directory between two
    rounds of the journal's threads; creating and removing files by path keep it, so a file created by
    path survives its leader, with its inode, and a removed one does not come back.
  \<^item> \<open>Heap_Types\<close>, \<open>Client_Types\<close>: the typing of a client's heap (\<open>wf_heap\<close>) and the judgement \<open>safe\<close>, with one
    rule per combinator and one per operation, up to the table of FUSE operations \<open>get_fuse_ops\<close> and the
    procedures \<open>rpc_serve\<close>; mounting; the relation \<open>client_run\<close> of the states a client can reach, by calls
    from FUSE, calls from other clients, rounds of the journal's threads and changes outside, in any order.
  \<^item> \<open>Leadership\<close>, \<open>Leadership_Ops\<close>, \<open>Cluster\<close>: the whole system.  The judgement \<open>law\<close> follows the lease cache
    and the index of tables through a computation, with one rule per combinator and one per operation, as
    \<open>safe\<close> does for the heap; \<open>cluster_step\<close> interleaves any number of clients, their crashes, the pools
    and the manager.  At most one client serves a directory from a local table.
  \<^item> \<open>Rados_Conn\<close> (constructor and destructor of \<^verbatim>\<open>rados_io\<close>), \<open>Bench_IO\<close> (\<^verbatim>\<open>client/bench/rados_io.cpp\<close>, the
    benchmarks' own \<^verbatim>\<open>rados_io\<close> without stripes), \<open>Diagnostics\<close> (\<^verbatim>\<open>hexdump\<close> of \<^verbatim>\<open>client/util.cpp\<close>,
    \<^verbatim>\<open>lib/logger\<close>): the connection to the cluster leaks no handle; a dump shows the bytes it was given.

  \<^bold>\<open>Conventions.\<close>  A null or dangling pointer, and an access outside a buffer, is the exception
  \<open>Undefined_behaviour\<close>; a loop that does not end is \<open>Diverges\<close>.  Machine integers are words where they can
  wrap.  The striping loops run on \<^verbatim>\<open>off_t\<close>, signed 64-bit numbers (\<open>off_t\<close>, \<open>off_next_bound\<close>, \<open>off_overflow\<close> in
  \<open>Rados_IO\<close>): their callers hand on the 64 bits of an offset as a natural number, negative offsets and sums
  that leave the range do what the code does, and \<open>rados_write_beyond\<close> and \<open>rados_read_beyond\<close> say what that is.
  Up to \<open>MAX_OFFSET\<close>, the last stripe boundary below \<open>2 ^ 63\<close>, the loops compute what loops on natural numbers
  do (\<open>write_loop_blocks\<close> and the lemmas beside it), and \<open>striping_arithmetic_no_overflow\<close> relates the words
  to division and remainder.  Theorems about ranges of bytes therefore assume that the range ends at or below
  \<open>MAX_OFFSET\<close>.  A journal of less than \<open>2 ^ 62\<close> bytes always has room for the record of a transaction with at
  most \<open>2 ^ 28 + 2\<close> blocks (\<open>record_fits\<close>), which is what the theorems on durability assume.  Path lengths are
  below \<open>2 ^ 31\<close> (an \<^verbatim>\<open>int\<close>).  The only fuel is in \<open>decode_f_inodes\<close>: one more than the length of the record, and each round
  consumes a byte.  Every other loop is a terminating function or a partial function in the option type.

  \<^bold>\<open>Concurrency.\<close>  The interleavings that the locks of the lease table and of the journal leave open are
  step relations.  The file operations of one client run one at a time in the model: the table and inode
  locks make them atomic for what they touch.  In \<open>Cluster\<close> a step is one operation of one client; what other
  clients do while it waits for the manager or for another client is part of the answer it gets
  (\<open>lawful_world\<close>): they may change the manager's table in any way that keeps leases that are not over.
  \<open>busy_manager_lawful\<close> shows that the manager's code, answering any plan of requests, does that.  A
  manager that forgets them, as \<^verbatim>\<open>manager/main.cpp\<close> does when it starts again, is outside this
  assumption, and \<open>restarted_manager_two_leaders\<close> shows what happens then.

  \<^bold>\<open>Not modelled.\<close>  Two test programs under \<^verbatim>\<open>client/bench\<close>, the two \<^verbatim>\<open>main\<close> functions, starting
  and stopping the gRPC servers, and the cache of gRPC stubs: they manage processes and connections.  The
  calls of the logger inside the operations print only and are left out of them.  The one-line getters and
  setters of an inode are the fields of its record.  gRPC, librados, Boost and FUSE are parameters or, for
  FUSE, the caller.  The copying of names into the FUSE buffer is the list of names.
\<close>

end
